(* ===== verification/Prelude.thy ===== *)
theory Prelude
  imports Main "HOL-Library.Word" "HOL-Library.List_Lexorder" "HOL-Library.Sublist"
begin

text \<open>
  Shared vocabulary of the development: Go's byte slices, fixed-width integers and digests,
  the big-endian encodings of \<^verbatim>\<open>encoding/binary\<close>, the byte order of
  \<^verbatim>\<open>bytes.Compare\<close>, results of fallible functions, and association lists sorted by key,
  which is what an iterator over an ordered key-value store returns.
\<close>

unbundle bit_operations_syntax

named_theorems kv_simps \<open>facts on sorted key-value lists\<close>
named_theorems result_simps \<open>facts on results of fallible functions\<close>

section \<open>Bytes, digests and machine integers\<close>

type_synonym byte = "8 word"
type_synonym bytes = "byte list"
type_synonym u64 = "64 word"
type_synonym u256 = "256 word"

text \<open>
  A \<^verbatim>\<open>common.Hash\<close> is an array of 32 bytes. It is kept as a byte list; \<open>is_hash\<close> says
  that the list has the array's length.
\<close>

type_synonym hash = bytes

definition HashLength :: nat where
  "HashLength = 32"

definition is_hash :: "hash \<Rightarrow> bool" where
  "is_hash h \<longleftrightarrow> length h = HashLength"

definition zero_hash :: hash where
  "zero_hash = replicate HashLength 0"

lemma is_hash_zero [simp]: "is_hash zero_hash"
  by (simp add: is_hash_def zero_hash_def)

lemma u64_bound: "unat (w :: u64) < 2 ^ 64"
  using unsigned_less [where 'a = nat, of w] by simp

lemma byte_bound: "unat (b :: byte) < 256"
  using unsigned_less [where 'a = nat, of b] by simp

section \<open>Results of fallible functions\<close>

text \<open>A pair \<^verbatim>\<open>(value, error)\<close> is a sum: \<open>Inl\<close> the error, \<open>Inr\<close> the value.\<close>

type_synonym ('e, 'a) result = "'e + 'a"

definition bindR :: "('e, 'a) result \<Rightarrow> ('a \<Rightarrow> ('e, 'b) result) \<Rightarrow> ('e, 'b) result" where
  "bindR r k = (case r of Inl e \<Rightarrow> Inl e | Inr a \<Rightarrow> k a)"

definition mapErr :: "('e \<Rightarrow> 'f) \<Rightarrow> ('e, 'a) result \<Rightarrow> ('f, 'a) result" where
  "mapErr f r = (case r of Inl e \<Rightarrow> Inl (f e) | Inr a \<Rightarrow> Inr a)"

definition ensure :: "bool \<Rightarrow> 'e \<Rightarrow> ('e, unit) result" where
  "ensure b e = (if b then Inr () else Inl e)"

definition isOk :: "('e, 'a) result \<Rightarrow> bool" where
  "isOk r = (case r of Inl _ \<Rightarrow> False | Inr _ \<Rightarrow> True)"

lemma bindR_simps [simp]: "bindR (Inl e) k = Inl e" "bindR (Inr a) k = k a"
  by (simp_all add: bindR_def)

lemma mapErr_simps [simp]: "mapErr f (Inl e) = Inl (f e)" "mapErr f (Inr a) = Inr a"
  by (simp_all add: mapErr_def)

lemma isOk_simps [simp]: "isOk (Inl e) = False" "isOk (Inr a) = True"
  by (simp_all add: isOk_def)

lemma bindR_eq_Inr [result_simps]: "bindR r k = Inr b \<longleftrightarrow> (\<exists>a. r = Inr a \<and> k a = Inr b)"
  by (cases r) auto

lemma mapErr_eq_Inr [result_simps]: "mapErr f r = Inr b \<longleftrightarrow> r = Inr b"
  by (cases r) auto

lemma ensure_eq_Inr [result_simps]: "ensure b e = Inr u \<longleftrightarrow> b"
  by (simp add: ensure_def)

lemma ensure_simps [simp]: "ensure True e = Inr ()" "ensure False e = Inl e"
  by (simp_all add: ensure_def)

lemma isOk_iff [result_simps]: "isOk r \<longleftrightarrow> (\<exists>a. r = Inr a)"
  by (cases r) auto

text \<open>
  The outside world. Every call that may fail for a reason outside the program (a poll of the
  context, a write, a read) takes its outcome from an oracle: the \<open>n\<close>-th such call fails iff
  the oracle says so. Nothing is assumed of an oracle unless a statement says that no call fails.
\<close>

type_synonym faults = "nat \<Rightarrow> bool"

definition no_faults :: faults where
  "no_faults n = False"

lemma no_faults_apply: "no_faults n = False"
  by (simp add: no_faults_def)

section \<open>Big-endian integers\<close>

text \<open>
  The \<open>n\<close> low bytes of a number, most significant first, and back. \<open>be64\<close> and
  \<open>be64_read\<close> are \<^verbatim>\<open>binary.BigEndian.PutUint64\<close> and
  \<^verbatim>\<open>binary.BigEndian.Uint64\<close>.
\<close>

primrec be_bytes :: "nat \<Rightarrow> nat \<Rightarrow> bytes" where
  "be_bytes 0 x = []"
| "be_bytes (Suc n) x = be_bytes n (x div 256) @ [of_nat x]"

definition be_nat :: "bytes \<Rightarrow> nat" where
  "be_nat bs = foldl (\<lambda>acc b. acc * 256 + unat b) 0 bs"

definition be64 :: "u64 \<Rightarrow> bytes" where
  "be64 w = be_bytes 8 (unat w)"

definition be64_read :: "bytes \<Rightarrow> u64" where
  "be64_read bs = of_nat (be_nat bs)"

lemma length_be_bytes [simp]: "length (be_bytes n x) = n"
  by (induction n arbitrary: x) auto

lemma be_nat_snoc: "be_nat (bs @ [b]) = be_nat bs * 256 + unat b"
  by (simp add: be_nat_def)

lemma unat_of_nat_byte: "unat (of_nat x :: byte) = x mod 256"
  by (simp add: unat_of_nat)

lemma be_nat_be_bytes: "be_nat (be_bytes n x) = x mod 256 ^ n"
proof (induction n arbitrary: x)
  case 0
  then show ?case by (simp add: be_nat_def)
next
  case (Suc n)
  then show ?case
    by (simp add: be_nat_snoc unat_of_nat_byte mod_mult2_eq)
qed

lemma be_bytes_be_nat: "be_bytes (length bs) (be_nat bs) = bs"
proof (induction bs rule: rev_induct)
  case Nil
  then show ?case by simp
next
  case (snoc b bs)
  have bound: "unat b < 256" by (rule byte_bound)
  have "unat (of_nat (be_nat bs * 256 + unat b) :: byte) = unat b"
    by (simp only: unat_of_nat_byte) (simp add: bound)
  then have "(of_nat (be_nat bs * 256 + unat b) :: byte) = b"
    by (simp only: word_unat_eq_iff)
  with bound snoc show ?case by (simp add: be_nat_snoc)
qed

lemma be_nat_bound: "be_nat bs < 256 ^ length bs"
  using be_nat_be_bytes [of "length bs" "be_nat bs"]
  by (metis be_bytes_be_nat mod_less_divisor zero_less_numeral zero_less_power)

lemma length_be64 [simp]: "length (be64 w) = 8"
  by (simp add: be64_def)

lemma be64_not_Nil [simp]: "be64 w \<noteq> []"
  by (metis length_be64 list.size(3) zero_neq_numeral)

lemma be64_read_be64 [simp]: "be64_read (be64 w) = w"
proof -
  have "unat w < 256 ^ 8" using u64_bound [of w] by simp
  then show ?thesis by (simp add: be64_read_def be64_def be_nat_be_bytes)
qed

lemma be64_be64_read: "length bs = 8 \<Longrightarrow> be64 (be64_read bs) = bs"
proof -
  assume len: "length bs = 8"
  then have "be_nat bs < 2 ^ 64" using be_nat_bound [of bs] by simp
  then have "unat (be64_read bs) = be_nat bs"
    by (simp add: be64_read_def unat_of_nat)
  with len show "be64 (be64_read bs) = bs"
    using be_bytes_be_nat [of bs] by (simp add: be64_def)
qed

lemma be64_inject [simp]: "be64 a = be64 b \<longleftrightarrow> a = b"
  by (metis be64_read_be64)

section \<open>Byte order and key-value lists\<close>

text \<open>\<^verbatim>\<open>bytes.Compare\<close> is the three-way comparison of the lexicographic order.\<close>

definition bytes_Compare :: "bytes \<Rightarrow> bytes \<Rightarrow> int" where
  "bytes_Compare a b = (if a < b then -1 else if a = b then 0 else 1)"

lemma bytes_Compare_simps [simp]:
  "bytes_Compare a b < 0 \<longleftrightarrow> a < b"
  "bytes_Compare a b \<le> 0 \<longleftrightarrow> a \<le> b"
  "bytes_Compare a b = 0 \<longleftrightarrow> a = b"
  "0 < bytes_Compare a b \<longleftrightarrow> b < a"
  by (auto simp: bytes_Compare_def)

type_synonym kv = "bytes \<times> bytes"

text \<open>An ordered key-value store, as the list of entries its iterator returns.\<close>

definition ascending :: "('a::linorder \<times> 'b) list \<Rightarrow> bool" where
  "ascending kvs \<longleftrightarrow> sorted_wrt (<) (map fst kvs)"

lemma ascending_Nil [simp]: "ascending []"
  by (simp add: ascending_def)

lemma ascending_Cons [simp]:
  "ascending (kv # kvs) \<longleftrightarrow> (\<forall>k \<in> fst ` set kvs. fst kv < k) \<and> ascending kvs"
  by (auto simp: ascending_def)

lemma ascending_append [simp]:
  "ascending (xs @ ys) \<longleftrightarrow>
     ascending xs \<and> ascending ys \<and> (\<forall>x \<in> fst ` set xs. \<forall>y \<in> fst ` set ys. x < y)"
  by (auto simp: ascending_def sorted_wrt_append)

lemma ascending_distinct: "ascending kvs \<Longrightarrow> distinct (map fst kvs)"
  by (simp add: ascending_def strict_sorted_iff)

lemma ascending_filter [simp]: "ascending kvs \<Longrightarrow> ascending (filter P kvs)"
  by (induction kvs) auto

lemma ascending_map_of [kv_simps]:
  "ascending kvs \<Longrightarrow> map_of kvs k = Some v \<longleftrightarrow> (k, v) \<in> set kvs"
  by (simp add: ascending_distinct)

lemma ascending_ext:
  "ascending xs \<Longrightarrow> ascending ys \<Longrightarrow> set xs = set ys \<Longrightarrow> xs = ys"
proof (induction xs arbitrary: ys)
  case Nil
  then show ?case by simp
next
  case (Cons x xs)
  then obtain y zs where ys: "ys = y # zs" by (cases ys) auto
  have "x = y"
  proof (rule ccontr)
    assume "x \<noteq> y"
    with Cons.prems ys have "x \<in> set zs" and "y \<in> set xs" by auto
    with Cons.prems ys show False by (force dest: less_trans)
  qed
  moreover have "x \<notin> set xs" and "y \<notin> set zs" using Cons.prems ys by force+
  with \<open>x = y\<close> Cons.prems(3) ys have "set xs = set zs" by auto
  ultimately show ?case using Cons ys by simp
qed

lemma option_ext: "(\<And>u. x = Some u \<longleftrightarrow> y = Some u) \<Longrightarrow> x = y"
  by (metis not_Some_eq)

text \<open>Storing an entry in an ordered store.\<close>

fun kv_put :: "'a::linorder \<Rightarrow> 'b \<Rightarrow> ('a \<times> 'b) list \<Rightarrow> ('a \<times> 'b) list" where
  "kv_put k v [] = [(k, v)]"
| "kv_put k v ((k', v') # kvs) =
     (if k < k' then (k, v) # (k', v') # kvs
      else if k = k' then (k, v) # kvs
      else (k', v') # kv_put k v kvs)"

lemma kv_put_keys: "fst ` set (kv_put k v kvs) = insert k (fst ` set kvs)"
  by (induction k v kvs rule: kv_put.induct) auto

lemma ascending_kv_put [simp]: "ascending kvs \<Longrightarrow> ascending (kv_put k v kvs)"
  by (induction k v kvs rule: kv_put.induct) (auto simp: kv_put_keys dest: less_trans)

lemma map_of_kv_put: "ascending kvs \<Longrightarrow> map_of (kv_put k v kvs) = (map_of kvs)(k \<mapsto> v)"
proof (induction k v kvs rule: kv_put.induct)
  case (2 k v k' v' kvs)
  then show ?case
    by (cases "k < k'"; cases "k = k'") (auto simp: fun_upd_twist fun_eq_iff)
qed simp

text \<open>Writing a batch stores its entries in order; a later entry of a key wins.\<close>

definition write_batch :: "kv list \<Rightarrow> kv list \<Rightarrow> kv list" where
  "write_batch batch db = foldl (\<lambda>m (k, v). kv_put k v m) db batch"

lemma write_batch_Nil [simp]: "write_batch [] db = db"
  by (simp add: write_batch_def)

lemma write_batch_snoc [simp]: "write_batch (b @ [(k, v)]) db = kv_put k v (write_batch b db)"
  by (simp add: write_batch_def)

lemma write_batch_ascending [simp]: "ascending db \<Longrightarrow> ascending (write_batch b db)"
proof (induction b rule: rev_induct)
  case (snoc x b)
  then show ?case by (cases x) simp
qed (simp add: write_batch_def)

lemma write_batch_Some:
  "ascending db \<Longrightarrow> map_of (write_batch b db) k = Some v \<Longrightarrow> (k, v) \<in> set b \<or> map_of db k = Some v"
proof (induction b rule: rev_induct)
  case (snoc x b)
  then show ?case by (cases x) (auto simp: map_of_kv_put split: if_splits)
qed (simp add: write_batch_def)

lemma write_batch_dom: "fst ` set (write_batch b db) = fst ` set db \<union> fst ` set b"
proof (induction b rule: rev_induct)
  case (snoc x b)
  then show ?case by (cases x) (simp add: kv_put_keys)
qed (simp add: write_batch_def)

lemma write_batch_append: "write_batch (b @ c) db = write_batch c (write_batch b db)"
  by (simp add: write_batch_def)

lemma write_batch_map_of:
  "ascending db \<Longrightarrow> map_of (write_batch b db) = map_of db ++ map_of (rev b)"
proof (induction b rule: rev_induct)
  case (snoc x b)
  then show ?case by (cases x) (auto simp: map_of_kv_put map_add_def fun_eq_iff split: option.splits)
qed simp

end
