(* ===== verification/Geth.thy ===== *)
theory Geth
  imports Prelude
begin

text \<open>
  What the program uses of go-ethereum and of the digest packages. None of that code is part of
  this repository, so the development fixes only its data types and takes its functions as the
  fields of one record, an argument of every definition that calls them. What a property relies
  on of them is a named predicate of this theory, stated as their documentation states it.
\<close>

section \<open>Data types of go-ethereum\<close>

text \<open>\<^verbatim>\<open>types.StateAccount\<close>, \<^verbatim>\<open>types.SlimAccount\<close>; a nil balance pointer is \<open>None\<close>.\<close>

record state_account =
  Nonce :: u64
  Balance :: "u256 option"
  Root :: hash
  CodeHash :: bytes

record slim_account =
  slim_Nonce :: u64
  slim_Balance :: "u256 option"
  slim_Root :: bytes
  slim_CodeHash :: bytes

text \<open>The fields of \<^verbatim>\<open>types.Header\<close> the program reads or writes; a nil number is \<open>None\<close>.\<close>

record header =
  h_ParentHash :: hash
  h_Root :: hash
  h_Number :: "int option"
  h_GasLimit :: u64
  h_Time :: u64
  h_TxHash :: hash
  h_ReceiptHash :: hash
  h_UncleHash :: hash
  h_Extra :: bytes

datatype rlp_kind = RlpByte | RlpString | RlpList

text \<open>A node a stack trie emits: its path, hash and encoding.\<close>

type_synonym trie_node = "bytes \<times> hash \<times> bytes"

section \<open>The functions of the environment\<close>

text \<open>
  \<open>rlp_enc_*\<close> and \<open>rlp_dec_*\<close> are \<^verbatim>\<open>rlp.EncodeToBytes\<close> and \<^verbatim>\<open>rlp.DecodeBytes\<close> at one
  type (\<open>None\<close> is an error), \<open>rlp_Split\<close> is \<^verbatim>\<open>rlp.Split\<close>. A stack trie is the list of the
  updates it has accepted: \<open>stack_accepts\<close> says whether \<^verbatim>\<open>Update\<close> succeeds on top of them,
  \<open>stack_emits\<close> and \<open>stack_final\<close> give the nodes passed to its callback by an update and
  by \<^verbatim>\<open>Hash\<close>, \<open>stack_root\<close> is the value of \<^verbatim>\<open>Hash\<close>. The zstd encoder (one
  worker, fixed level) is a function of the sequence of writes it receives; the decoder gives the
  bytes it can produce and whether it then reaches a clean end of input.
\<close>

record geth_env =
  keccak256 :: "bytes \<Rightarrow> hash"
  sha256 :: "bytes \<Rightarrow> hash"
  EmptyRootHash :: hash
  EmptyCodeHash :: hash
  rlp_enc_slim :: "slim_account \<Rightarrow> bytes option"
  rlp_dec_slim :: "bytes \<Rightarrow> slim_account option"
  rlp_enc_account :: "state_account \<Rightarrow> bytes option"
  rlp_dec_account :: "bytes \<Rightarrow> state_account option"
  rlp_enc_header :: "header \<Rightarrow> bytes option"
  rlp_dec_header :: "bytes \<Rightarrow> header option"
  rlp_Split :: "bytes \<Rightarrow> (rlp_kind \<times> bytes \<times> bytes) option"
  rlp_enc_bytes :: "bytes \<Rightarrow> bytes option"
  rlp_dec_bytes :: "bytes \<Rightarrow> bytes option"
  stack_accepts :: "kv list \<Rightarrow> kv \<Rightarrow> bool"
  stack_emits :: "kv list \<Rightarrow> kv \<Rightarrow> trie_node list"
  stack_final :: "kv list \<Rightarrow> trie_node list"
  stack_root :: "kv list \<Rightarrow> hash"
  zstd_encode :: "bytes list \<Rightarrow> bytes"
  zstd_decode :: "bytes \<Rightarrow> bytes \<times> bool"

section \<open>What the program relies on\<close>

text \<open>Digests and the two distinguished hashes are 32 bytes long.\<close>

definition digests_ok :: "geth_env \<Rightarrow> bool" where
  "digests_ok env \<longleftrightarrow> (\<forall>b. is_hash (keccak256 env b)) \<and> (\<forall>b. is_hash (sha256 env b)) \<and>
     is_hash (EmptyRootHash env) \<and> is_hash (EmptyCodeHash env)"

text \<open>
  RLP of slim accounts: every slim account with a balance encodes, decoding gives it back, and a
  decoded payload is the only encoding of its value (\<^verbatim>\<open>DecodeBytes\<close> rejects non-canonical
  sizes and integers and trailing values).
\<close>

definition slim_rlp_ok :: "geth_env \<Rightarrow> bool" where
  "slim_rlp_ok env \<longleftrightarrow>
     (\<forall>s. slim_Balance s \<noteq> None \<longrightarrow>
        (\<exists>b. rlp_enc_slim env s = Some b \<and> rlp_dec_slim env b = Some s)) \<and>
     (\<forall>b s. rlp_dec_slim env b = Some s \<longrightarrow> rlp_enc_slim env s = Some b)"

text \<open>The same for full consensus accounts, whose storage root is an array of 32 bytes.\<close>

definition account_rlp_ok :: "geth_env \<Rightarrow> bool" where
  "account_rlp_ok env \<longleftrightarrow>
     (\<forall>a. Balance a \<noteq> None \<and> is_hash (Root a) \<longrightarrow>
        (\<exists>b. rlp_enc_account env a = Some b \<and> rlp_dec_account env b = Some a)) \<and>
     (\<forall>b a. rlp_dec_account env b = Some a \<longrightarrow> rlp_enc_account env a = Some b \<and> is_hash (Root a))"

text \<open>
  A stack trie of 32-byte keys accepts a larger key with a non-empty value, refuses a key that is
  not larger than the last one, and the empty trie has the distinguished root. There is no RLP
  item in the empty string, and the encoding of an account is not empty.
\<close>

definition stack_ok :: "geth_env \<Rightarrow> bool" where
  "stack_ok env \<longleftrightarrow>
     (\<forall>ts k v. is_hash k \<and> v \<noteq> [] \<and> (\<forall>l \<in> fst ` set ts. is_hash l \<and> l < k) \<longrightarrow>
        stack_accepts env ts (k, v)) \<and>
     (\<forall>ts k v. stack_accepts env ts (k, v) \<and> ts \<noteq> [] \<longrightarrow> fst (last ts) < k) \<and>
     stack_root env [] = EmptyRootHash env"

definition rlp_nonempty :: "geth_env \<Rightarrow> bool" where
  "rlp_nonempty env \<longleftrightarrow>
     rlp_Split env [] = None \<and> (\<forall>a f. rlp_enc_account env a = Some f \<longrightarrow> f \<noteq> [])"

text \<open>
  \<^verbatim>\<open>rlp.Split\<close> returns parts of its argument behind a header of at most nine bytes, and the
  encoding of a slim account with short byte strings is a short slice.
\<close>

definition rlp_sizes_ok :: "geth_env \<Rightarrow> bool" where
  "rlp_sizes_ok env \<longleftrightarrow>
     (\<forall>b k c r. rlp_Split env b = Some (k, c, r) \<longrightarrow> length b \<le> 9 + length c + length r) \<and>
     (\<forall>s b. rlp_enc_slim env s = Some b \<and> length (slim_Root s) \<le> 32 \<and> length (slim_CodeHash s) \<le> 32 \<longrightarrow>
        length b < 2 ^ 32)"

text \<open>
  RLP of byte strings: decoding a single string item gives its content, a word encodes to a
  non-empty string item of itself.
\<close>

definition bytes_rlp_ok :: "geth_env \<Rightarrow> bool" where
  "bytes_rlp_ok env \<longleftrightarrow>
     (\<forall>b k c. rlp_Split env b = Some (k, c, []) \<and> k \<noteq> RlpList \<longrightarrow> rlp_dec_bytes env b = Some c) \<and>
     (\<forall>c. length c \<le> 32 \<longrightarrow> (\<exists>b k. rlp_enc_bytes env c = Some b \<and> b \<noteq> [] \<and> k \<noteq> RlpList \<and>
        rlp_Split env b = Some (k, c, [])))"

text \<open>Decompression inverts compression.\<close>

definition zstd_ok :: "geth_env \<Rightarrow> bool" where
  "zstd_ok env \<longleftrightarrow> (\<forall>ws. zstd_decode env (zstd_encode env ws) = (concat ws, True))"

text \<open>\<^verbatim>\<open>Number.IsUint64()\<close> of a non-nil number.\<close>

definition isUint64 :: "int \<Rightarrow> bool" where
  "isUint64 n \<longleftrightarrow> 0 \<le> n \<and> n < 2 ^ 64"

lemma digests_okD [simp]:
  "digests_ok env \<Longrightarrow> length (keccak256 env b) = 32"
  "digests_ok env \<Longrightarrow> length (sha256 env b) = 32"
  "digests_ok env \<Longrightarrow> length (EmptyRootHash env) = 32"
  "digests_ok env \<Longrightarrow> length (EmptyCodeHash env) = 32"
  by (simp_all add: digests_ok_def is_hash_def HashLength_def)

end
