(* ===== verification/Counts.thy ===== *)
theory Counts
  imports Prelude "HOL-Library.Multiset"
begin

text \<open>
  The semantic state counters of \<^verbatim>\<open>internal/bundle/manifest.go\<close> (\<^verbatim>\<open>Counts\<close>,
  \<^verbatim>\<open>Counts.Validate\<close>, \<^verbatim>\<open>sumCounts\<close>) and their field-wise addition
  \<^verbatim>\<open>addBundleCounts\<close> of \<^verbatim>\<open>migrate_partitioned.go\<close>, on 64-bit words with their wrap-around.
\<close>

section \<open>Definitions\<close>

record Counts =
  Accounts :: u64
  StorageSlots :: u64
  CodeReferences :: u64
  CodeRecords :: u64
  Records :: u64
  PayloadBytes :: u64

definition emptyCounts :: Counts where
  "emptyCounts = \<lparr>Accounts = 0, StorageSlots = 0, CodeReferences = 0, CodeRecords = 0,
     Records = 0, PayloadBytes = 0\<rparr>"

datatype counts_error =
    ReferencesExceedAccounts
  | RecordsExceedReferences
  | ReferencesWithoutRecords
  | RecordTypesOverflow
  | RecordCountMismatch
  | EmptyStateHasPayload
  | NoAccountRecords
  | ZeroPayloadBytes

fun sumCounts_loop :: "u64 \<Rightarrow> u64 list \<Rightarrow> u64 option" where
  "sumCounts_loop tot [] = Some tot"
| "sumCounts_loop tot (value # vals) =
     (if - 1 - tot < value then None else sumCounts_loop (tot + value) vals)"

definition sumCounts :: "u64 list \<Rightarrow> u64 option" where
  "sumCounts vals = sumCounts_loop 0 vals"

definition Counts_Validate :: "Counts \<Rightarrow> (counts_error, unit) result" where
  "Counts_Validate c =
     (if CodeReferences c > Accounts c then Inl ReferencesExceedAccounts
      else if CodeRecords c > CodeReferences c then Inl RecordsExceedReferences
      else if CodeReferences c > 0 \<and> CodeRecords c = 0 then Inl ReferencesWithoutRecords
      else case sumCounts [Accounts c, StorageSlots c, CodeRecords c] of
        None \<Rightarrow> Inl RecordTypesOverflow
      | Some expected \<Rightarrow>
          if Records c \<noteq> expected then Inl RecordCountMismatch
          else if Records c = 0 then
            (if PayloadBytes c \<noteq> 0 then Inl EmptyStateHasPayload else Inr ())
          else if Accounts c = 0 then Inl NoAccountRecords
          else if PayloadBytes c = 0 then Inl ZeroPayloadBytes
          else Inr ())"

definition addBundleCounts :: "Counts \<Rightarrow> Counts \<Rightarrow> Counts" where
  "addBundleCounts target counts = \<lparr>
     Accounts = Accounts target + Accounts counts,
     StorageSlots = StorageSlots target + StorageSlots counts,
     CodeReferences = CodeReferences target + CodeReferences counts,
     CodeRecords = CodeRecords target + CodeRecords counts,
     Records = Records target + Records counts,
     PayloadBytes = PayloadBytes target + PayloadBytes counts\<rparr>"

section \<open>Sums without overflow\<close>

lemma word_headroom: "- 1 - a < b \<longleftrightarrow> \<not> unat a + unat b < 2 ^ 64" for a b :: u64
proof -
  have "unat (- 1 - a) = 2 ^ 64 - 1 - unat a"
    by (subst unat_sub) (simp_all add: unsigned_minus_1_eq_mask mask_eq_exp_minus_1)
  then show ?thesis
    using u64_bound [of a] by (auto simp: word_less_nat_alt)
qed

lemma sumCounts_loop_Some:
  "sumCounts_loop t vs = Some s \<longleftrightarrow>
     unat t + sum_list (map unat vs) < 2 ^ 64 \<and> unat s = unat t + sum_list (map unat vs)"
proof (induction vs arbitrary: t)
  case Nil
  then show ?case using u64_bound [of t] by (auto simp: word_unat_eq_iff)
next
  case (Cons v vs)
  show ?case
  proof (cases "unat t + unat v < 2 ^ 64")
    case True
    then have "unat (t + v) = unat t + unat v" by (subst unat_add_lem [symmetric]) simp
    with Cons True show ?thesis by (auto simp: word_headroom)
  next
    case False
    then show ?thesis by (simp add: word_headroom)
  qed
qed

lemma sumCounts_loop_None:
  "sumCounts_loop t vs = None \<longleftrightarrow> \<not> unat t + sum_list (map unat vs) < 2 ^ 64"
proof (induction vs arbitrary: t)
  case Nil
  then show ?case using u64_bound [of t] by auto
next
  case (Cons v vs)
  show ?case
  proof (cases "unat t + unat v < 2 ^ 64")
    case True
    then have "unat (t + v) = unat t + unat v" by (subst unat_add_lem [symmetric]) simp
    with Cons True show ?thesis by (auto simp: word_headroom)
  next
    case False
    then show ?thesis by (simp add: word_headroom)
  qed
qed

section \<open>What validation establishes\<close>

definition counts_wf :: "Counts \<Rightarrow> bool" where
  "counts_wf c \<longleftrightarrow>
     unat (CodeRecords c) \<le> unat (CodeReferences c) \<and>
     unat (CodeReferences c) \<le> unat (Accounts c) \<and>
     (CodeRecords c = 0 \<longrightarrow> CodeReferences c = 0) \<and>
     unat (Records c) = unat (Accounts c) + unat (StorageSlots c) + unat (CodeRecords c) \<and>
     (Records c = 0 \<longleftrightarrow> PayloadBytes c = 0) \<and>
     (Accounts c = 0 \<longrightarrow> Records c = 0)"

lemma Counts_Validate_iff: "Counts_Validate c = Inr () \<longleftrightarrow> counts_wf c"
proof (cases "sumCounts [Accounts c, StorageSlots c, CodeRecords c]")
  case None
  then have over: "\<not> unat (Accounts c) + unat (StorageSlots c) + unat (CodeRecords c) < 2 ^ 64"
    by (auto simp only: sumCounts_def sumCounts_loop_None) simp
  with None u64_bound [of "Records c"] show ?thesis
    by (auto simp: Counts_Validate_def counts_wf_def)
next
  case (Some s)
  then have "unat s = unat (Accounts c) + unat (StorageSlots c) + unat (CodeRecords c)"
    by (auto simp only: sumCounts_def sumCounts_loop_Some) simp
  with Some show ?thesis
    by (auto simp: Counts_Validate_def counts_wf_def word_less_nat_alt word_unat_eq_iff)
qed

section \<open>Addition of counters\<close>

text \<open>The contract of an accumulator whose parts may arrive in any order.\<close>

locale tally =
  fixes add :: "'c \<Rightarrow> 'c \<Rightarrow> 'c" and zero :: 'c
  assumes add_assoc: "add (add a b) c = add a (add b c)"
    and add_comm: "add a b = add b a"
    and add_zero: "add zero a = a"
begin

lemma add_left_comm: "add a (add b c) = add b (add a c)"
  by (metis add_assoc add_comm)

lemma total_start: "foldl add a xs = add a (foldl add zero xs)"
proof (induction xs arbitrary: a)
  case Nil
  then show ?case by (simp add: add_zero add_comm [of a zero])
next
  case (Cons x xs)
  show ?case by (simp add: Cons [of "add a x"] Cons [of x] add_assoc add_zero)
qed

lemma total_append: "foldl add zero (xs @ ys) = add (foldl add zero xs) (foldl add zero ys)"
  by (simp add: total_start [symmetric])

lemma total_permute:
  assumes "mset xs = mset ys"
  shows "foldl add zero xs = foldl add zero ys"
proof -
  have "fold (\<lambda>x acc. add acc x) xs = fold (\<lambda>x acc. add acc x) ys"
    using assms
    by (intro fold_multiset_equiv) (auto simp: fun_eq_iff add_assoc add_comm add_left_comm)
  then show ?thesis by (simp add: foldl_conv_fold)
qed

end

interpretation tc: tally addBundleCounts emptyCounts
  by unfold_locales (simp_all add: addBundleCounts_def emptyCounts_def algebra_simps)

section \<open>Properties\<close>

text \<open>
  Validation of the counters is exact and immune to overflow: it accepts a set of
  counters iff, as natural numbers, there are at most as many code records as references and at
  most as many references as accounts, references come with records, the total is the true sum of
  the three kinds, and payload bytes are there exactly when records are.
\<close>

lemma counts_validate_exact: "Counts_Validate c = Inr () \<longleftrightarrow> counts_wf c"
  by (rule Counts_Validate_iff)

text \<open>
  \<^verbatim>\<open>sumCounts\<close> returns the exact sum of its arguments, or reports an overflow exactly
  when that sum does not fit 64 bits.
\<close>

lemma sumCounts_exact:
  "sumCounts vals =
     (if sum_list (map unat vals) < 2 ^ 64 then Some (of_nat (sum_list (map unat vals))) else None)"
proof (cases "sumCounts vals")
  case None
  then show ?thesis using sumCounts_loop_None [of 0 vals] by (simp add: sumCounts_def)
next
  case (Some s)
  then have "sum_list (map unat vals) < 2 ^ 64" "unat s = sum_list (map unat vals)"
    using sumCounts_loop_Some [of 0 vals s] by (simp_all add: sumCounts_def)
  moreover have "s = of_nat (unat s)" by simp
  ultimately show ?thesis using Some by simp
qed

text \<open>
  Partitions may finish in any order: adding up their counters gives the same total
  for every order of arrival.
\<close>

lemma partition_counts_any_order:
  assumes "mset parts = mset arrived"
  shows "foldl addBundleCounts emptyCounts parts = foldl addBundleCounts emptyCounts arrived"
  using assms by (rule tc.total_permute)

end
