(* ===== verification/Manifest.thy ===== *)
theory Manifest
  imports Geth Counts
begin

text \<open>
  Heads, source evidence and the bundle manifest (\<^verbatim>\<open>internal/bundle/manifest.go\<close>) with the
  constants of \<^verbatim>\<open>internal/formatversion\<close>. A timestamp is a number, zero for the zero time;
  the versions linked into the binary are arguments of \<^verbatim>\<open>NewManifest\<close>, as is the clock.
\<close>

section \<open>Source evidence\<close>

record Head =
  BlockNumber :: u64
  BlockHash :: hash
  StateRoot :: hash

record SourceEvidence =
  HeadBefore :: Head
  HeadAfter :: Head
  HeaderRLP :: bytes

datatype evidence_error =
    HeadChanged
  | BlockHashEmpty
  | StateRootEmpty
  | HeaderRLPEmpty
  | HeaderDecode
  | HeaderNumberRange
  | HeaderNumberMismatch
  | HeaderHashMismatch
  | HeaderRootMismatch

definition ValidatedHeader :: "geth_env \<Rightarrow> SourceEvidence \<Rightarrow> (evidence_error, header) result" where
  "ValidatedHeader env s =
     (if HeadBefore s \<noteq> HeadAfter s then Inl HeadChanged
      else if BlockHash (HeadBefore s) = zero_hash then Inl BlockHashEmpty
      else if StateRoot (HeadBefore s) = zero_hash then Inl StateRootEmpty
      else if length (HeaderRLP s) = 0 then Inl HeaderRLPEmpty
      else case rlp_dec_header env (HeaderRLP s) of
        None \<Rightarrow> Inl HeaderDecode
      | Some hdr \<Rightarrow>
          (case h_Number hdr of
             None \<Rightarrow> Inl HeaderNumberRange
           | Some number \<Rightarrow>
               if \<not> isUint64 number then Inl HeaderNumberRange
               else
                 let head = HeadBefore s in
                 if (of_int number :: u64) \<noteq> BlockNumber head then Inl HeaderNumberMismatch
                 else if keccak256 env (HeaderRLP s) \<noteq> BlockHash head then Inl HeaderHashMismatch
                 else if h_Root hdr \<noteq> StateRoot head then Inl HeaderRootMismatch
                 else Inr hdr))"

definition SourceEvidence_Validate :: "geth_env \<Rightarrow> SourceEvidence \<Rightarrow> (evidence_error, unit) result" where
  "SourceEvidence_Validate env s = bindR (ValidatedHeader env s) (\<lambda>_. Inr ())"

definition sameSourceEvidence :: "SourceEvidence \<Rightarrow> SourceEvidence \<Rightarrow> bool" where
  "sameSourceEvidence left right \<longleftrightarrow>
     HeadBefore left = HeadBefore right \<and> HeadAfter left = HeadAfter right \<and>
     HeaderRLP left = HeaderRLP right"

section \<open>The manifest\<close>

text \<open>\<^verbatim>\<open>filepath.Base\<close> on a slash-separated path.\<close>

definition filepath_Base :: "string \<Rightarrow> string" where
  "filepath_Base path =
     (if path = [] then ''.''
      else let trimmed = rev (dropWhile (\<lambda>c. c = CHR ''/'') (rev path));
               base = rev (takeWhile (\<lambda>c. c \<noteq> CHR ''/'') (rev trimmed))
           in if base = [] then ''/'' else base)"

definition FormatName :: string where "FormatName = ''metis-l2state''"
definition FormatVersion :: u64 where "FormatVersion = 1"
definition ManifestFileName :: string where "ManifestFileName = ''manifest.json''"
definition CompressionZstd :: string where "CompressionZstd = ''zstd''"
definition CompressionNone :: string where "CompressionNone = ''none''"
definition RecordsFileZstd :: string where "RecordsFileZstd = ''state.records.zst''"
definition RecordsFileRaw :: string where "RecordsFileRaw = ''state.records''"

lemmas manifest_names =
  FormatName_def FormatVersion_def ManifestFileName_def CompressionZstd_def CompressionNone_def
  RecordsFileZstd_def RecordsFileRaw_def

record StateFile =
  Name :: string
  Compression :: string
  Size :: int
  RecordPayloadBytes :: u64
  SHA256 :: hash
  RecordChainHash :: hash

record Manifest =
  Format :: string
  Version :: u64
  CreatedAt :: nat
  ToolVersion :: string
  GethVersion :: string
  Source :: SourceEvidence
  m_Counts :: Counts
  m_StateFile :: StateFile
  SupportedSchemes :: "string list"

definition NewManifest ::
  "nat \<Rightarrow> string \<Rightarrow> string \<Rightarrow> SourceEvidence \<Rightarrow> Counts \<Rightarrow> StateFile \<Rightarrow> Manifest" where
  "NewManifest now toolVersion gethVersion source counts stateFile = \<lparr>
     Format = FormatName,
     Version = FormatVersion,
     CreatedAt = now,
     ToolVersion = toolVersion,
     GethVersion = gethVersion,
     Source = source,
     m_Counts = counts,
     m_StateFile = stateFile,
     SupportedSchemes = [''hash'', ''path'']\<rparr>"

datatype manifest_error =
    UnsupportedFormat
  | ToolVersionEmpty
  | CreatedAtEmpty
  | BadSource evidence_error
  | BadStateFileName
  | StateFileNameIsPath
  | UnsupportedCompression
  | ZstdFileName
  | RawFileName
  | SizeNotPositive
  | SHA256Empty
  | ChainHashEmpty
  | BadCounts counts_error
  | EmptyStreamHasPayload
  | StreamHasNoPayload
  | RecordPayloadExceedsConsensus
  | BadSupportedSchemes

definition Manifest_Validate :: "geth_env \<Rightarrow> Manifest \<Rightarrow> (manifest_error, unit) result" where
  "Manifest_Validate env m =
     (let f = m_StateFile m; c = m_Counts m in
      if Format m \<noteq> FormatName \<or> Version m \<noteq> FormatVersion then Inl UnsupportedFormat
      else if ToolVersion m = [] then Inl ToolVersionEmpty
      else if CreatedAt m = 0 then Inl CreatedAtEmpty
      else case SourceEvidence_Validate env (Source m) of Inl e \<Rightarrow> Inl (BadSource e) | Inr _ \<Rightarrow>
      if Name f \<noteq> RecordsFileZstd \<and> Name f \<noteq> RecordsFileRaw then Inl BadStateFileName
      else if filepath_Base (Name f) \<noteq> Name f then Inl StateFileNameIsPath
      else if Compression f \<noteq> CompressionZstd \<and> Compression f \<noteq> CompressionNone
      then Inl UnsupportedCompression
      else if Compression f = CompressionZstd \<and> Name f \<noteq> RecordsFileZstd then Inl ZstdFileName
      else if Compression f = CompressionNone \<and> Name f \<noteq> RecordsFileRaw then Inl RawFileName
      else if Size f \<le> 0 then Inl SizeNotPositive
      else if SHA256 f = zero_hash then Inl SHA256Empty
      else if RecordChainHash f = zero_hash then Inl ChainHashEmpty
      else case Counts_Validate c of Inl e \<Rightarrow> Inl (BadCounts e) | Inr _ \<Rightarrow>
      if Records c = 0 \<and> RecordPayloadBytes f \<noteq> 0 then Inl EmptyStreamHasPayload
      else if Records c \<noteq> 0 \<and> RecordPayloadBytes f = 0 then Inl StreamHasNoPayload
      else if RecordPayloadBytes f > PayloadBytes c then Inl RecordPayloadExceedsConsensus
      else if length (SupportedSchemes m) \<noteq> 2 \<or> SupportedSchemes m ! 0 \<noteq> ''hash'' \<or>
              SupportedSchemes m ! 1 \<noteq> ''path'' then Inl BadSupportedSchemes
      else Inr ())"

definition ManifestSHA256 :: "geth_env \<Rightarrow> bytes \<Rightarrow> hash" where
  "ManifestSHA256 env data = sha256 env data"

definition sameManifest :: "Manifest \<Rightarrow> Manifest \<Rightarrow> bool" where
  "sameManifest left right \<longleftrightarrow>
     Format left = Format right \<and> Version left = Version right \<and>
     CreatedAt left = CreatedAt right \<and> ToolVersion left = ToolVersion right \<and>
     GethVersion left = GethVersion right \<and> sameSourceEvidence (Source left) (Source right) \<and>
     m_Counts left = m_Counts right \<and> m_StateFile left = m_StateFile right \<and>
     SupportedSchemes left = SupportedSchemes right"

section \<open>What validation establishes\<close>

text \<open>The header commits to the whole head: its hash is the block hash, its fields the rest.\<close>

definition evidence_binds :: "geth_env \<Rightarrow> SourceEvidence \<Rightarrow> header \<Rightarrow> bool" where
  "evidence_binds env s hdr \<longleftrightarrow>
     HeadAfter s = HeadBefore s \<and>
     rlp_dec_header env (HeaderRLP s) = Some hdr \<and>
     h_Number hdr = Some (uint (BlockNumber (HeadBefore s))) \<and>
     keccak256 env (HeaderRLP s) = BlockHash (HeadBefore s) \<and>
     h_Root hdr = StateRoot (HeadBefore s) \<and>
     BlockHash (HeadBefore s) \<noteq> zero_hash \<and> StateRoot (HeadBefore s) \<noteq> zero_hash \<and>
     HeaderRLP s \<noteq> []"

lemma isUint64_of_int: "isUint64 n \<Longrightarrow> (of_int n :: u64) = w \<longleftrightarrow> n = uint w"
  by (auto simp: isUint64_def word_uint_eq_iff uint_word_of_int)

lemma isUint64_uint [simp]: "isUint64 (uint (w :: u64))"
  using uint_lt2p [of w] by (simp add: isUint64_def)

lemma ValidatedHeader_iff: "ValidatedHeader env s = Inr hdr \<longleftrightarrow> evidence_binds env s hdr"
  by (auto simp: ValidatedHeader_def evidence_binds_def Let_def isUint64_of_int
        split: option.splits if_splits)

lemma sameSourceEvidence_iff: "sameSourceEvidence a b \<longleftrightarrow> a = b"
  by (auto simp: sameSourceEvidence_def)

lemma evidence_determined:
  assumes "evidence_binds env s h1" and "evidence_binds env t h2" and "HeaderRLP s = HeaderRLP t"
  shows "s = t"
proof -
  have "HeadBefore s = HeadBefore t"
    using assms by (intro Head.equality) (auto simp: evidence_binds_def word_uint_eq_iff)
  with assms show ?thesis
    by (intro SourceEvidence.equality) (auto simp: evidence_binds_def)
qed

lemma filepath_Base_records [simp]:
  "filepath_Base RecordsFileZstd = RecordsFileZstd" "filepath_Base RecordsFileRaw = RecordsFileRaw"
  by (simp_all add: filepath_Base_def manifest_names)

definition statefile_wf :: "Counts \<Rightarrow> StateFile \<Rightarrow> bool" where
  "statefile_wf c f \<longleftrightarrow>
     (Compression f = CompressionZstd \<and> Name f = RecordsFileZstd \<or>
      Compression f = CompressionNone \<and> Name f = RecordsFileRaw) \<and>
     0 < Size f \<and> SHA256 f \<noteq> zero_hash \<and> RecordChainHash f \<noteq> zero_hash \<and>
     (Records c = 0 \<longleftrightarrow> RecordPayloadBytes f = 0) \<and> RecordPayloadBytes f \<le> PayloadBytes c"

lemma compressions_differ [simp]:
  "CompressionZstd \<noteq> CompressionNone" "CompressionNone \<noteq> CompressionZstd"
  "RecordsFileZstd \<noteq> RecordsFileRaw" "RecordsFileRaw \<noteq> RecordsFileZstd"
  by (simp_all add: manifest_names)

lemma Manifest_Validate_iff:
  "Manifest_Validate env m = Inr () \<longleftrightarrow>
     Format m = FormatName \<and> Version m = FormatVersion \<and> ToolVersion m \<noteq> [] \<and> CreatedAt m \<noteq> 0 \<and>
     (\<exists>hdr. evidence_binds env (Source m) hdr) \<and> counts_wf (m_Counts m) \<and>
     statefile_wf (m_Counts m) (m_StateFile m) \<and> SupportedSchemes m = [''hash'', ''path'']"
proof -
  have schemes: "(length xs = 2 \<and> xs ! 0 = a \<and> xs ! 1 = b) = (xs = [a, b])" for xs :: "string list" and a b
    by (auto simp: length_Suc_conv numeral_2_eq_2)
  have src: "SourceEvidence_Validate env (Source m) = Inr u \<longleftrightarrow> (\<exists>hdr. evidence_binds env (Source m) hdr)" for u
    by (auto simp: SourceEvidence_Validate_def result_simps ValidatedHeader_iff)
  have cnt: "Counts_Validate (m_Counts m) = Inr u \<longleftrightarrow> counts_wf (m_Counts m)" for u
    using Counts_Validate_iff by simp
  show ?thesis
    unfolding Manifest_Validate_def Let_def statefile_wf_def
    using src cnt schemes [of "SupportedSchemes m" "''hash''" "''path''"]
    by (cases "SourceEvidence_Validate env (Source m)"; cases "Counts_Validate (m_Counts m)")
       (auto simp: not_le not_less)
qed

section \<open>Properties\<close>

text \<open>
  Manifest validation accepts exactly the manifests of the current format whose header
  binds the head, whose counters are consistent and whose stream description is complete: matching
  name and compression, positive size, non-empty digests, payload bytes that do not exceed the
  expanded ones and vanish exactly with the records.
\<close>

lemma manifest_validate_exact:
  "Manifest_Validate env m = Inr () \<longleftrightarrow>
     Format m = FormatName \<and> Version m = FormatVersion \<and> ToolVersion m \<noteq> [] \<and> CreatedAt m \<noteq> 0 \<and>
     (\<exists>hdr. evidence_binds env (Source m) hdr) \<and> counts_wf (m_Counts m) \<and>
     statefile_wf (m_Counts m) (m_StateFile m) \<and> SupportedSchemes m = [''hash'', ''path'']"
  by (rule Manifest_Validate_iff)

text \<open>
  Validated evidence is determined by the bytes of its header: two validated records of
  evidence over the same header bytes agree in number, block hash and state root.
\<close>

lemma evidence_determined_by_header:
  assumes "isOk (SourceEvidence_Validate env s)" and "isOk (SourceEvidence_Validate env t)"
    and "HeaderRLP s = HeaderRLP t"
  shows "s = t"
proof -
  from assms(1,2) obtain h1 h2 where "evidence_binds env s h1" "evidence_binds env t h2"
    by (auto simp: SourceEvidence_Validate_def result_simps ValidatedHeader_iff)
  then show ?thesis using assms(3) by (rule evidence_determined)
qed

end
