(* ===== verification/Account.thy ===== *)
theory Account
  imports Geth
begin

text \<open>
  Slim accounts (\<^verbatim>\<open>internal/bundle/account.go\<close>): the account payload of the record stream omits
  an empty storage root and an empty code hash, and refuses a payload that spells them out, so
  that every account has exactly one payload.
\<close>

section \<open>Definitions\<close>

datatype account_error =
    AccountNil
  | BalanceNil
  | CodeHashLength nat
  | EncodeSlim
  | DecodeSlim
  | StorageRootLength nat
  | ExplicitEmptyRoot
  | ExplicitEmptyCode
  | EncodeFull

definition EncodeAccount :: "geth_env \<Rightarrow> state_account option \<Rightarrow> (account_error, bytes) result" where
  "EncodeAccount env account =
     (case account of
        None \<Rightarrow> Inl AccountNil
      | Some a \<Rightarrow>
          if Balance a = None then Inl BalanceNil
          else if length (CodeHash a) \<noteq> HashLength then Inl (CodeHashLength (length (CodeHash a)))
          else
            let slim = \<lparr>slim_Nonce = Nonce a, slim_Balance = Balance a,
                  slim_Root = (if Root a \<noteq> EmptyRootHash env then Root a else []),
                  slim_CodeHash = (if CodeHash a \<noteq> EmptyCodeHash env then CodeHash a else [])\<rparr>
            in case rlp_enc_slim env slim of
                 None \<Rightarrow> Inl EncodeSlim
               | Some data \<Rightarrow> Inr data)"

definition DecodeAccount :: "geth_env \<Rightarrow> bytes \<Rightarrow> (account_error, state_account \<times> bytes) result" where
  "DecodeAccount env data =
     (case rlp_dec_slim env data of
        None \<Rightarrow> Inl DecodeSlim
      | Some slim \<Rightarrow>
          if slim_Balance slim = None then Inl BalanceNil
          else if length (slim_Root slim) \<noteq> 0 \<and> length (slim_Root slim) \<noteq> HashLength
          then Inl (StorageRootLength (length (slim_Root slim)))
          else if length (slim_CodeHash slim) \<noteq> 0 \<and> length (slim_CodeHash slim) \<noteq> HashLength
          then Inl (CodeHashLength (length (slim_CodeHash slim)))
          else if slim_Root slim = EmptyRootHash env then Inl ExplicitEmptyRoot
          else if slim_CodeHash slim = EmptyCodeHash env then Inl ExplicitEmptyCode
          else
            let account = \<lparr>Nonce = slim_Nonce slim, Balance = slim_Balance slim,
                  Root = (if length (slim_Root slim) \<noteq> 0 then slim_Root slim else EmptyRootHash env),
                  CodeHash = (if length (slim_CodeHash slim) \<noteq> 0 then slim_CodeHash slim
                              else EmptyCodeHash env)\<rparr>
            in case rlp_enc_account env account of
                 None \<Rightarrow> Inl EncodeFull
               | Some fullRLP \<Rightarrow> Inr (account, fullRLP))"

section \<open>Properties\<close>

text \<open>A consensus account as the state trie holds it.\<close>

definition account_wf :: "state_account \<Rightarrow> bool" where
  "account_wf a \<longleftrightarrow> Balance a \<noteq> None \<and> is_hash (Root a) \<and> is_hash (CodeHash a)"

definition to_slim :: "geth_env \<Rightarrow> state_account \<Rightarrow> slim_account" where
  "to_slim env a = \<lparr>slim_Nonce = Nonce a, slim_Balance = Balance a,
     slim_Root = (if Root a \<noteq> EmptyRootHash env then Root a else []),
     slim_CodeHash = (if CodeHash a \<noteq> EmptyCodeHash env then CodeHash a else [])\<rparr>"

lemma EncodeAccount_wf:
  "account_wf a \<Longrightarrow> EncodeAccount env (Some a) =
     (case rlp_enc_slim env (to_slim env a) of None \<Rightarrow> Inl EncodeSlim | Some d \<Rightarrow> Inr d)"
  by (auto simp: EncodeAccount_def account_wf_def is_hash_def to_slim_def Let_def)

lemma DecodeAccount_to_slim:
  assumes "digests_ok env" and "account_wf a" and "rlp_dec_slim env d = Some (to_slim env a)"
    and "rlp_enc_account env a = Some full"
  shows "DecodeAccount env d = Inr (a, full)"
proof -
  have ne: "EmptyRootHash env \<noteq> []" "EmptyCodeHash env \<noteq> []"
    using digests_okD(3,4) [OF assms(1)] by auto
  have lens: "length (Root a) = 32" "length (CodeHash a) = 32"
    using assms(2) by (simp_all add: account_wf_def is_hash_def HashLength_def)
  from ne lens assms show ?thesis
    by (cases a) (auto simp: DecodeAccount_def to_slim_def account_wf_def HashLength_def Let_def)
qed

lemma DecodeAccount_eq_Inr:
  assumes "digests_ok env" and "DecodeAccount env d = Inr (a, full)"
  shows "account_wf a \<and> rlp_dec_slim env d = Some (to_slim env a) \<and> rlp_enc_account env a = Some full"
proof -
  from assms(2) obtain slim where slim: "rlp_dec_slim env d = Some slim"
    by (auto simp: DecodeAccount_def split: option.splits)
  have "slim = to_slim env a"
    using assms slim
    by (cases slim) (auto simp: DecodeAccount_def to_slim_def Let_def split: option.splits if_splits)
  moreover have "account_wf a"
    using assms slim digests_okD(3,4) [OF assms(1)]
    by (auto simp: DecodeAccount_def account_wf_def is_hash_def HashLength_def Let_def
          split: option.splits if_splits)
  moreover have "rlp_enc_account env a = Some full"
    using assms slim by (auto simp: DecodeAccount_def Let_def split: option.splits if_splits)
  ultimately show ?thesis using slim by simp
qed

lemma slim_encodes:
  assumes "slim_rlp_ok env" and "account_wf a"
  shows "\<exists>d. EncodeAccount env (Some a) = Inr d \<and> rlp_dec_slim env d = Some (to_slim env a)"
proof -
  have "slim_Balance (to_slim env a) \<noteq> None"
    using assms(2) by (simp add: to_slim_def account_wf_def)
  with assms(1) obtain d where "rlp_enc_slim env (to_slim env a) = Some d"
    "rlp_dec_slim env d = Some (to_slim env a)"
    unfolding slim_rlp_ok_def by blast
  with assms(2) show ?thesis by (simp add: EncodeAccount_wf)
qed

lemma account_encodes:
  "account_rlp_ok env \<Longrightarrow> account_wf a \<Longrightarrow> \<exists>f. rlp_enc_account env a = Some f"
  unfolding account_rlp_ok_def account_wf_def by blast

text \<open>
  Property C38. The slim encoding loses nothing: every account of the state trie encodes, and decoding
  the payload gives the account back together with its full consensus encoding, whichever of
  storage root and code hash are empty.
\<close>

theorem account_roundtrip:
  assumes "digests_ok env" and "slim_rlp_ok env" and "account_rlp_ok env" and "account_wf a"
  shows "\<exists>d full. EncodeAccount env (Some a) = Inr d \<and> rlp_enc_account env a = Some full \<and>
     DecodeAccount env d = Inr (a, full)"
proof -
  from slim_encodes [OF assms(2,4)] obtain d where
    d: "EncodeAccount env (Some a) = Inr d" "rlp_dec_slim env d = Some (to_slim env a)" by blast
  from account_encodes [OF assms(3,4)] obtain full where full: "rlp_enc_account env a = Some full" by blast
  from DecodeAccount_to_slim [OF assms(1,4) d(2) full] d(1) full show ?thesis by blast
qed

text \<open>
  The slim encoding is canonical: a payload that decodes is the one payload its account
  encodes to, so different payloads always carry different accounts.
\<close>

lemma account_payload_canonical:
  assumes "digests_ok env" and "slim_rlp_ok env" and "DecodeAccount env d = Inr (a, full)"
  shows "EncodeAccount env (Some a) = Inr d"
proof -
  from DecodeAccount_eq_Inr [OF assms(1,3)] have "account_wf a" "rlp_dec_slim env d = Some (to_slim env a)" by auto
  with assms(2) show ?thesis unfolding slim_rlp_ok_def by (simp add: EncodeAccount_wf)
qed

end
