(* ===== verification/Framing.thy ===== *)
theory Framing
  imports Prelude
begin

text \<open>
  Length-prefixed framing of digest inputs. \<^verbatim>\<open>hashPruneKV\<close> (\<^verbatim>\<open>prune_scan.go\<close>) and
  \<^verbatim>\<open>ovmHashFrame\<close> (\<^verbatim>\<open>ovm_history.go\<close>) write every byte string behind its length as a
  big-endian 64-bit integer. The interface \<open>prefix_code\<close> states what a framing promises: a frame
  can be taken off the front of any stream, hence a stream determines the frames it consists of.
  The record stream of the bundle is a third provider of it (theory \<open>RecordScanner\<close>).
\<close>

section \<open>Prefix codes\<close>

locale prefix_code =
  fixes enc :: "'r \<Rightarrow> bytes"
    and dec :: "bytes \<Rightarrow> ('r \<times> bytes) option"
    and ok :: "'r \<Rightarrow> bool"
  assumes dec_enc: "ok r \<Longrightarrow> dec (enc r @ rest) = Some (r, rest)"
    and enc_nonempty: "ok r \<Longrightarrow> enc r \<noteq> []"
begin

lemma enc_append_inject:
  assumes "ok r" and "ok s" and "enc r @ xs = enc s @ ys"
  shows "r = s \<and> xs = ys"
proof -
  have "Some (r, xs) = dec (enc s @ ys)"
    by (subst assms(3) [symmetric], rule dec_enc [OF assms(1), symmetric])
  also have "\<dots> = Some (s, ys)" by (rule dec_enc [OF assms(2)])
  finally show ?thesis by simp
qed

lemma stream_inject:
  assumes "list_all ok rs" and "list_all ok ss" and "concat (map enc rs) = concat (map enc ss)"
  shows "rs = ss"
  using assms
proof (induction rs arbitrary: ss)
  case Nil
  then show ?case by (cases ss) (auto simp: enc_nonempty)
next
  case (Cons r rs)
  then obtain s ss' where ss: "ss = s # ss'" by (cases ss) (auto simp: enc_nonempty)
  with Cons.prems have "r = s \<and> concat (map enc rs) = concat (map enc ss')"
    by (intro enc_append_inject) auto
  with Cons ss show ?case by auto
qed

end

section \<open>Length-prefixed parts\<close>

text \<open>One part: \<^verbatim>\<open>PutUint64(length[:], uint64(len(part)))\<close> and then the part itself.\<close>

definition frame_part :: "bytes \<Rightarrow> bytes" where
  "frame_part part = be64 (of_nat (length part)) @ part"

definition unframe_part :: "bytes \<Rightarrow> (bytes \<times> bytes) option" where
  "unframe_part bs =
     (let n = unat (be64_read (take 8 bs)); body = drop 8 bs
      in if length bs < 8 \<or> length body < n then None else Some (take n body, drop n body))"

text \<open>A byte slice of Go has fewer than \<open>2 ^ 63\<close> elements.\<close>

definition go_slice :: "bytes \<Rightarrow> bool" where
  "go_slice bs \<longleftrightarrow> length bs < 2 ^ 63"

lemma unat_go_length [simp]: "go_slice bs \<Longrightarrow> unat (of_nat (length bs) :: u64) = length bs"
  by (simp add: go_slice_def unat_of_nat)

interpretation part: prefix_code frame_part unframe_part go_slice
  by unfold_locales (auto simp: frame_part_def unframe_part_def Let_def)

text \<open>\<^verbatim>\<open>hashPruneKV\<close>: the bytes written to the running digest for one record.\<close>

definition hashPruneKV :: "bytes \<Rightarrow> bytes \<Rightarrow> bytes \<Rightarrow> bytes" where
  "hashPruneKV h key value = fold (\<lambda>part acc. acc @ be64 (of_nat (length part)) @ part) [key, value] h"

definition prune_frame :: "kv \<Rightarrow> bytes" where
  "prune_frame kv = frame_part (fst kv) @ frame_part (snd kv)"

definition prune_unframe :: "bytes \<Rightarrow> (kv \<times> bytes) option" where
  "prune_unframe bs =
     Option.bind (unframe_part bs) (\<lambda>(k, r1).
       Option.bind (unframe_part r1) (\<lambda>(v, r2). Some ((k, v), r2)))"

definition go_entry :: "kv \<Rightarrow> bool" where
  "go_entry kv \<longleftrightarrow> go_slice (fst kv) \<and> go_slice (snd kv)"

lemma hashPruneKV_frame: "hashPruneKV h key value = h @ prune_frame (key, value)"
  by (simp add: hashPruneKV_def prune_frame_def frame_part_def)

interpretation kvframe: prefix_code prune_frame prune_unframe go_entry
  by unfold_locales
     (auto simp: prune_frame_def prune_unframe_def go_entry_def part.dec_enc
           dest: part.enc_nonempty)

text \<open>\<^verbatim>\<open>ovmHashFrame\<close>: any number of parts.\<close>

definition ovmHashFrame :: "bytes \<Rightarrow> bytes list \<Rightarrow> bytes" where
  "ovmHashFrame h vals =
     fold (\<lambda>value acc. (acc @ be64 (of_nat (length value))) @ value) vals h"

lemma ovmHashFrame_frames: "ovmHashFrame h vals = h @ concat (map frame_part vals)"
  unfolding ovmHashFrame_def
  by (induction vals arbitrary: h) (auto simp: frame_part_def)

lemma ovmHashFrame_inject:
  assumes "list_all go_slice vs" and "list_all go_slice ws"
    and "ovmHashFrame h vs = ovmHashFrame h ws"
  shows "vs = ws"
  using assms by (auto simp: ovmHashFrame_frames intro: part.stream_inject)

section \<open>Properties\<close>

text \<open>
  The digests over database records are digests of the records and of nothing else:
  two lists of records that feed the same bytes to the running hash of \<^verbatim>\<open>hashPruneKV\<close> are equal, so
  no boundary between keys, values and records can be shifted.
\<close>

lemma prune_digest_injective:
  assumes "list_all go_entry xs" and "list_all go_entry ys"
    and "foldl (\<lambda>h kv. hashPruneKV h (fst kv) (snd kv)) [] xs = foldl (\<lambda>h kv. hashPruneKV h (fst kv) (snd kv)) [] ys"
  shows "xs = ys"
proof -
  have "foldl (\<lambda>h kv. hashPruneKV h (fst kv) (snd kv)) a zs = a @ concat (map prune_frame zs)" for a zs
    by (induction zs arbitrary: a) (simp_all add: hashPruneKV_frame)
  with assms show ?thesis by (intro kvframe.stream_inject) simp_all
qed

text \<open>
  The same for \<^verbatim>\<open>ovmHashFrame\<close>, which frames any number of parts into one digest: the
  hashed bytes determine how many parts there were and each of them.
\<close>

lemma ovm_frame_injective:
  assumes "list_all go_slice vs" and "list_all go_slice ws" and "ovmHashFrame h vs = ovmHashFrame h ws"
  shows "vs = ws"
  using assms by (rule ovmHashFrame_inject)

end
