(* ===== verification/RecordWriter.thy ===== *)
theory RecordWriter
  imports Manifest Account Framing
begin

text \<open>
  The record stream writer (\<^verbatim>\<open>internal/bundle/records.go\<close>). A writer is a state: the writes
  handed to its buffer so far, the running chain hash, the counters, and whether it is closed.
  Every poll of the context and every call of the buffer, the encoder or the file is one
  interaction with the outside world, whose outcome comes from the fault oracle; an operation
  returns an optional error together with the new state, because a failed write leaves the bytes
  already written behind. The zstd encoder receives the very sequence of writes.
\<close>

section \<open>Constants and record kinds\<close>

definition ascii :: "string \<Rightarrow> bytes" where
  "ascii s = map of_char s"

definition streamMagic :: bytes where
  "streamMagic = ascii ''L2STATE1''"

definition recordEnd :: byte where "recordEnd = 0"
definition RecordAccount :: byte where "RecordAccount = 1"
definition RecordStorage :: byte where "RecordStorage = 2"
definition RecordCode :: byte where "RecordCode = 3"

lemmas record_kinds = recordEnd_def RecordAccount_def RecordStorage_def RecordCode_def

definition maxAccountPayload :: u64 where "maxAccountPayload = 110"
definition maxStoragePayload :: u64 where "maxStoragePayload = 33"
definition maxCodePayload :: u64 where "maxCodePayload = 134217728"
definition ioChunkSize :: nat where "ioChunkSize = 262144"

definition recordChainDomain :: bytes where
  "recordChainDomain = ascii ''metis-l2state-record-chain/v1''"

record Record =
  Type :: byte
  AccountHash :: hash
  SubHash :: hash
  Payload :: bytes

datatype record_error =
    UnknownRecordType byte
  | EmptyPayload byte
  | PayloadTooLong byte u64

definition recordKeyLength :: "byte \<Rightarrow> (record_error, nat) result" where
  "recordKeyLength typ =
     (if typ = RecordAccount \<or> typ = RecordCode then Inr HashLength
      else if typ = RecordStorage then Inr (2 * HashLength)
      else Inl (UnknownRecordType typ))"

definition validatePayloadLength :: "byte \<Rightarrow> u64 \<Rightarrow> (record_error, unit) result" where
  "validatePayloadLength typ len =
     bindR (if typ = RecordAccount then Inr maxAccountPayload
            else if typ = RecordStorage then Inr maxStoragePayload
            else if typ = RecordCode then Inr maxCodePayload
            else Inl (UnknownRecordType typ))
       (\<lambda>limit. if len = 0 then Inl (EmptyPayload typ)
                else if len > limit then Inl (PayloadTooLong typ len)
                else Inr ())"

section \<open>The chain hash\<close>

text \<open>\<^verbatim>\<open>crypto.Keccak256Hash\<close> of several slices hashes their concatenation.\<close>

definition initialChainHash :: "geth_env \<Rightarrow> Head \<Rightarrow> bytes \<Rightarrow> hash" where
  "initialChainHash env head headerRLP =
     keccak256 env (recordChainDomain @ be64 (BlockNumber head) @ BlockHash head @ StateRoot head @
       keccak256 env headerRLP)"

text \<open>The sponge of \<^verbatim>\<open>recordChainHasher\<close> is the bytes it absorbed since its last reset.\<close>

definition hasher_Start :: "hash \<Rightarrow> bytes \<Rightarrow> bytes" where
  "hasher_Start previous hdr = previous @ hdr"

definition hasher_Write :: "bytes \<Rightarrow> bytes \<Rightarrow> bytes" where
  "hasher_Write st payload = st @ payload"

definition hasher_Sum :: "geth_env \<Rightarrow> bytes \<Rightarrow> hash" where
  "hasher_Sum env st = keccak256 env st"

section \<open>The writer\<close>

record writer =
  w_faults :: faults
  w_ticks :: nat
  w_writes :: "bytes list"
  w_chain :: hash
  w_counts :: Counts
  w_recordBytes :: u64
  w_fileName :: string
  w_compression :: string
  w_closed :: bool

record WriterResult =
  wr_Counts :: Counts
  wr_RecordPayloadBytes :: u64
  wr_FileName :: string
  wr_Compression :: string
  wr_Size :: int
  wr_SHA256 :: hash
  wr_RecordChainHash :: hash

datatype writer_error =
    WriterContextNil
  | WriterCompression
  | CreateStateRecords
  | CreateZstdWriter
  | WriteStreamHeader
  | WriterClosed
  | WriterContextErr
  | WriterRecord record_error
  | KeyLengthMismatch
  | WriteRecordHeader
  | WriteRecordPayload
  | SlimLongerThanConsensus
  | WriterAlreadyClosed
  | WriterCloseFailed

text \<open>One interaction with the outside world: its outcome and the advanced state.\<close>

definition w_tick :: "writer \<Rightarrow> bool \<times> writer" where
  "w_tick w = (w_faults w (w_ticks w), w\<lparr>w_ticks := Suc (w_ticks w)\<rparr>)"

text \<open>The bytes of the file when the writes so far have been flushed through the encoder.\<close>

definition stream_file :: "geth_env \<Rightarrow> string \<Rightarrow> bytes list \<Rightarrow> bytes" where
  "stream_file env compression ws =
     (if compression = CompressionZstd then zstd_encode env ws else concat ws)"

definition Writer_Abort :: "writer \<Rightarrow> writer" where
  "Writer_Abort w = (if w_closed w then w else w\<lparr>w_closed := True\<rparr>)"

definition NewWriter ::
  "geth_env \<Rightarrow> faults option \<Rightarrow> string \<Rightarrow> Head \<Rightarrow> bytes \<Rightarrow> (writer_error, writer) result" where
  "NewWriter env ctx compression head headerRLP =
     (case ctx of
        None \<Rightarrow> Inl WriterContextNil
      | Some faults \<Rightarrow>
          if compression \<noteq> CompressionZstd \<and> compression \<noteq> CompressionNone
          then Inl WriterCompression
          else
            let fileName = (if compression = CompressionZstd then RecordsFileZstd else RecordsFileRaw);
                w0 = \<lparr>w_faults = faults, w_ticks = 0, w_writes = [],
                      w_chain = initialChainHash env head headerRLP, w_counts = emptyCounts,
                      w_recordBytes = 0, w_fileName = fileName, w_compression = compression,
                      w_closed = False\<rparr>;
                (createErr, w1) = w_tick w0
            in if createErr then Inl CreateStateRecords
               else
                 let (zstdErr, w2) = (if compression = CompressionZstd then w_tick w1 else (False, w1))
                 in if zstdErr then Inl CreateZstdWriter
                    else
                      let (magicErr, w3) = w_tick w2
                      in if magicErr then Inl WriteStreamHeader
                         else Inr (w3\<lparr>w_writes := [streamMagic]\<rparr>))"

definition CountCodeReference :: "writer \<Rightarrow> writer_error option \<times> writer" where
  "CountCodeReference w =
     (if w_closed w then (Some WriterClosed, w)
      else (None, w\<lparr>w_counts := (w_counts w)\<lparr>CodeReferences := CodeReferences (w_counts w) + 1\<rparr>\<rparr>))"

text \<open>The loop over the payload in chunks of at most \<^verbatim>\<open>ioChunkSize\<close> bytes.\<close>

function payload_chunks :: "bytes \<Rightarrow> bytes list" where
  "payload_chunks payload =
     (if payload = [] then []
      else take ioChunkSize payload # payload_chunks (drop ioChunkSize payload))"
  by pat_completeness auto
termination
  by (relation "measure length") (auto simp: ioChunkSize_def)

declare payload_chunks.simps [simp del]

fun write_chunks :: "bytes list \<Rightarrow> bytes \<Rightarrow> writer \<Rightarrow> writer_error option \<times> bytes \<times> writer" where
  "write_chunks [] hs w = (None, hs, w)"
| "write_chunks (chunk # chunks) hs w =
     (let (cancelled, w1) = w_tick w in
      if cancelled then (Some WriterContextErr, hs, w1)
      else
        let (failed, w2) = w_tick w1 in
        if failed then (Some WriteRecordPayload, hs, w2)
        else write_chunks chunks (hasher_Write hs chunk) (w2\<lparr>w_writes := w_writes w2 @ [chunk]\<rparr>))"

text \<open>The counters a finished record advances.\<close>

definition count_record :: "byte \<Rightarrow> u64 \<Rightarrow> Counts \<Rightarrow> Counts" where
  "count_record typ consensus c =
     (let c1 = c\<lparr>Records := Records c + 1, PayloadBytes := PayloadBytes c + consensus\<rparr> in
      if typ = RecordAccount then c1\<lparr>Accounts := Accounts c1 + 1\<rparr>
      else if typ = RecordStorage then c1\<lparr>StorageSlots := StorageSlots c1 + 1\<rparr>
      else if typ = RecordCode then c1\<lparr>CodeRecords := CodeRecords c1 + 1\<rparr>
      else c1)"

definition record_header :: "byte \<Rightarrow> bytes \<Rightarrow> bytes \<Rightarrow> nat \<Rightarrow> bytes" where
  "record_header typ key subkey len = typ # key @ subkey @ be64 (of_nat len)"

definition writeRecord ::
  "geth_env \<Rightarrow> byte \<Rightarrow> bytes \<Rightarrow> bytes \<Rightarrow> bytes \<Rightarrow> u64 \<Rightarrow> writer \<Rightarrow> writer_error option \<times> writer" where
  "writeRecord env typ key subkey payload consensus w =
     (if w_closed w then (Some WriterClosed, w)
      else
        let (cancelled, w1) = w_tick w in
        if cancelled then (Some WriterContextErr, w1)
        else case validatePayloadLength typ (of_nat (length payload)) of
          Inl e \<Rightarrow> (Some (WriterRecord e), w1)
        | Inr _ \<Rightarrow>
          (case recordKeyLength typ of
             Inl e \<Rightarrow> (Some (WriterRecord e), w1)
           | Inr expectedKeyLen \<Rightarrow>
               if length key + length subkey \<noteq> expectedKeyLen then (Some KeyLengthMismatch, w1)
               else
                 let hdr = record_header typ key subkey (length payload);
                     (failed, w2) = w_tick w1
                 in if failed then (Some WriteRecordHeader, w2)
                    else
                      let w3 = w2\<lparr>w_writes := w_writes w2 @ [hdr]\<rparr>;
                          (err, hs, w4) =
                            write_chunks (payload_chunks payload) (hasher_Start (w_chain w3) hdr) w3
                      in case err of
                           Some e \<Rightarrow> (Some e, w4)
                         | None \<Rightarrow>
                             let w5 = w4\<lparr>w_chain := hasher_Sum env hs,
                                    w_counts := count_record typ consensus (w_counts w4),
                                    w_recordBytes := w_recordBytes w4 + of_nat (length payload)\<rparr>
                             in if typ = RecordAccount \<or> typ = RecordStorage \<or> typ = RecordCode
                                then (None, w5)
                                else (Some (WriterRecord (UnknownRecordType typ)), w5)))"

definition WriteAccount ::
  "geth_env \<Rightarrow> hash \<Rightarrow> bytes \<Rightarrow> u64 \<Rightarrow> writer \<Rightarrow> writer_error option \<times> writer" where
  "WriteAccount env accountHash accountRLP consensusPayloadBytes w =
     (if of_nat (length accountRLP) > consensusPayloadBytes then (Some SlimLongerThanConsensus, w)
      else writeRecord env RecordAccount accountHash [] accountRLP consensusPayloadBytes w)"

definition WriteStorage ::
  "geth_env \<Rightarrow> hash \<Rightarrow> hash \<Rightarrow> bytes \<Rightarrow> writer \<Rightarrow> writer_error option \<times> writer" where
  "WriteStorage env accountHash slotHash valueRLP w =
     writeRecord env RecordStorage accountHash slotHash valueRLP (of_nat (length valueRLP)) w"

definition WriteCode ::
  "geth_env \<Rightarrow> hash \<Rightarrow> bytes \<Rightarrow> writer \<Rightarrow> writer_error option \<times> writer" where
  "WriteCode env codeHash code w =
     writeRecord env RecordCode codeHash [] code (of_nat (length code)) w"

text \<open>
  Closing performs every step even after a failed one and joins their errors: the terminator,
  the flush, the encoder's end (only with an encoder), sync, stat and close.
\<close>

fun any_tick :: "nat \<Rightarrow> writer \<Rightarrow> bool \<times> writer" where
  "any_tick 0 w = (False, w)"
| "any_tick (Suc n) w =
     (let (failed, w1) = w_tick w; (rest, w2) = any_tick n w1 in (failed \<or> rest, w2))"

definition Writer_Close :: "geth_env \<Rightarrow> writer \<Rightarrow> (writer_error, WriterResult) result \<times> writer" where
  "Writer_Close env w =
     (if w_closed w then (Inl WriterAlreadyClosed, w)
      else
        let (termErr, w0) = w_tick (w\<lparr>w_closed := True\<rparr>);
            w1 = (if termErr then w0 else w0\<lparr>w_writes := w_writes w0 @ [[recordEnd]]\<rparr>);
            (failed, w2) = any_tick (if w_compression w = CompressionZstd then 5 else 4) w1;
            file = stream_file env (w_compression w2) (w_writes w2)
        in if termErr \<or> failed then (Inl WriterCloseFailed, w2)
           else (Inr \<lparr>wr_Counts = w_counts w2, wr_RecordPayloadBytes = w_recordBytes w2,
                      wr_FileName = w_fileName w2, wr_Compression = w_compression w2,
                      wr_Size = int (length file), wr_SHA256 = sha256 env file,
                      wr_RecordChainHash = w_chain w2\<rparr>, w2))"

section \<open>What a successful write appends\<close>

lemma concat_payload_chunks [simp]: "concat (payload_chunks p) = p"
  by (induction p rule: payload_chunks.induct) (subst payload_chunks.simps, auto)

text \<open>The key parts a record of each kind is written with.\<close>

definition rec_key :: "Record \<Rightarrow> bytes" where
  "rec_key r = (if Type r = RecordCode then SubHash r else AccountHash r)"

definition rec_subkey :: "Record \<Rightarrow> bytes" where
  "rec_subkey r = (if Type r = RecordStorage then SubHash r else [])"

definition record_writes :: "Record \<Rightarrow> bytes list" where
  "record_writes r =
     record_header (Type r) (rec_key r) (rec_subkey r) (length (Payload r)) # payload_chunks (Payload r)"

definition record_bytes :: "Record \<Rightarrow> bytes" where
  "record_bytes r =
     record_header (Type r) (rec_key r) (rec_subkey r) (length (Payload r)) @ Payload r"

lemma concat_record_writes [simp]: "concat (record_writes r) = record_bytes r"
  by (simp add: record_writes_def record_bytes_def)

definition chain_step :: "geth_env \<Rightarrow> Record \<Rightarrow> hash \<Rightarrow> hash" where
  "chain_step env r c = keccak256 env (c @ record_bytes r)"

text \<open>A record the stream can carry: a known kind, full-length hashes, a payload within bounds.\<close>

definition record_ok :: "Record \<Rightarrow> bool" where
  "record_ok r \<longleftrightarrow>
     validatePayloadLength (Type r) (of_nat (length (Payload r))) = Inr () \<and> go_slice (Payload r) \<and>
     is_hash (AccountHash r) \<and> is_hash (SubHash r) \<and>
     (Type r = RecordAccount \<longrightarrow> SubHash r = zero_hash) \<and>
     (Type r = RecordCode \<longrightarrow> AccountHash r = zero_hash)"

lemma validatePayloadLength_kind:
  "validatePayloadLength typ n = Inr () \<Longrightarrow>
     typ = RecordAccount \<or> typ = RecordStorage \<or> typ = RecordCode"
  by (auto simp: validatePayloadLength_def split: if_splits)

lemma validatePayloadLength_pos: "validatePayloadLength typ n = Inr () \<Longrightarrow> n \<noteq> 0"
  by (auto simp: validatePayloadLength_def split: if_splits)

text \<open>
  \<open>wrote env w rs w'\<close>: from \<open>w\<close> to \<open>w'\<close> exactly the records \<open>rs\<close> were appended, framed and chained.
\<close>

definition wrote :: "geth_env \<Rightarrow> writer \<Rightarrow> Record list \<Rightarrow> writer \<Rightarrow> bool" where
  "wrote env w rs w' \<longleftrightarrow>
     w_writes w' = w_writes w @ concat (map record_writes rs) \<and>
     w_chain w' = fold (chain_step env) rs (w_chain w) \<and>
     w_recordBytes w' = w_recordBytes w + of_nat (sum_list (map (length \<circ> Payload) rs)) \<and>
     w_faults w' = w_faults w \<and> w_fileName w' = w_fileName w \<and>
     w_compression w' = w_compression w \<and> w_closed w' = w_closed w"

lemma wrote_Nil [simp]: "wrote env w [] w"
  by (simp add: wrote_def)

lemma wrote_trans: "wrote env a rs b \<Longrightarrow> wrote env b ss c \<Longrightarrow> wrote env a (rs @ ss) c"
  by (simp add: wrote_def)

lemma write_chunks_ok:
  "write_chunks cs hs w = (None, hs', w') \<Longrightarrow>
     hs' = hs @ concat cs \<and> (\<exists>t. w' = w\<lparr>w_ticks := t, w_writes := w_writes w @ cs\<rparr>)"
proof (induction cs arbitrary: hs w)
  case Nil
  then show ?case by (auto intro: exI [of _ "w_ticks w"])
next
  case (Cons c cs)
  then show ?case
    by (fastforce simp: w_tick_def hasher_Write_def split: if_splits)
qed

lemma writeRecord_ok:
  assumes "writeRecord env typ key subkey payload consensus w = (None, w')"
  shows "\<not> w_closed w \<and> validatePayloadLength typ (of_nat (length payload)) = Inr () \<and>
     recordKeyLength typ = Inr (length key + length subkey) \<and>
     (\<exists>t. w' = w\<lparr>w_ticks := t,
        w_writes := w_writes w @ record_header typ key subkey (length payload) # payload_chunks payload,
        w_chain := keccak256 env (w_chain w @ record_header typ key subkey (length payload) @ payload),
        w_counts := count_record typ consensus (w_counts w),
        w_recordBytes := w_recordBytes w + of_nat (length payload)\<rparr>)"
  using assms
  by (auto simp: writeRecord_def w_tick_def Let_def hasher_Start_def hasher_Sum_def
        split: if_splits sum.splits prod.splits option.splits dest!: write_chunks_ok)

lemma writeRecord_wrote:
  assumes "writeRecord env (Type r) (rec_key r) (rec_subkey r) (Payload r) consensus w = (None, w')"
  shows "wrote env w [r] w' \<and> w_counts w' = count_record (Type r) consensus (w_counts w)"
  using writeRecord_ok [OF assms]
  by (auto simp: wrote_def record_writes_def chain_step_def record_bytes_def)

end
