(* ===== verification/StrictIO.thy ===== *)
theory StrictIO
  imports Manifest
begin

text \<open>
  Strict reads of an input directory (\<^verbatim>\<open>internal/strictio/strictio.go\<close>). The operating system
  answers: \<^verbatim>\<open>Lstat\<close>, \<^verbatim>\<open>Open\<close>, \<^verbatim>\<open>Stat\<close> and \<^verbatim>\<open>ReadDir\<close> are data of the model, and the
  answer given after a file was opened may differ from the one given before.
\<close>

section \<open>Definitions\<close>

datatype file_kind = KRegular | KDir | KSymlink | KOther

text \<open>\<^verbatim>\<open>os.FileInfo\<close>: kind, identity (what \<^verbatim>\<open>os.SameFile\<close> compares) and size.\<close>

record file_info =
  fi_kind :: file_kind
  fi_id :: nat
  fi_size :: int

datatype EntryKind = RegularFile | Directory | UnknownKind nat

text \<open>
  An opened root: the entries of its inventory with the answer of \<^verbatim>\<open>Lstat\<close> on each, the answer
  of \<^verbatim>\<open>Stat\<close> on the handle once opened, the bytes read from it (\<open>None\<close> is an error), and
  whether closing the handle fails.
\<close>

record dir_entry =
  de_name :: string
  de_lstat :: "file_info option"
  de_stat :: "file_info option"
  de_data :: "bytes option"
  de_closeErr :: bool

record dir_root =
  dr_inventory :: "dir_entry list option"
  dr_files :: "dir_entry list"
  dr_closeErr :: bool

datatype strictio_error =
    InspectRoot
  | RootSymlink
  | RootNotDirectory
  | OpenRootFailed
  | InspectOpenedRoot
  | RootChanged
  | ReadInventory
  | EntryCount nat nat
  | UnexpectedEntry string
  | InvalidEntryName string
  | InspectEntry string
  | EntrySymlink string
  | EntryNotRegular string
  | EntryNotDirectory string
  | UnknownExpectedKind string nat
  | InvalidFileName string
  | InspectFile string
  | NotARegularFile string
  | OpenFileFailed string
  | FileChanged string
  | NegativeMaximum
  | FileTooLarge string
  | ReadFile string
  | CloseFile string

definition OpenRoot ::
  "file_info option \<Rightarrow> dir_root option \<Rightarrow> file_info option \<Rightarrow> (strictio_error, dir_root) result" where
  "OpenRoot lstat opened lstatDot =
     (case lstat of
        None \<Rightarrow> Inl InspectRoot
      | Some info \<Rightarrow>
          if fi_kind info = KSymlink then Inl RootSymlink
          else if fi_kind info \<noteq> KDir then Inl RootNotDirectory
          else case opened of
            None \<Rightarrow> Inl OpenRootFailed
          | Some root \<Rightarrow>
              (case lstatDot of
                 None \<Rightarrow> Inl InspectOpenedRoot
               | Some info2 \<Rightarrow> if fi_id info \<noteq> fi_id info2 then Inl RootChanged else Inr root))"

definition find_entry :: "dir_root \<Rightarrow> string \<Rightarrow> dir_entry option" where
  "find_entry r name = find (\<lambda>e. de_name e = name) (dr_files r)"

definition plain_name :: "string \<Rightarrow> bool" where
  "plain_name name \<longleftrightarrow> filepath_Base name = name \<and> name \<noteq> ''.'' \<and> name \<noteq> ''..''"

definition requireKind :: "dir_root \<Rightarrow> string \<Rightarrow> EntryKind \<Rightarrow> (strictio_error, unit) result" where
  "requireKind r name kind =
     (if \<not> plain_name name then Inl (InvalidEntryName name)
      else case Option.bind (find_entry r name) de_lstat of
        None \<Rightarrow> Inl (InspectEntry name)
      | Some info \<Rightarrow>
          if fi_kind info = KSymlink then Inl (EntrySymlink name)
          else case kind of
            RegularFile \<Rightarrow> if fi_kind info \<noteq> KRegular then Inl (EntryNotRegular name) else Inr ()
          | Directory \<Rightarrow> if fi_kind info \<noteq> KDir then Inl (EntryNotDirectory name) else Inr ()
          | UnknownKind n \<Rightarrow> Inl (UnknownExpectedKind name n))"

fun require_entries ::
  "dir_root \<Rightarrow> (string \<times> EntryKind) list \<Rightarrow> dir_entry list \<Rightarrow> (strictio_error, unit) result" where
  "require_entries r expected [] = Inr ()"
| "require_entries r expected (entry # entries) =
     (case map_of expected (de_name entry) of
        None \<Rightarrow> Inl (UnexpectedEntry (de_name entry))
      | Some kind \<Rightarrow>
          bindR (requireKind r (de_name entry) kind) (\<lambda>_. require_entries r expected entries))"

definition RequireExactLayout ::
  "dir_root \<Rightarrow> (string \<times> EntryKind) list \<Rightarrow> (strictio_error, unit) result" where
  "RequireExactLayout r expected =
     (case dr_inventory r of
        None \<Rightarrow> Inl ReadInventory
      | Some entries \<Rightarrow>
          if length entries \<noteq> length expected
          then Inl (EntryCount (length entries) (length expected))
          else require_entries r expected entries)"

definition OpenRegular ::
  "dir_root \<Rightarrow> string \<Rightarrow> (strictio_error, dir_entry \<times> file_info) result" where
  "OpenRegular r name =
     (if \<not> plain_name name then Inl (InvalidFileName name)
      else case find_entry r name of
        None \<Rightarrow> Inl (InspectFile name)
      | Some e \<Rightarrow>
          (case de_lstat e of
             None \<Rightarrow> Inl (InspectFile name)
           | Some before \<Rightarrow>
               if fi_kind before = KSymlink \<or> fi_kind before \<noteq> KRegular
               then Inl (NotARegularFile name)
               else case de_stat e of
                 None \<Rightarrow> Inl (OpenFileFailed name)
               | Some after \<Rightarrow>
                   if fi_kind after \<noteq> KRegular \<or> fi_id before \<noteq> fi_id after
                   then Inl (FileChanged name)
                   else Inr (e, after)))"

text \<open>The read is limited to one byte more than the maximum, so a growing file is refused too.\<close>

definition ReadRegular :: "dir_root \<Rightarrow> string \<Rightarrow> int \<Rightarrow> (strictio_error, bytes) result" where
  "ReadRegular r name maximum =
     (if maximum < 0 then Inl NegativeMaximum
      else bindR (OpenRegular r name) (\<lambda>(e, info).
        if fi_size info > maximum then Inl (FileTooLarge name)
        else case de_data e of
          None \<Rightarrow> Inl (ReadFile name)
        | Some content \<Rightarrow>
            let data = take (nat (maximum + 1)) content
            in if int (length data) > maximum then Inl (FileTooLarge name)
               else if de_closeErr e then Inl (CloseFile name) else Inr data))"

definition MaxMetadataSize :: int where "MaxMetadataSize = 1048576"

section \<open>Properties\<close>

definition kind_matches :: "EntryKind \<Rightarrow> file_info \<Rightarrow> bool" where
  "kind_matches kind info \<longleftrightarrow>
     (kind = RegularFile \<and> fi_kind info = KRegular) \<or> (kind = Directory \<and> fi_kind info = KDir)"

lemma requireKind_iff:
  "requireKind r name kind = Inr () \<longleftrightarrow>
     plain_name name \<and>
     (\<exists>info. Option.bind (find_entry r name) de_lstat = Some info \<and> kind_matches kind info)"
  by (auto simp: requireKind_def kind_matches_def split: option.splits EntryKind.splits if_splits)

lemma require_entries_iff:
  "require_entries r expected es = Inr () \<longleftrightarrow>
     (\<forall>e \<in> set es. \<exists>kind. map_of expected (de_name e) = Some kind \<and>
        requireKind r (de_name e) kind = Inr ())"
  by (induction es) (auto simp: result_simps split: option.splits)

text \<open>An exact layout: the names are the expected ones, each an entry of its expected kind.\<close>

definition exact_layout :: "dir_root \<Rightarrow> (string \<times> EntryKind) list \<Rightarrow> dir_entry list \<Rightarrow> bool" where
  "exact_layout r expected es \<longleftrightarrow>
     set (map de_name es) = fst ` set expected \<and>
     (\<forall>(name, kind) \<in> set expected. requireKind r name kind = Inr ())"

lemma RequireExactLayout_iff:
  assumes inv: "dr_inventory r = Some es" and des: "distinct (map de_name es)"
    and dex: "distinct (map fst expected)"
  shows "RequireExactLayout r expected = Inr () \<longleftrightarrow> exact_layout r expected es"
proof
  assume ok: "RequireExactLayout r expected = Inr ()"
  with inv have len: "length es = length expected"
    and req: "require_entries r expected es = Inr ()"
    by (auto simp: RequireExactLayout_def split: if_splits)
  from req have sub: "set (map de_name es) \<subseteq> set (map fst expected)"
    by (auto simp: require_entries_iff dest!: bspec map_of_SomeD) force
  moreover have "card (set (map de_name es)) = card (set (map fst expected))"
    using des dex len by (metis distinct_card length_map)
  ultimately have eq: "set (map de_name es) = set (map fst expected)"
    by (simp add: card_subset_eq)
  moreover have "requireKind r n k = Inr ()" if "(n, k) \<in> set expected" for n k
  proof -
    have "n \<in> set (map de_name es)" using that eq by force
    then obtain e where "e \<in> set es" "de_name e = n" by auto
    moreover have "map_of expected n = Some k" using dex that by (rule map_of_is_SomeI)
    ultimately show ?thesis using req by (auto simp: require_entries_iff)
  qed
  ultimately show "exact_layout r expected es" by (auto simp: exact_layout_def)
next
  assume ex: "exact_layout r expected es"
  then have names: "set (map de_name es) = set (map fst expected)"
    by (auto simp: exact_layout_def)
  have len: "length es = length expected"
    using des dex names by (metis distinct_card length_map)
  have "\<exists>kind. map_of expected (de_name e) = Some kind \<and> requireKind r (de_name e) kind = Inr ()"
    if "e \<in> set es" for e
  proof -
    from that names have "de_name e \<in> fst ` set expected" by auto
    then obtain kind where "(de_name e, kind) \<in> set expected" by auto
    with ex dex show ?thesis by (auto simp: exact_layout_def intro!: exI [of _ kind])
  qed
  with inv len show "RequireExactLayout r expected = Inr ()"
    by (auto simp: RequireExactLayout_def require_entries_iff)
qed

lemma ReadRegular_bounded:
  assumes "ReadRegular r name maximum = Inr data"
  shows "int (length data) \<le> maximum \<and> (\<exists>e info. OpenRegular r name = Inr (e, info) \<and>
           de_data e = Some data)"
  using assms
  by (auto simp: ReadRegular_def result_simps Let_def split: if_splits option.splits)


definition one_file :: dir_root where
  "one_file =
     (let info = \<lparr>fi_kind = KRegular, fi_id = 7, fi_size = 2\<rparr>;
          e = \<lparr>de_name = ''a'', de_lstat = Some info, de_stat = Some info, de_data = Some [1, 2], de_closeErr = False\<rparr>
      in \<lparr>dr_inventory = Some [e], dr_files = [e], dr_closeErr = False\<rparr>)"




end
