(* ===== verification/RecordScanner.thy ===== *)
theory RecordScanner
  imports RecordWriter StrictIO
begin

text \<open>
  The record stream scanner (\<^verbatim>\<open>internal/bundle/scanner.go\<close>) and its canonical re-encoder
  (\<^verbatim>\<open>canonicalZstdWriter\<close> of \<^verbatim>\<open>records.go\<close>). The scanner reads the decoded stream from the
  front, replays every write into the re-encoder, recomputes the chain hash and the counters, and
  compares them with the manifest at the end. Borrowed and owned payload buffers carry the same
  bytes and are not told apart.
\<close>

section \<open>Data\<close>

record WireCounts =
  wc_Accounts :: u64
  wc_StorageSlots :: u64
  wc_CodeRecords :: u64
  wc_Records :: u64
  wc_PayloadBytes :: u64

definition emptyWireCounts :: WireCounts where
  "emptyWireCounts = \<lparr>wc_Accounts = 0, wc_StorageSlots = 0, wc_CodeRecords = 0,
     wc_Records = 0, wc_PayloadBytes = 0\<rparr>"

record ScanResult =
  sr_Counts :: WireCounts
  sr_FileSHA256 :: hash
  sr_RecordChainHash :: hash

record canonical =
  cz_writes :: "bytes list"
  cz_closed :: bool

record scanner =
  s_faults :: faults
  s_ticks :: nat
  s_manifest :: Manifest
  s_root :: dir_root
  s_file :: bytes
  s_fileSize :: int
  s_input :: bytes
  s_clean :: bool
  s_canonical :: "canonical option"
  s_chain :: hash
  s_counts :: WireCounts
  s_terminated :: bool

datatype scan_error =
    ScanContextNil
  | ScanManifest manifest_error
  | OpenBundle strictio_error
  | BundleLayout strictio_error
  | OpenStateRecords strictio_error
  | RecordsSizeMismatch
  | OpenZstdStream
  | CreateCanonical
  | ReadStreamHeader
  | InvalidMagic
  | ScanContextErr
  | ReadRecordType
  | ScanRecordError record_error
  | ReadRecordHeader
  | ReadRecordPayload
  | CanonicalIsClosed
  | CanonicalWriteFailed
  | TrailingData
  | FinishStateStream
  | TerminatorNotConsumed
  | FinishHashing
  | CanonicalAlreadyClosed
  | CanonicalCloseFailed
  | NotCanonicalZstd
  | RecordCountsMismatch
  | RecordPayloadMismatch
  | RecheckLayout strictio_error
  | RecordsSHA256Mismatch
  | RecordChainMismatch

definition s_tick :: "scanner \<Rightarrow> bool \<times> scanner" where
  "s_tick s = (s_faults s (s_ticks s), s\<lparr>s_ticks := Suc (s_ticks s)\<rparr>)"

section \<open>The canonical re-encoder\<close>

definition canonical_Write :: "bytes \<Rightarrow> scanner \<Rightarrow> scan_error option \<times> scanner" where
  "canonical_Write data s =
     (case s_canonical s of
        None \<Rightarrow> (None, s)
      | Some c \<Rightarrow>
          if cz_closed c then (Some CanonicalIsClosed, s)
          else let (failed, s1) = s_tick s
               in if failed then (Some CanonicalWriteFailed, s1)
                  else (None, s1\<lparr>s_canonical := Some (c\<lparr>cz_writes := cz_writes c @ [data]\<rparr>)\<rparr>))"

definition canonical_Close :: "geth_env \<Rightarrow> canonical \<Rightarrow> scanner \<Rightarrow> (scan_error, int \<times> hash) result \<times> scanner" where
  "canonical_Close env c s =
     (if cz_closed c then (Inl CanonicalAlreadyClosed, s)
      else
        let (flushErr, s1) = s_tick (s\<lparr>s_canonical := Some (c\<lparr>cz_closed := True\<rparr>)\<rparr>);
            (closeErr, s2) = s_tick s1;
            out = zstd_encode env (cz_writes c)
        in if flushErr \<or> closeErr then (Inl CanonicalCloseFailed, s2)
           else (Inr (int (length out), sha256 env out), s2))"

section \<open>Reading\<close>

function readFull :: "nat \<Rightarrow> bytes \<Rightarrow> scanner \<Rightarrow> (scan_error, bytes) result \<times> scanner" where
  "readFull n acc s =
     (if n = 0 then (Inr acc, s)
      else
        let (cancelled, s1) = s_tick s in
        if cancelled then (Inl ScanContextErr, s1)
        else
          let k = min ioChunkSize n; (failed, s2) = s_tick s1 in
          if failed \<or> length (s_input s2) < k
          then (Inl ReadStreamHeader, s2\<lparr>s_input := []\<rparr>)
          else readFull (n - k) (acc @ take k (s_input s2)) (s2\<lparr>s_input := drop k (s_input s2)\<rparr>))"
  by pat_completeness auto
termination
  by (relation "measure fst") (auto simp: ioChunkSize_def)

declare readFull.simps [simp del]

function readPayload ::
  "nat \<Rightarrow> bytes \<Rightarrow> bytes \<Rightarrow> scanner \<Rightarrow> (scan_error, bytes \<times> bytes) result \<times> scanner" where
  "readPayload n acc hs s =
     (if n = 0 then (Inr (acc, hs), s)
      else
        let (cancelled, s1) = s_tick s in
        if cancelled then (Inl ScanContextErr, s1)
        else
          let k = min ioChunkSize n; (failed, s2) = s_tick s1 in
          if failed \<or> length (s_input s2) < k
          then (Inl ReadRecordPayload, s2\<lparr>s_input := []\<rparr>)
          else
            let chunk = take k (s_input s2);
                (err, s3) = canonical_Write chunk (s2\<lparr>s_input := drop k (s_input s2)\<rparr>)
            in case err of
                 Some e \<Rightarrow> (Inl e, s3)
               | None \<Rightarrow> readPayload (n - k) (acc @ chunk) (hasher_Write hs chunk) s3)"
  by pat_completeness auto
termination
  by (relation "measure fst") (auto simp: ioChunkSize_def)

declare readPayload.simps [simp del]

definition readHeader :: "byte \<Rightarrow> scanner \<Rightarrow> (scan_error, bytes) result \<times> scanner" where
  "readHeader typ s =
     (case recordKeyLength typ of
        Inl e \<Rightarrow> (Inl (ScanRecordError e), s)
      | Inr keyLen \<Rightarrow>
          (case readFull (keyLen + 8) [] s of
             (Inl _, s1) \<Rightarrow> (Inl ReadRecordHeader, s1)
           | (Inr rest, s1) \<Rightarrow> (Inr (typ # rest), s1)))"

definition addCount :: "byte \<Rightarrow> u64 \<Rightarrow> WireCounts \<Rightarrow> WireCounts" where
  "addCount typ len c =
     (let c1 = c\<lparr>wc_Records := wc_Records c + 1, wc_PayloadBytes := wc_PayloadBytes c + len\<rparr> in
      if typ = RecordAccount then c1\<lparr>wc_Accounts := wc_Accounts c1 + 1\<rparr>
      else if typ = RecordStorage then c1\<lparr>wc_StorageSlots := wc_StorageSlots c1 + 1\<rparr>
      else if typ = RecordCode then c1\<lparr>wc_CodeRecords := wc_CodeRecords c1 + 1\<rparr>
      else c1)"

text \<open>\<^verbatim>\<open>common.BytesToHash\<close> is only applied to slices of exactly 32 bytes here.\<close>

definition recordFromHeader :: "byte \<Rightarrow> bytes \<Rightarrow> bytes \<Rightarrow> Record" where
  "recordFromHeader typ hdr payload =
     (let key = take (length hdr - 9) (drop 1 hdr);
          r = \<lparr>Type = typ, AccountHash = take HashLength key, SubHash = zero_hash, Payload = payload\<rparr>
      in if typ = RecordStorage then r\<lparr>SubHash := drop HashLength key\<rparr>
         else if typ = RecordCode then r\<lparr>SubHash := AccountHash r, AccountHash := zero_hash\<rparr>
         else r)"

definition finishTerminator :: "scanner \<Rightarrow> scan_error option \<times> scanner" where
  "finishTerminator s =
     (case canonical_Write [recordEnd] s of
        (Some e, s1) \<Rightarrow> (Some e, s1)
      | (None, s1) \<Rightarrow>
          let (failed, s2) = s_tick s1 in
          if failed then (Some FinishStateStream, s2)
          else if s_input s2 \<noteq> [] then (Some TrailingData, s2\<lparr>s_input := tl (s_input s2)\<rparr>)
          else if \<not> s_clean s2 then (Some FinishStateStream, s2)
          else (None, s2\<lparr>s_terminated := True\<rparr>))"

text \<open>A record, or \<open>None\<close> at the end of the stream.\<close>

definition scanner_Next :: "geth_env \<Rightarrow> scanner \<Rightarrow> (scan_error, Record option) result \<times> scanner" where
  "scanner_Next env s =
     (if s_terminated s then (Inr None, s)
      else
        let (cancelled, s1) = s_tick s in
        if cancelled then (Inl ScanContextErr, s1)
        else
          let (failed, s2) = s_tick s1 in
          (case s_input s2 of
             [] \<Rightarrow> (Inl ReadRecordType, s2)
           | typ # rest \<Rightarrow>
               if failed then (Inl ReadRecordType, s2)
               else
                 let s3 = s2\<lparr>s_input := rest\<rparr> in
                 if typ = recordEnd then
                   (case finishTerminator s3 of
                      (Some e, s4) \<Rightarrow> (Inl e, s4)
                    | (None, s4) \<Rightarrow> (Inr None, s4))
                 else
                   (case readHeader typ s3 of
                      (Inl e, s4) \<Rightarrow> (Inl e, s4)
                    | (Inr hdr, s4) \<Rightarrow>
                        let len = be64_read (drop (length hdr - 8) hdr) in
                        (case validatePayloadLength typ len of
                           Inl e \<Rightarrow> (Inl (ScanRecordError e), s4)
                         | Inr _ \<Rightarrow>
                             (case canonical_Write hdr s4 of
                                (Some e, s5) \<Rightarrow> (Inl e, s5)
                              | (None, s5) \<Rightarrow>
                                  (case readPayload (unat len) [] (hasher_Start (s_chain s5) hdr) s5 of
                                     (Inl e, s6) \<Rightarrow> (Inl e, s6)
                                   | (Inr (payload, hs), s6) \<Rightarrow>
                                       (Inr (Some (recordFromHeader typ hdr payload)),
                                        s6\<lparr>s_chain := hasher_Sum env hs,
                                           s_counts := addCount typ len (s_counts s6)\<rparr>)))))))"

section \<open>Finishing and opening\<close>

definition verifyCounts :: "scanner \<Rightarrow> (scan_error, unit) result" where
  "verifyCounts s =
     (let want = m_Counts (s_manifest s); got = s_counts s in
      if wc_Accounts got \<noteq> Accounts want \<or> wc_StorageSlots got \<noteq> StorageSlots want \<or>
         wc_CodeRecords got \<noteq> CodeRecords want \<or> wc_Records got \<noteq> Records want
      then Inl RecordCountsMismatch
      else if wc_PayloadBytes got \<noteq> RecordPayloadBytes (m_StateFile (s_manifest s))
      then Inl RecordPayloadMismatch
      else Inr ())"

definition finishCanonical :: "geth_env \<Rightarrow> hash \<Rightarrow> scanner \<Rightarrow> scan_error option \<times> scanner" where
  "finishCanonical env fileHash s =
     (case s_canonical s of
        None \<Rightarrow> (None, s)
      | Some c \<Rightarrow>
          (case canonical_Close env c s of
             (Inl e, s1) \<Rightarrow> (Some e, s1)
           | (Inr (canonicalSize, canonicalHash), s1) \<Rightarrow>
               if canonicalSize \<noteq> s_fileSize s1 \<or> canonicalHash \<noteq> fileHash
               then (Some NotCanonicalZstd, s1) else (None, s1)))"

definition bundle_layout :: "Manifest \<Rightarrow> (string \<times> EntryKind) list" where
  "bundle_layout m = [(ManifestFileName, RegularFile), (Name (m_StateFile m), RegularFile)]"

text \<open>
  \<^verbatim>\<open>copyContext\<close> drains what the decoder left unread of the file, so the digest covers the
  whole file; it fails when a poll or a read fails.
\<close>

definition scanner_Finish :: "geth_env \<Rightarrow> scanner \<Rightarrow> (scan_error, ScanResult) result \<times> scanner" where
  "scanner_Finish env s =
     (if \<not> s_terminated s then (Inl TerminatorNotConsumed, s)
      else
        let (failed, s1) = s_tick s in
        if failed then (Inl FinishHashing, s1)
        else
          let fileHash = sha256 env (s_file s1) in
          (case finishCanonical env fileHash s1 of
             (Some e, s2) \<Rightarrow> (Inl e, s2)
           | (None, s2) \<Rightarrow>
               (case verifyCounts s2 of
                  Inl e \<Rightarrow> (Inl e, s2)
                | Inr _ \<Rightarrow>
                    (case RequireExactLayout (s_root s2) (bundle_layout (s_manifest s2)) of
                       Inl e \<Rightarrow> (Inl (RecheckLayout e), s2)
                     | Inr _ \<Rightarrow>
                         let result = \<lparr>sr_Counts = s_counts s2, sr_FileSHA256 = fileHash,
                               sr_RecordChainHash = s_chain s2\<rparr>;
                             f = m_StateFile (s_manifest s2)
                         in if sr_FileSHA256 result \<noteq> SHA256 f then (Inl RecordsSHA256Mismatch, s2)
                            else if sr_RecordChainHash result \<noteq> RecordChainHash f
                            then (Inl RecordChainMismatch, s2)
                            else (Inr result, s2)))))"

definition openRecordScanner ::
  "geth_env \<Rightarrow> faults option \<Rightarrow> (strictio_error, dir_root) result \<Rightarrow> Manifest \<Rightarrow>
   (scan_error, scanner) result" where
  "openRecordScanner env ctx openedRoot manifest =
     (case ctx of
        None \<Rightarrow> Inl ScanContextNil
      | Some faults \<Rightarrow>
          bindR (mapErr ScanManifest (Manifest_Validate env manifest)) (\<lambda>_.
          bindR (mapErr OpenBundle openedRoot) (\<lambda>root.
          bindR (mapErr BundleLayout (RequireExactLayout root (bundle_layout manifest))) (\<lambda>_.
          bindR (mapErr OpenStateRecords (OpenRegular root (Name (m_StateFile manifest)))) (\<lambda>(e, info).
            if fi_size info \<noteq> Size (m_StateFile manifest) then Inl RecordsSizeMismatch
            else
              let file = (case de_data e of None \<Rightarrow> [] | Some content \<Rightarrow> content);
                  zstd = (Compression (m_StateFile manifest) = CompressionZstd);
                  s0 = \<lparr>s_faults = faults, s_ticks = 0, s_manifest = manifest, s_root = root,
                        s_file = file, s_fileSize = fi_size info,
                        s_input = (if zstd then fst (zstd_decode env file) else file),
                        s_clean = (if zstd then snd (zstd_decode env file) else de_data e \<noteq> None),
                        s_canonical = None, s_chain = zero_hash, s_counts = emptyWireCounts,
                        s_terminated = False\<rparr>;
                  (decoderErr, s1) = (if zstd then s_tick s0 else (False, s0))
              in if decoderErr then Inl OpenZstdStream
                 else
                   let (canonicalErr, s2) = (if zstd then s_tick s1 else (False, s1));
                       s3 = (if zstd then s2\<lparr>s_canonical := Some \<lparr>cz_writes = [], cz_closed = False\<rparr>\<rparr>
                             else s2)
                   in if canonicalErr then Inl CreateCanonical
                      else (case readFull (length streamMagic) [] s3 of
                              (Inl _, _) \<Rightarrow> Inl ReadStreamHeader
                            | (Inr magic, s4) \<Rightarrow>
                                if magic \<noteq> streamMagic then Inl InvalidMagic
                                else (case canonical_Write magic s4 of
                                        (Some e, _) \<Rightarrow> Inl e
                                      | (None, s5) \<Rightarrow>
                                          Inr (s5\<lparr>s_chain := initialChainHash env
                                                 (HeadBefore (Source manifest))
                                                 (HeaderRLP (Source manifest))\<rparr>))))))))"

section \<open>Every record read shortens the input\<close>

lemma s_tick_sel [simp]:
  "fst (s_tick s) = s_faults s (s_ticks s)" "s_input (snd (s_tick s)) = s_input s"
  by (simp_all add: s_tick_def)

lemma s_tick_eq: "s_tick s = (f, s') \<longleftrightarrow> f = s_faults s (s_ticks s) \<and> s' = s\<lparr>s_ticks := Suc (s_ticks s)\<rparr>"
  by (auto simp: s_tick_def)

lemma canonical_Write_input: "canonical_Write d s = (e, s') \<Longrightarrow> s_input s' = s_input s"
  by (auto simp: canonical_Write_def s_tick_def split: option.splits if_splits)

lemma readFull_input: "readFull n acc s = (r, s') \<Longrightarrow> length (s_input s') \<le> length (s_input s)"
proof (induction n acc s arbitrary: r s' rule: readFull.induct)
  case (1 n acc s)
  show ?case
    using 1 by (subst (asm) (2) readFull.simps)
      (fastforce simp: s_tick_def Let_def split: if_splits)
qed

lemma readPayload_input: "readPayload n acc hs s = (r, s') \<Longrightarrow> length (s_input s') \<le> length (s_input s)"
proof (induction n acc hs s arbitrary: r s' rule: readPayload.induct)
  case (1 n acc hs s)
  show ?case
    using 1 by (subst (asm) (2) readPayload.simps)
      (fastforce simp: s_tick_def Let_def split: if_splits prod.splits option.splits
         dest: canonical_Write_input)
qed

lemma scanner_Next_shorter:
  assumes "scanner_Next env s = (Inr (Some r), s')"
  shows "length (s_input s') < length (s_input s)"
  using assms
  by (auto simp: scanner_Next_def readHeader_def Let_def s_tick_def
        split: if_splits list.splits prod.splits sum.splits option.splits
        dest!: readFull_input readPayload_input canonical_Write_input)

section \<open>The scan loop\<close>

datatype 'e scan_failure = ScanFailed scan_error | ConsumeFailed u64 'e | ScanCloseFailed

function scan_loop ::
  "geth_env \<Rightarrow> (Record \<Rightarrow> 'c \<Rightarrow> ('e, 'c) result) \<Rightarrow> scanner \<Rightarrow> 'c \<Rightarrow> ('e scan_failure, 'c) result \<times> scanner" where
  "scan_loop env consume s c =
     (case scanner_Next env s of
        (Inl e, s') \<Rightarrow> (Inl (ScanFailed e), s')
      | (Inr None, s') \<Rightarrow> (Inr c, s')
      | (Inr (Some r), s') \<Rightarrow>
          (case consume r c of
             Inl e \<Rightarrow> (Inl (ConsumeFailed (wc_Records (s_counts s')) e), s')
           | Inr c' \<Rightarrow> scan_loop env consume s' c'))"
  by pat_completeness auto
termination
  by (relation "measure (\<lambda>(env, consume, s, c). length (s_input s))")
     (auto dest: scanner_Next_shorter [OF sym])

declare scan_loop.simps [simp del]

text \<open>\<^verbatim>\<open>recordScanner.Close\<close>: abort the re-encoder, close the file and the root; errors are joined.\<close>

definition scanner_Close :: "scanner \<Rightarrow> bool \<times> scanner" where
  "scanner_Close s =
     (let (abortErr, s1) =
            (case s_canonical s of
               None \<Rightarrow> (False, s)
             | Some c \<Rightarrow> if cz_closed c then (False, s\<lparr>s_canonical := None\<rparr>)
                         else s_tick (s\<lparr>s_canonical := None\<rparr>));
          (fileErr, s2) = s_tick s1;
          (rootErr, s3) = s_tick s2
      in (abortErr \<or> fileErr \<or> rootErr, s3))"

definition scanRecords ::
  "geth_env \<Rightarrow> faults option \<Rightarrow> (strictio_error, dir_root) result \<Rightarrow> Manifest \<Rightarrow>
   (Record \<Rightarrow> 'c \<Rightarrow> ('e, 'c) result) \<Rightarrow> 'c \<Rightarrow> ('e scan_failure, ScanResult \<times> 'c) result" where
  "scanRecords env ctx openedRoot manifest consume c =
     bindR (mapErr ScanFailed (openRecordScanner env ctx openedRoot manifest)) (\<lambda>s.
       case scan_loop env consume s c of
         (Inl e, _) \<Rightarrow> Inl e
       | (Inr c', s1) \<Rightarrow>
           (case scanner_Finish env s1 of
              (Inl e, _) \<Rightarrow> Inl (ScanFailed e)
            | (Inr result, s2) \<Rightarrow>
                if fst (scanner_Close s2) then Inl ScanCloseFailed else Inr (result, c')))"

end
