(* ===== verification/RecordRoundtrip.thy ===== *)
theory RecordRoundtrip
  imports RecordScanner
begin

text \<open>
  The record stream as a code. Every record the scanner delivers is one the stream can carry and
  the bytes consumed are exactly its encoding (whatever fails around it); conversely, when no call
  fails, the scanner delivers the records that were encoded, in order, and hands its re-encoder
  the very writes of the writer. The two directions give the round trip of the whole stream.
\<close>

section \<open>The scanner's effect on its state\<close>

definition canon_add :: "bytes list \<Rightarrow> scanner \<Rightarrow> scanner" where
  "canon_add ws s = s\<lparr>s_canonical := map_option (\<lambda>c. c\<lparr>cz_writes := cz_writes c @ ws\<rparr>) (s_canonical s)\<rparr>"

definition canon_open :: "scanner \<Rightarrow> bool" where
  "canon_open s \<longleftrightarrow> (\<forall>c. s_canonical s = Some c \<longrightarrow> \<not> cz_closed c)"

text \<open>
  \<open>took s bs ws s'\<close>: going from \<open>s\<close> to \<open>s'\<close> the bytes \<open>bs\<close> were consumed and the writes
  \<open>ws\<close> handed to the re-encoder, and nothing else changed but the number of outside calls.
\<close>

definition took :: "scanner \<Rightarrow> bytes \<Rightarrow> bytes list \<Rightarrow> scanner \<Rightarrow> bool" where
  "took s bs ws s' \<longleftrightarrow>
     s_input s = bs @ s_input s' \<and>
     s' = (canon_add ws s)\<lparr>s_ticks := s_ticks s', s_input := s_input s'\<rparr>"

lemma took_refl [simp]: "took s [] [] s"
  by (cases s; cases "s_canonical s") (auto simp: took_def canon_add_def)

lemma canon_add_add: "canon_add ws (canon_add vs s) = canon_add (vs @ ws) s"
  by (cases "s_canonical s") (auto simp: canon_add_def)

lemma took_trans: "took a bs ws b \<Longrightarrow> took b cs vs c \<Longrightarrow> took a (bs @ cs) (ws @ vs) c"
  unfolding took_def
  by (cases a; cases b; cases c; cases "s_canonical a") (auto simp: canon_add_def)

lemma took_tick: "took (snd (s_tick s)) bs ws s' \<Longrightarrow> took s bs ws s'"
  by (cases s; cases s') (auto simp: took_def canon_add_def s_tick_def)

lemma took_sel:
  assumes "took s bs ws s'"
  shows "s_faults s' = s_faults s" "s_chain s' = s_chain s" "s_counts s' = s_counts s"
    "s_manifest s' = s_manifest s" "s_root s' = s_root s" "s_file s' = s_file s"
    "s_fileSize s' = s_fileSize s" "s_clean s' = s_clean s" "s_terminated s' = s_terminated s"
    "s_input s = bs @ s_input s'" "canon_open s' = canon_open s"
    "s_canonical s' = map_option (\<lambda>c. c\<lparr>cz_writes := cz_writes c @ ws\<rparr>) (s_canonical s)"
  using assms unfolding took_def
  by (cases s; cases s'; auto simp: canon_add_def canon_open_def)+

lemma took_read: "k \<le> length (s_input s) \<Longrightarrow> took s (take k (s_input s)) [] (s\<lparr>s_input := drop k (s_input s)\<rparr>)"
  by (cases s; cases "s_canonical s") (auto simp: took_def canon_add_def)

section \<open>Reads that succeeded\<close>

lemma canonical_Write_took: "canonical_Write d s = (None, s') \<Longrightarrow> took s [] [d] s'"
  by (cases s; cases s')
     (auto simp: canonical_Write_def took_def canon_add_def s_tick_def split: option.splits if_splits)

text \<open>The loops, one turn at a time.\<close>

lemma readFull_0 [simp]: "readFull 0 acc s = (Inr acc, s)"
  by (subst readFull.simps) simp

lemma readPayload_0 [simp]: "readPayload 0 acc hs s = (Inr (acc, hs), s)"
  by (subst readPayload.simps) simp

definition read_chunk :: "nat \<Rightarrow> scanner \<Rightarrow> scanner" where
  "read_chunk k s = s\<lparr>s_ticks := Suc (Suc (s_ticks s)), s_input := drop k (s_input s)\<rparr>"

lemma took_read_chunk: "k \<le> length (s_input s) \<Longrightarrow> took s (take k (s_input s)) [] (read_chunk k s)"
  by (cases s; cases "s_canonical s") (auto simp: took_def canon_add_def read_chunk_def)

lemma readFull_turn:
  assumes "n \<noteq> 0" and "readFull n acc s = (Inr b, s')"
  shows "min ioChunkSize n \<le> length (s_input s) \<and>
     readFull (n - min ioChunkSize n) (acc @ take (min ioChunkSize n) (s_input s))
       (read_chunk (min ioChunkSize n) s) = (Inr b, s')"
  using assms
  by (subst (asm) readFull.simps)
     (auto simp: Let_def s_tick_def read_chunk_def not_less split: if_splits)

lemma readPayload_turn:
  assumes "n \<noteq> 0" and "readPayload n acc hs s = (Inr b, s')"
  shows "min ioChunkSize n \<le> length (s_input s) \<and>
     (\<exists>s1. canonical_Write (take (min ioChunkSize n) (s_input s)) (read_chunk (min ioChunkSize n) s) = (None, s1) \<and>
        readPayload (n - min ioChunkSize n) (acc @ take (min ioChunkSize n) (s_input s))
          (hs @ take (min ioChunkSize n) (s_input s)) s1 = (Inr b, s'))"
  using assms
  by (subst (asm) readPayload.simps)
     (auto simp: Let_def s_tick_def read_chunk_def hasher_Write_def not_less
        split: if_splits prod.splits option.splits)

lemma ioChunkSize_pos [simp]: "0 < ioChunkSize"
  by (simp add: ioChunkSize_def)

lemma readFull_took:
  "readFull n acc s = (Inr b, s') \<Longrightarrow> \<exists>bs. b = acc @ bs \<and> length bs = n \<and> took s bs [] s'"
proof (induction n arbitrary: acc s rule: less_induct)
  case (less n)
  show ?case
  proof (cases "n = 0")
    case True
    with less.prems show ?thesis by simp
  next
    case False
    let ?k = "min ioChunkSize n"
    note turn = readFull_turn [OF False less.prems]
    have "n - ?k < n" using False by (simp add: min_def)
    from less.IH [OF this conjunct2 [OF turn]] obtain bs where
      bs: "b = (acc @ take ?k (s_input s)) @ bs" "length bs = n - ?k" "took (read_chunk ?k s) bs [] s'"
      by blast
    with took_trans [OF took_read_chunk bs(3)] turn show ?thesis
      by (intro exI [of _ "take ?k (s_input s) @ bs"]) auto
  qed
qed

lemma payload_chunks_take:
  "n = length p \<Longrightarrow> n \<noteq> 0 \<Longrightarrow>
     payload_chunks p = take (min ioChunkSize n) p # payload_chunks (drop (min ioChunkSize n) p)"
  by (subst payload_chunks.simps) (auto simp: min_def)

lemma payload_chunks_Nil [simp]: "payload_chunks [] = []"
  by (subst payload_chunks.simps) simp

lemma readPayload_took:
  "readPayload n acc hs s = (Inr (p, hs'), s') \<Longrightarrow>
     \<exists>bs. p = acc @ bs \<and> hs' = hs @ bs \<and> length bs = n \<and> took s bs (payload_chunks bs) s'"
proof (induction n arbitrary: acc hs s rule: less_induct)
  case (less n)
  show ?case
  proof (cases "n = 0")
    case True
    with less.prems show ?thesis by simp
  next
    case False
    let ?k = "min ioChunkSize n"
    let ?c = "take ?k (s_input s)"
    from readPayload_turn [OF False less.prems] obtain s1 where
      len: "?k \<le> length (s_input s)" and w: "canonical_Write ?c (read_chunk ?k s) = (None, s1)"
      and rec: "readPayload (n - ?k) (acc @ ?c) (hs @ ?c) s1 = (Inr (p, hs'), s')" by blast
    have "n - ?k < n" using False by (simp add: min_def)
    from less.IH [OF this rec] obtain bs where
      bs: "p = (acc @ ?c) @ bs" "hs' = (hs @ ?c) @ bs" "length bs = n - ?k"
        "took s1 bs (payload_chunks bs) s'" by blast
    have "took s (?c @ [] @ bs) ([] @ [?c] @ payload_chunks bs) s'"
      by (rule took_trans [OF took_read_chunk [OF len] took_trans [OF canonical_Write_took [OF w] bs(4)]])
    moreover have "payload_chunks (?c @ bs) = ?c # payload_chunks bs"
      using payload_chunks_take [of n "?c @ bs"] len False bs(3) by (auto simp: min_def)
    ultimately show ?thesis
      using bs len by (intro exI [of _ "?c @ bs"]) auto
  qed
qed

section \<open>A delivered record\<close>

definition counted :: "Record \<Rightarrow> WireCounts \<Rightarrow> WireCounts" where
  "counted r c = addCount (Type r) (of_nat (length (Payload r))) c"

text \<open>The scanner's state after it delivered the record \<open>r\<close>.\<close>

definition delivered :: "geth_env \<Rightarrow> scanner \<Rightarrow> Record \<Rightarrow> scanner \<Rightarrow> bool" where
  "delivered env s r s' \<longleftrightarrow>
     (\<exists>s1. took s (record_bytes r) (record_writes r) s1 \<and>
        s' = s1\<lparr>s_chain := chain_step env r (s_chain s), s_counts := counted r (s_counts s)\<rparr>)"

lemma recordKeyLength_ok:
  "validatePayloadLength typ n = Inr u \<Longrightarrow>
     recordKeyLength typ = Inr (if typ = RecordStorage then 2 * HashLength else HashLength)"
  by (auto simp: validatePayloadLength_def recordKeyLength_def record_kinds split: if_splits)

lemma take_two_parts: "take n xs @ drop n (take (2 * n) xs) = take (2 * n) xs"
  using append_take_drop_id [of n "take (2 * n) xs"] by (simp add: min_def)

lemma validatePayloadLength_bound: "validatePayloadLength typ n = Inr u \<Longrightarrow> unat n \<le> 134217728"
  by (auto simp: validatePayloadLength_def maxAccountPayload_def maxStoragePayload_def
        maxCodePayload_def word_le_nat_alt not_less split: if_splits)

text \<open>Splitting the header a record was read with.\<close>

lemma header_split:
  assumes "validatePayloadLength typ (be64_read (drop (length hdr - 8) hdr)) = Inr u"
    and "recordKeyLength typ = Inr n" and "hdr = typ # bs" and "length bs = n + 8"
    and "length p = unat (be64_read (drop (length hdr - 8) hdr))"
  shows "hdr = record_header typ (rec_key (recordFromHeader typ hdr p))
            (rec_subkey (recordFromHeader typ hdr p)) (length p) \<and> record_ok (recordFromHeader typ hdr p)"
proof -
  let ?key = "take n bs" and ?len = "drop n bs"
  let ?r = "recordFromHeader typ hdr p"
  from assms(3,4) have len: "drop (length hdr - 8) hdr = ?len" and key: "take (length hdr - 9) (drop 1 hdr) = ?key"
    by simp_all
  from assms(4) have "be64 (be64_read ?len) = ?len" by (simp add: be64_be64_read)
  then have lenw: "be64 (of_nat (length p)) = ?len" using assms(5) len by simp
  from validatePayloadLength_kind assms(1)
  have kind: "typ = RecordAccount \<or> typ = RecordStorage \<or> typ = RecordCode" by force
  have n: "n = (if typ = RecordStorage then 2 * HashLength else HashLength)"
    using recordKeyLength_ok [OF assms(1)] assms(2) by simp
  have r: "Type ?r = typ" "Payload ?r = p" "rec_key ?r @ rec_subkey ?r = ?key"
    using kind n assms(4) unfolding recordFromHeader_def key
    by (auto simp: rec_key_def rec_subkey_def record_kinds Let_def take_two_parts)
  have "hdr = typ # ?key @ ?len" using assms(3) by simp
  then have "hdr = record_header typ (rec_key ?r) (rec_subkey ?r) (length p)"
    unfolding record_header_def lenw append_assoc [symmetric] r(3) by simp
  moreover have "go_slice p"
    using assms(5) validatePayloadLength_bound [OF assms(1)] by (simp add: go_slice_def)
  moreover have "is_hash (AccountHash ?r)" "is_hash (SubHash ?r)"
    "typ = RecordAccount \<longrightarrow> SubHash ?r = zero_hash" "typ = RecordCode \<longrightarrow> AccountHash ?r = zero_hash"
    using kind n assms(4) unfolding recordFromHeader_def key
    by (auto simp: is_hash_def record_kinds HashLength_def zero_hash_def Let_def)
  moreover have "validatePayloadLength typ (of_nat (length p)) = Inr ()"
    using assms(1,5) by simp
  ultimately show ?thesis using r(1,2) by (simp add: record_ok_def)
qed

lemma scanner_Next_delivered:
  assumes "scanner_Next env s = (Inr (Some r), s')"
  shows "record_ok r \<and> delivered env s r s' \<and> \<not> s_terminated s"
proof -
  let ?s2 = "snd (s_tick (snd (s_tick s)))"
  from assms obtain ty rest hdr s4 s5 s6 p hs where
    nt: "\<not> s_terminated s" and inp: "s_input s = ty # rest"
    and rh: "readHeader ty (?s2\<lparr>s_input := rest\<rparr>) = (Inr hdr, s4)"
    and val: "validatePayloadLength ty (be64_read (drop (length hdr - 8) hdr)) = Inr ()"
    and w: "canonical_Write hdr s4 = (None, s5)"
    and pay: "readPayload (unat (be64_read (drop (length hdr - 8) hdr))) [] (hasher_Start (s_chain s5) hdr) s5
               = (Inr (p, hs), s6)"
    and r: "r = recordFromHeader ty hdr p"
    and s': "s' = s6\<lparr>s_chain := hasher_Sum env hs,
               s_counts := addCount ty (be64_read (drop (length hdr - 8) hdr)) (s_counts s6)\<rparr>"
    by (auto simp: scanner_Next_def Let_def s_tick_def
          split: if_splits list.splits prod.splits sum.splits option.splits)
  from rh obtain n bs where n: "recordKeyLength ty = Inr n" and bs: "hdr = ty # bs" "length bs = n + 8"
    and t1: "took (?s2\<lparr>s_input := rest\<rparr>) bs [] s4"
    by (auto simp: readHeader_def split: sum.splits prod.splits dest!: readFull_took)
  from readPayload_took [OF pay] have hs: "hs = s_chain s5 @ hdr @ p"
    and lp: "length p = unat (be64_read (drop (length hdr - 8) hdr))"
    and t3: "took s5 p (payload_chunks p) s6" by (auto simp: hasher_Start_def)
  from header_split [OF val n bs lp] have ok: "record_ok r"
    and hd: "hdr = record_header ty (rec_key r) (rec_subkey r) (length p)" by (simp_all add: r)
  have tp: "Type r = ty" "Payload r = p"
    by (simp_all add: r recordFromHeader_def Let_def)
  have rb: "record_bytes r = hdr @ p" and rw: "record_writes r = hdr # payload_chunks p"
    using hd tp by (simp_all add: record_bytes_def record_writes_def)
  have "took s [ty] [] (?s2\<lparr>s_input := rest\<rparr>)"
    using inp by (cases s; cases "s_canonical s") (auto simp: took_def canon_add_def s_tick_def)
  note t = took_trans [OF this took_trans [OF t1 took_trans [OF canonical_Write_took [OF w] t3]]]
  have "took s (record_bytes r) (record_writes r) s6"
    using t by (simp add: rb rw bs(1))
  moreover have "s_chain s5 = s_chain s" "s_counts s6 = s_counts s"
    using took_sel(2) [OF t1] took_sel(2) [OF canonical_Write_took [OF w]] took_sel(3) [OF calculation]
    by (simp_all add: s_tick_def)
  ultimately have "delivered env s r s'"
    unfolding delivered_def using lp
    by (intro exI [of _ s6]) (simp add: s' hs hasher_Sum_def chain_step_def rb counted_def tp)
  with ok nt show ?thesis by simp
qed

section \<open>The record encoding is a prefix code\<close>

text \<open>The parser the scanner implements, without its effects.\<close>

definition record_parse :: "bytes \<Rightarrow> (Record \<times> bytes) option" where
  "record_parse bs =
     (case bs of
        [] \<Rightarrow> None
      | ty # rest \<Rightarrow>
          (case recordKeyLength ty of
             Inl _ \<Rightarrow> None
           | Inr n \<Rightarrow>
               let hdr = ty # take (n + 8) rest; body = drop (n + 8) rest;
                   len = be64_read (drop (length hdr - 8) hdr)
               in if length rest < n + 8 \<or> validatePayloadLength ty len \<noteq> Inr () \<or> length body < unat len
                  then None
                  else Some (recordFromHeader ty hdr (take (unat len) body), drop (unat len) body)))"

lemma record_ok_lengths:
  assumes "record_ok r"
  shows "recordKeyLength (Type r) = Inr (length (rec_key r) + length (rec_subkey r))"
    and "Type r = RecordAccount \<or> Type r = RecordStorage \<or> Type r = RecordCode"
  using assms validatePayloadLength_kind [of "Type r"]
  by (auto simp: record_ok_def recordKeyLength_def rec_key_def rec_subkey_def is_hash_def record_kinds)

lemma recordFromHeader_header:
  assumes "record_ok r"
  shows "recordFromHeader (Type r) (record_header (Type r) (rec_key r) (rec_subkey r) n) (Payload r) = r"
  using assms record_ok_lengths(2) [OF assms]
  by (cases r)
     (auto simp: recordFromHeader_def record_header_def record_ok_def rec_key_def rec_subkey_def
        is_hash_def record_kinds Let_def)

lemma record_parse_bytes: "record_ok r \<Longrightarrow> record_parse (record_bytes r @ rest) = Some (r, rest)"
proof -
  assume ok: "record_ok r"
  let ?n = "length (rec_key r) + length (rec_subkey r)"
  let ?tail = "rec_key r @ rec_subkey r @ be64 (of_nat (length (Payload r)))"
  have hdr: "record_header (Type r) (rec_key r) (rec_subkey r) (length (Payload r)) = Type r # ?tail"
    by (simp add: record_header_def)
  have len: "drop ?n ?tail = be64 (of_nat (length (Payload r)))" by simp
  have go: "go_slice (Payload r)" and
    val: "validatePayloadLength (Type r) (of_nat (length (Payload r))) = Inr ()"
    using ok by (simp_all add: record_ok_def)
  show "record_parse (record_bytes r @ rest) = Some (r, rest)"
    using recordFromHeader_header [OF ok, of "length (Payload r)"] go val
    by (simp add: record_parse_def record_bytes_def hdr record_ok_lengths(1) [OF ok] Let_def)
qed

interpretation recs: prefix_code record_bytes record_parse record_ok
  by unfold_locales (simp add: record_parse_bytes, simp add: record_bytes_def record_header_def)

section \<open>Reads that cannot fail\<close>

lemma canonical_Write_ok:
  "s_faults s = no_faults \<Longrightarrow> canon_open s \<Longrightarrow> \<exists>s'. canonical_Write d s = (None, s')"
  by (auto simp: canonical_Write_def canon_open_def s_tick_def no_faults_apply split: option.splits)

lemma read_chunk_sel [simp]:
  "s_faults (read_chunk k s) = s_faults s" "s_input (read_chunk k s) = drop k (s_input s)"
  "canon_open (read_chunk k s) = canon_open s"
  by (simp_all add: read_chunk_def canon_open_def)

lemma readFull_ok:
  "s_faults s = no_faults \<Longrightarrow> n \<le> length (s_input s) \<Longrightarrow> \<exists>b s'. readFull n acc s = (Inr b, s')"
proof (induction n arbitrary: acc s rule: less_induct)
  case (less n)
  show ?case
  proof (cases "n = 0")
    case False
    let ?k = "min ioChunkSize n"
    have "readFull n acc s = readFull (n - ?k) (acc @ take ?k (s_input s)) (read_chunk ?k s)"
      using False less.prems
      by (subst readFull.simps) (simp add: s_tick_def read_chunk_def Let_def no_faults_apply)
    moreover have "n - ?k < n" using False by (simp add: min_def)
    ultimately show ?thesis using less.IH [of "n - ?k" "read_chunk ?k s"] less.prems by simp
  qed simp
qed

lemma readPayload_ok:
  "s_faults s = no_faults \<Longrightarrow> canon_open s \<Longrightarrow> n \<le> length (s_input s) \<Longrightarrow>
     \<exists>b s'. readPayload n acc hs s = (Inr b, s')"
proof (induction n arbitrary: acc hs s rule: less_induct)
  case (less n)
  show ?case
  proof (cases "n = 0")
    case False
    let ?k = "min ioChunkSize n"
    from canonical_Write_ok [of "read_chunk ?k s"] less.prems obtain s1 where
      s1: "canonical_Write (take ?k (s_input s)) (read_chunk ?k s) = (None, s1)" by auto
    note t = took_sel [OF canonical_Write_took [OF s1]]
    have "readPayload n acc hs s =
        readPayload (n - ?k) (acc @ take ?k (s_input s)) (hasher_Write hs (take ?k (s_input s))) s1"
      using False less.prems s1
      by (subst readPayload.simps) (simp add: s_tick_def read_chunk_def Let_def no_faults_apply)
    moreover have "n - ?k < n" using False by (simp add: min_def)
    moreover have "n - ?k \<le> length (s_input s1)"
      using less.prems t(10) by (metis diff_le_mono length_drop read_chunk_sel(2) append_Nil)
    ultimately show ?thesis using less.IH [of "n - ?k" s1] less.prems t(1,11) by simp
  qed simp
qed

lemma scanner_Next_ok:
  assumes ok: "record_ok r" and inp: "s_input s = record_bytes r @ rest"
    and s: "\<not> s_terminated s" "s_faults s = no_faults" "canon_open s"
  shows "\<exists>s'. scanner_Next env s = (Inr (Some r), s')"
proof -
  let ?n = "length (rec_key r) + length (rec_subkey r)"
  let ?tail = "rec_key r @ rec_subkey r @ be64 (of_nat (length (Payload r)))"
  let ?hdr = "Type r # ?tail"
  let ?s3 = "s\<lparr>s_ticks := Suc (Suc (s_ticks s)), s_input := ?tail @ Payload r @ rest\<rparr>"
  have inp': "s_input s = Type r # ?tail @ Payload r @ rest"
    using inp by (simp add: record_bytes_def record_header_def)
  have nend: "Type r \<noteq> recordEnd" using record_ok_lengths(2) [OF ok] by (auto simp: record_kinds)
  from readFull_ok [of ?s3 "?n + 8" "[]"] s obtain b s4 where b: "readFull (?n + 8) [] ?s3 = (Inr b, s4)"
    by auto
  from readFull_took [OF b] have t: "length b = length ?tail" "took ?s3 b [] s4" by auto
  have "?tail @ Payload r @ rest = b @ s_input s4" using took_sel(10) [OF t(2)] by simp
  with t(1) have "b = ?tail" by (metis append_eq_append_conv)
  with t have t4: "took ?s3 ?tail [] s4" by simp
  from b \<open>b = ?tail\<close> have hdr: "readHeader (Type r) ?s3 = (Inr ?hdr, s4)"
    by (simp add: readHeader_def record_ok_lengths(1) [OF ok])
  from took_sel [OF t4] s have s4: "s_faults s4 = no_faults" "canon_open s4" "s_input s4 = Payload r @ rest"
    by (simp_all add: canon_open_def)
  from canonical_Write_ok [OF s4(1,2)] obtain s5 where w: "canonical_Write ?hdr s4 = (None, s5)" by blast
  from took_sel [OF canonical_Write_took [OF w]] s4
  have s5: "s_faults s5 = no_faults" "canon_open s5" "s_input s5 = Payload r @ rest" by simp_all
  from readPayload_ok [OF s5(1,2), of "length (Payload r)" "[]" "hasher_Start (s_chain s5) ?hdr"] s5(3)
  obtain p hs s6 where p: "readPayload (length (Payload r)) [] (hasher_Start (s_chain s5) ?hdr) s5 = (Inr (p, hs), s6)"
    by auto
  from readPayload_took [OF p] have lp: "length p = length (Payload r)"
    and tp: "took s5 p (payload_chunks p) s6" by auto
  from took_sel(10) [OF tp] s5(3) lp have "p = Payload r" by (metis append_eq_append_conv)
  moreover have "recordFromHeader (Type r) ?hdr (Payload r) = r"
    using recordFromHeader_header [OF ok, of "length (Payload r)"] by (simp add: record_header_def)
  moreover have "validatePayloadLength (Type r) (of_nat (length (Payload r))) = Inr ()"
    and "go_slice (Payload r)" using ok by (simp_all add: record_ok_def)
  moreover have "snd (s_tick (snd (s_tick s))) = s\<lparr>s_ticks := Suc (Suc (s_ticks s))\<rparr>"
    by (simp add: s_tick_def)
  ultimately show ?thesis
    using s inp' nend hdr w p by (simp add: scanner_Next_def s_tick_def Let_def no_faults_apply)
qed

section \<open>The end of the stream\<close>

lemma finishTerminator_None:
  assumes "finishTerminator s = (None, s')"
  shows "\<exists>s1. took s [] [[recordEnd]] s1 \<and> s_input s = [] \<and> s_clean s \<and> s' = s1\<lparr>s_terminated := True\<rparr>"
proof -
  from assms obtain s1 where w: "canonical_Write [recordEnd] s = (None, s1)"
    and fin: "s_input s1 = []" "s_clean s1"
      "s' = (s1\<lparr>s_ticks := Suc (s_ticks s1)\<rparr>)\<lparr>s_terminated := True\<rparr>"
    by (auto simp: finishTerminator_def s_tick_def Let_def split: prod.splits option.splits if_splits)
  have "took s1 [] [] (s1\<lparr>s_ticks := Suc (s_ticks s1)\<rparr>)"
    by (cases s1; cases "s_canonical s1") (auto simp: took_def canon_add_def)
  from took_trans [OF canonical_Write_took [OF w] this]
  show ?thesis using fin took_sel [OF canonical_Write_took [OF w]] by auto
qed

text \<open>The state after the terminator was read.\<close>

definition ended :: "scanner \<Rightarrow> scanner \<Rightarrow> bool" where
  "ended s s' \<longleftrightarrow> s_clean s \<and> s_input s' = [] \<and>
     (\<exists>s1. took s [recordEnd] [[recordEnd]] s1 \<and> s' = s1\<lparr>s_terminated := True\<rparr>)"

lemma scanner_Next_ended:
  assumes "scanner_Next env s = (Inr None, s')" and "\<not> s_terminated s"
  shows "ended s s'"
proof -
  let ?s2 = "s\<lparr>s_ticks := Suc (Suc (s_ticks s))\<rparr>"
  from assms obtain rest where inp: "s_input s = recordEnd # rest"
    and fin: "finishTerminator (?s2\<lparr>s_input := rest\<rparr>) = (None, s')"
    by (auto simp: scanner_Next_def Let_def s_tick_def
          split: if_splits list.splits prod.splits sum.splits option.splits)
  from finishTerminator_None [OF fin] obtain s1 where
    s1: "took (?s2\<lparr>s_input := rest\<rparr>) [] [[recordEnd]] s1" "rest = []" "s_clean s"
      "s' = s1\<lparr>s_terminated := True\<rparr>" by auto
  have "took s [recordEnd] [] (?s2\<lparr>s_input := rest\<rparr>)"
    using inp by (cases s; cases "s_canonical s") (auto simp: took_def canon_add_def)
  from took_trans [OF this s1(1)] took_sel(10) [OF s1(1)] s1 show ?thesis by (auto simp: ended_def)
qed

lemma scanner_Next_end_ok:
  assumes "s_input s = [recordEnd]" "\<not> s_terminated s" "s_faults s = no_faults" "canon_open s" "s_clean s"
  shows "\<exists>s'. scanner_Next env s = (Inr None, s')"
proof -
  let ?s3 = "s\<lparr>s_ticks := Suc (Suc (s_ticks s)), s_input := []\<rparr>"
  from canonical_Write_ok [of ?s3 "[recordEnd]"] assms obtain s1 where
    w: "canonical_Write [recordEnd] ?s3 = (None, s1)" by (auto simp: canon_open_def)
  from took_sel [OF canonical_Write_took [OF w]] assms
  have "s_faults s1 = no_faults" "s_input s1 = []" "s_clean s1" by simp_all
  with w assms show ?thesis
    by (simp add: scanner_Next_def finishTerminator_def s_tick_def Let_def no_faults_apply)
qed

section \<open>The whole stream\<close>

text \<open>A consumer that delivers a list of records, one after the other.\<close>

fun consume_all :: "(Record \<Rightarrow> 'c \<Rightarrow> ('e, 'c) result) \<Rightarrow> Record list \<Rightarrow> 'c \<Rightarrow> ('e, 'c) result" where
  "consume_all consume [] c = Inr c"
| "consume_all consume (r # rs) c = bindR (consume r c) (consume_all consume rs)"

text \<open>The scanner's state after it delivered \<open>rs\<close> and the terminator.\<close>

definition scanned :: "geth_env \<Rightarrow> scanner \<Rightarrow> Record list \<Rightarrow> scanner \<Rightarrow> bool" where
  "scanned env s rs s' \<longleftrightarrow>
     s_input s = concat (map record_bytes rs) @ [recordEnd] \<and> list_all record_ok rs \<and>
     s_clean s \<and> s_terminated s' \<and>
     s_chain s' = fold (chain_step env) rs (s_chain s) \<and> s_counts s' = fold counted rs (s_counts s) \<and>
     s_canonical s' = map_option (\<lambda>c. c\<lparr>cz_writes := cz_writes c @ concat (map record_writes rs) @ [[recordEnd]]\<rparr>)
       (s_canonical s) \<and>
     s_faults s' = s_faults s \<and> s_manifest s' = s_manifest s \<and> s_root s' = s_root s \<and>
     s_file s' = s_file s \<and> s_fileSize s' = s_fileSize s"

lemma scanned_end: "ended s s' \<Longrightarrow> scanned env s [] s'"
  by (auto simp: ended_def scanned_def took_sel)

lemma delivered_sel:
  assumes "delivered env s r s'"
  shows "s_input s = record_bytes r @ s_input s'" "s_faults s' = s_faults s" "s_clean s' = s_clean s"
    "s_terminated s' = s_terminated s" "canon_open s' = canon_open s"
  using assms took_sel by (force simp: delivered_def canon_open_def)+

lemma scanned_Cons:
  assumes "delivered env s r s1" and "record_ok r" and "scanned env s1 rs s'"
  shows "scanned env s (r # rs) s'"
proof -
  from assms(1) obtain s0 where s0: "took s (record_bytes r) (record_writes r) s0"
    and s1: "s1 = s0\<lparr>s_chain := chain_step env r (s_chain s), s_counts := counted r (s_counts s)\<rparr>"
    by (auto simp: delivered_def)
  show ?thesis
    using assms(2,3) took_sel [OF s0] by (cases "s_canonical s") (auto simp: scanned_def s1)
qed

lemma scan_loop_scanned:
  assumes "scan_loop env consume s c = (Inr c', s')" and "\<not> s_terminated s"
  shows "\<exists>rs. scanned env s rs s' \<and> consume_all consume rs c = Inr c'"
  using assms
proof (induction env consume s c rule: scan_loop.induct)
  case (1 env consume s c)
  from "1.prems" consider
      (stop) "scanner_Next env s = (Inr None, s')" "c' = c"
    | (more) r s1 c1 where "scanner_Next env s = (Inr (Some r), s1)" "consume r c = Inr c1"
        "scan_loop env consume s1 c1 = (Inr c', s')"
    by (subst (asm) scan_loop.simps) (auto split: prod.splits sum.splits option.splits)
  then show ?case
  proof cases
    case stop
    with scanner_Next_ended [OF stop(1)] "1.prems"(2) show ?thesis
      by (intro exI [of _ "[]"]) (simp add: scanned_end)
  next
    case more
    note d = scanner_Next_delivered [OF more(1)]
    then have "\<not> s_terminated s1" using delivered_sel(4) by blast
    from "1.IH" [OF more(1) [symmetric] refl refl more(2,3) this]
    obtain rs where "scanned env s1 rs s'" "consume_all consume rs c1 = Inr c'" by blast
    with d more(2) show ?thesis
      by (intro exI [of _ "r # rs"]) (auto intro: scanned_Cons)
  qed
qed

lemma scan_loop_ok:
  assumes "consume_all consume rs c = Inr c'" and "list_all record_ok rs"
    and "s_input s = concat (map record_bytes rs) @ [recordEnd]"
    and "\<not> s_terminated s" "s_faults s = no_faults" "canon_open s" "s_clean s"
  shows "\<exists>s'. scan_loop env consume s c = (Inr c', s') \<and> scanned env s rs s'"
  using assms
proof (induction rs arbitrary: s c)
  case Nil
  then obtain s' where s': "scanner_Next env s = (Inr None, s')"
    using scanner_Next_end_ok by fastforce
  with Nil show ?case
    using scanned_end [OF scanner_Next_ended [OF s']] by (subst scan_loop.simps) simp
next
  case (Cons r rs)
  then obtain s1 where s1: "scanner_Next env s = (Inr (Some r), s1)"
    using scanner_Next_ok [of r s "concat (map record_bytes rs) @ [recordEnd]"] by fastforce
  note d = scanner_Next_delivered [OF s1]
  from Cons.prems(1) obtain c1 where c1: "consume r c = Inr c1" "consume_all consume rs c1 = Inr c'"
    by (auto simp: result_simps)
  have "s_input s1 = concat (map record_bytes rs) @ [recordEnd]"
    using delivered_sel(1) [of env s r s1] d Cons.prems(3) by simp
  with Cons.IH [OF c1(2), of s1] Cons.prems d delivered_sel [of env s r s1] obtain s' where
    "scan_loop env consume s1 c1 = (Inr c', s')" "scanned env s1 rs s'" by auto
  with s1 c1 d show ?case
    by (subst scan_loop.simps) (auto intro: scanned_Cons)
qed

end
