(* ===== verification/Stream.thy ===== *)
theory Stream
  imports RecordRoundtrip
begin

text \<open>
  The record stream end to end: what a successful scan of a bundle certifies, and that the scan
  of what a writer closed delivers the records that were written. The manifest the two agree on
  carries the size, digest, chain hash and counters of the stream.
\<close>

section \<open>Opening\<close>

definition uses_zstd :: "Manifest \<Rightarrow> bool" where
  "uses_zstd m \<longleftrightarrow> Compression (m_StateFile m) = CompressionZstd"

text \<open>The record stream a file holds, and whether its end was reached cleanly.\<close>

definition stream_of :: "geth_env \<Rightarrow> Manifest \<Rightarrow> dir_entry \<Rightarrow> bytes \<times> bool" where
  "stream_of env m e =
     (let file = (case de_data e of None \<Rightarrow> [] | Some content \<Rightarrow> content)
      in if uses_zstd m then zstd_decode env file else (file, de_data e \<noteq> None))"

definition chain0 :: "geth_env \<Rightarrow> Manifest \<Rightarrow> hash" where
  "chain0 env m = initialChainHash env (HeadBefore (Source m)) (HeaderRLP (Source m))"

text \<open>A scanner that stands right behind the magic of the file of the entry \<open>e\<close>.\<close>

definition opened :: "geth_env \<Rightarrow> faults \<Rightarrow> dir_root \<Rightarrow> Manifest \<Rightarrow> dir_entry \<Rightarrow> scanner \<Rightarrow> bool" where
  "opened env faults r m e s \<longleftrightarrow>
     fst (stream_of env m e) = streamMagic @ s_input s \<and> s_clean s = snd (stream_of env m e) \<and>
     s_faults s = faults \<and> s_manifest s = m \<and> s_root s = r \<and>
     s_file s = (case de_data e of None \<Rightarrow> [] | Some content \<Rightarrow> content) \<and>
     s_fileSize s = Size (m_StateFile m) \<and> \<not> s_terminated s \<and> s_chain s = chain0 env m \<and>
     s_counts s = emptyWireCounts \<and>
     s_canonical s = (if uses_zstd m then Some \<lparr>cz_writes = [streamMagic], cz_closed = False\<rparr> else None)"

lemma openRecordScanner_opened:
  assumes "openRecordScanner env ctx openedRoot m = Inr s"
  shows "\<exists>faults r e info. ctx = Some faults \<and> openedRoot = Inr r \<and> Manifest_Validate env m = Inr () \<and>
     RequireExactLayout r (bundle_layout m) = Inr () \<and>
     OpenRegular r (Name (m_StateFile m)) = Inr (e, info) \<and> fi_size info = Size (m_StateFile m) \<and>
     opened env faults r m e s"
proof -
  from assms obtain faults r e info where
    pre: "ctx = Some faults" "openedRoot = Inr r" "Manifest_Validate env m = Inr ()"
      "RequireExactLayout r (bundle_layout m) = Inr ()"
      "OpenRegular r (Name (m_StateFile m)) = Inr (e, info)" "fi_size info = Size (m_StateFile m)"
    by (auto simp: openRecordScanner_def result_simps split: option.splits if_splits)
  let ?file = "case de_data e of None \<Rightarrow> [] | Some content \<Rightarrow> content"
  let ?s3 = "\<lambda>t. \<lparr>s_faults = faults, s_ticks = t, s_manifest = m, s_root = r, s_file = ?file,
      s_fileSize = Size (m_StateFile m), s_input = fst (stream_of env m e), s_clean = snd (stream_of env m e),
      s_canonical = (if uses_zstd m then Some \<lparr>cz_writes = [], cz_closed = False\<rparr> else None),
      s_chain = zero_hash, s_counts = emptyWireCounts, s_terminated = False\<rparr>"
  from assms pre obtain t s4 s5 where
    rd: "readFull (length streamMagic) [] (?s3 t) = (Inr streamMagic, s4)"
    and w: "canonical_Write streamMagic s4 = (None, s5)" and s: "s = s5\<lparr>s_chain := chain0 env m\<rparr>"
    by (auto simp: openRecordScanner_def Let_def s_tick_def stream_of_def uses_zstd_def chain0_def
          split: if_splits sum.splits prod.splits option.splits)
  from readFull_took [OF rd] have "took (?s3 t) streamMagic [] s4" by auto
  from took_sel [OF took_trans [OF this canonical_Write_took [OF w]]]
  have "opened env faults r m e s" by (auto simp: opened_def s)
  with pre show ?thesis by blast
qed

section \<open>Finishing\<close>

text \<open>The counters of the manifest, as far as the stream itself carries them.\<close>

definition wire_counts :: "Counts \<Rightarrow> u64 \<Rightarrow> WireCounts" where
  "wire_counts c payload = \<lparr>wc_Accounts = Accounts c, wc_StorageSlots = StorageSlots c,
     wc_CodeRecords = CodeRecords c, wc_Records = Records c, wc_PayloadBytes = payload\<rparr>"

definition manifest_wire :: "Manifest \<Rightarrow> WireCounts" where
  "manifest_wire m = wire_counts (m_Counts m) (RecordPayloadBytes (m_StateFile m))"

lemma verifyCounts_iff: "verifyCounts s = Inr () \<longleftrightarrow> s_counts s = manifest_wire (s_manifest s)"
  by (cases "s_counts s") (auto simp: verifyCounts_def manifest_wire_def wire_counts_def Let_def)

text \<open>What finishing a terminated scanner requires of its state.\<close>

definition finish_ok :: "geth_env \<Rightarrow> scanner \<Rightarrow> bool" where
  "finish_ok env s \<longleftrightarrow>
     s_terminated s \<and> sha256 env (s_file s) = SHA256 (m_StateFile (s_manifest s)) \<and>
     s_chain s = RecordChainHash (m_StateFile (s_manifest s)) \<and>
     s_counts s = manifest_wire (s_manifest s) \<and>
     RequireExactLayout (s_root s) (bundle_layout (s_manifest s)) = Inr () \<and>
     (\<forall>c. s_canonical s = Some c \<longrightarrow> \<not> cz_closed c \<and>
        int (length (zstd_encode env (cz_writes c))) = s_fileSize s \<and>
        sha256 env (zstd_encode env (cz_writes c)) = sha256 env (s_file s))"

definition scan_result :: "geth_env \<Rightarrow> scanner \<Rightarrow> ScanResult" where
  "scan_result env s =
     \<lparr>sr_Counts = s_counts s, sr_FileSHA256 = sha256 env (s_file s), sr_RecordChainHash = s_chain s\<rparr>"

lemma finishCanonical_None:
  assumes "finishCanonical env h s = (None, s')"
  shows "s_manifest s' = s_manifest s \<and> s_counts s' = s_counts s \<and> s_chain s' = s_chain s \<and>
     s_root s' = s_root s \<and>
     (\<forall>c. s_canonical s = Some c \<longrightarrow> \<not> cz_closed c \<and>
        int (length (zstd_encode env (cz_writes c))) = s_fileSize s \<and>
        sha256 env (zstd_encode env (cz_writes c)) = h)"
  using assms
  by (auto simp: finishCanonical_def canonical_Close_def s_tick_def Let_def split: option.splits if_splits)

lemma scanner_Finish_finish_ok:
  assumes "scanner_Finish env s = (Inr result, s')"
  shows "finish_ok env s \<and> result = scan_result env s"
proof -
  let ?s1 = "s\<lparr>s_ticks := Suc (s_ticks s)\<rparr>"
  from assms obtain s2 where
    fin: "finishCanonical env (sha256 env (s_file s)) ?s1 = (None, s2)" and tm: "s_terminated s"
    and cnt: "verifyCounts s2 = Inr ()"
    and lay: "RequireExactLayout (s_root s2) (bundle_layout (s_manifest s2)) = Inr ()"
    and res: "result = \<lparr>sr_Counts = s_counts s2, sr_FileSHA256 = sha256 env (s_file s),
        sr_RecordChainHash = s_chain s2\<rparr>"
    and eqs: "sha256 env (s_file s) = SHA256 (m_StateFile (s_manifest s2))"
      "s_chain s2 = RecordChainHash (m_StateFile (s_manifest s2))"
    by (auto simp: scanner_Finish_def Let_def s_tick_def
          split: if_splits prod.splits option.splits sum.splits)
  show ?thesis
    using finishCanonical_None [OF fin] tm cnt lay res eqs
    by (elim conjE) (simp add: finish_ok_def scan_result_def verifyCounts_iff)
qed

lemma scanner_Finish_ok:
  assumes "finish_ok env s" and "s_faults s = no_faults"
  shows "\<exists>s'. scanner_Finish env s = (Inr (scan_result env s), s') \<and> s_faults s' = no_faults"
proof -
  let ?s1 = "s\<lparr>s_ticks := Suc (s_ticks s)\<rparr>"
  have "\<exists>s2. finishCanonical env (sha256 env (s_file s)) ?s1 = (None, s2) \<and> s_faults s2 = no_faults"
    using assms
    by (auto simp: finishCanonical_def canonical_Close_def s_tick_def Let_def finish_ok_def no_faults_apply
          split: option.splits)
  then obtain s2 where s2: "finishCanonical env (sha256 env (s_file s)) ?s1 = (None, s2)"
    "s_faults s2 = no_faults" by blast
  note f = finishCanonical_None [OF s2(1)]
  then have "verifyCounts s2 = Inr ()"
    using assms(1) by (simp add: verifyCounts_iff finish_ok_def)
  with assms s2 f show ?thesis
    by (simp add: scanner_Finish_def s_tick_def no_faults_apply finish_ok_def scan_result_def Let_def)
qed

section \<open>A scan that succeeded\<close>

text \<open>
  What the manifest and the file are known to be after a scan: the stream is the magic, the
  encoded records and the terminator; its digest, its chain hash and its counters are the
  manifest's; and a compressed file has the digest and size of the canonical re-encoding.
\<close>

definition stream_certified :: "geth_env \<Rightarrow> Manifest \<Rightarrow> dir_entry \<Rightarrow> Record list \<Rightarrow> bool" where
  "stream_certified env m e rs \<longleftrightarrow>
     list_all record_ok rs \<and>
     stream_of env m e = (streamMagic @ concat (map record_bytes rs) @ [recordEnd], True) \<and>
     sha256 env (case de_data e of None \<Rightarrow> [] | Some content \<Rightarrow> content) = SHA256 (m_StateFile m) \<and>
     fold (chain_step env) rs (chain0 env m) = RecordChainHash (m_StateFile m) \<and>
     fold counted rs emptyWireCounts = manifest_wire m \<and>
     (uses_zstd m \<longrightarrow>
        (let canonical = zstd_encode env (streamMagic # concat (map record_writes rs) @ [[recordEnd]])
         in int (length canonical) = Size (m_StateFile m) \<and> sha256 env canonical = SHA256 (m_StateFile m)))"

lemma opened_scanned_certified:
  assumes "opened env faults r m e s" and "scanned env s rs s'"
  shows "finish_ok env s' \<longleftrightarrow>
     stream_certified env m e rs \<and> RequireExactLayout r (bundle_layout m) = Inr ()"
  using assms
  by (cases "stream_of env m e")
     (auto simp: opened_def scanned_def finish_ok_def stream_certified_def Let_def)

definition certified_result :: "Manifest \<Rightarrow> ScanResult" where
  "certified_result m = \<lparr>sr_Counts = manifest_wire m, sr_FileSHA256 = SHA256 (m_StateFile m),
     sr_RecordChainHash = RecordChainHash (m_StateFile m)\<rparr>"

lemma finish_ok_result: "finish_ok env s \<Longrightarrow> scan_result env s = certified_result (s_manifest s)"
  by (simp add: finish_ok_def scan_result_def certified_result_def)

lemma scanRecords_certified:
  assumes "scanRecords env ctx openedRoot m consume c = Inr (result, c')"
  shows "\<exists>r e info rs. openedRoot = Inr r \<and> Manifest_Validate env m = Inr () \<and>
     RequireExactLayout r (bundle_layout m) = Inr () \<and>
     OpenRegular r (Name (m_StateFile m)) = Inr (e, info) \<and> fi_size info = Size (m_StateFile m) \<and>
     stream_certified env m e rs \<and> consume_all consume rs c = Inr c' \<and> result = certified_result m"
proof -
  from assms obtain s where op: "openRecordScanner env ctx openedRoot m = Inr s"
    by (auto simp: scanRecords_def result_simps)
  with assms obtain s1 s2 where loop: "scan_loop env consume s c = (Inr c', s1)"
    and fin: "scanner_Finish env s1 = (Inr result, s2)"
    by (auto simp: scanRecords_def split: prod.splits sum.splits if_splits)
  from openRecordScanner_opened [OF op] obtain faults r e info where
    o: "openedRoot = Inr r" "Manifest_Validate env m = Inr ()" "RequireExactLayout r (bundle_layout m) = Inr ()"
       "OpenRegular r (Name (m_StateFile m)) = Inr (e, info)" "fi_size info = Size (m_StateFile m)"
    and s: "opened env faults r m e s" by blast
  have nt: "\<not> s_terminated s" using s by (simp add: opened_def)
  from scan_loop_scanned [OF loop nt] obtain rs where
    rs: "scanned env s rs s1" "consume_all consume rs c = Inr c'" by blast
  have m: "s_manifest s1 = m" using rs(1) s by (simp add: scanned_def opened_def)
  note f = scanner_Finish_finish_ok [OF fin]
  with opened_scanned_certified [OF s rs(1)] have "stream_certified env m e rs" by simp
  moreover have "result = certified_result m" using f finish_ok_result m by metis
  ultimately show ?thesis using o rs(2) by blast
qed

section \<open>A scan that must succeed\<close>

lemma openRecordScanner_ok:
  assumes "Manifest_Validate env m = Inr ()" "RequireExactLayout r (bundle_layout m) = Inr ()"
    "OpenRegular r (Name (m_StateFile m)) = Inr (e, info)" "fi_size info = Size (m_StateFile m)"
    and inp: "fst (stream_of env m e) = streamMagic @ rest"
  shows "\<exists>s. openRecordScanner env (Some no_faults) (Inr r) m = Inr s"
proof -
  let ?file = "case de_data e of None \<Rightarrow> [] | Some content \<Rightarrow> content"
  let ?s3 = "\<lambda>t. \<lparr>s_faults = no_faults, s_ticks = t, s_manifest = m, s_root = r, s_file = ?file,
      s_fileSize = Size (m_StateFile m), s_input = fst (stream_of env m e), s_clean = snd (stream_of env m e),
      s_canonical = (if uses_zstd m then Some \<lparr>cz_writes = [], cz_closed = False\<rparr> else None),
      s_chain = zero_hash, s_counts = emptyWireCounts, s_terminated = False\<rparr>"
  let ?t = "if uses_zstd m then 2 else 0"
  from readFull_ok [of "?s3 ?t" "length streamMagic" "[]"] inp obtain b s4 where
    rd: "readFull (length streamMagic) [] (?s3 ?t) = (Inr b, s4)" by auto
  from readFull_took [OF rd] have b: "length b = length streamMagic" "took (?s3 ?t) b [] s4" by auto
  have "streamMagic @ rest = b @ s_input s4" using took_sel(10) [OF b(2)] inp by simp
  with b(1) have magic: "b = streamMagic" by (metis append_eq_append_conv)
  have "s_faults s4 = no_faults" "canon_open s4" using took_sel [OF b(2)] by (simp_all add: canon_open_def)
  from canonical_Write_ok [OF this] obtain s5 where w: "canonical_Write streamMagic s4 = (None, s5)" by blast
  show ?thesis
    using assms rd w magic
    by (simp add: openRecordScanner_def Let_def s_tick_def stream_of_def uses_zstd_def no_faults_apply
          numeral_2_eq_2 split: if_splits)
qed

lemma scanRecords_ok:
  assumes ok: "Manifest_Validate env m = Inr ()" "RequireExactLayout r (bundle_layout m) = Inr ()"
    "OpenRegular r (Name (m_StateFile m)) = Inr (e, info)" "fi_size info = Size (m_StateFile m)"
    and cert: "stream_certified env m e rs" and run: "consume_all consume rs c = Inr c'"
  shows "scanRecords env (Some no_faults) (Inr r) m consume c = Inr (certified_result m, c')"
proof -
  have st: "fst (stream_of env m e) = streamMagic @ concat (map record_bytes rs) @ [recordEnd]"
    using cert by (simp add: stream_certified_def)
  from openRecordScanner_ok [OF ok st] obtain s where s: "openRecordScanner env (Some no_faults) (Inr r) m = Inr s"
    by blast
  from openRecordScanner_opened [OF s] ok have op: "opened env no_faults r m e s" by auto
  then have "s_input s = concat (map record_bytes rs) @ [recordEnd]" "\<not> s_terminated s"
    "s_faults s = no_faults" "canon_open s" "s_clean s" "list_all record_ok rs"
    using st cert by (auto simp: opened_def canon_open_def stream_certified_def split: if_splits)
  with scan_loop_ok [OF run] obtain s1 where
    s1: "scan_loop env consume s c = (Inr c', s1)" "scanned env s rs s1" by blast
  then have "finish_ok env s1" "s_faults s1 = no_faults" "s_manifest s1 = m"
    using opened_scanned_certified [OF op s1(2)] cert ok op by (auto simp: scanned_def opened_def)
  with scanner_Finish_ok [of env s1] finish_ok_result [of env s1] obtain s2 where
    s2: "scanner_Finish env s1 = (Inr (certified_result m), s2)" "s_faults s2 = no_faults" by auto
  have "\<not> fst (scanner_Close s2)"
    using s2(2) by (auto simp: scanner_Close_def s_tick_def no_faults_apply Let_def split: option.splits)
  with s s1 s2 show ?thesis by (simp add: scanRecords_def)
qed

section \<open>What a run of the writer leaves behind\<close>

text \<open>The calls a client makes between creating a writer and closing it.\<close>

datatype write_op =
    OpReference
  | OpAccount hash bytes u64
  | OpStorage hash hash bytes
  | OpCode hash bytes

fun run_op :: "geth_env \<Rightarrow> write_op \<Rightarrow> writer \<Rightarrow> writer_error option \<times> writer" where
  "run_op env OpReference w = CountCodeReference w"
| "run_op env (OpAccount h slim n) w = WriteAccount env h slim n w"
| "run_op env (OpStorage h slot val) w = WriteStorage env h slot val w"
| "run_op env (OpCode h code) w = WriteCode env h code w"

fun run_ops :: "geth_env \<Rightarrow> write_op list \<Rightarrow> writer \<Rightarrow> writer_error option \<times> writer" where
  "run_ops env [] w = (None, w)"
| "run_ops env (op # ops) w =
     (case run_op env op w of (Some e, w') \<Rightarrow> (Some e, w') | (None, w') \<Rightarrow> run_ops env ops w')"

text \<open>The record an operation writes; its arguments are Go arrays and slices.\<close>

fun op_record :: "write_op \<Rightarrow> Record list" where
  "op_record OpReference = []"
| "op_record (OpAccount h slim n) = [\<lparr>Type = RecordAccount, AccountHash = h, SubHash = zero_hash, Payload = slim\<rparr>]"
| "op_record (OpStorage h slot val) = [\<lparr>Type = RecordStorage, AccountHash = h, SubHash = slot, Payload = val\<rparr>]"
| "op_record (OpCode h code) = [\<lparr>Type = RecordCode, AccountHash = zero_hash, SubHash = h, Payload = code\<rparr>]"

fun op_wf :: "write_op \<Rightarrow> bool" where
  "op_wf OpReference = True"
| "op_wf (OpAccount h slim n) = (is_hash h \<and> go_slice slim)"
| "op_wf (OpStorage h slot val) = (is_hash h \<and> is_hash slot \<and> go_slice val)"
| "op_wf (OpCode h code) = (is_hash h \<and> go_slice code)"

definition op_records :: "write_op list \<Rightarrow> Record list" where
  "op_records ops = concat (map op_record ops)"

definition w_wire :: "writer \<Rightarrow> WireCounts" where
  "w_wire w = wire_counts (w_counts w) (w_recordBytes w)"

definition wrote_ok :: "geth_env \<Rightarrow> writer \<Rightarrow> Record list \<Rightarrow> writer \<Rightarrow> bool" where
  "wrote_ok env w rs w' \<longleftrightarrow> wrote env w rs w' \<and> list_all record_ok rs \<and> w_wire w' = fold counted rs (w_wire w)"

lemma wrote_ok_trans: "wrote_ok env a rs b \<Longrightarrow> wrote_ok env b ss c \<Longrightarrow> wrote_ok env a (rs @ ss) c"
  by (auto simp: wrote_ok_def intro: wrote_trans)

lemma writeRecord_wrote_ok:
  assumes w: "writeRecord env (Type r) (rec_key r) (rec_subkey r) (Payload r) consensus w = (None, w')"
    and r: "is_hash (AccountHash r)" "is_hash (SubHash r)" "go_slice (Payload r)"
      "Type r = RecordAccount \<longrightarrow> SubHash r = zero_hash" "Type r = RecordCode \<longrightarrow> AccountHash r = zero_hash"
  shows "wrote_ok env w [r] w'"
proof -
  have "w_wire w' = counted r (w_wire w)"
    using writeRecord_ok [OF w]
    by (auto simp: w_wire_def wire_counts_def counted_def addCount_def count_record_def Let_def)
  with writeRecord_wrote [OF w] writeRecord_ok [OF w] r show ?thesis
    by (auto simp: wrote_ok_def record_ok_def)
qed

lemma run_op_wrote_ok:
  assumes "run_op env op w = (None, w')" and "op_wf op"
  shows "wrote_ok env w (op_record op) w'"
proof (cases op)
  case OpReference
  then show ?thesis using assms
    by (auto simp: wrote_ok_def wrote_def w_wire_def wire_counts_def CountCodeReference_def split: if_splits)
next
  case (OpAccount h slim n)
  then show ?thesis using assms
      writeRecord_wrote_ok [of env "hd (op_record op)" n w w']
    by (auto simp: WriteAccount_def rec_key_def rec_subkey_def record_kinds split: if_splits)
next
  case (OpStorage h slot val)
  then show ?thesis using assms
      writeRecord_wrote_ok [of env "hd (op_record op)" "of_nat (length val)" w w']
    by (auto simp: WriteStorage_def rec_key_def rec_subkey_def record_kinds)
next
  case (OpCode h code)
  then show ?thesis using assms
      writeRecord_wrote_ok [of env "hd (op_record op)" "of_nat (length code)" w w']
    by (auto simp: WriteCode_def rec_key_def rec_subkey_def record_kinds)
qed

lemma run_ops_wrote_ok:
  "run_ops env ops w = (None, w') \<Longrightarrow> list_all op_wf ops \<Longrightarrow> wrote_ok env w (op_records ops) w'"
proof (induction ops arbitrary: w)
  case Nil
  then show ?case by (simp add: op_records_def wrote_ok_def)
next
  case (Cons op ops)
  then obtain w1 where "run_op env op w = (None, w1)" "run_ops env ops w1 = (None, w')"
    by (auto split: prod.splits option.splits)
  with Cons show ?case
    by (auto simp: op_records_def intro!: wrote_ok_trans run_op_wrote_ok)
qed

lemma NewWriter_Inr:
  assumes "NewWriter env ctx compression head headerRLP = Inr w"
  shows "w_writes w = [streamMagic] \<and> w_chain w = initialChainHash env head headerRLP \<and>
     w_wire w = emptyWireCounts \<and> w_compression w = compression \<and> \<not> w_closed w \<and>
     (compression = CompressionZstd \<and> w_fileName w = RecordsFileZstd \<or>
      compression = CompressionNone \<and> w_fileName w = RecordsFileRaw)"
  using assms
  by (auto simp: NewWriter_def w_tick_def Let_def w_wire_def wire_counts_def emptyWireCounts_def
        emptyCounts_def split: option.splits if_splits)

lemma any_tick_keeps: "any_tick n w = (f, w') \<Longrightarrow> \<exists>t. w' = w\<lparr>w_ticks := t\<rparr>"
proof (induction n arbitrary: w f)
  case 0
  then show ?case by (auto intro: exI [of _ "w_ticks w"])
next
  case (Suc n)
  then show ?case by (fastforce simp: w_tick_def Let_def split: prod.splits)
qed

lemma Writer_Close_Inr:
  assumes "Writer_Close env w = (Inr res, w')"
  shows "w_writes w' = w_writes w @ [[recordEnd]] \<and>
     res = \<lparr>wr_Counts = w_counts w, wr_RecordPayloadBytes = w_recordBytes w, wr_FileName = w_fileName w,
        wr_Compression = w_compression w,
        wr_Size = int (length (stream_file env (w_compression w) (w_writes w'))),
        wr_SHA256 = sha256 env (stream_file env (w_compression w) (w_writes w')),
        wr_RecordChainHash = w_chain w\<rparr>"
  using assms
  by (auto simp: Writer_Close_def Let_def w_tick_def split: if_splits prod.splits dest!: any_tick_keeps)

section \<open>The round trip\<close>

definition writer_StateFile :: "WriterResult \<Rightarrow> StateFile" where
  "writer_StateFile res = \<lparr>Name = wr_FileName res, Compression = wr_Compression res, Size = wr_Size res,
     RecordPayloadBytes = wr_RecordPayloadBytes res, SHA256 = wr_SHA256 res,
     RecordChainHash = wr_RecordChainHash res\<rparr>"

text \<open>A manifest that describes a closed stream over a given head.\<close>

definition manifest_describes :: "Manifest \<Rightarrow> Head \<Rightarrow> bytes \<Rightarrow> WriterResult \<Rightarrow> bool" where
  "manifest_describes m head headerRLP res \<longleftrightarrow>
     HeadBefore (Source m) = head \<and> HeaderRLP (Source m) = headerRLP \<and>
     m_Counts m = wr_Counts res \<and> m_StateFile m = writer_StateFile res"

text \<open>The bundle directory: exactly the manifest and the stream file, with the given content.\<close>

definition holds_stream :: "dir_root \<Rightarrow> Manifest \<Rightarrow> bytes \<Rightarrow> bool" where
  "holds_stream r m file \<longleftrightarrow>
     RequireExactLayout r (bundle_layout m) = Inr () \<and>
     (\<exists>e info. OpenRegular r (Name (m_StateFile m)) = Inr (e, info) \<and> de_data e = Some file \<and>
        fi_size info = int (length file))"

lemma concat_record_writes_all:
  "concat (concat (map record_writes rs)) = concat (map record_bytes rs)"
  by (induction rs) simp_all

lemma written_certified:
  assumes new: "NewWriter env ctx compression head headerRLP = Inr w0"
    and run: "run_ops env ops w0 = (None, w1)" and wf: "list_all op_wf ops"
    and close: "Writer_Close env w1 = (Inr res, w2)" and zstd: "zstd_ok env"
    and m: "manifest_describes m head headerRLP res"
    and e: "de_data e = Some (stream_file env compression (w_writes w2))"
  shows "stream_certified env m e (op_records ops)"
proof -
  let ?rs = "op_records ops"
  note n = NewWriter_Inr [OF new] and c = Writer_Close_Inr [OF close]
  from run_ops_wrote_ok [OF run wf] have w: "wrote env w0 ?rs w1" and ok: "list_all record_ok ?rs"
    and cnt: "w_wire w1 = fold counted ?rs (w_wire w0)" by (auto simp: wrote_ok_def)
  have ws: "w_writes w2 = streamMagic # concat (map record_writes ?rs) @ [[recordEnd]]"
    using w n c by (simp add: wrote_def)
  have conc: "concat (w_writes w2) = streamMagic @ concat (map record_bytes ?rs) @ [recordEnd]"
    unfolding ws by (simp add: concat_record_writes_all)
  have comp: "w_compression w1 = compression" "w_chain w1 = fold (chain_step env) ?rs (chain0 env m)"
    using w n m by (simp_all add: wrote_def chain0_def manifest_describes_def)
  have z: "uses_zstd m \<longleftrightarrow> compression = CompressionZstd"
    using m c comp by (auto simp: uses_zstd_def manifest_describes_def writer_StateFile_def)
  have f: "SHA256 (m_StateFile m) = sha256 env (stream_file env compression (w_writes w2))"
    "Size (m_StateFile m) = int (length (stream_file env compression (w_writes w2)))"
    "RecordChainHash (m_StateFile m) = w_chain w1" "manifest_wire m = w_wire w1"
    using m c comp
    by (auto simp: manifest_describes_def writer_StateFile_def manifest_wire_def w_wire_def)
  have "stream_of env m e = (concat (w_writes w2), True)"
    using z e zstd by (auto simp: stream_of_def stream_file_def zstd_ok_def)
  with ok conc f comp cnt n z e show ?thesis
    by (auto simp: stream_certified_def Let_def stream_file_def ws)
qed

lemma certified_unique:
  assumes "stream_certified env m e rs" and "stream_certified env m e ss"
  shows "rs = ss"
proof -
  have "concat (map record_bytes rs) @ [recordEnd] = concat (map record_bytes ss) @ [recordEnd]"
    using assms by (simp add: stream_certified_def)
  then show ?thesis using assms by (intro recs.stream_inject) (auto simp: stream_certified_def)
qed

section \<open>Properties\<close>

text \<open>
  Property C8. Scanning what a writer closed. For every sequence of write calls a client made
  successfully (under any faults), the scan of the closed file against a valid manifest that
  describes it succeeds, delivers exactly the written records in their order to its consumer and
  reports the manifest's counters, digest and chain hash; for a raw and for a compressed stream.
\<close>

theorem record_stream_roundtrip:
  assumes "NewWriter env ctx compression head headerRLP = Inr w0"
    and "run_ops env ops w0 = (None, w1)" and "list_all op_wf ops"
    and "Writer_Close env w1 = (Inr res, w2)" and "zstd_ok env"
    and "manifest_describes m head headerRLP res" and "Manifest_Validate env m = Inr ()"
    and "holds_stream r m (stream_file env compression (w_writes w2))"
    and "consume_all consume (op_records ops) c = Inr c'"
  shows "scanRecords env (Some no_faults) (Inr r) m consume c = Inr (certified_result m, c')"
proof -
  from assms(8) obtain e info where
    e: "OpenRegular r (Name (m_StateFile m)) = Inr (e, info)"
      "de_data e = Some (stream_file env compression (w_writes w2))"
      "fi_size info = int (length (stream_file env compression (w_writes w2)))"
      "RequireExactLayout r (bundle_layout m) = Inr ()" by (auto simp: holds_stream_def)
  note cert = written_certified [OF assms(1-6) e(2)]
  have "w_compression w1 = compression"
    using run_ops_wrote_ok [OF assms(2,3)] NewWriter_Inr [OF assms(1)]
    by (simp add: wrote_ok_def wrote_def)
  then have "fi_size info = Size (m_StateFile m)"
    using Writer_Close_Inr [OF assms(4)] assms(6) e(3)
    by (simp add: manifest_describes_def writer_StateFile_def)
  with e cert assms(7,9) show ?thesis by (intro scanRecords_ok)
qed

text \<open>
  Property C13. What a successful scan certifies, whatever failed or was cancelled elsewhere: the
  manifest is valid, the directory holds exactly its two files, the decoded file is the magic, the
  encodings of the delivered records and the terminator with nothing behind it, every record is
  within its bounds, and digest, chain hash and counters are the manifest's.
\<close>

theorem scanRecords_sound:
  assumes "scanRecords env ctx openedRoot m consume c = Inr (result, c')"
  shows "\<exists>r e info rs. openedRoot = Inr r \<and> Manifest_Validate env m = Inr () \<and>
     RequireExactLayout r (bundle_layout m) = Inr () \<and>
     OpenRegular r (Name (m_StateFile m)) = Inr (e, info) \<and> fi_size info = Size (m_StateFile m) \<and>
     stream_certified env m e rs \<and> consume_all consume rs c = Inr c' \<and> result = certified_result m"
  using assms by (rule scanRecords_certified)

text \<open>
  A bundle determines what its scan delivers: two successful scans of the same
  directory against the same manifest, under whatever polls and reads, end in the same result and
  in the same state of the consumer.
\<close>

lemma scanRecords_deterministic:
  assumes "scanRecords env ctx1 (Inr r) m consume c = Inr (x, c1)"
    and "scanRecords env ctx2 (Inr r) m consume c = Inr (y, c2)"
  shows "x = y \<and> c1 = c2"
proof -
  from scanRecords_certified [OF assms(1)] obtain e i rs where
    1: "OpenRegular r (Name (m_StateFile m)) = Inr (e, i)" "stream_certified env m e rs"
       "consume_all consume rs c = Inr c1" "x = certified_result m" by blast
  from scanRecords_certified [OF assms(2)] obtain e2 i2 ss where
    2: "OpenRegular r (Name (m_StateFile m)) = Inr (e2, i2)" "stream_certified env m e2 ss"
       "consume_all consume ss c = Inr c2" "y = certified_result m" by blast
  have "e2 = e" using 1(1) 2(1) by simp
  with certified_unique [OF 1(2)] 2(2) have "ss = rs" by simp
  with 1 2 show ?thesis by simp
qed

end
