(* ===== verification/HashSet.thy ===== *)
theory HashSet
  imports Prelude
begin

text \<open>
  The operation-local set of hashes of \<^verbatim>\<open>internal/migration/hashset.go\<close>, used to visit every
  contract code once, and the first-error latches of the concurrent pipelines
  (\<^verbatim>\<open>pruneKeepFailure\<close>, \<^verbatim>\<open>migrateRunFailure\<close>, \<^verbatim>\<open>migratePipelineFailure\<close>). Both are
  interfaces: a locale states the laws, the code's own operations interpret it.
\<close>

section \<open>Hash sets\<close>

text \<open>A Go map with empty values, as the list of its keys in insertion order.\<close>

type_synonym hashSet = "hash list"

definition newHashSet :: hashSet where
  "newHashSet = []"

definition hashSet_Has :: "hashSet \<Rightarrow> hash \<Rightarrow> bool" where
  "hashSet_Has s h \<longleftrightarrow> h \<in> set s"

definition hashSet_Add :: "hashSet \<Rightarrow> hash \<Rightarrow> bool \<times> hashSet" where
  "hashSet_Add s h = (if hashSet_Has s h then (False, s) else (True, s @ [h]))"

text \<open>\<^verbatim>\<open>concurrentHashSet.Add\<close> runs \<^verbatim>\<open>Add\<close> under its mutex, so calls are serialised.\<close>

record concurrentHashSet =
  locked :: bool
  hashes :: hashSet

definition newConcurrentHashSet :: concurrentHashSet where
  "newConcurrentHashSet = \<lparr>locked = False, hashes = newHashSet\<rparr>"

definition concurrentHashSet_Add :: "concurrentHashSet \<Rightarrow> hash \<Rightarrow> (bool \<times> concurrentHashSet) option" where
  "concurrentHashSet_Add s h =
     (if locked s then None
      else (let (fresh, hs) = hashSet_Add (hashes s) h
            in Some (fresh, s\<lparr>hashes := hs\<rparr>)))"

text \<open>The contract: \<open>add\<close> reports freshness and records, \<open>has\<close> observes, nothing is forgotten.\<close>

locale fresh_set =
  fixes emp :: 's
    and add :: "'s \<Rightarrow> 'a \<Rightarrow> bool \<times> 's"
    and elems :: "'s \<Rightarrow> 'a set"
  assumes elems_emp: "elems emp = {}"
    and add_fresh: "fst (add s a) \<longleftrightarrow> a \<notin> elems s"
    and elems_add: "elems (snd (add s a)) = insert a (elems s)"
begin

primrec collect :: "'s \<Rightarrow> 'a list \<Rightarrow> 'a list" where
  "collect s [] = []"
| "collect s (a # as) =
     (if fst (add s a) then a # collect (snd (add s a)) as else collect (snd (add s a)) as)"

lemma set_collect: "set (collect s as) = set as - elems s"
  by (induction as arbitrary: s) (auto simp: add_fresh elems_add)

lemma distinct_collect: "distinct (collect s as)"
  by (induction as arbitrary: s) (auto simp: add_fresh elems_add set_collect)

lemma collect_once: "distinct (collect emp as) \<and> set (collect emp as) = set as"
  by (simp add: distinct_collect set_collect elems_emp)

end

interpretation hs: fresh_set newHashSet hashSet_Add set
  by unfold_locales (auto simp: newHashSet_def hashSet_Add_def hashSet_Has_def)

section \<open>First-error latches\<close>

text \<open>
  \<^verbatim>\<open>pruneKeepFailure.record\<close> is a compare-and-swap of a nil pointer;
  \<^verbatim>\<open>migrateRunFailure.record\<close> and \<^verbatim>\<open>migratePipelineFailure.record\<close> test and set under a
  mutex. The last ignores a nil error and counts the cancellations it triggers.
\<close>

type_synonym 'e latch = "'e option"

definition pruneKeepFailure_record :: "'e latch \<Rightarrow> 'e \<Rightarrow> bool \<times> 'e latch" where
  "pruneKeepFailure_record cause err =
     (case cause of None \<Rightarrow> (True, Some err) | Some e \<Rightarrow> (False, Some e))"

definition pruneKeepFailure_load :: "'e latch \<Rightarrow> 'e option" where
  "pruneKeepFailure_load cause = (case cause of Some e \<Rightarrow> Some e | None \<Rightarrow> None)"

definition migrateRunFailure_record :: "'e latch \<Rightarrow> 'e \<Rightarrow> bool \<times> 'e latch" where
  "migrateRunFailure_record f err = (if f \<noteq> None then (False, f) else (True, Some err))"

definition migrateRunFailure_load :: "'e latch \<Rightarrow> 'e option" where
  "migrateRunFailure_load f = f"

record 'e pipeline_failure =
  pf_err :: "'e option"
  pf_cancels :: nat

definition migratePipelineFailure_record :: "'e pipeline_failure \<Rightarrow> 'e option \<Rightarrow> 'e pipeline_failure" where
  "migratePipelineFailure_record f err =
     (case err of
        None \<Rightarrow> f
      | Some e \<Rightarrow>
          (let first = (pf_err f = None);
               f' = (if pf_err f = None then f\<lparr>pf_err := Some e\<rparr> else f)
           in if first then f'\<lparr>pf_cancels := pf_cancels f' + 1\<rparr> else f'))"

definition migratePipelineFailure_load :: "'e pipeline_failure \<Rightarrow> 'e option" where
  "migratePipelineFailure_load f = pf_err f"

locale first_error =
  fixes record1 :: "'s \<Rightarrow> 'e \<Rightarrow> 's"
    and load1 :: "'s \<Rightarrow> 'e option"
  assumes record_empty: "load1 s = None \<Longrightarrow> load1 (record1 s e) = Some e"
    and record_keeps: "load1 s = Some e0 \<Longrightarrow> load1 (record1 s e) = Some e0"
begin

lemma record_stable: "load1 s = Some e0 \<Longrightarrow> load1 (foldl record1 s es) = Some e0"
  by (induction es arbitrary: s) (simp_all add: record_keeps)

lemma record_first: "load1 s = None \<Longrightarrow> load1 (foldl record1 s (e # es)) = Some e"
  by (simp add: record_stable record_empty)

lemma load_all: "load1 s = None \<Longrightarrow> load1 (foldl record1 s es) = (case es of [] \<Rightarrow> None | e # _ \<Rightarrow> Some e)"
  by (cases es) (simp_all add: record_stable record_empty)

end

interpretation keepLatch: first_error
  "\<lambda>s e. snd (pruneKeepFailure_record s e)" pruneKeepFailure_load
  by unfold_locales (auto simp: pruneKeepFailure_record_def pruneKeepFailure_load_def split: option.splits)

interpretation runLatch: first_error
  "\<lambda>s e. snd (migrateRunFailure_record s e)" migrateRunFailure_load
  by unfold_locales (auto simp: migrateRunFailure_record_def migrateRunFailure_load_def)

interpretation pipeLatch: first_error
  "\<lambda>s e. migratePipelineFailure_record s (Some e)" migratePipelineFailure_load
  by unfold_locales (auto simp: migratePipelineFailure_record_def migratePipelineFailure_load_def Let_def)

section \<open>Properties\<close>

text \<open>
  Adding a sequence of code hashes to a fresh set reports every hash of the sequence
  as new exactly once, at its first occurrence: the codes visited are pairwise different and are
  all the codes referenced.
\<close>

lemma hashset_visits_once:
  "distinct (hs.collect newHashSet refs) \<and> set (hs.collect newHashSet refs) = set refs"
  by (rule hs.collect_once)

text \<open>
  The three failure latches of the concurrent pipelines agree: of any sequence of
  recorded errors they keep the first one, whatever arrives later, and none when nothing failed;
  the pipeline latch cancels exactly once.
\<close>

lemma latches_keep_first:
  "pruneKeepFailure_load (foldl (\<lambda>s e. snd (pruneKeepFailure_record s e)) None es) =
     (case es of [] \<Rightarrow> None | e # _ \<Rightarrow> Some e) \<and>
   migrateRunFailure_load (foldl (\<lambda>s e. snd (migrateRunFailure_record s e)) None es) =
     (case es of [] \<Rightarrow> None | e # _ \<Rightarrow> Some e) \<and>
   foldl (\<lambda>s e. migratePipelineFailure_record s (Some e)) \<lparr>pf_err = None, pf_cancels = 0\<rparr> es =
     (case es of [] \<Rightarrow> \<lparr>pf_err = None, pf_cancels = 0\<rparr> | e # _ \<Rightarrow> \<lparr>pf_err = Some e, pf_cancels = 1\<rparr>)"
proof -
  have "foldl (\<lambda>s e. migratePipelineFailure_record s (Some e)) \<lparr>pf_err = Some x, pf_cancels = 1\<rparr> xs =
      \<lparr>pf_err = Some x, pf_cancels = 1\<rparr>" for x and xs :: "'a list"
    by (induction xs) (simp_all add: migratePipelineFailure_record_def)
  then show ?thesis
    using keepLatch.load_all [of None es] runLatch.load_all [of None es]
    by (auto simp: pruneKeepFailure_load_def migrateRunFailure_load_def migratePipelineFailure_record_def
          split: list.splits)
qed

end
