(* ===== verification/StateTrie.thy ===== *)
theory StateTrie
  imports Account Counts HashSet
begin

text \<open>
  What the state traversal and the bundle consumer share (\<^verbatim>\<open>state_trie.go\<close>, the visitor
  interfaces of \<^verbatim>\<open>state.go\<close> and \<^verbatim>\<open>bundle.go\<close>): visitors and node sinks as functions on
  a state \<open>'s\<close> of their own, stack tries that feed a sink behind a first-error latch, and the
  checks on a storage value and on a full account.
\<close>

section \<open>Visitors and sinks\<close>

text \<open>
  \<^verbatim>\<open>StateVisitor\<close>; \<open>v_AccountFromBundle\<close> is present when the visitor also implements
  \<^verbatim>\<open>bundleAccountVisitor\<close>. A method returns an optional error and its new state.
\<close>

record ('e, 's) StateVisitor =
  v_Account :: "hash \<Rightarrow> state_account \<Rightarrow> bytes \<Rightarrow> 's \<Rightarrow> 'e option \<times> 's"
  v_Storage :: "hash \<Rightarrow> hash \<Rightarrow> bytes \<Rightarrow> 's \<Rightarrow> 'e option \<times> 's"
  v_Code :: "hash \<Rightarrow> hash \<Rightarrow> bytes \<Rightarrow> 's \<Rightarrow> 'e option \<times> 's"
  v_AccountFromBundle ::
    "(hash \<Rightarrow> state_account \<Rightarrow> bytes \<Rightarrow> bytes \<Rightarrow> 's \<Rightarrow> 'e option \<times> 's) option"

text \<open>\<^verbatim>\<open>trieNodeSink.TrieNode\<close>: owner, path, hash and blob.\<close>

type_synonym ('e, 's) trieNodeSink = "hash \<Rightarrow> bytes \<Rightarrow> hash \<Rightarrow> bytes \<Rightarrow> 's \<Rightarrow> 'e option \<times> 's"

section \<open>Stack tries with a sink\<close>

text \<open>
  The callback of \<^verbatim>\<open>newTraversalStackTrie\<close>: once an error is latched, later nodes are dropped.
  The latch and the sink's state are one pair.
\<close>

fun feed_nodes ::
  "hash \<Rightarrow> ('e, 's) trieNodeSink option \<Rightarrow> trie_node list \<Rightarrow> 'e option \<times> 's \<Rightarrow> 'e option \<times> 's" where
  "feed_nodes owner None nodes st = st"
| "feed_nodes owner (Some sink) [] st = st"
| "feed_nodes owner (Some sink) ((path, hash, blob) # nodes) (err, s) =
     feed_nodes owner (Some sink) nodes
       (if err \<noteq> None then (err, s) else sink owner path hash blob s)"

text \<open>\<^verbatim>\<open>StackTrie.Update\<close> and \<^verbatim>\<open>StackTrie.Hash\<close> of a trie with this callback.\<close>

definition stack_Update ::
  "geth_env \<Rightarrow> hash \<Rightarrow> ('e, 's) trieNodeSink option \<Rightarrow> kv list \<Rightarrow> kv \<Rightarrow> 'e option \<times> 's \<Rightarrow>
   (unit, kv list \<times> 'e option \<times> 's) result" where
  "stack_Update env owner sink t kv st =
     (if stack_accepts env t kv then Inr (t @ [kv], feed_nodes owner sink (stack_emits env t kv) st)
      else Inl ())"

definition stack_Hash ::
  "geth_env \<Rightarrow> hash \<Rightarrow> ('e, 's) trieNodeSink option \<Rightarrow> kv list \<Rightarrow> 'e option \<times> 's \<Rightarrow>
   hash \<times> 'e option \<times> 's" where
  "stack_Hash env owner sink t st = (stack_root env t, feed_nodes owner sink (stack_final env t) st)"

lemma feed_nodes_latched: "feed_nodes owner sink nodes (Some e, s) = (Some e, s)"
  by (induction nodes) (cases sink; auto)+

lemma feed_nodes_None [simp]: "feed_nodes owner None nodes st = st"
  by simp

section \<open>Checks on values\<close>

datatype value_error =
    StorageRLP
  | StorageNotString
  | StorageTrailing
  | StorageZero
  | StorageTooLong nat
  | StorageLeadingZero
  | AccountRLP
  | AccountBalanceNil
  | AccountCodeHashLength nat

definition validateStorageRLP :: "geth_env \<Rightarrow> bytes \<Rightarrow> (value_error, unit) result" where
  "validateStorageRLP env data =
     (case rlp_Split env data of
        None \<Rightarrow> Inl StorageRLP
      | Some (kind, content, rest) \<Rightarrow>
          if kind \<noteq> RlpByte \<and> kind \<noteq> RlpString then Inl StorageNotString
          else if length rest \<noteq> 0 then Inl StorageTrailing
          else if length content = 0 then Inl StorageZero
          else if length content > HashLength then Inl (StorageTooLong (length content))
          else if content ! 0 = 0 then Inl StorageLeadingZero
          else Inr ())"

definition decodeFullAccount :: "geth_env \<Rightarrow> bytes \<Rightarrow> (value_error, state_account) result" where
  "decodeFullAccount env data =
     (case rlp_dec_account env data of
        None \<Rightarrow> Inl AccountRLP
      | Some account \<Rightarrow>
          if Balance account = None then Inl AccountBalanceNil
          else if length (CodeHash account) \<noteq> HashLength
          then Inl (AccountCodeHashLength (length (CodeHash account)))
          else Inr account)"

lemma validateStorageRLP_iff:
  "validateStorageRLP env data = Inr () \<longleftrightarrow>
     (\<exists>kind content. rlp_Split env data = Some (kind, content, []) \<and> kind \<noteq> RlpList \<and>
        content \<noteq> [] \<and> length content \<le> 32 \<and> hd content \<noteq> 0)"
  by (auto simp: validateStorageRLP_def HashLength_def hd_conv_nth
        split: option.splits rlp_kind.splits if_splits) (metis rlp_kind.exhaust)

end
