(* ===== verification/Consumer.thy ===== *)
theory Consumer
  imports StateTrie RecordWriter
begin

text \<open>
  The semantic consumer of a record stream (\<^verbatim>\<open>recordConsumer\<close> of
  \<^verbatim>\<open>internal/migration/bundle.go\<close>). It checks the order of the records, rebuilds every storage
  trie and the account trie, and reports records to a visitor. After an error the consumer is
  dropped, so an operation returns either an error or its new state.
\<close>

section \<open>State and operations\<close>

record ('e, 's) consumer =
  c_expectedRoot :: hash
  c_visitor :: "('e, 's) StateVisitor option"
  c_trieNodes :: "('e, 's) trieNodeSink option"
  c_accountStack :: "kv list"
  c_sinks :: "'e option \<times> 's"
  c_counts :: Counts
  c_knownCodes :: hashSet
  c_haveAccount :: bool
  c_accountHash :: hash
  c_account :: "state_account option"
  c_accountRLP :: bytes
  c_storage :: "kv list option"
  c_lastAccount :: hash
  c_lastSlot :: hash
  c_haveSlot :: bool
  c_codeSeen :: bool
  c_finished :: bool

datatype 'e consumer_error =
    AlreadyFinished
  | UnknownSemanticType byte
  | AccountsNotIncreasing
  | DecodeAccountFailed account_error
  | VisitorFailed 'e
  | StorageBeforeAccount
  | StorageAfterCode
  | StorageForeignAccount
  | StorageOnEmptyRoot
  | SlotsNotIncreasing
  | InvalidStorageValue value_error
  | StorageTrieUpdate
  | NodeWriteFailed 'e
  | CodeBeforeAccount
  | SecondCode
  | CodeOnEmptyHash
  | CodeHashMismatch
  | CodeContentMismatch
  | CodeRepeated
  | StorageRootMismatch
  | UnexpectedCode
  | CodeNotProvided
  | AccountTrieUpdate
  | StateRootMismatch

record StateResult =
  st_Root :: hash
  st_Counts :: Counts

definition newRecordConsumer ::
  "hash \<Rightarrow> ('e, 's) StateVisitor option \<Rightarrow> ('e, 's) trieNodeSink option \<Rightarrow> 's \<Rightarrow> ('e, 's) consumer" where
  "newRecordConsumer expectedRoot visitor nodes s = \<lparr>
     c_expectedRoot = expectedRoot, c_visitor = visitor, c_trieNodes = nodes, c_accountStack = [],
     c_sinks = (None, s), c_counts = emptyCounts, c_knownCodes = newHashSet, c_haveAccount = False,
     c_accountHash = zero_hash, c_account = None, c_accountRLP = [], c_storage = None,
     c_lastAccount = zero_hash, c_lastSlot = zero_hash, c_haveSlot = False, c_codeSeen = False,
     c_finished = False\<rparr>"

text \<open>Calling the visitor: it does not see the latch of the node sink.\<close>

definition visit ::
  "('s \<Rightarrow> 'e option \<times> 's) \<Rightarrow> ('e, 's) consumer \<Rightarrow> ('e consumer_error, ('e, 's) consumer) result" where
  "visit m c =
     (let (err, s) = m (snd (c_sinks c))
      in case err of
           Some e \<Rightarrow> Inl (VisitorFailed e)
         | None \<Rightarrow> Inr (c\<lparr>c_sinks := (fst (c_sinks c), s)\<rparr>))"

definition visitAccount ::
  "hash \<Rightarrow> state_account \<Rightarrow> bytes \<Rightarrow> bytes \<Rightarrow> ('e, 's) consumer \<Rightarrow>
   ('e consumer_error, ('e, 's) consumer) result" where
  "visitAccount h account fullRLP slimRLP c =
     (case c_visitor c of
        None \<Rightarrow> Inr c
      | Some v \<Rightarrow>
          (case v_AccountFromBundle v of
             Some m \<Rightarrow> visit (m h account fullRLP slimRLP) c
           | None \<Rightarrow> visit (v_Account v h account fullRLP) c))"

definition consumer_addCount :: "byte \<Rightarrow> nat \<Rightarrow> ('e, 's) consumer \<Rightarrow> ('e, 's) consumer" where
  "consumer_addCount ty payloadLen c =
     (let n = c_counts c;
          n1 = n\<lparr>Records := Records n + 1, PayloadBytes := PayloadBytes n + of_nat payloadLen\<rparr>
      in c\<lparr>c_counts :=
           (if ty = RecordAccount then n1\<lparr>Accounts := Accounts n1 + 1\<rparr>
            else if ty = RecordStorage then n1\<lparr>StorageSlots := StorageSlots n1 + 1\<rparr>
            else if ty = RecordCode then n1\<lparr>CodeRecords := CodeRecords n1 + 1\<rparr>
            else n1)\<rparr>)"

definition startAccount ::
  "hash \<Rightarrow> state_account \<Rightarrow> bytes \<Rightarrow> ('e, 's) consumer \<Rightarrow> ('e, 's) consumer" where
  "startAccount h account fullRLP c =
     c\<lparr>c_haveAccount := True, c_accountHash := h, c_lastAccount := h, c_account := Some account,
       c_accountRLP := fullRLP, c_storage := None, c_haveSlot := False, c_codeSeen := False\<rparr>"

text \<open>
  The current account; the code dereferences the pointer only when \<open>c_haveAccount\<close> is set. Its
  code hash has 32 bytes, where \<^verbatim>\<open>common.BytesToHash\<close> is the identity.
\<close>

definition cur_account :: "('e, 's) consumer \<Rightarrow> state_account" where
  "cur_account c = the (c_account c)"

definition finalizeAccount ::
  "geth_env \<Rightarrow> ('e, 's) consumer \<Rightarrow> ('e consumer_error, ('e, 's) consumer) result" where
  "finalizeAccount env c =
     (if \<not> c_haveAccount c then Inr c
      else
        let (computed, sinks1) =
              (case c_storage c of
                 None \<Rightarrow> (EmptyRootHash env, c_sinks c)
               | Some t \<Rightarrow> stack_Hash env (c_accountHash c) (c_trieNodes c) t (c_sinks c))
        in case (if c_storage c \<noteq> None then fst sinks1 else None) of
             Some e \<Rightarrow> Inl (NodeWriteFailed e)
           | None \<Rightarrow>
             if computed \<noteq> Root (cur_account c) then Inl StorageRootMismatch
             else
               let expected = CodeHash (cur_account c);
                   expectsCode = (expected \<noteq> EmptyCodeHash env)
               in if \<not> expectsCode \<and> c_codeSeen c then Inl UnexpectedCode
                  else if expectsCode \<and> \<not> c_codeSeen c \<and> \<not> hashSet_Has (c_knownCodes c) expected
                  then Inl CodeNotProvided
                  else
                    let counts = (if expectsCode
                                  then (c_counts c)\<lparr>CodeReferences := CodeReferences (c_counts c) + 1\<rparr>
                                  else c_counts c)
                    in case stack_Update env zero_hash (c_trieNodes c) (c_accountStack c)
                              (c_accountHash c, c_accountRLP c) sinks1 of
                         Inl _ \<Rightarrow> Inl AccountTrieUpdate
                       | Inr (t, err, s) \<Rightarrow>
                           (case err of
                              Some e \<Rightarrow> Inl (NodeWriteFailed e)
                            | None \<Rightarrow>
                                Inr (c\<lparr>c_sinks := (err, s), c_counts := counts, c_accountStack := t,
                                       c_haveAccount := False, c_account := None, c_accountRLP := [],
                                       c_storage := None\<rparr>)))"

definition consumeAccount ::
  "geth_env \<Rightarrow> Record \<Rightarrow> ('e, 's) consumer \<Rightarrow> ('e consumer_error, ('e, 's) consumer) result" where
  "consumeAccount env r c =
     bindR (finalizeAccount env c) (\<lambda>c1.
       if Accounts (c_counts c1) > 0 \<and> bytes_Compare (AccountHash r) (c_lastAccount c1) \<le> 0
       then Inl AccountsNotIncreasing
       else case DecodeAccount env (Payload r) of
         Inl e \<Rightarrow> Inl (DecodeAccountFailed e)
       | Inr (account, fullRLP) \<Rightarrow>
           bindR (visitAccount (AccountHash r) account fullRLP (Payload r)
                    (startAccount (AccountHash r) account fullRLP c1)) (\<lambda>c2.
             Inr (consumer_addCount RecordAccount (length fullRLP) c2)))"

definition validateStorageRecord ::
  "geth_env \<Rightarrow> Record \<Rightarrow> ('e, 's) consumer \<Rightarrow> ('e consumer_error, unit) result" where
  "validateStorageRecord env r c =
     (if \<not> c_haveAccount c then Inl StorageBeforeAccount
      else if c_codeSeen c then Inl StorageAfterCode
      else if AccountHash r \<noteq> c_accountHash c then Inl StorageForeignAccount
      else if Root (cur_account c) = EmptyRootHash env then Inl StorageOnEmptyRoot
      else if c_haveSlot c \<and> bytes_Compare (SubHash r) (c_lastSlot c) \<le> 0 then Inl SlotsNotIncreasing
      else mapErr InvalidStorageValue (validateStorageRLP env (Payload r)))"

definition consumeStorage ::
  "geth_env \<Rightarrow> Record \<Rightarrow> ('e, 's) consumer \<Rightarrow> ('e consumer_error, ('e, 's) consumer) result" where
  "consumeStorage env r c =
     bindR (validateStorageRecord env r c) (\<lambda>_.
       let t = (case c_storage c of None \<Rightarrow> [] | Some t \<Rightarrow> t) in
       case stack_Update env (c_accountHash c) (c_trieNodes c) t (SubHash r, Payload r) (c_sinks c) of
         Inl _ \<Rightarrow> Inl StorageTrieUpdate
       | Inr (t1, err, s) \<Rightarrow>
           (case err of
              Some e \<Rightarrow> Inl (NodeWriteFailed e)
            | None \<Rightarrow>
                let c1 = c\<lparr>c_storage := Some t1, c_sinks := (err, s), c_haveSlot := True,
                           c_lastSlot := SubHash r\<rparr>
                in bindR (case c_visitor c1 of
                            None \<Rightarrow> Inr c1
                          | Some v \<Rightarrow> visit (v_Storage v (c_accountHash c1) (SubHash r) (Payload r)) c1)
                     (\<lambda>c2. Inr (consumer_addCount RecordStorage (length (Payload r)) c2))))"

definition validateCodeRecord ::
  "geth_env \<Rightarrow> Record \<Rightarrow> ('e, 's) consumer \<Rightarrow> ('e consumer_error, hash) result" where
  "validateCodeRecord env r c =
     (if \<not> c_haveAccount c then Inl CodeBeforeAccount
      else if c_codeSeen c then Inl SecondCode
      else
        let expected = CodeHash (cur_account c) in
        if expected = EmptyCodeHash env then Inl CodeOnEmptyHash
        else if SubHash r \<noteq> expected then Inl CodeHashMismatch
        else if keccak256 env (Payload r) \<noteq> expected then Inl CodeContentMismatch
        else if hashSet_Has (c_knownCodes c) expected then Inl CodeRepeated
        else Inr expected)"

definition consumeCode ::
  "geth_env \<Rightarrow> Record \<Rightarrow> ('e, 's) consumer \<Rightarrow> ('e consumer_error, ('e, 's) consumer) result" where
  "consumeCode env r c =
     bindR (validateCodeRecord env r c) (\<lambda>expected.
       let c1 = c\<lparr>c_knownCodes := snd (hashSet_Add (c_knownCodes c) expected), c_codeSeen := True\<rparr>
       in bindR (case c_visitor c1 of
                   None \<Rightarrow> Inr c1
                 | Some v \<Rightarrow> visit (v_Code v (c_accountHash c1) expected (Payload r)) c1)
            (\<lambda>c2. Inr (consumer_addCount RecordCode (length (Payload r)) c2)))"

definition consume ::
  "geth_env \<Rightarrow> Record \<Rightarrow> ('e, 's) consumer \<Rightarrow> ('e consumer_error, ('e, 's) consumer) result" where
  "consume env r c =
     (if c_finished c then Inl AlreadyFinished
      else if Type r = RecordAccount then consumeAccount env r c
      else if Type r = RecordStorage then consumeStorage env r c
      else if Type r = RecordCode then consumeCode env r c
      else Inl (UnknownSemanticType (Type r)))"

definition consumer_finish ::
  "geth_env \<Rightarrow> ('e, 's) consumer \<Rightarrow> ('e consumer_error, StateResult \<times> ('e, 's) consumer) result" where
  "consumer_finish env c =
     (if c_finished c then Inl AlreadyFinished
      else
        bindR (finalizeAccount env (c\<lparr>c_finished := True\<rparr>)) (\<lambda>c1.
          let (root, err, s) = stack_Hash env zero_hash (c_trieNodes c1) (c_accountStack c1) (c_sinks c1)
          in case err of
               Some e \<Rightarrow> Inl (NodeWriteFailed e)
             | None \<Rightarrow>
                 if root \<noteq> c_expectedRoot c1 then Inl StateRootMismatch
                 else Inr (\<lparr>st_Root = root, st_Counts = c_counts c1\<rparr>, c1\<lparr>c_sinks := (err, s)\<rparr>)))"

end
