(* ===== verification/StateImage.thy ===== *)
theory StateImage
  imports Consumer
begin

text \<open>
  The specification of a bundle's content: a state image is a list of accounts with their slots
  and codes. The consumer accepts exactly the record sequences that spell out a well-formed image,
  rebuilds the image's root and counts what it holds.
\<close>

section \<open>State images\<close>

record acct =
  ac_hash :: hash
  ac_slim :: bytes
  ac_slots :: "kv list"
  ac_code :: "bytes option"

definition decoded :: "geth_env \<Rightarrow> acct \<Rightarrow> state_account \<times> bytes" where
  "decoded env a = projr (DecodeAccount env (ac_slim a))"

definition acct_of :: "geth_env \<Rightarrow> acct \<Rightarrow> state_account" where
  "acct_of env a = fst (decoded env a)"

definition leaf :: "geth_env \<Rightarrow> acct \<Rightarrow> kv" where
  "leaf env a = (ac_hash a, snd (decoded env a))"

text \<open>The records of one account: the account, its slots in order, its code when it is new.\<close>

definition account_record :: "acct \<Rightarrow> Record" where
  "account_record a = \<lparr>Type = RecordAccount, AccountHash = ac_hash a, SubHash = zero_hash, Payload = ac_slim a\<rparr>"

definition slot_record :: "acct \<Rightarrow> kv \<Rightarrow> Record" where
  "slot_record a kv = \<lparr>Type = RecordStorage, AccountHash = ac_hash a, SubHash = fst kv, Payload = snd kv\<rparr>"

definition code_record :: "geth_env \<Rightarrow> bytes \<Rightarrow> Record" where
  "code_record env code = \<lparr>Type = RecordCode, AccountHash = zero_hash, SubHash = keccak256 env code, Payload = code\<rparr>"

definition acct_records :: "geth_env \<Rightarrow> acct \<Rightarrow> Record list" where
  "acct_records env a =
     account_record a # map (slot_record a) (ac_slots a) @
       (case ac_code a of None \<Rightarrow> [] | Some code \<Rightarrow> [code_record env code])"

text \<open>What holds of an account while its records arrive, and what must hold at its end.\<close>

definition slots_ok :: "geth_env \<Rightarrow> acct \<Rightarrow> bool" where
  "slots_ok env a \<longleftrightarrow> ascending (ac_slots a) \<and>
     (\<forall>kv \<in> set (ac_slots a). validateStorageRLP env (snd kv) = Inr ()) \<and>
     (ac_slots a \<noteq> [] \<longrightarrow> Root (acct_of env a) \<noteq> EmptyRootHash env)"

definition code_ok :: "geth_env \<Rightarrow> hash set \<Rightarrow> acct \<Rightarrow> bool" where
  "code_ok env known a \<longleftrightarrow>
     (case ac_code a of None \<Rightarrow> True | Some code \<Rightarrow>
        CodeHash (acct_of env a) \<noteq> EmptyCodeHash env \<and>
        keccak256 env code = CodeHash (acct_of env a) \<and> CodeHash (acct_of env a) \<notin> known)"

lemma code_ok_iff:
  "code_ok env known a \<longleftrightarrow>
     (\<forall>code. ac_code a = Some code \<longrightarrow>
        CodeHash (acct_of env a) \<noteq> EmptyCodeHash env \<and>
        keccak256 env code = CodeHash (acct_of env a) \<and> CodeHash (acct_of env a) \<notin> known)"
  by (simp add: code_ok_def split: option.splits)

definition part_ok :: "geth_env \<Rightarrow> hash set \<Rightarrow> acct \<Rightarrow> bool" where
  "part_ok env known a \<longleftrightarrow> isOk (DecodeAccount env (ac_slim a)) \<and> slots_ok env a \<and> code_ok env known a"

definition close_ok :: "geth_env \<Rightarrow> hash set \<Rightarrow> acct \<Rightarrow> bool" where
  "close_ok env known a \<longleftrightarrow>
     Root (acct_of env a) = (if ac_slots a = [] then EmptyRootHash env else stack_root env (ac_slots a)) \<and>
     (ac_code a = None \<longrightarrow>
        CodeHash (acct_of env a) = EmptyCodeHash env \<or> CodeHash (acct_of env a) \<in> known)"

definition acct_codes :: "geth_env \<Rightarrow> acct \<Rightarrow> hash set" where
  "acct_codes env a = (if ac_code a = None then {} else {CodeHash (acct_of env a)})"

definition known_codes :: "geth_env \<Rightarrow> acct list \<Rightarrow> hash set" where
  "known_codes env as = (\<Union>a \<in> set as. acct_codes env a)"

text \<open>
  A well-formed image: accounts in ascending order; each decodes, has ascending well-formed slots
  under its storage root and a code that is available: its own, the first time, or an earlier one.
\<close>

definition image_ok :: "geth_env \<Rightarrow> acct list \<Rightarrow> bool" where
  "image_ok env as \<longleftrightarrow> ascending (map (leaf env) as) \<and>
     (\<forall>i < length as. part_ok env (known_codes env (take i as)) (as ! i) \<and>
        close_ok env (known_codes env (take i as)) (as ! i))"

definition part_counts :: "geth_env \<Rightarrow> acct \<Rightarrow> Counts" where
  "part_counts env a = \<lparr>Accounts = 1, StorageSlots = of_nat (length (ac_slots a)), CodeReferences = 0,
     CodeRecords = (if ac_code a = None then 0 else 1),
     Records = of_nat (length (acct_records env a)),
     PayloadBytes = of_nat (length (snd (decoded env a)) + sum_list (map (length \<circ> snd) (ac_slots a)) +
       (case ac_code a of None \<Rightarrow> 0 | Some code \<Rightarrow> length code))\<rparr>"

definition acct_counts :: "geth_env \<Rightarrow> acct \<Rightarrow> Counts" where
  "acct_counts env a = (part_counts env a)\<lparr>CodeReferences :=
     (if CodeHash (acct_of env a) = EmptyCodeHash env then 0 else 1)\<rparr>"

definition image_counts :: "geth_env \<Rightarrow> acct list \<Rightarrow> Counts" where
  "image_counts env as = foldl addBundleCounts emptyCounts (map (acct_counts env) as)"

definition image_records :: "geth_env \<Rightarrow> acct list \<Rightarrow> Record list" where
  "image_records env as = concat (map (acct_records env) as)"

definition image_root :: "geth_env \<Rightarrow> acct list \<Rightarrow> hash" where
  "image_root env as = stack_root env (map (leaf env) as)"

section \<open>The consumer's state as an image under construction\<close>

definition represents :: "geth_env \<Rightarrow> acct list \<Rightarrow> ('e, 's) consumer \<Rightarrow> bool" where
  "represents env as c \<longleftrightarrow>
     image_ok env as \<and> c_accountStack c = map (leaf env) as \<and> \<not> c_haveAccount c \<and>
     set (c_knownCodes c) = known_codes env as \<and> c_counts c = image_counts env as \<and>
     (as \<noteq> [] \<longrightarrow> c_lastAccount c = ac_hash (last as)) \<and> length as < 2 ^ 64"

definition represents_part :: "geth_env \<Rightarrow> acct list \<Rightarrow> acct \<Rightarrow> ('e, 's) consumer \<Rightarrow> bool" where
  "represents_part env as a c \<longleftrightarrow>
     image_ok env as \<and> part_ok env (known_codes env as) a \<and>
     (as \<noteq> [] \<longrightarrow> ac_hash (last as) < ac_hash a) \<and>
     c_accountStack c = map (leaf env) as \<and> c_haveAccount c \<and>
     set (c_knownCodes c) = known_codes env as \<union> acct_codes env a \<and>
     c_counts c = addBundleCounts (image_counts env as) (part_counts env a) \<and>
     c_lastAccount c = ac_hash a \<and> c_accountHash c = ac_hash a \<and>
     c_account c = Some (acct_of env a) \<and> c_accountRLP c = snd (decoded env a) \<and>
     c_storage c = (if ac_slots a = [] then None else Some (ac_slots a)) \<and>
     c_haveSlot c = (ac_slots a \<noteq> []) \<and> (ac_slots a \<noteq> [] \<longrightarrow> c_lastSlot c = fst (last (ac_slots a))) \<and>
     c_codeSeen c = (ac_code a \<noteq> None) \<and> length as + 1 < 2 ^ 64"

text \<open>What never changes while records are consumed.\<close>

definition same_setup :: "('e, 's) consumer \<Rightarrow> ('e, 's) consumer \<Rightarrow> bool" where
  "same_setup c d \<longleftrightarrow> c_expectedRoot d = c_expectedRoot c \<and> c_visitor d = c_visitor c \<and>
     c_trieNodes d = c_trieNodes c \<and> c_finished d = c_finished c"

lemma same_setup_refl [simp]: "same_setup c c"
  by (simp add: same_setup_def)

lemma same_setup_trans: "same_setup a b \<Longrightarrow> same_setup b c \<Longrightarrow> same_setup a c"
  by (simp add: same_setup_def)

section \<open>Closing an account\<close>

lemma ascending_snoc: "ascending (xs @ [x]) \<longleftrightarrow> ascending xs \<and> (xs \<noteq> [] \<longrightarrow> fst (last xs) < fst x)"
  by (cases xs rule: rev_cases) (auto intro: less_trans)

lemma image_ok_snoc:
  "image_ok env (as @ [a]) \<longleftrightarrow> image_ok env as \<and> (as \<noteq> [] \<longrightarrow> ac_hash (last as) < ac_hash a) \<and>
     part_ok env (known_codes env as) a \<and> close_ok env (known_codes env as) a"
proof -
  have "(\<forall>i < length (as @ [a]). P (take i (as @ [a])) ((as @ [a]) ! i)) \<longleftrightarrow>
      (\<forall>i < length as. P (take i as) (as ! i)) \<and> P as a" for P
    by (auto simp: nth_append less_Suc_eq)
  from this [of "\<lambda>pre x. part_ok env (known_codes env pre) x \<and> close_ok env (known_codes env pre) x"]
  moreover have "ascending (map (leaf env) (as @ [a])) \<longleftrightarrow>
      ascending (map (leaf env) as) \<and> (as \<noteq> [] \<longrightarrow> ac_hash (last as) < ac_hash a)"
    unfolding map_append list.map ascending_snoc by (auto simp: leaf_def last_map)
  ultimately show ?thesis unfolding image_ok_def by blast
qed

lemma acct_counts_part:
  "acct_counts env a =
     (if CodeHash (acct_of env a) = EmptyCodeHash env then part_counts env a
      else (part_counts env a)\<lparr>CodeReferences := CodeReferences (part_counts env a) + 1\<rparr>)"
  by (simp add: acct_counts_def part_counts_def)

lemma image_counts_snoc:
  "image_counts env (as @ [a]) = addBundleCounts (image_counts env as) (acct_counts env a)"
  by (simp add: image_counts_def)

lemma addBundleCounts_ref:
  "addBundleCounts m (n\<lparr>CodeReferences := CodeReferences n + 1\<rparr>) =
     (addBundleCounts m n)\<lparr>CodeReferences := CodeReferences (addBundleCounts m n) + 1\<rparr>"
  by (simp add: addBundleCounts_def)

lemma finalizeAccount_idle: "\<not> c_haveAccount c \<Longrightarrow> finalizeAccount env c = Inr c"
  by (simp add: finalizeAccount_def)

lemma finalizeAccount_sound:
  assumes rep: "represents_part env as a c" and fin: "finalizeAccount env c = Inr c'"
  shows "close_ok env (known_codes env as) a \<and> represents env (as @ [a]) c' \<and> same_setup c c'"
proof -
  let ?acc = "acct_of env a"
  have acc: "cur_account c = ?acc" using rep by (simp add: cur_account_def represents_part_def)
  have st: "c_storage c = (if ac_slots a = [] then None else Some (ac_slots a))"
    and seen: "c_codeSeen c = (ac_code a \<noteq> None)" and hv: "c_haveAccount c"
    and known: "set (c_knownCodes c) = known_codes env as \<union> acct_codes env a"
    using rep by (simp_all add: represents_part_def)
  from fin have close: "close_ok env (known_codes env as) a"
    using hv st seen acc known
    by (auto simp: finalizeAccount_def close_ok_def acct_codes_def Let_def hashSet_Has_def stack_Hash_def
          split: if_splits option.splits prod.splits sum.splits)
  from fin have eqs: "c_accountStack c' = c_accountStack c @ [(c_accountHash c, c_accountRLP c)]"
    "\<not> c_haveAccount c'" "c_knownCodes c' = c_knownCodes c" "c_lastAccount c' = c_lastAccount c"
    "c_counts c' = (if CodeHash ?acc \<noteq> EmptyCodeHash env
       then (c_counts c)\<lparr>CodeReferences := CodeReferences (c_counts c) + 1\<rparr> else c_counts c)"
    "same_setup c c'"
    using hv acc
    by (auto simp: finalizeAccount_def Let_def stack_Update_def same_setup_def
          split: if_splits option.splits prod.splits sum.splits)
  from rep close eqs show ?thesis
    by (auto simp: represents_def represents_part_def image_ok_snoc known_codes_def image_counts_snoc
          acct_counts_part addBundleCounts_ref leaf_def)
qed

section \<open>Opening an account\<close>

lemma image_counts_Accounts: "Accounts (image_counts env as) = of_nat (length as)"
  by (induction as rule: rev_induct)
     (simp_all add: image_counts_snoc addBundleCounts_def acct_counts_def part_counts_def,
      simp add: image_counts_def emptyCounts_def)

lemma visitAccount_Inr:
  "visitAccount h acc full slim c = Inr c' \<Longrightarrow> \<exists>sk. c' = c\<lparr>c_sinks := sk\<rparr>"
  by (cases c)
     (auto simp: visitAccount_def visit_def Let_def split: option.splits prod.splits)

lemma isOk_decoded: "DecodeAccount env (ac_slim a) = Inr d \<Longrightarrow> decoded env a = d"
  by (simp add: decoded_def)

text \<open>The account after one more record.\<close>

definition fresh_acct :: "Record \<Rightarrow> acct" where
  "fresh_acct r = \<lparr>ac_hash = AccountHash r, ac_slim = Payload r, ac_slots = [], ac_code = None\<rparr>"

definition add_slot :: "Record \<Rightarrow> acct \<Rightarrow> acct" where
  "add_slot r a = a\<lparr>ac_slots := ac_slots a @ [(SubHash r, Payload r)]\<rparr>"

definition add_code :: "Record \<Rightarrow> acct \<Rightarrow> acct" where
  "add_code r a = a\<lparr>ac_code := Some (Payload r)\<rparr>"

lemma consumeAccount_start:
  assumes rep: "represents env as c" and con: "consumeAccount env r c = Inr c'"
    and ty: "Type r = RecordAccount" "SubHash r = zero_hash" and len: "length as + 1 < 2 ^ 64"
  shows "represents_part env as (fresh_acct r) c' \<and> acct_records env (fresh_acct r) = [r] \<and> same_setup c c'"
proof -
  let ?a = "\<lparr>ac_hash = AccountHash r, ac_slim = Payload r, ac_slots = [], ac_code = None\<rparr>"
  have idle: "finalizeAccount env c = Inr c" using rep by (simp add: represents_def finalizeAccount_idle)
  from con have ord: "\<not> (Accounts (c_counts c) > 0 \<and> AccountHash r \<le> c_lastAccount c)"
    by (auto simp: consumeAccount_def idle split: if_splits)
  from con obtain acc full c2 where d: "DecodeAccount env (Payload r) = Inr (acc, full)"
    and v: "visitAccount (AccountHash r) acc full (Payload r) (startAccount (AccountHash r) acc full c) = Inr c2"
    and c': "c' = consumer_addCount RecordAccount (length full) c2"
    by (fastforce simp: consumeAccount_def idle result_simps split: if_splits sum.splits)
  have dec: "decoded env ?a = (acc, full)" by (rule isOk_decoded) (simp add: d)
  have "(of_nat (length as) :: u64) > 0" if "as \<noteq> []"
  proof -
    have "unat (of_nat (length as) :: u64) = length as" using len by (simp add: unat_of_nat)
    with that show ?thesis by (metis length_greater_0_conv unat_gt_0 word_gt_0)
  qed
  with ord rep have "as \<noteq> [] \<longrightarrow> ac_hash (last as) < AccountHash r"
    by (auto simp: represents_def image_counts_Accounts not_le)
  moreover from visitAccount_Inr [OF v] obtain sk where "c2 = startAccount (AccountHash r) acc full c\<lparr>c_sinks := sk\<rparr>"
    by blast
  ultimately have "represents_part env as ?a c'"
    using rep len dec d unfolding c'
    by (auto simp: represents_part_def represents_def startAccount_def consumer_addCount_def Let_def
          part_ok_def slots_ok_def code_ok_iff acct_codes_def acct_of_def part_counts_def
          addBundleCounts_def acct_records_def add.commute)
  moreover have "acct_records env ?a = [r]"
    using ty by (cases r) (simp add: acct_records_def account_record_def)
  moreover have "same_setup c c'"
    using visitAccount_Inr [OF v] unfolding c'
    by (auto simp: same_setup_def startAccount_def consumer_addCount_def Let_def)
  ultimately show ?thesis by (simp add: fresh_acct_def)
qed

section \<open>Slots and codes\<close>

lemma visit_Inr: "visit m c = Inr c' \<Longrightarrow> \<exists>sk. c' = c\<lparr>c_sinks := sk\<rparr>"
  by (cases c) (auto simp: visit_def Let_def split: option.splits prod.splits)

lemma consumeStorage_sound:
  assumes rep: "represents_part env as a c" and con: "consumeStorage env r c = Inr c'"
    and ty: "Type r = RecordStorage"
  shows "represents_part env as (add_slot r a) c' \<and>
     acct_records env (add_slot r a) = acct_records env a @ [r] \<and> same_setup c c'"
proof -
  let ?kv = "(SubHash r, Payload r)"
  let ?a = "a\<lparr>ac_slots := ac_slots a @ [?kv]\<rparr>"
  have acc: "cur_account c = acct_of env a" using rep by (simp add: cur_account_def represents_part_def)
  have dec: "decoded env ?a = decoded env a" "acct_of env ?a = acct_of env a"
    by (simp_all add: decoded_def acct_of_def)
  from con have val: "validateStorageRecord env r c = Inr ()"
    by (auto simp: consumeStorage_def result_simps)
  then have v: "\<not> c_codeSeen c" "AccountHash r = c_accountHash c" "Root (acct_of env a) \<noteq> EmptyRootHash env"
    "c_haveSlot c \<longrightarrow> c_lastSlot c < SubHash r" "validateStorageRLP env (Payload r) = Inr ()"
    by (auto simp: validateStorageRecord_def acc result_simps not_le split: if_splits)
  have stor: "(case c_storage c of None \<Rightarrow> [] | Some t \<Rightarrow> t) = ac_slots a"
    using rep by (simp add: represents_part_def)
  from con obtain sk where
    c': "c' = consumer_addCount RecordStorage (length (Payload r))
      (c\<lparr>c_storage := Some (ac_slots a @ [?kv]), c_haveSlot := True, c_lastSlot := SubHash r, c_sinks := sk\<rparr>)"
    unfolding consumeStorage_def val stor bindR_simps
    by (cases c) (auto simp: stack_Update_def result_simps Let_def
          split: if_splits option.splits prod.splits sum.splits dest!: visit_Inr)
  have "ac_code a = None" using v(1) rep by (simp add: represents_part_def)
  moreover have "slots_ok env ?a"
    using rep v dec unfolding slots_ok_def acct.simps
    by (auto simp: represents_part_def part_ok_def slots_ok_def ascending_snoc simp del: ascending_append)
  moreover have "part_counts env ?a = (part_counts env a)\<lparr>
      StorageSlots := StorageSlots (part_counts env a) + 1, Records := Records (part_counts env a) + 1,
      PayloadBytes := PayloadBytes (part_counts env a) + of_nat (length (Payload r))\<rparr>"
    using dec \<open>ac_code a = None\<close> by (simp add: part_counts_def acct_records_def)
  ultimately have "represents_part env as ?a c'"
    using rep dec unfolding c'
    by (auto simp: represents_part_def consumer_addCount_def Let_def part_ok_def code_ok_iff
          acct_codes_def addBundleCounts_def record_kinds add.assoc)
  moreover have "acct_records env ?a = acct_records env a @ [r]"
    using \<open>ac_code a = None\<close> ty v(2) rep
    by (cases r) (simp add: acct_records_def account_record_def slot_record_def represents_part_def)
  moreover have "same_setup c c'" unfolding c' by (simp add: same_setup_def consumer_addCount_def Let_def)
  ultimately show ?thesis by (simp add: add_slot_def)
qed

lemma consumeCode_sound:
  assumes rep: "represents_part env as a c" and con: "consumeCode env r c = Inr c'"
    and ty: "Type r = RecordCode" "AccountHash r = zero_hash"
  shows "represents_part env as (add_code r a) c' \<and>
     acct_records env (add_code r a) = acct_records env a @ [r] \<and> same_setup c c'"
proof -
  let ?a = "a\<lparr>ac_code := Some (Payload r)\<rparr>"
  have acc: "cur_account c = acct_of env a" using rep by (simp add: cur_account_def represents_part_def)
  have dec: "decoded env ?a = decoded env a" "acct_of env ?a = acct_of env a"
    by (simp_all add: decoded_def acct_of_def)
  from con obtain h where val: "validateCodeRecord env r c = Inr h"
    by (auto simp: consumeCode_def result_simps)
  then have v: "\<not> c_codeSeen c" "h = CodeHash (acct_of env a)" "h \<noteq> EmptyCodeHash env" "SubHash r = h"
    "keccak256 env (Payload r) = h" "h \<notin> set (c_knownCodes c)"
    by (auto simp: validateCodeRecord_def acc Let_def hashSet_Has_def split: if_splits)
  from con val obtain sk where
    c': "c' = consumer_addCount RecordCode (length (Payload r))
      (c\<lparr>c_knownCodes := c_knownCodes c @ [h], c_codeSeen := True, c_sinks := sk\<rparr>)"
    using v(6)
    by (cases c) (auto simp: consumeCode_def result_simps Let_def hashSet_Add_def hashSet_Has_def
          split: if_splits option.splits dest!: visit_Inr)
  have none: "ac_code a = None" using v(1) rep by (simp add: represents_part_def)
  moreover have "part_counts env ?a = (part_counts env a)\<lparr>
      CodeRecords := CodeRecords (part_counts env a) + 1, Records := Records (part_counts env a) + 1,
      PayloadBytes := PayloadBytes (part_counts env a) + of_nat (length (Payload r))\<rparr>"
    using dec none by (simp add: part_counts_def acct_records_def)
  ultimately have "represents_part env as ?a c'"
    using rep dec v unfolding c'
    by (auto simp: represents_part_def consumer_addCount_def Let_def part_ok_def code_ok_iff slots_ok_def
          acct_codes_def addBundleCounts_def record_kinds add.assoc)
  moreover have "acct_records env ?a = acct_records env a @ [r]"
    using none ty v
    by (cases r) (simp add: acct_records_def account_record_def slot_record_def code_record_def)
  moreover have "same_setup c c'" unfolding c' by (simp add: same_setup_def consumer_addCount_def Let_def)
  ultimately show ?thesis by (simp add: add_code_def)
qed

section \<open>Any record\<close>

text \<open>The records \<open>rs\<close> consumed so far spell out an image, the last account maybe still open.\<close>

definition reps :: "geth_env \<Rightarrow> Record list \<Rightarrow> ('e, 's) consumer \<Rightarrow> bool" where
  "reps env rs c \<longleftrightarrow>
     (\<exists>as. image_records env as = rs \<and> represents env as c) \<or>
     (\<exists>as a. image_records env as @ acct_records env a = rs \<and> represents_part env as a c)"

lemma length_image_records: "length as \<le> length (image_records env as)"
  by (induction as) (auto simp: image_records_def acct_records_def)

lemma length_acct_records: "1 \<le> length (acct_records env a)"
  by (simp add: acct_records_def)

lemma image_records_snoc: "image_records env (as @ [a]) = image_records env as @ acct_records env a"
  by (simp add: image_records_def)

lemma finalizeAccount_reps:
  assumes "reps env rs c" and "finalizeAccount env c = Inr c'"
  shows "\<exists>as. image_records env as = rs \<and> represents env as c' \<and> same_setup c c'"
proof -
  from assms(1) consider
      (idle) as where "image_records env as = rs" "represents env as c"
    | (part) as a where "image_records env as @ acct_records env a = rs" "represents_part env as a c"
    by (auto simp: reps_def)
  then show ?thesis
  proof cases
    case idle
    then show ?thesis using assms(2) by (auto simp: represents_def finalizeAccount_idle)
  next
    case part
    from finalizeAccount_sound [OF part(2) assms(2)] part(1) show ?thesis
      by (intro exI [of _ "as @ [a]"]) (simp add: image_records_snoc)
  qed
qed

lemma consumeAccount_reps:
  assumes rep: "reps env rs c" and con: "consumeAccount env r c = Inr c'"
    and ty: "Type r = RecordAccount" "SubHash r = zero_hash" and len: "length rs + 1 < 2 ^ 64"
  shows "reps env (rs @ [r]) c' \<and> same_setup c c'"
proof -
  from con obtain c1 where c1: "finalizeAccount env c = Inr c1"
    by (auto simp: consumeAccount_def result_simps)
  from finalizeAccount_reps [OF rep c1] obtain as where
    as: "image_records env as = rs" "represents env as c1" "same_setup c c1" by blast
  have "finalizeAccount env c1 = Inr c1" using as(2) by (simp add: represents_def finalizeAccount_idle)
  then have "consumeAccount env r c1 = Inr c'" using con c1 by (simp add: consumeAccount_def)
  moreover have "length as + 1 < 2 ^ 64" using len length_image_records [of as env] as(1) by simp
  ultimately have "represents_part env as (fresh_acct r) c'" "acct_records env (fresh_acct r) = [r]"
    "same_setup c1 c'" using consumeAccount_start [OF as(2)] ty by blast+
  with as show ?thesis by (auto simp: reps_def intro: same_setup_trans)
qed

lemma consume_reps:
  assumes rep: "reps env rs c" and con: "consume env r c = Inr c'" and ok: "record_ok r"
    and len: "length rs + 1 < 2 ^ 64"
  shows "reps env (rs @ [r]) c' \<and> same_setup c c'"
proof -
  from con consider
      (account) "Type r = RecordAccount" "consumeAccount env r c = Inr c'"
    | (storage) "Type r = RecordStorage" "consumeStorage env r c = Inr c'"
    | (code) "Type r = RecordCode" "consumeCode env r c = Inr c'"
    by (auto simp: consume_def split: if_splits)
  then show ?thesis
  proof cases
    case account
    with ok show ?thesis using consumeAccount_reps [OF rep] len by (simp add: record_ok_def)
  next
    case storage
    then have "c_haveAccount c"
      by (auto simp: consumeStorage_def validateStorageRecord_def split: if_splits)
    with rep obtain as a where as: "image_records env as @ acct_records env a = rs" "represents_part env as a c"
      by (auto simp: reps_def represents_def)
    from consumeStorage_sound [OF as(2) storage(2,1)] as(1) show ?thesis
      unfolding reps_def by (metis append_assoc)
  next
    case code
    then have "c_haveAccount c"
      by (auto simp: consumeCode_def validateCodeRecord_def split: if_splits)
    with rep obtain as a where as: "image_records env as @ acct_records env a = rs" "represents_part env as a c"
      by (auto simp: reps_def represents_def)
    have "AccountHash r = zero_hash" using ok code(1) by (simp add: record_ok_def)
    from consumeCode_sound [OF as(2) code(2,1) this] as(1) show ?thesis
      unfolding reps_def by (metis append_assoc)
  qed
qed

section \<open>Completeness\<close>

text \<open>A consumer without a visitor and without a node sink, as verification runs it.\<close>

definition quiet :: "('e, 's) consumer \<Rightarrow> bool" where
  "quiet c \<longleftrightarrow> c_visitor c = None \<and> c_trieNodes c = None \<and> fst (c_sinks c) = None \<and> \<not> c_finished c"

definition geth_ok :: "geth_env \<Rightarrow> bool" where
  "geth_ok env \<longleftrightarrow> digests_ok env \<and> stack_ok env \<and> rlp_nonempty env"

definition hashes_ok :: "acct \<Rightarrow> bool" where
  "hashes_ok a \<longleftrightarrow> is_hash (ac_hash a) \<and> (\<forall>kv \<in> set (ac_slots a). is_hash (fst kv))"

lemma stack_Update_ok:
  assumes "stack_ok env" and "is_hash k" and "v \<noteq> []" and "ascending (ts @ [(k, v)])"
    and "\<forall>kv \<in> set ts. is_hash (fst kv)"
  shows "stack_Update env owner None ts (k, v) st = Inr (ts @ [(k, v)], st)"
  using assms by (auto simp: stack_Update_def stack_ok_def)

lemma finalizeAccount_ok:
  assumes rep: "represents_part env as a c" and close: "close_ok env (known_codes env as) a"
    and env: "geth_ok env" and q: "quiet c" and h: "hashes_ok a" "\<forall>b \<in> set as. hashes_ok b"
  shows "\<exists>c'. finalizeAccount env c = Inr c' \<and> quiet c'"
proof -
  let ?full = "snd (decoded env a)"
  have acc: "cur_account c = acct_of env a" using rep by (simp add: cur_account_def represents_part_def)
  from rep obtain acc where "DecodeAccount env (ac_slim a) = Inr (acc, ?full)"
    by (auto simp: represents_part_def part_ok_def result_simps isOk_decoded)
  with env have full: "?full \<noteq> []"
    unfolding geth_ok_def rlp_nonempty_def by (blast dest: DecodeAccount_eq_Inr)
  have "image_ok env (as @ [a])" using rep close by (simp add: image_ok_snoc represents_part_def)
  then have asc: "ascending (map (leaf env) as @ [(ac_hash a, ?full)])"
    by (simp add: image_ok_def leaf_def)
  have upd: "stack_Update env zero_hash None (map (leaf env) as) (ac_hash a, ?full) st =
      Inr (map (leaf env) as @ [(ac_hash a, ?full)], st)" for st :: "'a option \<times> 'b"
    using env h full asc by (intro stack_Update_ok) (auto simp: geth_ok_def hashes_ok_def leaf_def)
  obtain s where sk: "c_sinks c = (None, s)" using q by (cases "c_sinks c") (auto simp: quiet_def)
  have st: "c_haveAccount c" "c_storage c = (if ac_slots a = [] then None else Some (ac_slots a))"
    "c_codeSeen c = (ac_code a \<noteq> None)" "c_accountStack c = map (leaf env) as"
    "c_accountHash c = ac_hash a" "c_accountRLP c = ?full" "c_trieNodes c = None"
    using rep q by (simp_all add: represents_part_def quiet_def)
  have root: "(if ac_slots a = [] then EmptyRootHash env else stack_root env (ac_slots a)) = Root (acct_of env a)"
    using close by (simp add: close_ok_def)
  have code: "CodeHash (acct_of env a) = EmptyCodeHash env \<Longrightarrow> ac_code a = None"
    "CodeHash (acct_of env a) \<noteq> EmptyCodeHash env \<Longrightarrow>
       ac_code a \<noteq> None \<or> hashSet_Has (c_knownCodes c) (CodeHash (acct_of env a))"
    using rep close
    by (auto simp: represents_part_def part_ok_def code_ok_iff close_ok_def hashSet_Has_def)
  show ?thesis
    unfolding finalizeAccount_def using st root code q
    by (cases "ac_slots a = []"; cases "CodeHash (acct_of env a) = EmptyCodeHash env")
       (auto simp: sk acc upd stack_Hash_def quiet_def Let_def)
qed

lemma consumeAccount_ok:
  assumes rep: "represents env as c" and q: "quiet c"
    and dec: "isOk (DecodeAccount env (Payload r))"
    and ord: "as \<noteq> [] \<longrightarrow> ac_hash (last as) < AccountHash r"
  shows "\<exists>c'. consumeAccount env r c = Inr c' \<and> quiet c'"
proof -
  have idle: "finalizeAccount env c = Inr c" using rep by (simp add: represents_def finalizeAccount_idle)
  have "\<not> (Accounts (c_counts c) > 0 \<and> AccountHash r \<le> c_lastAccount c)"
    using rep ord by (cases "as = []") (auto simp: represents_def image_counts_def emptyCounts_def not_le)
  then show ?thesis
    using dec q
    by (auto simp: consumeAccount_def idle result_simps visitAccount_def quiet_def startAccount_def
          consumer_addCount_def Let_def)
qed

lemma consumeStorage_ok:
  assumes rep: "represents_part env as a c" and q: "quiet c" and env: "geth_ok env"
    and a: "slots_ok env (add_slot r a)" "hashes_ok (add_slot r a)" "ac_code a = None"
    and r: "AccountHash r = ac_hash a"
  shows "\<exists>c'. consumeStorage env r c = Inr c' \<and> quiet c'"
proof -
  have acc: "cur_account c = acct_of env a" "acct_of env (add_slot r a) = acct_of env a"
    using rep by (simp_all add: cur_account_def represents_part_def acct_of_def decoded_def add_slot_def)
  have stor: "(case c_storage c of None \<Rightarrow> [] | Some t \<Rightarrow> t) = ac_slots a"
    using rep by (simp add: represents_part_def)
  from a(1) have asc: "ascending (ac_slots a @ [(SubHash r, Payload r)])"
    and rlp: "validateStorageRLP env (Payload r) = Inr ()" and root: "Root (acct_of env a) \<noteq> EmptyRootHash env"
    using acc(2) by (auto simp: slots_ok_def add_slot_def)
  have "Payload r \<noteq> []"
    using rlp env by (auto simp: geth_ok_def rlp_nonempty_def validateStorageRLP_def)
  then have upd: "stack_Update env (c_accountHash c) None (ac_slots a) (SubHash r, Payload r) st =
      Inr (ac_slots a @ [(SubHash r, Payload r)], st)" for st :: "'a option \<times> 'b"
    using env asc a(2) by (intro stack_Update_ok) (auto simp: geth_ok_def hashes_ok_def add_slot_def)
  have "c_haveSlot c \<longrightarrow> c_lastSlot c < SubHash r"
    using rep asc by (auto simp: represents_part_def ascending_snoc simp del: ascending_append)
  then have val: "validateStorageRecord env r c = Inr ()"
    using rep a(3) r rlp root by (auto simp: validateStorageRecord_def represents_part_def acc not_le)
  obtain s where "c_sinks c = (None, s)" using q by (cases "c_sinks c") (auto simp: quiet_def)
  then show ?thesis
    using q unfolding consumeStorage_def val stor bindR_simps
    by (auto simp: upd quiet_def Let_def consumer_addCount_def)
qed

lemma consumeCode_ok:
  assumes rep: "represents_part env as a c" and q: "quiet c"
    and a: "code_ok env (known_codes env as) (add_code r a)" "ac_code a = None"
    and r: "SubHash r = keccak256 env (Payload r)"
  shows "\<exists>c'. consumeCode env r c = Inr c' \<and> quiet c'"
proof -
  have acc: "cur_account c = acct_of env a" "acct_of env (add_code r a) = acct_of env a"
    using rep by (simp_all add: cur_account_def represents_part_def acct_of_def decoded_def add_code_def)
  have "validateCodeRecord env r c = Inr (CodeHash (acct_of env a))"
    using rep a acc r
    by (auto simp: validateCodeRecord_def represents_part_def code_ok_iff add_code_def Let_def
          hashSet_Has_def acct_codes_def)
  with q show ?thesis
    by (auto simp: consumeCode_def quiet_def Let_def consumer_addCount_def)
qed

end
