(* ===== verification/Bundle.thy ===== *)
theory Bundle
  imports Stream StateImage
begin

text \<open>
  Scanning a bundle (\<^verbatim>\<open>scanBundle\<close> of \<^verbatim>\<open>internal/migration/bundle.go\<close>): load the manifest,
  feed every record of the stream to the consumer, re-read the manifest, finish the consumer and
  compare its counters with the manifest's. The consumer accepts exactly the records of
  well-formed state images.
\<close>

section \<open>The consumer on whole record sequences\<close>

lemma reps_new: "reps env [] (newRecordConsumer root visitor nodes s)"
  unfolding reps_def
  by (intro disjI1 exI [of _ "[]"])
     (simp add: represents_def newRecordConsumer_def image_records_def image_ok_def image_counts_def
        known_codes_def newHashSet_def)

lemma consume_all_reps:
  assumes "consume_all (consume env) rs c = Inr c'" and "reps env pre c" and "list_all record_ok rs"
    and "length pre + length rs < 2 ^ 64"
  shows "reps env (pre @ rs) c' \<and> same_setup c c'"
  using assms
proof (induction rs arbitrary: pre c)
  case Nil
  then show ?case by simp
next
  case (Cons r rs)
  then obtain c1 where c1: "consume env r c = Inr c1" "consume_all (consume env) rs c1 = Inr c'"
    by (auto simp: result_simps)
  from consume_reps [OF Cons.prems(2) c1(1)] Cons.prems
  have "reps env (pre @ [r]) c1" "same_setup c c1" by auto
  with Cons.IH [OF c1(2), of "pre @ [r]"] Cons.prems show ?case
    by (auto intro: same_setup_trans)
qed

lemma consumer_finish_image:
  assumes rep: "reps env rs c" and fin: "consumer_finish env c = Inr (st, c')"
  shows "\<exists>as. image_records env as = rs \<and> image_ok env as \<and> image_root env as = c_expectedRoot c \<and>
     st = \<lparr>st_Root = image_root env as, st_Counts = image_counts env as\<rparr>"
proof -
  let ?c = "c\<lparr>c_finished := True\<rparr>"
  from fin obtain c1 where c1: "finalizeAccount env ?c = Inr c1"
    by (auto simp: consumer_finish_def result_simps split: if_splits)
  with fin have r: "stack_root env (c_accountStack c1) = c_expectedRoot c1"
    and st: "st = \<lparr>st_Root = stack_root env (c_accountStack c1), st_Counts = c_counts c1\<rparr>"
    by (auto simp: consumer_finish_def stack_Hash_def split: if_splits option.splits prod.splits)
  have "reps env rs ?c"
    using rep by (simp add: reps_def represents_def represents_part_def)
  from finalizeAccount_reps [OF this c1] obtain as where
    "image_records env as = rs" "represents env as c1" "same_setup ?c c1" by blast
  with r st show ?thesis
    by (auto simp: represents_def same_setup_def image_root_def)
qed

text \<open>The records of one account, consumed on top of the image of the earlier ones.\<close>

lemma consume_all_append:
  "consume_all f (xs @ ys) c = bindR (consume_all f xs c) (consume_all f ys)"
proof (induction xs arbitrary: c)
  case (Cons x xs)
  then show ?case by (cases "f x c") simp_all
qed simp

lemma consume_slots_ok:
  assumes "represents_part env as a c" and "quiet c" and "geth_ok env" and "ac_code a = None"
    and "slots_ok env (a\<lparr>ac_slots := ac_slots a @ kvs\<rparr>)" and "hashes_ok (a\<lparr>ac_slots := ac_slots a @ kvs\<rparr>)"
  shows "\<exists>c'. consume_all (consume env) (map (slot_record a) kvs) c = Inr c' \<and> quiet c' \<and>
     represents_part env as (a\<lparr>ac_slots := ac_slots a @ kvs\<rparr>) c' \<and> same_setup c c'"
  using assms
proof (induction kvs arbitrary: a c)
  case Nil
  then show ?case by simp
next
  case (Cons kv kvs)
  let ?r = "slot_record a kv" and ?b = "a\<lparr>ac_slots := ac_slots a @ [kv]\<rparr>"
  have b: "add_slot ?r a = ?b" by (simp add: add_slot_def slot_record_def)
  have acc: "acct_of env (a\<lparr>ac_slots := ws\<rparr>) = acct_of env a" for ws
    by (simp add: acct_of_def decoded_def)
  have "slots_ok env ?b" "hashes_ok ?b"
    using Cons.prems(5,6) by (auto simp: slots_ok_def hashes_ok_def acc)
  then obtain c1 where c1: "consumeStorage env ?r c = Inr c1" "quiet c1"
    using consumeStorage_ok [OF Cons.prems(1-3), of ?r] Cons.prems(4)
    by (auto simp: add_slot_def slot_record_def)
  have ty: "Type ?r = RecordStorage" by (simp add: slot_record_def)
  from consumeStorage_sound [OF Cons.prems(1) c1(1) ty]
  have r1: "represents_part env as ?b c1" "same_setup c c1" by (simp_all add: b)
  have "consume env ?r c = Inr c1"
    using c1(1) Cons.prems(2) ty by (simp add: consume_def quiet_def record_kinds)
  moreover have "slot_record ?b = slot_record a" by (rule ext) (simp add: slot_record_def)
  moreover obtain c' where "consume_all (consume env) (map (slot_record ?b) kvs) c1 = Inr c'" "quiet c'"
    "represents_part env as (?b\<lparr>ac_slots := ac_slots ?b @ kvs\<rparr>) c'" "same_setup c1 c'"
    using Cons.IH [OF r1(1) c1(2) Cons.prems(3)] Cons.prems(4-6) by auto
  ultimately show ?case using r1(2) by (auto intro: same_setup_trans)
qed

lemma consume_acct_ok:
  assumes rep: "represents env as c" and q: "quiet c" and env: "geth_ok env"
    and img: "image_ok env (as @ [a])" and h: "hashes_ok a" and len: "length as + 1 < 2 ^ 64"
  shows "\<exists>c'. consume_all (consume env) (acct_records env a) c = Inr c' \<and> quiet c' \<and>
     represents_part env as a c' \<and> same_setup c c'"
proof -
  let ?r = "account_record a" and ?b = "a\<lparr>ac_slots := [], ac_code := None\<rparr>"
  let ?s = "a\<lparr>ac_code := None\<rparr>"
  have ok: "part_ok env (known_codes env as) a" "as \<noteq> [] \<longrightarrow> ac_hash (last as) < ac_hash a"
    using img by (simp_all add: image_ok_snoc)
  have acc: "acct_of env (a\<lparr>ac_code := x\<rparr>) = acct_of env a" for x by (simp add: acct_of_def decoded_def)
  obtain c1 where c1: "consumeAccount env ?r c = Inr c1" "quiet c1"
    using consumeAccount_ok [OF rep q, of ?r] ok by (auto simp: account_record_def part_ok_def)
  have ty: "Type ?r = RecordAccount" "SubHash ?r = zero_hash" by (simp_all add: account_record_def)
  have "fresh_acct ?r = ?b" by (simp add: fresh_acct_def account_record_def)
  with consumeAccount_start [OF rep c1(1) ty len]
  have r1: "represents_part env as ?b c1" "same_setup c c1" by simp_all
  have con1: "consume env ?r c = Inr c1" using c1(1) q ty by (simp add: consume_def quiet_def)
  have "slots_ok env (?b\<lparr>ac_slots := ac_slots ?b @ ac_slots a\<rparr>)" "hashes_ok (?b\<lparr>ac_slots := ac_slots ?b @ ac_slots a\<rparr>)"
    using ok(1) h acc by (auto simp: part_ok_def slots_ok_def hashes_ok_def)
  with consume_slots_ok [OF r1(1) c1(2) env, of "ac_slots a"] obtain c2 where
    c2: "consume_all (consume env) (map (slot_record ?b) (ac_slots a)) c1 = Inr c2" "quiet c2"
      "represents_part env as ?s c2" "same_setup c1 c2" by auto
  have sl: "slot_record ?b = slot_record a" by (rule ext) (simp add: slot_record_def)
  show ?thesis
  proof (cases "ac_code a")
    case None
    then have "?s = a" by simp
    with None con1 c2 sl r1(2) show ?thesis
      by (auto simp: acct_records_def intro: same_setup_trans)
  next
    case (Some code)
    let ?k = "code_record env code"
    have k: "add_code ?k ?s = a" using Some by (simp add: add_code_def code_record_def)
    have tk: "Type ?k = RecordCode" "AccountHash ?k = zero_hash" "SubHash ?k = keccak256 env (Payload ?k)"
      by (simp_all add: code_record_def)
    obtain c3 where c3: "consumeCode env ?k c2 = Inr c3" "quiet c3"
      using consumeCode_ok [OF c2(3,2) _ _ tk(3)] ok(1) k by (auto simp: part_ok_def)
    from consumeCode_sound [OF c2(3) c3(1) tk(1,2)] k
    have "represents_part env as a c3" "same_setup c2 c3" by simp_all
    moreover have "consume env ?k c2 = Inr c3"
      using c3(1) c2(2) tk(1) by (simp add: consume_def quiet_def record_kinds)
    ultimately show ?thesis
      using Some con1 c2 c3(2) sl r1(2)
      by (auto simp: acct_records_def consume_all_append intro: same_setup_trans)
  qed
qed

lemma consume_image_ok:
  assumes "image_ok env as" and "as \<noteq> []" and "geth_ok env" and "list_all hashes_ok as"
    and "length as < 2 ^ 64" and "quiet c" and "represents env [] c"
  shows "\<exists>c'. consume_all (consume env) (image_records env as) c = Inr c' \<and> quiet c' \<and>
     represents_part env (butlast as) (last as) c' \<and> same_setup c c'"
  using assms
proof (induction as rule: rev_induct)
  case Nil
  then show ?case by simp
next
  case (snoc a as)
  show ?case
  proof (cases "as = []")
    case True
    with snoc.prems show ?thesis
      using consume_acct_ok [of env "[]" c a] by (simp add: image_records_def)
  next
    case False
    have img: "image_ok env as" using snoc.prems(1) by (simp add: image_ok_snoc)
    with snoc False obtain c1 where
      c1: "consume_all (consume env) (image_records env as) c = Inr c1" "quiet c1"
        "represents_part env (butlast as) (last as) c1" "same_setup c c1" by auto
    have "image_ok env (butlast as @ [last as])" using img False by simp
    then have "close_ok env (known_codes env (butlast as)) (last as)" by (simp only: image_ok_snoc)
    moreover have "hashes_ok (last as)" "\<forall>b \<in> set (butlast as). hashes_ok b"
      using snoc.prems(4) False by (auto simp: list_all_iff dest: in_set_butlastD)
    ultimately obtain c2 where c2: "finalizeAccount env c1 = Inr c2" "quiet c2"
      using finalizeAccount_ok [OF c1(3)] snoc.prems(3) c1(2) by blast
    from finalizeAccount_sound [OF c1(3) c2(1)] False
    have r2: "represents env as c2" "same_setup c1 c2" by simp_all
    have "length as + 1 < 2 ^ 64" using snoc.prems(5) by simp
    from consume_acct_ok [OF r2(1) c2(2) snoc.prems(3,1) _ this] snoc.prems(4) obtain c' where
      c': "consume_all (consume env) (acct_records env a) c2 = Inr c'" "quiet c'"
        "represents_part env as a c'" "same_setup c2 c'" by auto
    have "consumeAccount env r c1 = consumeAccount env r c2" for r
      using c2(1) r2(1) by (simp add: consumeAccount_def finalizeAccount_idle represents_def)
    then have "consume_all (consume env) (acct_records env a) c1 = consume_all (consume env) (acct_records env a) c2"
      using c1(2) c2(2) by (simp add: acct_records_def account_record_def consume_def quiet_def)
    with c1 c2 r2 c' False show ?thesis
      by (auto simp: image_records_snoc consume_all_append intro: same_setup_trans)
  qed
qed

section \<open>Loading the manifest\<close>

text \<open>
  The codec of \<^verbatim>\<open>encoding/json\<close> for manifests is a parameter: \<open>json_dec\<close> is the strict
  decoding of exactly one value (\<^verbatim>\<open>strictio.DecodeJSON\<close>), \<open>json_enc\<close> the indented encoding.
\<close>

datatype load_error =
    LoadOpenBundle strictio_error
  | LoadRead strictio_error
  | LoadDecode
  | LoadInvalid manifest_error
  | LoadLayout strictio_error
  | LoadClose

definition LoadManifest ::
  "geth_env \<Rightarrow> (bytes \<Rightarrow> Manifest option) \<Rightarrow> (strictio_error, dir_root) result \<Rightarrow>
   (load_error, Manifest \<times> bytes) result" where
  "LoadManifest env json_dec openedRoot =
     bindR (mapErr LoadOpenBundle openedRoot) (\<lambda>root.
     bindR (mapErr LoadRead (ReadRegular root ManifestFileName MaxMetadataSize)) (\<lambda>data.
     bindR (case json_dec data of None \<Rightarrow> Inl LoadDecode | Some m \<Rightarrow> Inr m) (\<lambda>manifest.
     bindR (mapErr LoadInvalid (Manifest_Validate env manifest)) (\<lambda>_.
     bindR (mapErr LoadLayout (RequireExactLayout root (bundle_layout manifest))) (\<lambda>_.
       if dr_closeErr root then Inl LoadClose else Inr (manifest, data))))))"

section \<open>Scanning\<close>

record BundleResult =
  br_Manifest :: Manifest
  br_ManifestBytes :: bytes
  br_ManifestSHA256 :: hash
  br_State :: StateResult
  br_Records :: ScanResult

datatype 'e bundle_error =
    BundleLoad load_error
  | BundleScan "'e consumer_error scan_failure"
  | BundleReload load_error
  | ManifestChanged
  | BundleFinish "'e consumer_error"
  | SemanticCountsMismatch

text \<open>The directory is observed three times: first load, scan, second load.\<close>

definition scanBundle ::
  "geth_env \<Rightarrow> (bytes \<Rightarrow> Manifest option) \<Rightarrow> faults option \<Rightarrow>
   (strictio_error, dir_root) result \<Rightarrow> (strictio_error, dir_root) result \<Rightarrow> (strictio_error, dir_root) result \<Rightarrow>
   ('e, 's) StateVisitor option \<Rightarrow> ('e, 's) trieNodeSink option \<Rightarrow> 's \<Rightarrow>
   ('e bundle_error, BundleResult \<times> 's) result" where
  "scanBundle env json_dec ctx dir1 dir2 dir3 visitor nodes s =
     bindR (mapErr BundleLoad (LoadManifest env json_dec dir1)) (\<lambda>(manifest, manifestBytes).
     let consumer = newRecordConsumer (StateRoot (HeadBefore (Source manifest))) visitor nodes s in
     bindR (mapErr BundleScan (scanRecords env ctx dir2 manifest (consume env) consumer)) (\<lambda>(records, c).
     bindR (mapErr BundleReload (LoadManifest env json_dec dir3)) (\<lambda>(_, manifestAfter).
       if manifestAfter \<noteq> manifestBytes then Inl ManifestChanged
       else
         bindR (mapErr BundleFinish (consumer_finish env c)) (\<lambda>(state, c').
           if st_Counts state \<noteq> m_Counts manifest then Inl SemanticCountsMismatch
           else Inr (\<lparr>br_Manifest = manifest, br_ManifestBytes = manifestBytes,
                      br_ManifestSHA256 = ManifestSHA256 env manifestBytes,
                      br_State = state, br_Records = records\<rparr>, snd (c_sinks c'))))))"

text \<open>A Go program cannot hold a stream of \<open>2 ^ 64\<close> bytes or more.\<close>

definition stream_bounded :: "geth_env \<Rightarrow> Manifest \<Rightarrow> (strictio_error, dir_root) result \<Rightarrow> bool" where
  "stream_bounded env m dir \<longleftrightarrow>
     (\<forall>r e info. dir = Inr r \<and> OpenRegular r (Name (m_StateFile m)) = Inr (e, info) \<longrightarrow>
        length (fst (stream_of env m e)) < 2 ^ 64)"

lemma length_record_bytes: "1 \<le> length (record_bytes r)"
  by (simp add: record_bytes_def record_header_def)

lemma length_concat_records: "length rs \<le> length (concat (map record_bytes rs))"
proof (induction rs)
  case (Cons r rs)
  then show ?case using length_record_bytes [of r] by simp
qed simp

lemma certified_length:
  assumes "stream_certified env m e rs" and "length (fst (stream_of env m e)) < 2 ^ 64"
  shows "length rs < 2 ^ 64"
  using assms length_concat_records [of rs] by (simp add: stream_certified_def)

lemma consumer_accepts_image:
  assumes "geth_ok env" and "image_ok env as" and "list_all hashes_ok as" and "length as < 2 ^ 64"
  shows "\<exists>c c'. consume_all (consume env) (image_records env as)
       (newRecordConsumer (image_root env as) None None s) = Inr c \<and>
     consumer_finish env c =
       Inr (\<lparr>st_Root = image_root env as, st_Counts = image_counts env as\<rparr>, c')"
proof -
  let ?c0 = "newRecordConsumer (image_root env as) None None s :: ('a, 'b) consumer"
  have q0: "quiet ?c0" and r0: "represents env [] ?c0"
    by (simp_all add: quiet_def newRecordConsumer_def represents_def image_ok_def image_counts_def
          known_codes_def newHashSet_def)
  show ?thesis
  proof (cases "as = []")
    case True
    then show ?thesis
      by (simp add: image_records_def consumer_finish_def newRecordConsumer_def finalizeAccount_def
            stack_Hash_def image_root_def image_counts_def)
  next
    case False
    from consume_image_ok [OF assms(2) False assms(1,3,4) q0 r0] obtain c where
      c: "consume_all (consume env) (image_records env as) ?c0 = Inr c" "quiet c"
        "represents_part env (butlast as) (last as) c" "same_setup ?c0 c" by blast
    have "image_ok env (butlast as @ [last as])" using assms(2) False by simp
    then have cl: "close_ok env (known_codes env (butlast as)) (last as)" by (simp only: image_ok_snoc)
    let ?d = "c\<lparr>c_finished := True\<rparr>"
    have "\<exists>c'. finalizeAccount env c = Inr c' \<and> quiet c'"
      using finalizeAccount_ok [OF c(3) cl assms(1) c(2)] assms(3) False
      by (auto simp: list_all_iff dest: in_set_butlastD)
    then obtain c1 where c1: "finalizeAccount env c = Inr c1" "quiet c1" by blast
    have fin: "finalizeAccount env ?d = Inr (c1\<lparr>c_finished := True\<rparr>)"
      using c1(1) by (auto simp: finalizeAccount_def Let_def cur_account_def split: if_splits option.splits sum.splits prod.splits)
    from finalizeAccount_sound [OF c(3) c1(1)] False
    have "represents env as c1" "same_setup c c1" by simp_all
    with c fin c1(2) show ?thesis
      by (cases "c_sinks c1")
         (auto simp: consumer_finish_def quiet_def stack_Hash_def represents_def image_root_def
            same_setup_def newRecordConsumer_def)
  qed
qed

section \<open>Properties\<close>

text \<open>
  Property C11. The semantic consumer is sound: whatever visitor and node sink it drives, if it
  accepts a sequence of stream records and finishes, these records spell out a well-formed state
  image (accounts and slots strictly ascending, every storage root the root of the account's
  slots, every code present exactly once, at its first reference, under its hash), the expected
  root is the root of the image's accounts, and the counters are the image's.
\<close>

theorem consumer_sound:
  assumes "consume_all (consume env) rs (newRecordConsumer root visitor nodes s) = Inr c"
    and "consumer_finish env c = Inr (st, c')"
    and "list_all record_ok rs" and "length rs < 2 ^ 64"
  shows "\<exists>as. rs = image_records env as \<and> image_ok env as \<and> image_root env as = root \<and>
     st = \<lparr>st_Root = root, st_Counts = image_counts env as\<rparr>"
proof -
  from consume_all_reps [OF assms(1) reps_new assms(3)] assms(4)
  have "reps env rs c" "c_expectedRoot c = root" by (simp_all add: same_setup_def newRecordConsumer_def)
  with consumer_finish_image [OF _ assms(2)] show ?thesis by metis
qed

text \<open>
  Property C18. The consumer is complete: the records of every well-formed state image are
  accepted by a consumer without visitor and sink, and it returns the image's root and counters.
\<close>

theorem consumer_complete:
  assumes "geth_ok env" and "image_ok env as" and "list_all hashes_ok as" and "length as < 2 ^ 64"
  shows "\<exists>c c'. consume_all (consume env) (image_records env as)
       (newRecordConsumer (image_root env as) None None s) = Inr c \<and>
     consumer_finish env c =
       Inr (\<lparr>st_Root = image_root env as, st_Counts = image_counts env as\<rparr>, c')"
  using assms by (rule consumer_accepts_image)

lemma scanBundle_loaded:
  "scanBundle env json_dec ctx dir1 dir2 dir3 visitor nodes s = Inr (res, s') \<Longrightarrow>
     LoadManifest env json_dec dir1 = Inr (br_Manifest res, br_ManifestBytes res) \<and>
     br_ManifestSHA256 res = ManifestSHA256 env (br_ManifestBytes res)"
  by (auto simp: scanBundle_def result_simps Let_def split: if_splits)

lemma scanBundle_done:
  assumes "scanBundle env json_dec ctx dir1 dir2 dir3 visitor nodes s = Inr (res, s')"
    and "stream_bounded env (br_Manifest res) dir2"
  shows "\<exists>as r e info hdr. let m = br_Manifest res in
     dir2 = Inr r \<and> OpenRegular r (Name (m_StateFile m)) = Inr (e, info) \<and>
     stream_certified env m e (image_records env as) \<and> image_ok env as \<and>
     image_root env as = StateRoot (HeadBefore (Source m)) \<and> image_counts env as = m_Counts m \<and>
     br_State res = \<lparr>st_Root = StateRoot (HeadBefore (Source m)), st_Counts = m_Counts m\<rparr> \<and>
     br_Records res = certified_result m \<and> evidence_binds env (Source m) hdr \<and> h_Root hdr = image_root env as"
proof -
  let ?m = "br_Manifest res"
  let ?root = "StateRoot (HeadBefore (Source ?m))"
  from assms(1) obtain c c' where
    scan: "scanRecords env ctx dir2 ?m (consume env) (newRecordConsumer ?root visitor nodes s) =
      Inr (br_Records res, c)"
    and fin: "consumer_finish env c = Inr (br_State res, c')"
    and cnt: "st_Counts (br_State res) = m_Counts ?m"
    by (auto simp: scanBundle_def result_simps Let_def split: if_splits)
  from scanRecords_certified [OF scan] obtain r e info rs where
    d: "dir2 = Inr r" "Manifest_Validate env ?m = Inr ()"
      "OpenRegular r (Name (m_StateFile ?m)) = Inr (e, info)" "br_Records res = certified_result ?m"
    and cert: "stream_certified env ?m e rs"
    and run: "consume_all (consume env) rs (newRecordConsumer ?root visitor nodes s) = Inr c" by blast
  have ok: "list_all record_ok rs" using cert by (simp add: stream_certified_def)
  have len: "length rs < 2 ^ 64"
    using certified_length [OF cert] assms(2) d by (auto simp: stream_bounded_def)
  from consume_all_reps [OF run reps_new ok] len
  have rep: "reps env rs c" "c_expectedRoot c = ?root" by (simp_all add: same_setup_def newRecordConsumer_def)
  from consumer_finish_image [OF rep(1) fin] rep(2) obtain as where
    as: "rs = image_records env as" "image_ok env as" "image_root env as = ?root"
      "br_State res = \<lparr>st_Root = ?root, st_Counts = image_counts env as\<rparr>" by metis
  from d(2) obtain hdr where "evidence_binds env (Source ?m) hdr" by (auto simp: Manifest_Validate_iff)
  moreover from this have "h_Root hdr = ?root" by (simp add: evidence_binds_def)
  ultimately show ?thesis using d cert as cnt unfolding Let_def by fastforce
qed

text \<open>
  Property C4. A successful scan of a bundle proves the state it carries: the manifest is valid,
  so its header commits to the head; the stream spells out a well-formed state image; the root of
  this image is the state root of that header; and the image has the manifest's counters.
\<close>

theorem scanBundle_sound:
  assumes "scanBundle env json_dec ctx dir1 dir2 dir3 visitor nodes s = Inr (res, s')"
    and "stream_bounded env (br_Manifest res) dir2"
  shows "\<exists>as r e info hdr. let m = br_Manifest res in
     dir2 = Inr r \<and> OpenRegular r (Name (m_StateFile m)) = Inr (e, info) \<and>
     stream_certified env m e (image_records env as) \<and> image_ok env as \<and>
     image_root env as = StateRoot (HeadBefore (Source m)) \<and> image_counts env as = m_Counts m \<and>
     br_State res = \<lparr>st_Root = StateRoot (HeadBefore (Source m)), st_Counts = m_Counts m\<rparr> \<and>
     br_Records res = certified_result m \<and> evidence_binds env (Source m) hdr \<and> h_Root hdr = image_root env as"
  using assms by (rule scanBundle_done)

end
