(* ===== verification/DbKeys.thy ===== *)
theory DbKeys
  imports Prelude
begin

text \<open>
  Database keys (\<^verbatim>\<open>internal/migration/dbkeys.go\<close>): the exclusive upper bound of the keys that
  share a prefix, and the concatenation of a namespace prefix with a suffix. The loop of
  \<^verbatim>\<open>prefixLimit\<close> runs from the last byte down; its index \<open>i\<close> is the argument \<open>Suc i\<close>.
\<close>

section \<open>Definitions\<close>

fun prefixLimit_loop :: "bytes \<Rightarrow> nat \<Rightarrow> bytes option" where
  "prefixLimit_loop limit 0 = None"
| "prefixLimit_loop limit (Suc i) =
     (if limit ! i \<noteq> 0xff
      then Some (take (i + 1) (limit[i := limit ! i + 1]))
      else prefixLimit_loop limit i)"

definition prefixLimit :: "bytes \<Rightarrow> bytes option" where
  "prefixLimit pre = prefixLimit_loop pre (length pre)"

definition prefixedKey :: "bytes \<Rightarrow> bytes \<Rightarrow> bytes" where
  "prefixedKey pre suf = pre @ suf"

text \<open>The key range \<^verbatim>\<open>[prefix, prefixLimit(prefix))\<close> an iterator is opened on; no bound when nil.\<close>

definition below_limit :: "bytes \<Rightarrow> bytes option \<Rightarrow> bool" where
  "below_limit k limit = (case limit of None \<Rightarrow> True | Some l \<Rightarrow> k < l)"

section \<open>The loop as a recursion on the last byte\<close>

lemma prefixLimit_loop_append:
  "i \<le> length xs \<Longrightarrow> prefixLimit_loop (xs @ ys) i = prefixLimit_loop xs i"
  by (induction i) (auto simp: nth_append list_update_append)

lemma prefixLimit_Nil [simp]: "prefixLimit [] = None"
  by (simp add: prefixLimit_def)

lemma prefixLimit_snoc [simp]:
  "prefixLimit (p @ [b]) = (if b \<noteq> 0xff then Some (p @ [b + 1]) else prefixLimit p)"
  by (auto simp: prefixLimit_def prefixLimit_loop_append)

section \<open>Lexicographic facts\<close>

lemma append_le_append [simp]: "(p @ x \<le> p @ y) = (x \<le> (y :: 'a::linorder list))"
  by (induction p) auto

lemma append_less_append [simp]: "(p @ x < p @ y) = (x < (y :: 'a::linorder list))"
  by (induction p) auto

lemma le_append: "(p :: 'a::linorder list) \<le> p @ x"
  by (induction p) auto

lemma between_common_prefix:
  "p @ x \<le> k \<Longrightarrow> k < p @ y \<Longrightarrow> \<exists>k'. k = (p :: 'a::linorder list) @ k'"
proof (induction p arbitrary: k)
  case Nil
  then show ?case by simp
next
  case (Cons a p)
  then obtain c ks where k: "k = c # ks" by (cases k) auto
  with Cons.prems have "c = a" by auto
  with Cons k show ?case by auto
qed

lemma byte_between: "b \<noteq> (0xff :: byte) \<Longrightarrow> b \<le> c \<Longrightarrow> c < b + 1 \<Longrightarrow> c = b"
  by unat_arith

lemma byte_less_succ: "b \<noteq> (0xff :: byte) \<Longrightarrow> b < b + 1"
  by unat_arith auto

lemma byte_top: "(0xff :: byte) \<le> c \<longleftrightarrow> c = 0xff"
  by unat_arith auto

lemma byte_not_above_top: "\<not> (0xff :: byte) < c"
  using byte_top [of c] by (auto simp: less_le)

lemma prefix_range_iff:
  "p \<le> k \<and> below_limit k (prefixLimit p) \<longleftrightarrow> prefix p k"
proof (induction p rule: rev_induct)
  case Nil
  then show ?case by (simp add: below_limit_def)
next
  case (snoc b p)
  show ?case
  proof (cases "b = 0xff")
    case False
    show ?thesis
    proof
      assume r: "p @ [b] \<le> k \<and> below_limit k (prefixLimit (p @ [b]))"
      with False obtain k' where k: "k = p @ k'" "[b] \<le> k'" "k' < [b + 1]"
        using between_common_prefix [of p "[b]" k "[b + 1]"]
        by (auto simp: below_limit_def)
      then obtain c ks where "k' = c # ks" "b \<le> c" "c < b + 1"
        by (cases k') auto
      with k byte_between [OF False] show "prefix (p @ [b]) k" by auto
    next
      assume "prefix (p @ [b]) k"
      with False show "p @ [b] \<le> k \<and> below_limit k (prefixLimit (p @ [b]))"
        by (auto simp: prefix_def below_limit_def byte_less_succ le_append)
    qed
  next
    case True
    have "p @ [0xff] \<le> k \<and> prefix p k \<longleftrightarrow> prefix (p @ [0xff]) k"
    proof -
      have "[0xff] \<le> k' \<longleftrightarrow> (\<exists>ks. k' = 0xff # ks)" for k' :: bytes
        by (cases k') (auto simp: byte_top byte_not_above_top)
      then show ?thesis by (auto simp: prefix_def)
    qed
    moreover have "p @ [0xff] \<le> k \<longrightarrow> p \<le> k"
      using le_append [of p "[0xff]"] by auto
    ultimately show ?thesis using snoc True by auto
  qed
qed

section \<open>Properties\<close>

text \<open>
  An iterator over \<^verbatim>\<open>[prefix, prefixLimit(prefix))\<close> sees exactly the keys that start
  with the prefix: nothing else falls into the range, and no key with the prefix is missed, also
  when the prefix ends in bytes \<open>0xff\<close> and when there is no upper bound at all.
\<close>

lemma prefix_range_exact:
  "{k. pre \<le> k \<and> below_limit k (prefixLimit pre)} = {prefixedKey pre suf | suf. True}"
  by (auto simp: prefix_range_iff prefixedKey_def prefix_def)

end
