(* ===== verification/Traversal.thy ===== *)
theory Traversal
  imports Bundle DbKeys
begin

text \<open>
  The state traversal (\<^verbatim>\<open>state.go\<close>, \<^verbatim>\<open>state_trie.go\<close>, \<^verbatim>\<open>state_stream.go\<close>): every account
  of the account trie, its slots, its code, in iteration order, with the tries rebuilt on the way.
  An iterator over a trie is the list of its leaves and whether it then ends with an error. The
  prefetching producers send leaves in iterator order and their error after the last leaf; their
  polls of the context have an oracle of their own. The inventory of trie nodes that verification
  collects on the side is not part of this model.
\<close>

section \<open>Iterators and producers\<close>

type_synonym trie_iter = "kv list \<times> bool"

datatype 'e trav_error =
    TravContextErr
  | OpenAccountTrie
  | OpenStorageTrie
  | IterateAccounts
  | IterateStorage
  | AccountKeyLength nat
  | StorageKeyLength nat
  | TravValue value_error
  | TravVisitor 'e
  | TravStorageUpdate
  | TravAccountUpdate
  | TravNodeWrite 'e
  | TravStorageRoot
  | TravReadCode
  | TravCodeMissing
  | TravCodeHash
  | TravStateRoot

text \<open>
  \<^verbatim>\<open>produceAccountTrie\<close> and \<^verbatim>\<open>produceStorageTrie\<close> are the same loop up to their messages: a
  poll before and after each step, the key's length, and a send that a cancellation may win
  against. The result is the leaves sent and the error returned; \<open>n\<close> counts the polls.
\<close>

fun produce_leaves ::
  "(nat \<Rightarrow> 'e trav_error) \<Rightarrow> 'e trav_error \<Rightarrow> faults \<Rightarrow> nat \<Rightarrow> kv list \<Rightarrow> bool \<Rightarrow>
   kv list \<times> 'e trav_error option" where
  "produce_leaves bad_len iter_err pf n [] err =
     (if pf n then ([], Some TravContextErr)
      else if err then ([], Some iter_err)
      else if pf (Suc n) then ([], Some TravContextErr) else ([], None))"
| "produce_leaves bad_len iter_err pf n ((key, val) # rest) err =
     (if pf n then ([], Some TravContextErr)
      else if pf (Suc n) then ([], Some TravContextErr)
      else if length key \<noteq> HashLength then ([], Some (bad_len (length key)))
      else if pf (Suc (Suc n)) then ([], Some TravContextErr)
      else (let (leaves, e) = produce_leaves bad_len iter_err pf (Suc (Suc (Suc n))) rest err
            in ((key, val) # leaves, e)))"

definition produceAccountTrie :: "faults \<Rightarrow> trie_iter \<Rightarrow> kv list \<times> 'e trav_error option" where
  "produceAccountTrie pf it = produce_leaves AccountKeyLength IterateAccounts pf 0 (fst it) (snd it)"

definition produceStorageTrie :: "faults \<Rightarrow> trie_iter \<Rightarrow> kv list \<times> 'e trav_error option" where
  "produceStorageTrie pf it = produce_leaves StorageKeyLength IterateStorage pf 0 (fst it) (snd it)"

section \<open>The traverser\<close>

text \<open>
  What the traverser reads from outside: the account iterator, the storage iterator of an account
  at a root (\<open>None\<close> when a trie does not open), the code reader, and the polls of the producers.
\<close>

record state_source =
  src_accounts :: "trie_iter option"
  src_storage :: "hash \<Rightarrow> hash \<Rightarrow> trie_iter option"
  src_readCode :: "hash \<Rightarrow> bytes option"
  src_accountPolls :: faults
  src_storagePolls :: "hash \<Rightarrow> faults"

record ('e, 's) stateTraverser =
  t_faults :: faults
  t_ticks :: nat
  t_root :: hash
  t_visitor :: "('e, 's) StateVisitor option"
  t_trieNodes :: "('e, 's) trieNodeSink option"
  t_codeHashes :: hashSet
  t_counts :: Counts
  t_accountStack :: "kv list"
  t_sinks :: "'e option \<times> 's"

definition newStateTraverser ::
  "faults \<Rightarrow> hash \<Rightarrow> ('e, 's) StateVisitor option \<Rightarrow> ('e, 's) trieNodeSink option \<Rightarrow> 's \<Rightarrow>
   ('e, 's) stateTraverser" where
  "newStateTraverser ctx root visitor nodes s = \<lparr>t_faults = ctx, t_ticks = 0, t_root = root,
     t_visitor = visitor, t_trieNodes = nodes, t_codeHashes = newHashSet, t_counts = emptyCounts,
     t_accountStack = [], t_sinks = (None, s)\<rparr>"

definition t_poll :: "('e, 's) stateTraverser \<Rightarrow> ('e trav_error, ('e, 's) stateTraverser) result" where
  "t_poll t = (if t_faults t (t_ticks t) then Inl TravContextErr else Inr (t\<lparr>t_ticks := Suc (t_ticks t)\<rparr>))"

definition t_visit ::
  "(('e, 's) StateVisitor \<Rightarrow> 's \<Rightarrow> 'e option \<times> 's) \<Rightarrow> ('e, 's) stateTraverser \<Rightarrow>
   ('e trav_error, ('e, 's) stateTraverser) result" where
  "t_visit m t =
     (case t_visitor t of
        None \<Rightarrow> Inr t
      | Some v \<Rightarrow>
          (case m v (snd (t_sinks t)) of
             (Some e, _) \<Rightarrow> Inl (TravVisitor e)
           | (None, s) \<Rightarrow> Inr (t\<lparr>t_sinks := (fst (t_sinks t), s)\<rparr>)))"

definition processStorageSlot ::
  "geth_env \<Rightarrow> hash \<Rightarrow> kv \<Rightarrow> kv list \<times> ('e, 's) stateTraverser \<Rightarrow>
   ('e trav_error, kv list \<times> ('e, 's) stateTraverser) result" where
  "processStorageSlot env accountHash kv st =
     (let (stack, t) = st; (key, val) = kv in
      bindR (t_poll t) (\<lambda>t1.
      if length key \<noteq> HashLength then Inl (StorageKeyLength (length key))
      else
        bindR (mapErr TravValue (validateStorageRLP env val)) (\<lambda>_.
        bindR (mapErr (\<lambda>_. TravStorageUpdate) (stack_Update env accountHash (t_trieNodes t1) stack (key, val) (t_sinks t1)))
          (\<lambda>(stack1, sinks).
          case fst sinks of
            Some e \<Rightarrow> Inl (TravNodeWrite e)
          | None \<Rightarrow>
              bindR (t_visit (\<lambda>v. v_Storage v accountHash key val) (t1\<lparr>t_sinks := sinks\<rparr>)) (\<lambda>t2.
                let n = t_counts t2 in
                Inr (stack1, t2\<lparr>t_counts := n\<lparr>StorageSlots := StorageSlots n + 1, Records := Records n + 1,
                       PayloadBytes := PayloadBytes n + of_nat (length val)\<rparr>\<rparr>))))))"

fun process_slots ::
  "geth_env \<Rightarrow> hash \<Rightarrow> kv list \<Rightarrow> kv list \<times> ('e, 's) stateTraverser \<Rightarrow>
   ('e trav_error, kv list \<times> ('e, 's) stateTraverser) result" where
  "process_slots env h [] st = Inr st"
| "process_slots env h (kv # kvs) st = bindR (processStorageSlot env h kv st) (process_slots env h kvs)"

definition storageTriePipelineThreshold :: nat where
  "storageTriePipelineThreshold = 64"

text \<open>
  The first slots are read without a producer; the result is the leaf after them, if any, and
  what the iterator still holds.
\<close>

fun consumeStoragePrefix ::
  "geth_env \<Rightarrow> nat \<Rightarrow> hash \<Rightarrow> kv list \<Rightarrow> bool \<Rightarrow> kv list \<times> ('e, 's) stateTraverser \<Rightarrow>
   ('e trav_error, kv option \<times> kv list \<times> kv list \<times> ('e, 's) stateTraverser) result" where
  "consumeStoragePrefix env 0 h leaves err (stack, t) =
     (case leaves of
        [] \<Rightarrow> if err then Inl IterateStorage else Inr (None, [], (stack, t))
      | (key, val) # rest \<Rightarrow>
          if length key \<noteq> HashLength then Inl (StorageKeyLength (length key))
          else Inr (Some (key, val), rest, (stack, t)))"
| "consumeStoragePrefix env (Suc n) h leaves err (stack, t) =
     bindR (t_poll t) (\<lambda>t1.
       case leaves of
         [] \<Rightarrow> if err then Inl IterateStorage else Inr (None, [], (stack, t1))
       | kv # rest \<Rightarrow>
           bindR (processStorageSlot env h kv (stack, t1)) (consumeStoragePrefix env n h rest err))"

definition traverser_consumeStorage ::
  "geth_env \<Rightarrow> faults \<Rightarrow> hash \<Rightarrow> trie_iter \<Rightarrow> kv list \<times> ('e, 's) stateTraverser \<Rightarrow>
   ('e trav_error, kv list \<times> ('e, 's) stateTraverser) result" where
  "traverser_consumeStorage env pf h it st =
     bindR (consumeStoragePrefix env storageTriePipelineThreshold h (fst it) (snd it) st) (\<lambda>(first, rest, st1).
       case first of
         None \<Rightarrow> Inr st1
       | Some kv \<Rightarrow>
           let (leaves, err) = produceStorageTrie pf (rest, snd it) in
           bindR (processStorageSlot env h kv st1) (\<lambda>st2.
           bindR (process_slots env h leaves st2) (\<lambda>st3.
             case err of Some e \<Rightarrow> Inl e | None \<Rightarrow> Inr st3)))"

definition traverseStorage ::
  "geth_env \<Rightarrow> state_source \<Rightarrow> hash \<Rightarrow> hash \<Rightarrow> ('e, 's) stateTraverser \<Rightarrow>
   ('e trav_error, hash \<times> ('e, 's) stateTraverser) result" where
  "traverseStorage env src accountHash expectedRoot t =
     (if expectedRoot = EmptyRootHash env then Inr (EmptyRootHash env, t)
      else case src_storage src accountHash expectedRoot of
        None \<Rightarrow> Inl OpenStorageTrie
      | Some it \<Rightarrow>
          bindR (traverser_consumeStorage env (src_storagePolls src accountHash) accountHash it ([], t))
            (\<lambda>(stack, t1).
            let (computed, sinks) = stack_Hash env accountHash (t_trieNodes t1) stack (t_sinks t1)
            in case fst sinks of
                 Some e \<Rightarrow> Inl (TravNodeWrite e)
               | None \<Rightarrow> Inr (computed, t1\<lparr>t_sinks := sinks\<rparr>)))"

definition processCode ::
  "geth_env \<Rightarrow> state_source \<Rightarrow> hash \<Rightarrow> hash \<Rightarrow> ('e, 's) stateTraverser \<Rightarrow>
   ('e trav_error, ('e, 's) stateTraverser) result" where
  "processCode env src accountHash codeHash t =
     (if codeHash = EmptyCodeHash env then Inr t
      else
        let t1 = t\<lparr>t_counts := (t_counts t)\<lparr>CodeReferences := CodeReferences (t_counts t) + 1\<rparr>\<rparr>;
            (fresh, hs) = hashSet_Add (t_codeHashes t1) codeHash;
            t2 = t1\<lparr>t_codeHashes := hs\<rparr>
        in if \<not> fresh then Inr t2
           else case src_readCode src codeHash of
             None \<Rightarrow> Inl TravReadCode
           | Some code \<Rightarrow>
               if length code = 0 then Inl TravCodeMissing
               else if keccak256 env code \<noteq> codeHash then Inl TravCodeHash
               else bindR (t_visit (\<lambda>v. v_Code v accountHash codeHash code) t2) (\<lambda>t3.
                      let n = t_counts t3 in
                      Inr (t3\<lparr>t_counts := n\<lparr>Records := Records n + 1,
                             PayloadBytes := PayloadBytes n + of_nat (length code),
                             CodeRecords := CodeRecords n + 1\<rparr>\<rparr>)))"

definition processAccount ::
  "geth_env \<Rightarrow> state_source \<Rightarrow> kv \<Rightarrow> ('e, 's) stateTraverser \<Rightarrow>
   ('e trav_error, ('e, 's) stateTraverser) result" where
  "processAccount env src lf t =
     (let (accountHash, val) = lf in
      bindR (t_poll t) (\<lambda>t1.
      bindR (mapErr TravValue (decodeFullAccount env val)) (\<lambda>account.
      bindR (t_visit (\<lambda>v. v_Account v accountHash account val) t1) (\<lambda>t2.
      let n = t_counts t2;
          t3 = t2\<lparr>t_counts := n\<lparr>Accounts := Accounts n + 1, Records := Records n + 1,
                 PayloadBytes := PayloadBytes n + of_nat (length val)\<rparr>\<rparr> in
      bindR (traverseStorage env src accountHash (Root account) t3) (\<lambda>(computed, t4).
      if computed \<noteq> Root account then Inl TravStorageRoot
      else
        bindR (processCode env src accountHash (CodeHash account) t4) (\<lambda>t5.
        bindR (mapErr (\<lambda>_. TravAccountUpdate)
                 (stack_Update env zero_hash (t_trieNodes t5) (t_accountStack t5) (accountHash, val) (t_sinks t5)))
          (\<lambda>(stack, sinks).
          case fst sinks of
            Some e \<Rightarrow> Inl (TravNodeWrite e)
          | None \<Rightarrow> Inr (t5\<lparr>t_accountStack := stack, t_sinks := sinks\<rparr>))))))))"

fun process_accounts ::
  "geth_env \<Rightarrow> state_source \<Rightarrow> kv list \<Rightarrow> ('e, 's) stateTraverser \<Rightarrow>
   ('e trav_error, ('e, 's) stateTraverser) result" where
  "process_accounts env src [] t = Inr t"
| "process_accounts env src (lf # lfs) t = bindR (processAccount env src lf t) (process_accounts env src lfs)"

definition traverser_finalize ::
  "geth_env \<Rightarrow> ('e, 's) stateTraverser \<Rightarrow> ('e trav_error, StateResult \<times> 's) result" where
  "traverser_finalize env t =
     (let (computed, err, s) = stack_Hash env zero_hash (t_trieNodes t) (t_accountStack t) (t_sinks t)
      in case err of
           Some e \<Rightarrow> Inl (TravNodeWrite e)
         | None \<Rightarrow>
             if computed \<noteq> t_root t then Inl TravStateRoot
             else Inr (\<lparr>st_Root = computed, st_Counts = t_counts t\<rparr>, s))"

definition traverser_run ::
  "geth_env \<Rightarrow> state_source \<Rightarrow> ('e, 's) stateTraverser \<Rightarrow> ('e trav_error, StateResult \<times> 's) result" where
  "traverser_run env src t =
     (case src_accounts src of
        None \<Rightarrow> Inl OpenAccountTrie
      | Some it \<Rightarrow>
          let (leaves, err) = produceAccountTrie (src_accountPolls src) it in
          bindR (process_accounts env src leaves t) (\<lambda>t1.
            case err of Some e \<Rightarrow> Inl e | None \<Rightarrow> traverser_finalize env t1))"

text \<open>The two code readers: the prefixed key with a fallback, and the legacy database's plain key.\<close>

definition readCodeWithFallback ::
  "bytes \<Rightarrow> (bytes \<Rightarrow> bool option) \<Rightarrow> (bytes \<Rightarrow> bytes option) \<Rightarrow> hash \<Rightarrow> bytes option" where
  "readCodeWithFallback CodePrefix db_Has db_Get h =
     (case db_Has (prefixedKey CodePrefix h) of
        None \<Rightarrow> None
      | Some True \<Rightarrow> db_Get (prefixedKey CodePrefix h)
      | Some False \<Rightarrow>
          (case db_Has h of
             None \<Rightarrow> None
           | Some True \<Rightarrow> db_Get h
           | Some False \<Rightarrow> Some []))"

datatype 'a db_get = Found 'a | NotFound | GetFailed

definition legacy_readCode :: "(bytes \<Rightarrow> bytes db_get) \<Rightarrow> hash \<Rightarrow> bytes option" where
  "legacy_readCode db_Get h =
     (case db_Get h of Found code \<Rightarrow> Some code | NotFound \<Rightarrow> Some [] | GetFailed \<Rightarrow> None)"

section \<open>What a traversal visits\<close>

datatype visit_call = VAccount hash state_account bytes | VStorage hash hash bytes | VCode hash hash bytes

fun run_visit :: "('e, 's) StateVisitor \<Rightarrow> visit_call \<Rightarrow> 's \<Rightarrow> 'e option \<times> 's" where
  "run_visit v (VAccount h acc full) s = v_Account v h acc full s"
| "run_visit v (VStorage h slot val) s = v_Storage v h slot val s"
| "run_visit v (VCode h ch code) s = v_Code v h ch code s"

lemma run_visit_eqs [simp]:
  "run_visit v (VAccount h acc full) = v_Account v h acc full"
  "run_visit v (VStorage h slot val) = v_Storage v h slot val"
  "run_visit v (VCode h ch code) = v_Code v h ch code"
  by (simp_all add: fun_eq_iff)

fun run_visits :: "('e, 's) StateVisitor \<Rightarrow> visit_call list \<Rightarrow> 's \<Rightarrow> 'e option \<times> 's" where
  "run_visits v [] s = (None, s)"
| "run_visits v (call # calls) s =
     (case run_visit v call s of (Some e, s') \<Rightarrow> (Some e, s') | (None, s') \<Rightarrow> run_visits v calls s')"

lemma run_visits_append:
  "run_visits v (xs @ ys) s =
     (case run_visits v xs s of (Some e, s') \<Rightarrow> (Some e, s') | (None, s') \<Rightarrow> run_visits v ys s')"
proof (induction xs arbitrary: s)
  case (Cons x xs)
  show ?case by (cases "run_visit v x s"; cases "fst (run_visit v x s)") (auto simp: Cons)
qed simp

text \<open>
  \<open>visited calls t t'\<close>: the visitor saw exactly these calls, and what a traversal never changes is
  the same. Only the traversal without a node sink is followed here.
\<close>

definition visited :: "visit_call list \<Rightarrow> ('e, 's) stateTraverser \<Rightarrow> ('e, 's) stateTraverser \<Rightarrow> bool" where
  "visited calls t t' \<longleftrightarrow>
     t_visitor t' = t_visitor t \<and> t_trieNodes t' = t_trieNodes t \<and> t_root t' = t_root t \<and>
     fst (t_sinks t') = fst (t_sinks t) \<and>
     (case t_visitor t of
        None \<Rightarrow> snd (t_sinks t') = snd (t_sinks t)
      | Some v \<Rightarrow> run_visits v calls (snd (t_sinks t)) = (None, snd (t_sinks t')))"

lemma visited_refl [simp]: "visited [] t t"
  by (simp add: visited_def split: option.splits)

lemma visited_trans: "visited xs a b \<Longrightarrow> visited ys b c \<Longrightarrow> visited (xs @ ys) a c"
  by (auto simp: visited_def run_visits_append split: option.splits)

text \<open>Changes a visitor cannot see.\<close>

lemma visited_update:
  "t_visitor t1 = t_visitor t \<Longrightarrow> t_trieNodes t1 = t_trieNodes t \<Longrightarrow> t_root t1 = t_root t \<Longrightarrow>
     t_sinks t1 = t_sinks t \<Longrightarrow> visited [] t t1"
  by (simp add: visited_def split: option.splits)

lemma t_visit_visited:
  assumes "t_visit m t = Inr t'" and "\<And>v. m v = run_visit v call"
  shows "visited [call] t t' \<and> (\<exists>sk. t' = t\<lparr>t_sinks := sk\<rparr>)"
  using assms
  by (cases t) (auto simp: t_visit_def visited_def split: option.splits prod.splits)

section \<open>Slots\<close>

definition slot_counts :: "kv list \<Rightarrow> Counts" where
  "slot_counts kvs = \<lparr>Accounts = 0, StorageSlots = of_nat (length kvs), CodeReferences = 0, CodeRecords = 0,
     Records = of_nat (length kvs), PayloadBytes = of_nat (sum_list (map (length \<circ> snd) kvs))\<rparr>"

definition slot_visits :: "hash \<Rightarrow> kv list \<Rightarrow> visit_call list" where
  "slot_visits h kvs = map (\<lambda>(k, v). VStorage h k v) kvs"

text \<open>The slots \<open>kvs\<close> were processed on top of \<open>stack\<close>.\<close>

definition slots_done ::
  "geth_env \<Rightarrow> hash \<Rightarrow> kv list \<Rightarrow> kv list \<times> ('e, 's) stateTraverser \<Rightarrow> kv list \<times> ('e, 's) stateTraverser \<Rightarrow> bool" where
  "slots_done env h kvs st st' \<longleftrightarrow>
     (\<forall>kv \<in> set kvs. is_hash (fst kv) \<and> validateStorageRLP env (snd kv) = Inr ()) \<and>
     fst st' = fst st @ kvs \<and> (ascending (fst st) \<longrightarrow> ascending (fst st')) \<and>
     visited (slot_visits h kvs) (snd st) (snd st') \<and>
     t_counts (snd st') = addBundleCounts (t_counts (snd st)) (slot_counts kvs) \<and>
     t_codeHashes (snd st') = t_codeHashes (snd st) \<and> t_accountStack (snd st') = t_accountStack (snd st)"

lemma slots_done_Nil: "slots_done env h [] st (fst st, (snd st)\<lparr>t_ticks := n\<rparr>)"
  by (auto simp: slots_done_def slot_visits_def slot_counts_def addBundleCounts_def intro: visited_update)

lemma slots_done_refl [simp]: "slots_done env h [] st st"
  by (auto simp: slots_done_def slot_visits_def slot_counts_def addBundleCounts_def)

lemma slots_done_trans:
  assumes "slots_done env h xs a b" and "slots_done env h ys b c"
  shows "slots_done env h (xs @ ys) a c"
proof -
  have "visited (slot_visits h (xs @ ys)) (snd a) (snd c)"
    using assms visited_trans by (fastforce simp: slots_done_def slot_visits_def)
  with assms show ?thesis
    by (auto simp: slots_done_def slot_counts_def addBundleCounts_def algebra_simps simp del: ascending_append)
qed

lemma stack_accepts_ascending:
  assumes "stack_ok env" and "stack_accepts env ts (k, v)" and "ascending ts"
  shows "ascending (ts @ [(k, v)])"
proof -
  have "ts \<noteq> [] \<longrightarrow> fst (last ts) < k" using assms(1,2) unfolding stack_ok_def by blast
  with assms(3) show ?thesis unfolding ascending_snoc by simp
qed

lemma processStorageSlot_done:
  assumes "processStorageSlot env h kv (stack, t) = Inr st'" and "t_trieNodes t = None" and "stack_ok env"
  shows "slots_done env h [kv] (stack, t) st'"
proof -
  obtain key val where kv: "kv = (key, val)" by (cases kv)
  from assms(1) obtain b t2 where b: "t_sinks t = (None, b)" and len: "length key = HashLength"
    and val: "validateStorageRLP env val = Inr ()" and acc: "stack_accepts env stack (key, val)"
    and v: "t_visit (\<lambda>v. v_Storage v h key val)
      (t\<lparr>t_ticks := Suc (t_ticks t), t_sinks := (None, b)\<rparr>) = Inr t2"
    and st': "st' = (stack @ [(key, val)],
      t2\<lparr>t_counts := (t_counts t2)\<lparr>StorageSlots := StorageSlots (t_counts t2) + 1,
         Records := Records (t_counts t2) + 1, PayloadBytes := PayloadBytes (t_counts t2) + of_nat (length val)\<rparr>\<rparr>)"
    using assms(2)
    by (auto simp: processStorageSlot_def kv result_simps stack_Update_def t_poll_def Let_def
          split: if_splits option.splits)
  let ?t1 = "t\<lparr>t_ticks := Suc (t_ticks t), t_sinks := (None, b)\<rparr>"
  have asc: "ascending stack \<longrightarrow> ascending (stack @ [(key, val)])"
    using stack_accepts_ascending [OF assms(3) acc] by blast
  have "visited [VStorage h key val] ?t1 t2" and sk: "\<exists>sk. t2 = ?t1\<lparr>t_sinks := sk\<rparr>"
    using t_visit_visited [OF v, of "VStorage h key val"] by auto
  then have "visited ([] @ [VStorage h key val] @ []) t (snd st')"
    by (intro visited_trans [of "[]" t ?t1] visited_trans [of _ _ t2] visited_update) (auto simp: st' b)
  with asc val len sk show ?thesis
    by (auto simp: slots_done_def kv slot_visits_def slot_counts_def addBundleCounts_def st' is_hash_def
          simp del: ascending_append)
qed

lemma slots_done_trieNodes: "slots_done env h kvs a b \<Longrightarrow> t_trieNodes (snd b) = t_trieNodes (snd a)"
  by (simp add: slots_done_def visited_def)

lemma process_slots_done:
  assumes "process_slots env h kvs st = Inr st'" and "t_trieNodes (snd st) = None" and "stack_ok env"
  shows "slots_done env h kvs st st'"
  using assms
proof (induction kvs arbitrary: st)
  case Nil
  then show ?case by simp
next
  case (Cons kv kvs)
  then obtain st1 where st1: "processStorageSlot env h kv st = Inr st1" "process_slots env h kvs st1 = Inr st'"
    by (auto simp: result_simps)
  have d: "slots_done env h [kv] st st1"
    using processStorageSlot_done [of env h kv "fst st" "snd st"] st1(1) Cons.prems by simp
  with Cons.IH [OF st1(2)] Cons.prems slots_done_trieNodes [OF d] show ?case
    using slots_done_trans by fastforce
qed

lemma produce_leaves_complete:
  "produce_leaves bl ie pf n leaves err = (out, None) \<Longrightarrow>
     out = leaves \<and> \<not> err \<and> (\<forall>kv \<in> set leaves. is_hash (fst kv))"
  by (induction bl ie pf n leaves err arbitrary: out rule: produce_leaves.induct)
     (auto simp: is_hash_def split: if_splits prod.splits)

lemma consumeStoragePrefix_done:
  assumes "consumeStoragePrefix env n h leaves err st = Inr (first, rest, st')"
    and "t_trieNodes (snd st) = None" and "stack_ok env"
  shows "\<exists>pre. slots_done env h pre st st' \<and>
     (case first of None \<Rightarrow> leaves = pre \<and> \<not> err | Some kv \<Rightarrow> leaves = pre @ kv # rest)"
  using assms
proof (induction env n h leaves err st rule: consumeStoragePrefix.induct)
  case (1 env h leaves err stack t)
  then show ?case
    by (intro exI [of _ "[]"]) (auto split: list.splits if_splits prod.splits)
next
  case (2 env n h leaves err stack t)
  from "2.prems"(1) obtain t1 where p: "t_poll t = Inr t1" by (auto simp: result_simps)
  then have t1: "t1 = t\<lparr>t_ticks := Suc (t_ticks t)\<rparr>" by (auto simp: t_poll_def split: if_splits)
  have d0: "slots_done env h [] (stack, t) (stack, t1)"
    using slots_done_Nil [of env h "(stack, t)"] by (simp add: t1)
  show ?case
  proof (cases leaves)
    case Nil
    with "2.prems"(1) p d0 show ?thesis by (intro exI [of _ "[]"]) (auto split: if_splits)
  next
    case (Cons kv rest')
    with "2.prems"(1) p obtain st1 where st1: "processStorageSlot env h kv (stack, t1) = Inr st1"
      "consumeStoragePrefix env n h rest' err st1 = Inr (first, rest, st')" by (auto simp: result_simps)
    have n1: "t_trieNodes t1 = None" using "2.prems"(2) by (simp add: t1)
    note d1 = processStorageSlot_done [OF st1(1) n1 "2.prems"(3)]
    have "t_trieNodes (snd st1) = None" using slots_done_trieNodes [OF d1] n1 by simp
    with "2.IH" [OF Cons st1(2)] "2.prems"(3) obtain pre where
      "slots_done env h pre st1 st'"
      "case first of None \<Rightarrow> rest' = pre \<and> \<not> err | Some kv \<Rightarrow> rest' = pre @ kv # rest" by blast
    with Cons slots_done_trans [OF d0 slots_done_trans [OF d1]] show ?thesis
      by (intro exI [of _ "kv # pre"]) (auto split: option.splits)
  qed
qed

lemma consumeStorage_done:
  assumes "traverser_consumeStorage env pf h it st = Inr st'"
    and "t_trieNodes (snd st) = None" and "stack_ok env"
  shows "slots_done env h (fst it) st st' \<and> \<not> snd it"
proof -
  from assms(1) obtain first rest st1 where
    pre: "consumeStoragePrefix env storageTriePipelineThreshold h (fst it) (snd it) st = Inr (first, rest, st1)"
    by (auto simp: traverser_consumeStorage_def result_simps)
  from consumeStoragePrefix_done [OF this assms(2,3)] obtain xs where
    xs: "slots_done env h xs st st1"
      "case first of None \<Rightarrow> fst it = xs \<and> \<not> snd it | Some kv \<Rightarrow> fst it = xs @ kv # rest" by blast
  have n1: "t_trieNodes (snd st1) = None" using slots_done_trieNodes [OF xs(1)] assms(2) by simp
  show ?thesis
  proof (cases first)
    case None
    with assms(1) pre xs show ?thesis by (simp add: traverser_consumeStorage_def)
  next
    case (Some kv)
    obtain leaves err where prod: "produceStorageTrie pf (rest, snd it) = (leaves, err :: 'a trav_error option)"
      by (cases "produceStorageTrie pf (rest, snd it) :: kv list \<times> 'a trav_error option")
    with assms(1) pre Some obtain st2 where
      st2: "processStorageSlot env h kv st1 = Inr st2" "process_slots env h leaves st2 = Inr st'" "err = None"
      by (auto simp: traverser_consumeStorage_def result_simps split: option.splits)
    have d: "slots_done env h [kv] st1 st2"
      using processStorageSlot_done [of env h kv "fst st1" "snd st1"] st2(1) n1 assms(3) by simp
    have "t_trieNodes (snd st2) = None" using slots_done_trieNodes [OF d] n1 by simp
    note d2 = process_slots_done [OF st2(2) this assms(3)]
    have "leaves = rest" "\<not> snd it"
      using produce_leaves_complete prod st2(3) by (force simp: produceStorageTrie_def)+
    with slots_done_trans [OF xs(1) slots_done_trans [OF d d2]] xs(2) Some show ?thesis by simp
  qed
qed

section \<open>Accounts\<close>

definition env_ok :: "geth_env \<Rightarrow> bool" where
  "env_ok env \<longleftrightarrow> geth_ok env \<and> slim_rlp_ok env \<and> account_rlp_ok env \<and> rlp_sizes_ok env"

text \<open>The code reader returns Go slices, and an iterator ends before \<open>2 ^ 64\<close> leaves.\<close>

definition src_sized :: "state_source \<Rightarrow> bool" where
  "src_sized src \<longleftrightarrow> (\<forall>h code. src_readCode src h = Some code \<longrightarrow> go_slice code) \<and>
     (\<forall>it. src_accounts src = Some it \<longrightarrow> length (fst it) < 2 ^ 64)"

definition go_sized :: "acct \<Rightarrow> bool" where
  "go_sized a \<longleftrightarrow> hashes_ok a \<and> go_slice (ac_slim a) \<and> (\<forall>kv \<in> set (ac_slots a). go_slice (snd kv)) \<and>
     (\<forall>code. ac_code a = Some code \<longrightarrow> go_slice code)"

lemma slot_go_slice: "rlp_sizes_ok env \<Longrightarrow> validateStorageRLP env v = Inr () \<Longrightarrow> go_slice v"
  by (force simp: rlp_sizes_ok_def validateStorageRLP_iff go_slice_def)

lemma slim_go_slice:
  assumes "rlp_sizes_ok env" and "account_wf acc" and "EncodeAccount env (Some acc) = Inr slim"
  shows "go_slice slim"
proof -
  have "rlp_enc_slim env (to_slim env acc) = Some slim"
    using assms(2,3) by (simp add: EncodeAccount_wf split: option.splits)
  moreover have "length (slim_Root (to_slim env acc)) \<le> 32" "length (slim_CodeHash (to_slim env acc)) \<le> 32"
    using assms(2) by (simp_all add: to_slim_def account_wf_def is_hash_def HashLength_def)
  ultimately have "length slim < 2 ^ 32" using assms(1) unfolding rlp_sizes_ok_def by blast
  then show ?thesis by (simp add: go_slice_def)
qed

definition acct_visits :: "geth_env \<Rightarrow> acct \<Rightarrow> visit_call list" where
  "acct_visits env a =
     VAccount (ac_hash a) (acct_of env a) (snd (decoded env a)) # slot_visits (ac_hash a) (ac_slots a) @
       (case ac_code a of None \<Rightarrow> [] | Some code \<Rightarrow> [VCode (ac_hash a) (keccak256 env code) code])"

definition image_visits :: "geth_env \<Rightarrow> acct list \<Rightarrow> visit_call list" where
  "image_visits env as = concat (map (acct_visits env) as)"

text \<open>The traverser has gone through the accounts of the image \<open>as\<close>.\<close>

definition traversed :: "geth_env \<Rightarrow> acct list \<Rightarrow> ('e, 's) stateTraverser \<Rightarrow> bool" where
  "traversed env as t \<longleftrightarrow>
     image_ok env as \<and> list_all go_sized as \<and> t_accountStack t = map (leaf env) as \<and>
     set (t_codeHashes t) = known_codes env as \<and> t_counts t = image_counts env as"

lemma decodeFullAccount_decoded:
  assumes "env_ok env" and "decodeFullAccount env val = Inr acc"
  shows "account_wf acc \<and> (\<exists>slim. EncodeAccount env (Some acc) = Inr slim \<and> DecodeAccount env slim = Inr (acc, val))"
proof -
  from assms(2) have d: "rlp_dec_account env val = Some acc" "Balance acc \<noteq> None" "length (CodeHash acc) = HashLength"
    by (auto simp: decodeFullAccount_def split: option.splits if_splits)
  with assms(1) have wf: "account_wf acc" and enc: "rlp_enc_account env acc = Some val"
    by (auto simp: env_ok_def account_rlp_ok_def account_wf_def is_hash_def)
  from slim_encodes [OF _ wf] assms(1) obtain slim where
    "EncodeAccount env (Some acc) = Inr slim" "rlp_dec_slim env slim = Some (to_slim env acc)"
    by (auto simp: env_ok_def)
  with DecodeAccount_to_slim [OF _ wf _ enc] assms(1) wf show ?thesis by (auto simp: env_ok_def geth_ok_def)
qed

lemma traverseStorage_done:
  assumes "traverseStorage env src h rt t = Inr (computed, t')" and "computed = rt"
    and "t_trieNodes t = None" and "stack_ok env"
  shows "\<exists>kvs. slots_done env h kvs ([], t) (kvs, t') \<and>
     rt = (if kvs = [] then EmptyRootHash env else stack_root env kvs) \<and>
     (kvs \<noteq> [] \<longrightarrow> rt \<noteq> EmptyRootHash env)"
proof (cases "rt = EmptyRootHash env")
  case True
  with assms(1) have "t' = t" by (simp add: traverseStorage_def)
  with True show ?thesis by (intro exI [of _ "[]"]) simp
next
  case False
  with assms(1) obtain it stack t1 where
    con: "traverser_consumeStorage env (src_storagePolls src h) h it ([], t) = Inr (stack, t1)"
    and fin: "computed = stack_root env stack"
      "t' = t1\<lparr>t_sinks := feed_nodes h (t_trieNodes t1) (stack_final env stack) (t_sinks t1)\<rparr>"
    by (auto simp: traverseStorage_def result_simps stack_Hash_def split: option.splits)
  from consumeStorage_done [OF con] assms(3,4) have d: "slots_done env h (fst it) ([], t) (stack, t1)" by simp
  have "t' = t1" using fin(2) slots_done_trieNodes [OF d] assms(3) by simp
  moreover have "stack = fst it" using d by (simp add: slots_done_def)
  moreover have "stack \<noteq> []" using fin(1) assms(2,4) False by (auto simp: stack_ok_def)
  ultimately show ?thesis
    using d fin(1) assms(2) False by (intro exI [of _ stack]) auto
qed

lemma processCode_done:
  assumes "processCode env src h ch t = Inr t'" and "src_sized src"
  shows "\<exists>code. (case code of
        None \<Rightarrow> ch = EmptyCodeHash env \<or> ch \<in> set (t_codeHashes t)
      | Some c \<Rightarrow> ch \<noteq> EmptyCodeHash env \<and> ch \<notin> set (t_codeHashes t) \<and> keccak256 env c = ch \<and> c \<noteq> [] \<and> go_slice c) \<and>
     visited (case code of None \<Rightarrow> [] | Some c \<Rightarrow> [VCode h ch c]) t t' \<and>
     t_counts t' = addBundleCounts (t_counts t)
       \<lparr>Accounts = 0, StorageSlots = 0, CodeReferences = (if ch = EmptyCodeHash env then 0 else 1),
        CodeRecords = (if code = None then 0 else 1), Records = (if code = None then 0 else 1),
        PayloadBytes = (case code of None \<Rightarrow> 0 | Some c \<Rightarrow> of_nat (length c))\<rparr> \<and>
     set (t_codeHashes t') = set (t_codeHashes t) \<union> (if code = None then {} else {ch}) \<and>
     t_accountStack t' = t_accountStack t"
proof (cases "ch = EmptyCodeHash env")
  case True
  with assms show ?thesis
    by (intro exI [of _ None]) (simp add: processCode_def addBundleCounts_def)
next
  case empty: False
  let ?t1 = "t\<lparr>t_counts := (t_counts t)\<lparr>CodeReferences := CodeReferences (t_counts t) + 1\<rparr>\<rparr>"
  show ?thesis
  proof (cases "ch \<in> set (t_codeHashes t)")
    case True
    with assms empty have "t' = ?t1"
      by (simp add: processCode_def hashSet_Add_def hashSet_Has_def Let_def)
    with True empty show ?thesis
      by (intro exI [of _ None]) (auto simp: addBundleCounts_def intro: visited_update)
  next
    case False
    let ?t2 = "?t1\<lparr>t_codeHashes := t_codeHashes t @ [ch]\<rparr>"
    from assms empty False obtain code t3 where c: "code \<noteq> []" "keccak256 env code = ch" "go_slice code"
      and v: "t_visit (\<lambda>v. v_Code v h ch code) ?t2 = Inr t3"
      and t': "t' = t3\<lparr>t_counts := (t_counts t3)\<lparr>Records := Records (t_counts t3) + 1,
        PayloadBytes := PayloadBytes (t_counts t3) + of_nat (length code),
        CodeRecords := CodeRecords (t_counts t3) + 1\<rparr>\<rparr>"
      by (auto simp: processCode_def hashSet_Add_def hashSet_Has_def Let_def result_simps src_sized_def
            split: option.splits if_splits)
    from t_visit_visited [OF v, of "VCode h ch code"]
    have vis: "visited [VCode h ch code] ?t2 t3" and sk: "\<exists>sk. t3 = ?t2\<lparr>t_sinks := sk\<rparr>" by auto
    have "visited ([] @ [VCode h ch code] @ []) t t'"
      by (intro visited_trans [of "[]" t ?t2] visited_trans [of _ _ t3] visited_update vis)
         (auto simp: t')
    with c empty False sk show ?thesis
      by (intro exI [of _ "Some code"]) (auto simp: t' addBundleCounts_def)
  qed
qed

lemma processAccount_done:
  assumes rep: "traversed env as t" and env: "env_ok env" and n: "t_trieNodes t = None" and h: "is_hash h"
    and run: "processAccount env src (h, val) t = Inr t'" and src: "src_sized src"
  shows "\<exists>a. traversed env (as @ [a]) t' \<and> leaf env a = (h, val) \<and> visited (acct_visits env a) t t'"
proof -
  have st: "stack_ok env" using env by (simp add: env_ok_def geth_ok_def)
  let ?t1 = "t\<lparr>t_ticks := Suc (t_ticks t)\<rparr>"
  from run obtain acc t2 where dec: "decodeFullAccount env val = Inr acc"
    and v: "t_visit (\<lambda>v. v_Account v h acc val) ?t1 = Inr t2"
    by (auto simp: processAccount_def result_simps Let_def t_poll_def split: if_splits)
  let ?t3 = "t2\<lparr>t_counts := (t_counts t2)\<lparr>Accounts := Accounts (t_counts t2) + 1, Records := Records (t_counts t2) + 1,
     PayloadBytes := PayloadBytes (t_counts t2) + of_nat (length val)\<rparr>\<rparr>"
  from run dec v obtain t4 t5 sinks where
    sto: "traverseStorage env src h (Root acc) ?t3 = Inr (Root acc, t4)"
    and cod: "processCode env src h (CodeHash acc) t4 = Inr t5"
    and upd: "stack_Update env zero_hash (t_trieNodes t5) (t_accountStack t5) (h, val) (t_sinks t5) =
        Inr (t_accountStack t5 @ [(h, val)], sinks)"
    and t': "t' = t5\<lparr>t_accountStack := t_accountStack t5 @ [(h, val)], t_sinks := sinks\<rparr>"
    by (auto simp: processAccount_def result_simps Let_def t_poll_def stack_Update_def
          split: if_splits option.splits)
  from t_visit_visited [OF v, of "VAccount h acc val"]
  have v2: "visited [VAccount h acc val] ?t1 t2" and sk: "\<exists>sk. t2 = ?t1\<lparr>t_sinks := sk\<rparr>" by auto
  have n3: "t_trieNodes ?t3 = None" using sk n by auto
  from traverseStorage_done [OF sto refl n3 st] obtain kvs where
    d: "slots_done env h kvs ([], ?t3) (kvs, t4)" and root: "Root acc = (if kvs = [] then EmptyRootHash env else stack_root env kvs)"
      "kvs \<noteq> [] \<longrightarrow> Root acc \<noteq> EmptyRootHash env" by blast
  from processCode_done [OF cod src] obtain code where
    c: "case code of None \<Rightarrow> CodeHash acc = EmptyCodeHash env \<or> CodeHash acc \<in> set (t_codeHashes t4)
      | Some c \<Rightarrow> CodeHash acc \<noteq> EmptyCodeHash env \<and> CodeHash acc \<notin> set (t_codeHashes t4) \<and> keccak256 env c = CodeHash acc \<and> c \<noteq> [] \<and> go_slice c"
    and v5: "visited (case code of None \<Rightarrow> [] | Some c \<Rightarrow> [VCode h (CodeHash acc) c]) t4 t5"
    and cnt: "t_counts t5 = addBundleCounts (t_counts t4)
       \<lparr>Accounts = 0, StorageSlots = 0, CodeReferences = (if CodeHash acc = EmptyCodeHash env then 0 else 1),
        CodeRecords = (if code = None then 0 else 1), Records = (if code = None then 0 else 1),
        PayloadBytes = (case code of None \<Rightarrow> 0 | Some c \<Rightarrow> of_nat (length c))\<rparr>"
    and hs: "set (t_codeHashes t5) = set (t_codeHashes t4) \<union> (if code = None then {} else {CodeHash acc})"
    and stk: "t_accountStack t5 = t_accountStack t4" by blast
  from decodeFullAccount_decoded [OF env dec] obtain slim where
    wf: "account_wf acc" "EncodeAccount env (Some acc) = Inr slim" and slim: "DecodeAccount env slim = Inr (acc, val)" by blast
  let ?a = "\<lparr>ac_hash = h, ac_slim = slim, ac_slots = kvs, ac_code = code\<rparr>"
  have da: "decoded env \<lparr>ac_hash = h, ac_slim = slim, ac_slots = ks, ac_code = cd\<rparr> = (acc, val)"
    "acct_of env \<lparr>ac_hash = h, ac_slim = slim, ac_slots = ks, ac_code = cd\<rparr> = acc"
    "leaf env \<lparr>ac_hash = h, ac_slim = slim, ac_slots = ks, ac_code = cd\<rparr> = (h, val)" for ks cd
    by (simp_all add: decoded_def slim acct_of_def leaf_def)
  have t4: "t_codeHashes t4 = t_codeHashes t" "t_accountStack t4 = map (leaf env) as"
    using d sk rep by (auto simp: slots_done_def traversed_def)
  have "ascending (map (leaf env) (as @ [?a]))"
    using upd stk t4 rep st stack_accepts_ascending [of env "map (leaf env) as" h val]
    by (auto simp: traversed_def image_ok_def da stack_Update_def simp del: ascending_append split: if_splits)
  then have ord: "as \<noteq> [] \<longrightarrow> ac_hash (last as) < ac_hash ?a"
    unfolding map_append list.map ascending_snoc by (auto simp: leaf_def last_map)
  have "part_ok env (known_codes env as) ?a"
    using d c t4(1) rep root(2) slim
    by (auto simp: part_ok_def slots_ok_def code_ok_iff da slots_done_def traversed_def split: option.splits)
  moreover have "close_ok env (known_codes env as) ?a"
    using root(1) c t4(1) rep by (auto simp: close_ok_def da traversed_def split: option.splits)
  moreover have "go_sized ?a"
    using d h c env slim_go_slice [OF _ wf] slot_go_slice [of env]
    by (auto simp: go_sized_def hashes_ok_def slots_done_def env_ok_def split: option.splits)
  moreover have "image_counts env (as @ [?a]) = t_counts t'"
    using cnt d sk rep da t'
    by (auto simp: image_counts_snoc acct_counts_def part_counts_def acct_records_def slots_done_def
          slot_counts_def addBundleCounts_def traversed_def algebra_simps split: option.splits)
  moreover have "set (t_codeHashes t') = known_codes env (as @ [?a])"
    using hs t4(1) rep t' by (auto simp: traversed_def known_codes_def acct_codes_def da)
  ultimately have "traversed env (as @ [?a]) t'"
    using rep ord stk t4(2) t' da by (auto simp: traversed_def image_ok_snoc)
  moreover have "visited (acct_visits env ?a) t t'"
  proof -
    have n5: "t_trieNodes t5 = None" using v5 slots_done_trieNodes [OF d] n3 by (auto simp: visited_def)
    have sinks: "sinks = t_sinks t5" using upd n5 by (auto simp: stack_Update_def split: if_splits)
    have "visited ([] @ [VAccount h acc val] @ [] @ slot_visits h kvs @
        (case code of None \<Rightarrow> [] | Some c \<Rightarrow> [VCode h (CodeHash acc) c]) @ []) t t'"
      using d
      by (intro visited_trans [of "[]" t ?t1] visited_trans [of _ _ t2] visited_trans [of _ _ ?t3]
            visited_trans [of _ _ t4] visited_trans [of _ _ t5] visited_update v2 v5)
         (auto simp: slots_done_def t' sinks)
    with c show ?thesis by (auto simp: acct_visits_def da split: option.splits)
  qed
  ultimately show ?thesis using da(3) by blast
qed

lemma process_accounts_done:
  assumes "process_accounts env src lfs t = Inr t'" and "traversed env as t" and "env_ok env"
    and "t_trieNodes t = None" and "\<forall>lf \<in> set lfs. is_hash (fst lf)" and "src_sized src"
  shows "\<exists>bs. traversed env (as @ bs) t' \<and> map (leaf env) bs = lfs \<and> visited (image_visits env bs) t t'"
  using assms
proof (induction lfs arbitrary: as t)
  case Nil
  then show ?case by (intro exI [of _ "[]"]) (simp add: image_visits_def)
next
  case (Cons lf lfs)
  then obtain t1 where t1: "processAccount env src lf t = Inr t1" "process_accounts env src lfs t1 = Inr t'"
    by (auto simp: result_simps)
  from processAccount_done [OF Cons.prems(2-4), of "fst lf" src "snd lf" t1] t1(1) Cons.prems(5,6) obtain a where
    a: "traversed env (as @ [a]) t1" "leaf env a = lf" "visited (acct_visits env a) t t1" by auto
  have "t_trieNodes t1 = None" using a(3) Cons.prems(4) by (simp add: visited_def)
  with Cons.IH [OF t1(2) a(1) Cons.prems(3)] Cons.prems(5,6) obtain bs where
    "traversed env (as @ a # bs) t'" "map (leaf env) bs = lfs" "visited (image_visits env bs) t1 t'" by auto
  with a visited_trans [OF a(3)] show ?case
    by (intro exI [of _ "a # bs"]) (simp add: image_visits_def)
qed

lemma traverser_run_done:
  assumes "traverser_run env src (newStateTraverser ctx root visitor None s) = Inr (st, s')" and "env_ok env"
    and "src_sized src"
  shows "\<exists>as it. src_accounts src = Some it \<and> map (leaf env) as = fst it \<and> image_ok env as \<and> list_all go_sized as \<and>
     image_root env as = root \<and> st = \<lparr>st_Root = root, st_Counts = image_counts env as\<rparr> \<and>
     (case visitor of None \<Rightarrow> s' = s | Some v \<Rightarrow> run_visits v (image_visits env as) s = (None, s'))"
proof -
  let ?t = "newStateTraverser ctx root visitor None s"
  from assms(1) obtain it leaves where it: "src_accounts src = Some it"
    and prod: "produceAccountTrie (src_accountPolls src) it = (leaves, None :: 'a trav_error option)"
    by (auto simp: traverser_run_def result_simps Let_def split: option.splits prod.splits)
  with assms(1) obtain t1 where
    acc: "process_accounts env src leaves ?t = Inr t1" and fin: "traverser_finalize env t1 = Inr (st, s')"
    by (auto simp: traverser_run_def result_simps)
  have lv: "leaves = fst it" "\<forall>lf \<in> set leaves. is_hash (fst lf)"
    using produce_leaves_complete prod by (force simp: produceAccountTrie_def)+
  have "traversed env [] ?t"
    by (simp add: traversed_def newStateTraverser_def image_ok_def known_codes_def newHashSet_def image_counts_def)
  from process_accounts_done [OF acc this assms(2) _ lv(2) assms(3)] obtain as where
    as: "traversed env as t1" "map (leaf env) as = leaves" "visited (image_visits env as) ?t t1"
    by (auto simp: newStateTraverser_def)
  then have "t_trieNodes t1 = None" "t_root t1 = root" by (simp_all add: visited_def newStateTraverser_def)
  with fin as it lv show ?thesis
    by (auto simp: traverser_finalize_def stack_Hash_def traversed_def image_root_def visited_def
          newStateTraverser_def Let_def split: option.splits if_splits prod.splits)
qed

section \<open>Properties\<close>

text \<open>
  Property C19. A traversal that succeeds has seen the whole state and nothing else: there is one
  well-formed state image whose account leaves are the iterator's, in order, whose root is the
  requested one; the counters are the image's; and the visitor was called for every account, slot
  and first-referenced code of it, in record order (iterator prefetching included).
\<close>

theorem traverse_sound:
  assumes "traverser_run env src (newStateTraverser ctx root visitor None s) = Inr (st, s')"
    and "env_ok env" and "src_sized src"
  shows "\<exists>as it. src_accounts src = Some it \<and> map (leaf env) as = fst it \<and> image_ok env as \<and> list_all go_sized as \<and>
     image_root env as = root \<and> st = \<lparr>st_Root = root, st_Counts = image_counts env as\<rparr> \<and>
     (case visitor of None \<Rightarrow> s' = s | Some v \<Rightarrow> run_visits v (image_visits env as) s = (None, s'))"
  using assms by (rule traverser_run_done)

end
