(* ===== verification/Export.thy ===== *)
theory Export
  imports Traversal
begin

text \<open>
  Exporting a legacy database as a bundle (\<^verbatim>\<open>export.go\<close>, \<^verbatim>\<open>legacy.go\<close>): read the head, traverse
  its state into a record writer, confirm that the head did not move, write the manifest and
  re-open it. The last section shows that the bundle scans back to the same state.
\<close>

section \<open>The legacy source\<close>

text \<open>The readers of \<^verbatim>\<open>rawdb\<close> on an open database; a missing hash is zero, a missing blob empty.\<close>

record rawdb_view =
  rd_HeadBlockHash :: hash
  rd_HeaderNumber :: "hash \<Rightarrow> u64 option"
  rd_CanonicalHash :: "u64 \<Rightarrow> hash"
  rd_HeaderRLP :: "hash \<Rightarrow> u64 \<Rightarrow> bytes"

datatype legacy_error =
    NoLastBlock
  | NoHashToNumber
  | HeadNotCanonical
  | HeaderMissing
  | HeaderDecode
  | HeaderNumberInvalid
  | HeaderNumberMismatch
  | HeaderHashMismatch
  | EmptyStateRoot

definition readLegacyHead :: "geth_env \<Rightarrow> rawdb_view \<Rightarrow> (legacy_error, Head \<times> bytes) result" where
  "readLegacyHead env db =
     (let h = rd_HeadBlockHash db in
      if h = zero_hash then Inl NoLastBlock
      else case rd_HeaderNumber db h of
        None \<Rightarrow> Inl NoHashToNumber
      | Some number \<Rightarrow>
          if rd_CanonicalHash db number \<noteq> h then Inl HeadNotCanonical
          else
            let headerRLP = rd_HeaderRLP db h number in
            if length headerRLP = 0 then Inl HeaderMissing
            else case rlp_dec_header env headerRLP of
              None \<Rightarrow> Inl HeaderDecode
            | Some hdr \<Rightarrow>
                (case h_Number hdr of
                   None \<Rightarrow> Inl HeaderNumberInvalid
                 | Some n \<Rightarrow>
                     if \<not> isUint64 n then Inl HeaderNumberInvalid
                     else if (of_int n :: u64) \<noteq> number then Inl HeaderNumberMismatch
                     else if keccak256 env headerRLP \<noteq> h then Inl HeaderHashMismatch
                     else if h_Root hdr = zero_hash then Inl EmptyStateRoot
                     else Inr (\<lparr>BlockNumber = number, BlockHash = h, StateRoot = h_Root hdr\<rparr>, headerRLP)))"

record legacySource =
  ls_head :: Head
  ls_headerRLP :: bytes
  ls_closed :: bool

datatype confirm_error = ReReadHead legacy_error | HeadChanged | CloseLegacy

text \<open>
  \<^verbatim>\<open>ConfirmStableAndClose\<close>: the database as it answers now, and whether closing it fails. The
  source is closed on every path.
\<close>

definition ConfirmStableAndClose ::
  "geth_env \<Rightarrow> rawdb_view \<Rightarrow> bool \<Rightarrow> legacySource \<Rightarrow> (confirm_error, SourceEvidence) result \<times> legacySource" where
  "ConfirmStableAndClose env db closeErr s =
     (let s' = s\<lparr>ls_closed := True\<rparr>;
          closing = (\<not> ls_closed s \<and> closeErr)
      in (case readLegacyHead env db of
            Inl e \<Rightarrow> Inl (ReReadHead e)
          | Inr (headAfter, headerRLPAfter) \<Rightarrow>
              if headAfter \<noteq> ls_head s \<or> headerRLPAfter \<noteq> ls_headerRLP s then Inl HeadChanged
              else if closing then Inl CloseLegacy
              else Inr \<lparr>HeadBefore = ls_head s, HeadAfter = headAfter, HeaderRLP = ls_headerRLP s\<rparr>, s'))"

section \<open>The visitor that writes records\<close>

datatype record_visit_error = VisitEncode account_error | VisitWrite writer_error | VisitCount writer_error

definition writer_call :: "(writer_error \<Rightarrow> 'e) \<Rightarrow> writer_error option \<times> writer \<Rightarrow> 'e option \<times> writer" where
  "writer_call f r = (map_option f (fst r), snd r)"

definition recordWriterVisitor :: "geth_env \<Rightarrow> (record_visit_error, writer) StateVisitor" where
  "recordWriterVisitor env = \<lparr>
     v_Account = (\<lambda>h account fullRLP w.
       (case EncodeAccount env (Some account) of
          Inl e \<Rightarrow> (Some (VisitEncode e), w)
        | Inr payload \<Rightarrow>
            (case WriteAccount env h payload (of_nat (length fullRLP)) w of
               (Some e, w1) \<Rightarrow> (Some (VisitWrite e), w1)
             | (None, w1) \<Rightarrow>
                 if CodeHash account \<noteq> EmptyCodeHash env
                 then writer_call VisitCount (CountCodeReference w1)
                 else (None, w1)))),
     v_Storage = (\<lambda>h slot val w. writer_call VisitWrite (WriteStorage env h slot val w)),
     v_Code = (\<lambda>h codeHash code w. writer_call VisitWrite (WriteCode env codeHash code w)),
     v_AccountFromBundle = None\<rparr>"

section \<open>Finishing the bundle\<close>

text \<open>The answers of the outside world while the bundle is finished.\<close>

record export_world =
  ew_poll1 :: bool
  ew_poll2 :: bool
  ew_dbAfter :: rawdb_view
  ew_closeErr :: bool
  ew_now :: nat
  ew_toolVersion :: string
  ew_gethVersion :: string
  ew_writeErr :: bool
  ew_syncErr :: bool
  ew_reopened :: "(strictio_error, dir_root) result"

datatype export_error =
    ExportContext
  | ExportLegacy legacy_error
  | ExportWriter writer_error
  | ExportTraverse "record_visit_error trav_error"
  | ExportCounts
  | ExportConfirm confirm_error
  | ExportManifest manifest_error
  | ExportWriteManifest
  | ExportSync
  | ExportReopen load_error
  | ExportReopenedDiffers

definition WriteManifest :: "geth_env \<Rightarrow> bool \<Rightarrow> Manifest \<Rightarrow> (export_error, unit) result" where
  "WriteManifest env writeErr manifest =
     bindR (mapErr ExportManifest (Manifest_Validate env manifest)) (\<lambda>_.
       if writeErr then Inl ExportWriteManifest else Inr ())"

definition finalizeExportBundle ::
  "geth_env \<Rightarrow> (bytes \<Rightarrow> Manifest option) \<Rightarrow> export_world \<Rightarrow> legacySource \<Rightarrow> writer \<Rightarrow> StateResult \<Rightarrow>
   (export_error, Manifest \<times> WriterResult) result \<times> writer \<times> legacySource" where
  "finalizeExportBundle env json_dec world source w state =
     (if ew_poll1 world then (Inl ExportContext, Writer_Abort w, source)
      else case Writer_Close env w of
        (Inl e, w1) \<Rightarrow> (Inl (ExportWriter e), w1, source)
      | (Inr res, w1) \<Rightarrow>
          if wr_Counts res \<noteq> st_Counts state then (Inl ExportCounts, w1, source)
          else if ew_poll2 world then (Inl ExportContext, w1, source)
          else case ConfirmStableAndClose env (ew_dbAfter world) (ew_closeErr world) source of
            (Inl e, source1) \<Rightarrow> (Inl (ExportConfirm e), w1, source1)
          | (Inr evidence, source1) \<Rightarrow>
              let manifest = NewManifest (ew_now world) (ew_toolVersion world) (ew_gethVersion world) evidence
                    (st_Counts state)
                    \<lparr>Name = wr_FileName res, Compression = wr_Compression res, Size = wr_Size res,
                     RecordPayloadBytes = wr_RecordPayloadBytes res, SHA256 = wr_SHA256 res,
                     RecordChainHash = wr_RecordChainHash res\<rparr>
              in (bindR (WriteManifest env (ew_writeErr world) manifest) (\<lambda>_.
                    if ew_syncErr world then Inl ExportSync
                    else bindR (mapErr ExportReopen (LoadManifest env json_dec (ew_reopened world))) (\<lambda>(stored, _).
                           if \<not> sameManifest stored manifest then Inl ExportReopenedDiffers
                           else Inr (manifest, res))), w1, source1))"

text \<open>
  The pipeline of \<^verbatim>\<open>Export\<close> from the opened source to the finished bundle; \<open>db\<close> answers the
  first head read, \<open>wctx\<close> and \<open>tctx\<close> are the polls and writes of the writer and the traversal.
\<close>

definition export_bundle ::
  "geth_env \<Rightarrow> (bytes \<Rightarrow> Manifest option) \<Rightarrow> rawdb_view \<Rightarrow> state_source \<Rightarrow> string \<Rightarrow> faults \<Rightarrow> faults \<Rightarrow> export_world \<Rightarrow>
   (export_error, Manifest \<times> WriterResult \<times> writer) result" where
  "export_bundle env json_dec db src compression wctx tctx world =
     bindR (mapErr ExportLegacy (readLegacyHead env db)) (\<lambda>(head, headerRLP).
     let source = \<lparr>ls_head = head, ls_headerRLP = headerRLP, ls_closed = False\<rparr> in
     bindR (mapErr ExportWriter (NewWriter env (Some wctx)
              (if compression = [] then CompressionZstd else compression) head headerRLP)) (\<lambda>w0.
     bindR (mapErr ExportTraverse (traverser_run env src
              (newStateTraverser tctx (StateRoot head) (Some (recordWriterVisitor env)) None w0)))
       (\<lambda>(state, w1).
       case finalizeExportBundle env json_dec world source w1 state of
         (Inl e, _) \<Rightarrow> Inl e
       | (Inr (manifest, res), w2, _) \<Rightarrow> Inr (manifest, res, w2))))"

section \<open>Visits as writes\<close>

definition acct_ops :: "geth_env \<Rightarrow> acct \<Rightarrow> write_op list" where
  "acct_ops env a =
     OpAccount (ac_hash a) (ac_slim a) (of_nat (length (snd (decoded env a)))) #
       (if CodeHash (acct_of env a) \<noteq> EmptyCodeHash env then [OpReference] else []) @
       map (\<lambda>(k, v). OpStorage (ac_hash a) k v) (ac_slots a) @
       (case ac_code a of None \<Rightarrow> [] | Some code \<Rightarrow> [OpCode (keccak256 env code) code])"

definition image_ops :: "geth_env \<Rightarrow> acct list \<Rightarrow> write_op list" where
  "image_ops env as = concat (map (acct_ops env) as)"

lemma run_ops_append:
  "run_ops env (xs @ ys) w =
     (case run_ops env xs w of (Some e, w') \<Rightarrow> (Some e, w') | (None, w') \<Rightarrow> run_ops env ys w')"
proof (induction xs arbitrary: w)
  case (Cons x xs)
  show ?case by (cases "run_op env x w"; cases "fst (run_op env x w)") (auto simp: Cons)
qed simp

lemma op_records_acct: "op_records (acct_ops env a) = acct_records env a"
  by (auto simp: op_records_def acct_ops_def acct_records_def account_record_def slot_record_def
        code_record_def comp_def case_prod_beta concat_map_singleton split: option.splits)

lemma op_records_image: "op_records (image_ops env as) = image_records env as"
proof (induction as)
  case (Cons a as)
  then show ?case
    using op_records_acct [of env a] by (simp add: image_ops_def image_records_def op_records_def)
qed (simp add: image_ops_def image_records_def op_records_def)

lemma image_ops_wf:
  "list_all go_sized as \<Longrightarrow> digests_ok env \<Longrightarrow> list_all op_wf (image_ops env as)"
  by (fastforce simp: image_ops_def acct_ops_def go_sized_def hashes_ok_def list_all_iff is_hash_def HashLength_def
        split: option.splits)

lemma EncodeAccount_acct_of:
  assumes "env_ok env" and "isOk (DecodeAccount env (ac_slim a))"
  shows "EncodeAccount env (Some (acct_of env a)) = Inr (ac_slim a)"
proof -
  from assms(2) obtain acc full where d: "DecodeAccount env (ac_slim a) = Inr (acc, full)"
    by (auto simp: result_simps)
  have "account_wf acc" "rlp_dec_slim env (ac_slim a) = Some (to_slim env acc)"
    using DecodeAccount_eq_Inr [OF _ d] assms(1) by (auto simp: env_ok_def geth_ok_def)
  moreover from this have "rlp_enc_slim env (to_slim env acc) = Some (ac_slim a)"
    using assms(1) by (auto simp: env_ok_def slim_rlp_ok_def)
  ultimately show ?thesis using d by (simp add: EncodeAccount_wf acct_of_def decoded_def)
qed

lemma slot_visits_ops:
  "run_visits (recordWriterVisitor env) (slot_visits h kvs) w = (None, w') \<Longrightarrow>
     run_ops env (map (\<lambda>(k, v). OpStorage h k v) kvs) w = (None, w')"
  by (induction kvs arbitrary: w)
     (auto simp: slot_visits_def recordWriterVisitor_def writer_call_def split: prod.splits option.splits)

lemma acct_visits_ops:
  assumes "env_ok env" and "isOk (DecodeAccount env (ac_slim a))"
    and "run_visits (recordWriterVisitor env) (acct_visits env a) w = (None, w')"
  shows "run_ops env (acct_ops env a) w = (None, w')"
proof -
  note enc = EncodeAccount_acct_of [OF assms(1,2)]
  let ?v = "recordWriterVisitor env"
  let ?code = "case ac_code a of None \<Rightarrow> [] | Some code \<Rightarrow> [VCode (ac_hash a) (keccak256 env code) code]"
  from assms(3) obtain w1 where
    w1: "v_Account ?v (ac_hash a) (acct_of env a) (snd (decoded env a)) w = (None, w1)"
    and r1: "run_visits ?v (slot_visits (ac_hash a) (ac_slots a) @ ?code) w1 = (None, w')"
    by (auto simp: acct_visits_def split: prod.splits option.splits)
  from r1 obtain w2 where w2: "run_visits ?v (slot_visits (ac_hash a) (ac_slots a)) w1 = (None, w2)"
    and r2: "run_visits ?v ?code w2 = (None, w')"
    unfolding run_visits_append by (auto split: prod.splits option.splits)
  have "run_ops env (OpAccount (ac_hash a) (ac_slim a) (of_nat (length (snd (decoded env a)))) #
      (if CodeHash (acct_of env a) \<noteq> EmptyCodeHash env then [OpReference] else [])) w = (None, w1)"
    using w1 enc by (auto simp: recordWriterVisitor_def writer_call_def split: prod.splits option.splits if_splits)
  moreover have "run_ops env (case ac_code a of None \<Rightarrow> [] | Some code \<Rightarrow> [OpCode (keccak256 env code) code]) w2 = (None, w')"
    using r2 by (auto simp: recordWriterVisitor_def writer_call_def split: prod.splits option.splits)
  ultimately show ?thesis
    using slot_visits_ops [OF w2]
    unfolding acct_ops_def append_Cons [symmetric] run_ops_append by simp
qed

lemma image_visits_ops:
  assumes "env_ok env" and "\<forall>a \<in> set as. isOk (DecodeAccount env (ac_slim a))"
    and "run_visits (recordWriterVisitor env) (image_visits env as) w = (None, w')"
  shows "run_ops env (image_ops env as) w = (None, w')"
  using assms(2,3)
proof (induction as arbitrary: w)
  case Nil
  then show ?case by (simp add: image_visits_def image_ops_def)
next
  case (Cons a as)
  then obtain w1 where "run_visits (recordWriterVisitor env) (acct_visits env a) w = (None, w1)"
    "run_visits (recordWriterVisitor env) (image_visits env as) w1 = (None, w')"
    by (auto simp: image_visits_def run_visits_append split: prod.splits option.splits)
  with Cons acct_visits_ops [OF assms(1), of a w w1] show ?case
    by (simp add: image_ops_def run_ops_append)
qed

section \<open>The writer counts what the traversal counts\<close>

fun op_counts :: "write_op \<Rightarrow> Counts" where
  "op_counts OpReference = emptyCounts\<lparr>CodeReferences := 1\<rparr>"
| "op_counts (OpAccount h slim n) = emptyCounts\<lparr>Accounts := 1, Records := 1, PayloadBytes := n\<rparr>"
| "op_counts (OpStorage h slot val) =
     emptyCounts\<lparr>StorageSlots := 1, Records := 1, PayloadBytes := of_nat (length val)\<rparr>"
| "op_counts (OpCode h code) =
     emptyCounts\<lparr>CodeRecords := 1, Records := 1, PayloadBytes := of_nat (length code)\<rparr>"

lemma run_op_counts:
  assumes "run_op env op w = (None, w')"
  shows "w_counts w' = addBundleCounts (w_counts w) (op_counts op)"
  using assms
  by (cases op)
     (auto simp: CountCodeReference_def WriteAccount_def WriteStorage_def WriteCode_def count_record_def
        addBundleCounts_def emptyCounts_def record_kinds Let_def split: if_splits dest!: writeRecord_ok)

definition ops_counts :: "write_op list \<Rightarrow> Counts" where
  "ops_counts ops = foldl addBundleCounts emptyCounts (map op_counts ops)"

lemma ops_counts_append: "ops_counts (xs @ ys) = addBundleCounts (ops_counts xs) (ops_counts ys)"
  by (simp only: ops_counts_def map_append tc.total_append)

lemma ops_counts_Cons: "ops_counts (x # xs) = addBundleCounts (op_counts x) (ops_counts xs)"
  using ops_counts_append [of "[x]" xs] by (simp add: ops_counts_def tc.add_zero)

lemma run_ops_counts:
  "run_ops env ops w = (None, w') \<Longrightarrow> w_counts w' = addBundleCounts (w_counts w) (ops_counts ops)"
proof (induction ops arbitrary: w)
  case Nil
  then show ?case by (simp add: ops_counts_def tc.add_comm [of _ emptyCounts] tc.add_zero)
next
  case (Cons op ops)
  then obtain w1 where "run_op env op w = (None, w1)" "run_ops env ops w1 = (None, w')"
    by (auto split: prod.splits option.splits)
  with Cons.IH [of w1] run_op_counts [of env op w w1] show ?case
    by (simp add: ops_counts_Cons tc.add_assoc)
qed

lemma ops_counts_slots: "ops_counts (map (\<lambda>(k, v). OpStorage h k v) kvs) = slot_counts kvs"
  by (induction kvs)
     (auto simp: ops_counts_Cons slot_counts_def addBundleCounts_def emptyCounts_def,
      auto simp: ops_counts_def emptyCounts_def)

lemma ops_counts_acct: "ops_counts (acct_ops env a) = acct_counts env a"
proof -
  have one: "ops_counts [x] = op_counts x" "ops_counts [] = emptyCounts" for x
    by (simp_all add: ops_counts_def tc.add_zero)
  show ?thesis
    by (auto simp: acct_ops_def ops_counts_Cons ops_counts_append ops_counts_slots one acct_counts_def
          part_counts_def acct_records_def slot_counts_def addBundleCounts_def emptyCounts_def
          algebra_simps split: option.splits)
qed

lemma ops_counts_image: "ops_counts (image_ops env as) = image_counts env as"
proof (induction as rule: rev_induct)
  case Nil
  then show ?case by (simp add: image_ops_def ops_counts_def image_counts_def)
next
  case (snoc a as)
  then show ?case
    by (simp add: image_ops_def ops_counts_append image_counts_snoc ops_counts_acct)
qed

section \<open>What an export produced\<close>

text \<open>Everything known once the traversal has returned.\<close>

lemma export_traversed:
  assumes "env_ok env" and "src_sized src"
    and "NewWriter env (Some wctx) compression head headerRLP = Inr w0"
    and "traverser_run env src
           (newStateTraverser tctx root (Some (recordWriterVisitor env)) None w0) = Inr (state, w1)"
  shows "\<exists>as. image_ok env as \<and> list_all go_sized as \<and> length as < 2 ^ 64 \<and> image_root env as = root \<and>
     state = \<lparr>st_Root = root, st_Counts = image_counts env as\<rparr> \<and>
     run_ops env (image_ops env as) w0 = (None, w1) \<and> w_counts w1 = image_counts env as"
proof -
  from traverser_run_done [OF assms(4,1,2)] obtain as it where
    as: "src_accounts src = Some it" "map (leaf env) as = fst it" "image_ok env as" "list_all go_sized as"
      "image_root env as = root" "state = \<lparr>st_Root = root, st_Counts = image_counts env as\<rparr>"
      "run_visits (recordWriterVisitor env) (image_visits env as) w0 = (None, w1)" by auto
  have "isOk (DecodeAccount env (ac_slim a))" if "a \<in> set as" for a
    using as(3) that by (auto simp: image_ok_def part_ok_def in_set_conv_nth)
  with image_visits_ops [OF assms(1) _ as(7)] have run: "run_ops env (image_ops env as) w0 = (None, w1)" by blast
  moreover have "w_counts w0 = emptyCounts"
    using assms(3) by (auto simp: NewWriter_def w_tick_def Let_def split: option.splits if_splits)
  ultimately have "w_counts w1 = image_counts env as"
    using run_ops_counts [OF run] by (simp add: ops_counts_image tc.add_zero)
  moreover have "length as < 2 ^ 64"
    using as(1,2) assms(2) by (auto simp: src_sized_def dest: arg_cong [where f = length])
  ultimately show ?thesis using as run by blast
qed

lemma sameManifest_iff: "sameManifest a b \<longleftrightarrow> a = b"
  by (cases a; cases b) (auto simp: sameManifest_def sameSourceEvidence_iff)

lemma finalizeExportBundle_Inr:
  assumes "finalizeExportBundle env json_dec world source w state = (Inr (m, res), w', source')"
  shows "Writer_Close env w = (Inr res, w') \<and> m_StateFile m = writer_StateFile res \<and>
     m_Counts m = wr_Counts res \<and> m_Counts m = st_Counts state \<and> HeadBefore (Source m) = ls_head source \<and>
     HeaderRLP (Source m) = ls_headerRLP source \<and> Manifest_Validate env m = Inr () \<and>
     (\<exists>data. LoadManifest env json_dec (ew_reopened world) = Inr (m, data))"
  using assms
  by (auto simp: finalizeExportBundle_def ConfirmStableAndClose_def WriteManifest_def Let_def result_simps
        sameManifest_iff NewManifest_def writer_StateFile_def
        split: if_splits sum.splits prod.splits)

lemma exported_bundle_scans:
  assumes "env_ok env" and "zstd_ok env" and "src_sized src"
    and "readLegacyHead env db = Inr (head, headerRLP)"
    and "export_bundle env json_dec db src compression wctx tctx world = Inr (m, res, w)"
    and "ew_reopened world = Inr r" and "holds_stream r m (stream_file env (wr_Compression res) (w_writes w))"
  shows "\<exists>result. scanBundle env json_dec (Some no_faults) (Inr r) (Inr r) (Inr r)
       (None :: ('e, unit) StateVisitor option) None () = Inr (result, ()) \<and>
     br_Manifest result = m \<and>
     br_State result = \<lparr>st_Root = StateRoot head, st_Counts = m_Counts m\<rparr>"
proof -
  let ?comp = "if compression = [] then CompressionZstd else compression"
  let ?src = "\<lparr>ls_head = head, ls_headerRLP = headerRLP, ls_closed = False\<rparr>"
  from assms(4,5) obtain w0 state w1 where
    new: "NewWriter env (Some wctx) ?comp head headerRLP = Inr w0"
    and tr: "traverser_run env src (newStateTraverser tctx (StateRoot head)
      (Some (recordWriterVisitor env)) None w0) = Inr (state, w1)"
    by (auto simp: export_bundle_def result_simps Let_def)
  with assms(4,5) obtain s2 where
    fin: "finalizeExportBundle env json_dec world ?src w1 state = (Inr (m, res), w, s2)"
    by (auto simp: export_bundle_def split: prod.splits sum.splits)
  from export_traversed [OF assms(1,3) new tr] obtain as where
    as: "image_ok env as" "list_all go_sized as" "length as < 2 ^ 64" "image_root env as = StateRoot head"
      "state = \<lparr>st_Root = StateRoot head, st_Counts = image_counts env as\<rparr>"
      "run_ops env (image_ops env as) w0 = (None, w1)" by blast
  note f = finalizeExportBundle_Inr [OF fin]
  have m: "manifest_describes m head headerRLP res" using f by (simp add: manifest_describes_def)
  have digests: "digests_ok env" and geth: "geth_ok env" using assms(1) by (simp_all add: env_ok_def geth_ok_def)
  have wf: "list_all op_wf (image_ops env as)" by (rule image_ops_wf [OF as(2) digests])
  have comp: "wr_Compression res = ?comp"
    using Writer_Close_Inr [of env w1 res w] f run_ops_wrote_ok [OF as(6) wf] NewWriter_Inr [OF new]
    by (auto simp: wrote_ok_def wrote_def)
  let ?c0 = "newRecordConsumer (StateRoot head) None None () :: ('e, unit) consumer"
  have "list_all hashes_ok as" using as(2) by (simp add: go_sized_def list_all_iff)
  from consumer_accepts_image [OF geth as(1) this as(3), of "()"] as(4) obtain c c' where
    c: "consume_all (consume env) (image_records env as) ?c0 = Inr c"
      "consumer_finish env c = Inr (\<lparr>st_Root = StateRoot head, st_Counts = image_counts env as\<rparr>, c')" by metis
  from assms(7) obtain e info where
    e: "OpenRegular r (Name (m_StateFile m)) = Inr (e, info)"
      "de_data e = Some (stream_file env ?comp (w_writes w))"
      "fi_size info = int (length (stream_file env ?comp (w_writes w)))"
      "RequireExactLayout r (bundle_layout m) = Inr ()" by (auto simp: holds_stream_def comp)
  have cert: "stream_certified env m e (image_records env as)"
    using written_certified [OF new as(6) wf _ assms(2) m e(2)] f by (simp add: op_records_image)
  have size: "fi_size info = Size (m_StateFile m)" and val: "Manifest_Validate env m = Inr ()"
    using Writer_Close_Inr [of env w1 res w] f e(3) comp by (auto simp: writer_StateFile_def)
  have scan: "scanRecords env (Some no_faults) (Inr r) m (consume env) ?c0 = Inr (certified_result m, c)"
    by (rule scanRecords_ok [OF val e(4,1) size cert c(1)])
  from f assms(6) obtain data where load: "LoadManifest env json_dec (Inr r) = Inr (m, data)" by auto
  have "image_counts env as = m_Counts m" using f as(5) by (metis StateResult.select_convs(2))
  moreover have "HeadBefore (Source m) = head" using m by (simp add: manifest_describes_def)
  ultimately show ?thesis
    using load scan c(2) by (simp add: scanBundle_def Let_def)
qed

section \<open>Properties\<close>

text \<open>
  Property C1. Export and scan are inverse. When an export succeeded, and the directory it
  re-opened holds the bytes its writer wrote, then scanning that directory without faults succeeds:
  the rebuilt state has the root of the source's head and the counters of the traversal, and the
  scan reports the manifest the export returned.
\<close>

theorem export_scan_roundtrip:
  assumes "env_ok env" and "zstd_ok env" and "src_sized src"
    and "readLegacyHead env db = Inr (head, headerRLP)"
    and "export_bundle env json_dec db src compression wctx tctx world = Inr (m, res, w)"
    and "ew_reopened world = Inr r" and "holds_stream r m (stream_file env (wr_Compression res) (w_writes w))"
  shows "\<exists>result. scanBundle env json_dec (Some no_faults) (Inr r) (Inr r) (Inr r)
       (None :: ('e, unit) StateVisitor option) None () = Inr (result, ()) \<and>
     br_Manifest result = m \<and>
     br_State result = \<lparr>st_Root = StateRoot head, st_Counts = m_Counts m\<rparr>"
  using assms by (rule exported_bundle_scans)

text \<open>
  Property C20. The cross-check of the two independent counters in \<^verbatim>\<open>finalizeExportBundle\<close> never
  fires: over a complete traversal, the writer counted exactly what the traverser counted.
\<close>

theorem export_counts_agree:
  assumes "env_ok env" and "src_sized src"
  shows "export_bundle env json_dec db src compression wctx tctx world \<noteq> Inl ExportCounts"
proof
  assume bad: "export_bundle env json_dec db src compression wctx tctx world = Inl ExportCounts"
  let ?comp = "if compression = [] then CompressionZstd else compression"
  from bad obtain head headerRLP where hd: "readLegacyHead env db = Inr (head, headerRLP)"
    by (cases "readLegacyHead env db") (auto simp: export_bundle_def)
  with bad obtain w0 where new: "NewWriter env (Some wctx) ?comp head headerRLP = Inr w0"
    by (cases "NewWriter env (Some wctx) ?comp head headerRLP") (auto simp: export_bundle_def)
  let ?t = "newStateTraverser tctx (StateRoot head) (Some (recordWriterVisitor env)) None w0"
  from bad hd new obtain state w1 where tr: "traverser_run env src ?t = Inr (state, w1)"
    by (cases "traverser_run env src ?t") (auto simp: export_bundle_def)
  from export_traversed [OF assms new tr] have "w_counts w1 = st_Counts state" by auto
  then have "wr_Counts res = st_Counts state" if "Writer_Close env w1 = (Inr res, w2)" for res w2
    using Writer_Close_Inr [OF that] by simp
  with bad hd new tr show False
    by (auto simp: export_bundle_def finalizeExportBundle_def WriteManifest_def bindR_def mapErr_def Let_def
          split: prod.splits sum.splits if_splits)
qed

text \<open>
  Property C26. The evidence of a stable source is always valid: whatever the database answers, a
  confirmed source yields evidence whose header hashes to the recorded block hash and carries the
  recorded number and state root; the database is closed on every path.
\<close>

theorem confirmed_evidence_binds:
  "case ConfirmStableAndClose env db closeErr s of
     (Inr evidence, s') \<Rightarrow> (\<exists>hdr. evidence_binds env evidence hdr) \<and> HeadBefore evidence = ls_head s \<and> ls_closed s'
   | (Inl _, s') \<Rightarrow> ls_closed s'"
proof -
  have "\<exists>hdr. evidence_binds env \<lparr>HeadBefore = head, HeadAfter = head, HeaderRLP = headerRLP\<rparr> hdr"
    if "readLegacyHead env db = Inr (head, headerRLP)" for head headerRLP
    using that
    by (auto simp: readLegacyHead_def evidence_binds_def Let_def isUint64_of_int
          split: if_splits option.splits)
  then show ?thesis
    by (auto simp: ConfirmStableAndClose_def Let_def split: prod.splits sum.splits if_splits)
qed

end
