(* ===== verification/Demo.thy ===== *)
theory Demo
  imports Export "HOL-Library.Code_Target_Nat"
begin

text \<open>
  A concrete environment. Its functions are small and executable and satisfy everything the
  development asks of go-ethereum and zstd, so the hypotheses of the properties can hold together;
  the witnesses evaluate on it.
\<close>

section \<open>Evaluation\<close>

text \<open>Sequencing is evaluated as a case distinction, so that its continuation waits for its argument.\<close>

lemma bindR_case [code_unfold]: "bindR r f = (case r of Inl e \<Rightarrow> Inl e | Inr x \<Rightarrow> f x)"
  by (cases r) simp_all

lemma map_option_case [code_unfold]: "map_option f x = (case x of None \<Rightarrow> None | Some y \<Rightarrow> Some (f y))"
  by (cases x) simp_all

section \<open>Codecs\<close>

definition demo_hash :: "bytes \<Rightarrow> hash" where
  "demo_hash b = replicate 30 1 @ [of_nat (length b), last (0 # b)]"

definition demo_EmptyRoot :: hash where "demo_EmptyRoot = replicate 32 2"
definition demo_EmptyCode :: hash where "demo_EmptyCode = replicate 32 3"

text \<open>
  A self-delimiting byte string of any length: a short one behind its length, a long one with
  every byte behind a one, then a zero.
\<close>

definition put_long :: "bytes \<Rightarrow> bytes" where
  "put_long xs = concat (map (\<lambda>b. [1, b]) xs) @ [0]"

definition put_bytes :: "bytes \<Rightarrow> bytes" where
  "put_bytes xs = (if length xs < 255 then of_nat (length xs) # xs else 255 # put_long xs)"

fun get_long :: "bytes \<Rightarrow> (bytes \<times> bytes) option" where
  "get_long (t # b # rest) =
     (if t = 0 then Some ([], b # rest)
      else map_option (\<lambda>(xs, rest'). (b # xs, rest')) (get_long rest))"
| "get_long [t] = (if t = 0 then Some ([], []) else None)"
| "get_long [] = None"

definition get_bytes :: "bytes \<Rightarrow> (bytes \<times> bytes) option" where
  "get_bytes b =
     (case b of
        [] \<Rightarrow> None
      | t # rest \<Rightarrow>
          if t = 255 then get_long rest
          else if length rest < unat t then None
          else Some (take (unat t) rest, drop (unat t) rest))"

lemma get_put_long: "get_long (put_long xs @ rest) = Some (xs, rest)"
proof (induction xs)
  case Nil
  then show ?case by (cases rest) (simp_all add: put_long_def)
next
  case (Cons x xs)
  then show ?case by (simp add: put_long_def)
qed

lemma get_put_bytes: "get_bytes (put_bytes xs @ rest) = Some (xs, rest)"
proof (cases "length xs < 255")
  case True
  then have n: "unat (of_nat (length xs) :: byte) = length xs" by (simp add: unat_of_nat)
  with True have "(of_nat (length xs) :: byte) \<noteq> 255" by auto
  with True n show ?thesis by (simp add: get_bytes_def put_bytes_def)
qed (simp add: get_bytes_def put_bytes_def get_put_long)

definition put_account :: "u64 \<Rightarrow> u256 \<Rightarrow> bytes \<Rightarrow> bytes \<Rightarrow> bytes" where
  "put_account nonce bal root code =
     be64 nonce @ be_bytes 32 (unat bal) @ put_bytes root @ put_bytes code"

text \<open>Reading a balance; the two smallest ones are told apart for the sake of evaluation.\<close>

definition to_u256 :: "nat \<Rightarrow> u256" where
  "to_u256 n = (if n = 0 then 0 else if n = 1 then 1 else of_nat n)"

lemma to_u256_eq: "to_u256 n = of_nat n"
  by (simp add: to_u256_def)

definition get_account :: "bytes \<Rightarrow> (u64 \<times> u256 \<times> bytes \<times> bytes) option" where
  "get_account b =
     (case get_bytes (drop 40 b) of
        None \<Rightarrow> None
      | Some (root, rest) \<Rightarrow>
          (case get_bytes rest of
             None \<Rightarrow> None
           | Some (code, rest2) \<Rightarrow>
               let nonce = be64_read (take 8 b); bal = to_u256 (be_nat (take 32 (drop 8 b)))
               in if put_account nonce bal root code = b then Some (nonce, bal, root, code) else None))"

lemma be_nat_be_bytes_u256: "be_nat (be_bytes 32 (unat (x :: u256))) = unat x"
proof -
  have "unat x < 2 ^ 256" using unsigned_less [where 'a = nat, of x] by simp
  also have "(2 :: nat) ^ 256 = 256 ^ 32" by simp
  finally show ?thesis by (simp add: be_nat_be_bytes)
qed

lemma get_put_account: "get_account (put_account n b r c) = Some (n, b, r, c)"
proof -
  have parts: "drop 40 (put_account n b r c) = put_bytes r @ put_bytes c @ []"
    "take 8 (put_account n b r c) = be64 n" "take 32 (drop 8 (put_account n b r c)) = be_bytes 32 (unat b)"
    by (simp_all add: put_account_def)
  show ?thesis
    unfolding get_account_def parts get_put_bytes option.case prod.case
    by (simp add: be_nat_be_bytes_u256 to_u256_eq Let_def)
qed

lemma get_account_Some: "get_account b = Some (n, v, r, c) \<Longrightarrow> put_account n v r c = b"
  by (auto simp: get_account_def Let_def split: option.splits if_splits)

definition demo_enc_slim :: "slim_account \<Rightarrow> bytes option" where
  "demo_enc_slim s = map_option (\<lambda>b. put_account (slim_Nonce s) b (slim_Root s) (slim_CodeHash s)) (slim_Balance s)"

definition demo_dec_slim :: "bytes \<Rightarrow> slim_account option" where
  "demo_dec_slim b = map_option (\<lambda>(n, v, r, c).
     \<lparr>slim_Nonce = n, slim_Balance = Some v, slim_Root = r, slim_CodeHash = c\<rparr>) (get_account b)"

definition demo_enc_account :: "state_account \<Rightarrow> bytes option" where
  "demo_enc_account a = map_option (\<lambda>b. put_account (Nonce a) b (Root a) (CodeHash a)) (Balance a)"

definition demo_dec_account :: "bytes \<Rightarrow> state_account option" where
  "demo_dec_account b =
     (case get_account b of
        None \<Rightarrow> None
      | Some (n, v, r, c) \<Rightarrow>
          if length r = 32 then Some \<lparr>Nonce = n, Balance = Some v, Root = r, CodeHash = c\<rparr> else None)"

definition demo_header :: "nat \<Rightarrow> hash \<Rightarrow> header" where
  "demo_header n root = \<lparr>h_ParentHash = zero_hash, h_Root = root, h_Number = Some (int n), h_GasLimit = 0,
     h_Time = 0, h_TxHash = zero_hash, h_ReceiptHash = zero_hash, h_UncleHash = zero_hash, h_Extra = []\<rparr>"

text \<open>A header is eight bytes of its number and its state root.\<close>

definition demo_dec_header :: "bytes \<Rightarrow> header option" where
  "demo_dec_header b = (if length b = 40 then Some (demo_header (be_nat (take 8 b)) (drop 8 b)) else None)"

definition demo_enc_header :: "header \<Rightarrow> bytes option" where
  "demo_enc_header h = map_option (\<lambda>n. be_bytes 8 (nat n) @ h_Root h) (h_Number h)"

definition demo_Split :: "bytes \<Rightarrow> (rlp_kind \<times> bytes \<times> bytes) option" where
  "demo_Split b =
     (case b of
        [] \<Rightarrow> None
      | x # xs \<Rightarrow>
          if unat x < 128 then Some (RlpByte, [x], xs)
          else if unat x \<le> 183 \<and> unat x - 128 \<le> length xs
          then Some (RlpString, take (unat x - 128) xs, drop (unat x - 128) xs)
          else None)"

definition demo_enc_bytes :: "bytes \<Rightarrow> bytes option" where
  "demo_enc_bytes c =
     (if length c = 1 \<and> unat (c ! 0) < 128 then Some c
      else if length c \<le> 55 then Some (of_nat (128 + length c) # c) else None)"

definition demo_dec_bytes :: "bytes \<Rightarrow> bytes option" where
  "demo_dec_bytes b = (case demo_Split b of Some (k, c, []) \<Rightarrow> Some c | _ \<Rightarrow> None)"

definition demo_accepts :: "kv list \<Rightarrow> kv \<Rightarrow> bool" where
  "demo_accepts ts kv \<longleftrightarrow> is_hash (fst kv) \<and> snd kv \<noteq> [] \<and> (ts = [] \<or> fst (last ts) < fst kv)"

definition demo_root :: "kv list \<Rightarrow> hash" where
  "demo_root ts = (if ts = [] then demo_EmptyRoot else demo_hash (concat (map (\<lambda>(k, v). k @ v) ts)))"

definition demo_env :: geth_env where
  "demo_env = \<lparr>keccak256 = demo_hash, sha256 = demo_hash, EmptyRootHash = demo_EmptyRoot,
     EmptyCodeHash = demo_EmptyCode, rlp_enc_slim = demo_enc_slim, rlp_dec_slim = demo_dec_slim,
     rlp_enc_account = demo_enc_account, rlp_dec_account = demo_dec_account,
     rlp_enc_header = demo_enc_header, rlp_dec_header = demo_dec_header, rlp_Split = demo_Split,
     rlp_enc_bytes = demo_enc_bytes, rlp_dec_bytes = demo_dec_bytes,
     stack_accepts = demo_accepts,
     stack_emits = (\<lambda>ts kv. [(fst kv, demo_hash (snd kv), snd kv)]),
     stack_final = (\<lambda>ts. [([], demo_root ts, concat (map fst ts))]),
     stack_root = demo_root, zstd_encode = concat, zstd_decode = (\<lambda>b. (b, True))\<rparr>"

section \<open>The environment satisfies what is asked of it\<close>

lemma demo_digests: "digests_ok demo_env"
  by (simp add: digests_ok_def demo_env_def is_hash_def HashLength_def demo_hash_def
        demo_EmptyRoot_def demo_EmptyCode_def)

lemma demo_slim: "slim_rlp_ok demo_env"
  unfolding slim_rlp_ok_def demo_env_def geth_env.select_convs
proof (intro conjI allI impI)
  fix s :: slim_account
  assume "slim_Balance s \<noteq> None"
  then show "\<exists>b. demo_enc_slim s = Some b \<and> demo_dec_slim b = Some s"
    by (cases s) (auto simp: demo_enc_slim_def demo_dec_slim_def get_put_account)
next
  fix b s
  assume "demo_dec_slim b = Some s"
  then show "demo_enc_slim s = Some b"
    by (auto simp: demo_enc_slim_def demo_dec_slim_def dest: get_account_Some)
qed

lemma demo_account: "account_rlp_ok demo_env"
  unfolding account_rlp_ok_def demo_env_def geth_env.select_convs
proof (intro conjI allI impI)
  fix a :: state_account
  assume "Balance a \<noteq> None \<and> is_hash (Root a)"
  then show "\<exists>b. demo_enc_account a = Some b \<and> demo_dec_account b = Some a"
    by (cases a) (auto simp: demo_enc_account_def demo_dec_account_def get_put_account is_hash_def HashLength_def)
next
  fix b a
  assume d: "demo_dec_account b = Some a"
  then show "demo_enc_account a = Some b"
    by (auto simp: demo_enc_account_def demo_dec_account_def split: option.splits if_splits
          dest!: get_account_Some)
  from d show "is_hash (Root a)"
    by (auto simp: demo_dec_account_def is_hash_def HashLength_def split: option.splits if_splits)
qed

lemma demo_stack: "stack_ok demo_env"
  unfolding stack_ok_def demo_env_def geth_env.select_convs demo_accepts_def fst_conv snd_conv
  by (auto simp: demo_root_def intro: bspec [OF _ last_in_set, THEN conjunct2])

lemma demo_nonempty: "rlp_nonempty demo_env"
  by (auto simp: rlp_nonempty_def demo_env_def demo_Split_def demo_enc_account_def put_account_def)

lemma length_put_bytes: "length xs \<le> 32 \<Longrightarrow> length (put_bytes xs) \<le> 33"
  by (simp add: put_bytes_def)

lemma demo_sizes: "rlp_sizes_ok demo_env"
proof -
  have "length (put_account n b r c) < 2 ^ 32" if "length r \<le> 32" "length c \<le> 32" for n b r c
    using length_put_bytes [OF that(1)] length_put_bytes [OF that(2)] by (simp add: put_account_def)
  then show ?thesis
    unfolding rlp_sizes_ok_def demo_env_def geth_env.select_convs
    by (auto simp: demo_Split_def demo_enc_slim_def simp del: power_numeral split: list.splits if_splits)
qed

lemma demo_env_ok: "env_ok demo_env"
  by (simp add: env_ok_def geth_ok_def demo_digests demo_stack demo_nonempty demo_slim demo_account demo_sizes)

lemma demo_bytes: "bytes_rlp_ok demo_env"
  unfolding bytes_rlp_ok_def demo_env_def geth_env.select_convs
proof (intro conjI allI impI)
  fix c :: bytes
  assume len: "length c \<le> 32"
  show "\<exists>b k. demo_enc_bytes c = Some b \<and> b \<noteq> [] \<and> k \<noteq> RlpList \<and> demo_Split b = Some (k, c, [])"
  proof (cases "length c = 1 \<and> unat (c ! 0) < 128")
    case True
    then show ?thesis by (cases c) (auto simp: demo_enc_bytes_def demo_Split_def)
  next
    case False
    from len have "unat (of_nat (128 + length c) :: byte) = 128 + length c"
      by (subst unat_of_nat_byte) simp
    with False len show ?thesis by (auto simp: demo_enc_bytes_def demo_Split_def)
  qed
qed (auto simp: demo_dec_bytes_def)

lemma demo_zstd: "zstd_ok demo_env"
  by (simp add: zstd_ok_def demo_env_def)

section \<open>A small state\<close>

text \<open>
  Two accounts: one with two slots and a code, one that shares the code and has no storage. Their
  encodings and digests are written out, which keeps the evaluation of the witnesses cheap.
\<close>

definition demo_digest :: "byte \<Rightarrow> byte \<Rightarrow> hash" where
  "demo_digest x y = replicate 30 1 @ [x, y]"

definition demo_code :: bytes where "demo_code = [96, 0, 96, 0]"

definition demo_slots :: "kv list" where
  "demo_slots = [(replicate 32 5, [7]), (replicate 32 9, [130, 1, 2])]"

definition demo_leaf1 :: bytes where
  "demo_leaf1 = [0, 0, 0, 0, 0, 0, 0, 1] @ replicate 31 0 @ [1] @ 32 # demo_digest 68 2 @ 32 # demo_digest 4 0"

definition demo_leaf2 :: bytes where
  "demo_leaf2 = [0, 0, 0, 0, 0, 0, 0, 3] @ replicate 32 0 @ 32 # replicate 32 2 @ 32 # demo_digest 4 0"

definition demo_leaves :: "kv list" where
  "demo_leaves = [(replicate 32 11, demo_leaf1), (replicate 32 12, demo_leaf2)]"

definition demo_src :: state_source where
  "demo_src = \<lparr>src_accounts = Some (demo_leaves, False), src_storage = (\<lambda>h root. Some (demo_slots, False)),
     src_readCode = (\<lambda>h. if h = demo_digest 4 0 then Some demo_code else Some []),
     src_accountPolls = no_faults, src_storagePolls = (\<lambda>h. no_faults)\<rparr>"

definition demo_headerRLP :: bytes where
  "demo_headerRLP = [0, 0, 0, 0, 0, 0, 0, 17] @ demo_digest 20 0"

definition demo_head :: Head where
  "demo_head = \<lparr>BlockNumber = 17, BlockHash = demo_digest 40 0, StateRoot = demo_digest 20 0\<rparr>"

definition demo_db :: rawdb_view where
  "demo_db = \<lparr>rd_HeadBlockHash = demo_digest 40 0, rd_HeaderNumber = (\<lambda>h. Some 17),
     rd_CanonicalHash = (\<lambda>n. demo_digest 40 0), rd_HeaderRLP = (\<lambda>h n. demo_headerRLP)\<rparr>"

lemma demo_src_sized: "src_sized demo_src"
  by (simp add: src_sized_def demo_src_def go_slice_def demo_code_def demo_leaves_def)

lemma demo_readLegacyHead: "readLegacyHead demo_env demo_db = Inr (demo_head, demo_headerRLP)"
  by code_simp

end
