(* ===== verification/Witnesses.thy ===== *)
theory Witnesses
  imports Demo
begin

text \<open>
  Concrete runs on the environment of theory \<open>Demo\<close>: an export, the bundle it leaves, and its scan.
  They apply the properties of the bundle components where their hypotheses hold.
\<close>

section \<open>The exported bundle\<close>

definition demo_image :: "acct list" where
  "demo_image = [
     \<lparr>ac_hash = replicate 32 11, ac_slim = demo_leaf1, ac_slots = demo_slots, ac_code = Some demo_code\<rparr>,
     \<lparr>ac_hash = replicate 32 12,
      ac_slim = [0, 0, 0, 0, 0, 0, 0, 3] @ replicate 32 0 @ [0] @ 32 # demo_digest 4 0,
      ac_slots = [], ac_code = None\<rparr>]"

definition demo_records :: "Record list" where
  "demo_records = image_records demo_env demo_image"

definition demo_stream :: bytes where
  "demo_stream = streamMagic @ concat (map record_bytes demo_records) @ [recordEnd]"

definition demo_counts :: Counts where
  "demo_counts = \<lparr>Accounts = 2, StorageSlots = 2, CodeReferences = 2, CodeRecords = 1, Records = 5, PayloadBytes = 220\<rparr>"

definition demo_manifest :: Manifest where
  "demo_manifest = NewManifest 1 ''dev'' ''v1.17.6''
     \<lparr>HeadBefore = demo_head, HeadAfter = demo_head, HeaderRLP = demo_headerRLP\<rparr> demo_counts
     \<lparr>Name = RecordsFileRaw, Compression = CompressionNone, Size = 466, RecordPayloadBytes = 188,
      SHA256 = demo_digest 210 0, RecordChainHash = demo_digest 147 0\<rparr>"

definition demo_file :: "nat \<Rightarrow> string \<Rightarrow> bytes \<Rightarrow> dir_entry" where
  "demo_file n name content =
     (let info = \<lparr>fi_kind = KRegular, fi_id = n, fi_size = int (length content)\<rparr>
      in \<lparr>de_name = name, de_lstat = Some info, de_stat = Some info, de_data = Some content, de_closeErr = False\<rparr>)"

definition demo_dir :: dir_root where
  "demo_dir =
     (let es = [demo_file 1 ManifestFileName [123, 125], demo_file 2 RecordsFileRaw demo_stream]
      in \<lparr>dr_inventory = Some es, dr_files = es, dr_closeErr = False\<rparr>)"

definition demo_json :: "bytes \<Rightarrow> Manifest option" where
  "demo_json data = (if data = [123, 125] then Some demo_manifest else None)"

definition demo_world :: export_world where
  "demo_world = \<lparr>ew_poll1 = False, ew_poll2 = False, ew_dbAfter = demo_db, ew_closeErr = False, ew_now = 1,
     ew_toolVersion = ''dev'', ew_gethVersion = ''v1.17.6'', ew_writeErr = False, ew_syncErr = False,
     ew_reopened = Inr demo_dir\<rparr>"

definition demo_export :: "(export_error, Manifest \<times> WriterResult \<times> writer) result" where
  "demo_export = export_bundle demo_env demo_json demo_db demo_src ''none'' no_faults no_faults demo_world"

lemma demo_export_run:
  "case demo_export of Inl _ \<Rightarrow> False
   | Inr (m, res, w) \<Rightarrow> m = demo_manifest \<and> wr_Compression res = CompressionNone \<and> concat (w_writes w) = demo_stream"
  by code_simp

lemma isOk_projr: "isOk r \<Longrightarrow> r = Inr (projr r)"
  by (cases r) simp_all

lemma demo_exported:
  "\<exists>res w. demo_export = Inr (demo_manifest, res, w) \<and> wr_Compression res = CompressionNone \<and>
     concat (w_writes w) = demo_stream"
  using demo_export_run by (auto split: sum.splits)

lemma demo_holds: "holds_stream demo_dir demo_manifest demo_stream"
  by (simp add: holds_stream_def RequireExactLayout_def demo_dir_def bundle_layout_def demo_manifest_def
        NewManifest_def requireKind_def plain_name_def find_entry_def demo_file_def Let_def OpenRegular_def
        manifest_names filepath_Base_def)

theorem export_scan_roundtrip_witness:
  "\<exists>result. scanBundle demo_env demo_json (Some no_faults) (Inr demo_dir) (Inr demo_dir) (Inr demo_dir)
       (None :: (nat, unit) StateVisitor option) None () = Inr (result, ()) \<and>
     br_Manifest result = demo_manifest \<and>
     br_State result = \<lparr>st_Root = StateRoot demo_head, st_Counts = m_Counts demo_manifest\<rparr>"
proof -
  from demo_exported obtain res w where
    e: "demo_export = Inr (demo_manifest, res, w)" "wr_Compression res = CompressionNone"
      "concat (w_writes w) = demo_stream" by blast
  then have "stream_file demo_env (wr_Compression res) (w_writes w) = demo_stream"
    by (simp add: stream_file_def)
  with e demo_holds show ?thesis
    using export_scan_roundtrip [OF demo_env_ok demo_zstd demo_src_sized demo_readLegacyHead, of demo_json
        "''none''" no_faults no_faults demo_world demo_manifest res w demo_dir]
    by (simp add: demo_export_def demo_world_def)
qed

theorem export_counts_agree_witness:
  "demo_export \<noteq> Inl ExportCounts"
  unfolding demo_export_def by (rule export_counts_agree [OF demo_env_ok demo_src_sized])

section \<open>The traversal\<close>

definition demo_run :: "(nat trav_error, StateResult \<times> unit) result" where
  "demo_run = traverser_run demo_env demo_src (newStateTraverser no_faults (demo_digest 20 0) None None ())"

lemma demo_run_ok: "isOk demo_run"
  by code_simp

theorem traverse_sound_witness:
  "\<exists>as. map (leaf demo_env) as = demo_leaves \<and> image_ok demo_env as \<and> image_root demo_env as = demo_digest 20 0 \<and>
     fst (projr demo_run) = \<lparr>st_Root = demo_digest 20 0, st_Counts = image_counts demo_env as\<rparr>"
proof -
  have "traverser_run demo_env demo_src
      (newStateTraverser no_faults (demo_digest 20 0) None None () :: (nat, unit) stateTraverser) =
      Inr (fst (projr demo_run), snd (projr demo_run))"
    using isOk_projr [OF demo_run_ok] unfolding demo_run_def prod.collapse .
  from traverse_sound [OF this demo_env_ok demo_src_sized] show ?thesis
    by (auto simp: demo_src_def)
qed

section \<open>A compressed stream\<close>

definition small_record :: Record where
  "small_record = \<lparr>Type = RecordAccount, AccountHash = replicate 32 11, SubHash = zero_hash, Payload = [7, 8]\<rparr>"

definition small_ops :: "write_op list" where
  "small_ops = [OpAccount (replicate 32 11) [7, 8] 5]"

definition small_w0 :: writer where
  "small_w0 = projr (NewWriter demo_env (Some no_faults) CompressionZstd demo_head demo_headerRLP)"

definition small_w1 :: writer where
  "small_w1 = snd (run_ops demo_env small_ops small_w0)"

definition small_stream :: bytes where
  "small_stream = streamMagic @ record_bytes small_record @ [recordEnd]"

definition small_manifest :: Manifest where
  "small_manifest = NewManifest 1 ''dev'' ''v1.17.6''
     \<lparr>HeadBefore = demo_head, HeadAfter = demo_head, HeaderRLP = demo_headerRLP\<rparr>
     \<lparr>Accounts = 1, StorageSlots = 0, CodeReferences = 0, CodeRecords = 0, Records = 1, PayloadBytes = 5\<rparr>
     \<lparr>Name = RecordsFileZstd, Compression = CompressionZstd, Size = 52, RecordPayloadBytes = 2,
      SHA256 = demo_digest 52 0, RecordChainHash = demo_digest 75 8\<rparr>"

definition small_dir :: dir_root where
  "small_dir =
     (let es = [demo_file 1 ManifestFileName [123, 125], demo_file 2 RecordsFileZstd small_stream]
      in \<lparr>dr_inventory = Some es, dr_files = es, dr_closeErr = False\<rparr>)"

lemma small_new: "NewWriter demo_env (Some no_faults) CompressionZstd demo_head demo_headerRLP = Inr small_w0"
  unfolding small_w0_def by (rule isOk_projr) code_simp

lemma small_ops_run: "run_ops demo_env small_ops small_w0 = (None, small_w1)"
proof -
  have "fst (run_ops demo_env small_ops small_w0) = None" by code_simp
  then show ?thesis by (simp add: small_w1_def prod_eq_iff)
qed

lemma small_closed:
  "case Writer_Close demo_env small_w1 of (Inl _, _) \<Rightarrow> False
   | (Inr res, w2) \<Rightarrow> writer_StateFile res = m_StateFile small_manifest \<and> wr_Counts res = m_Counts small_manifest \<and>
       concat (w_writes w2) = small_stream"
  by code_simp

lemma small_valid: "Manifest_Validate demo_env small_manifest = Inr ()"
  by code_simp

lemma small_holds: "holds_stream small_dir small_manifest small_stream"
  by (simp add: holds_stream_def RequireExactLayout_def small_dir_def bundle_layout_def small_manifest_def
        NewManifest_def requireKind_def plain_name_def find_entry_def demo_file_def Let_def OpenRegular_def
        manifest_names filepath_Base_def)

text \<open>A consumer that collects what it is given.\<close>

definition collect_record :: "Record \<Rightarrow> Record list \<Rightarrow> (nat, Record list) result" where
  "collect_record r rs = Inr (rs @ [r])"

theorem record_stream_roundtrip_witness:
  "scanRecords demo_env (Some no_faults) (Inr small_dir) small_manifest collect_record [] =
     Inr (certified_result small_manifest, [small_record])"
proof -
  from small_closed obtain res w2 where c: "Writer_Close demo_env small_w1 = (Inr res, w2)"
    "writer_StateFile res = m_StateFile small_manifest" "wr_Counts res = m_Counts small_manifest"
    "concat (w_writes w2) = small_stream" by (auto split: prod.splits sum.splits)
  have wf: "list_all op_wf small_ops" by (simp add: small_ops_def is_hash_def HashLength_def go_slice_def)
  have d: "manifest_describes small_manifest demo_head demo_headerRLP res"
    using c by (simp add: manifest_describes_def small_manifest_def NewManifest_def)
  have h: "holds_stream small_dir small_manifest (stream_file demo_env CompressionZstd (w_writes w2))"
    using c(4) small_holds by (simp add: stream_file_def demo_env_def)
  have k: "consume_all collect_record (op_records small_ops) [] = Inr [small_record]"
    by (simp add: op_records_def small_ops_def collect_record_def small_record_def)
  show ?thesis
    by (rule record_stream_roundtrip [OF small_new small_ops_run wf c(1) demo_zstd d small_valid h k])
qed

text \<open>The same scan, established without the round trip.\<close>

lemma small_scan:
  "scanRecords demo_env (Some no_faults) (Inr small_dir) small_manifest collect_record [] =
     Inr (certified_result small_manifest, [small_record])"
proof -
  let ?e = "demo_file 2 RecordsFileZstd small_stream"
  let ?i = "\<lparr>fi_kind = KRegular, fi_id = 2, fi_size = 52\<rparr>"
  have size: "length small_stream = 52" by code_simp
  have lay: "RequireExactLayout small_dir (bundle_layout small_manifest) = Inr ()"
    using small_holds by (simp add: holds_stream_def)
  have op: "OpenRegular small_dir (Name (m_StateFile small_manifest)) = Inr (?e, ?i)"
    using size
    by (simp add: OpenRegular_def small_dir_def small_manifest_def NewManifest_def plain_name_def find_entry_def
          demo_file_def Let_def manifest_names filepath_Base_def)
  have fs: "fi_size ?i = Size (m_StateFile small_manifest)" by (simp add: small_manifest_def NewManifest_def)
  have cert: "stream_certified demo_env small_manifest ?e [small_record]" by code_simp
  show ?thesis
    by (rule scanRecords_ok [OF small_valid lay op fs cert]) (simp add: collect_record_def)
qed

theorem scanRecords_sound_witness:
  "\<exists>e info rs. OpenRegular small_dir RecordsFileZstd = Inr (e, info) \<and>
     stream_certified demo_env small_manifest e rs \<and> consume_all collect_record rs [] = Inr [small_record]"
  using scanRecords_sound [OF small_scan]
  by (auto simp: small_manifest_def NewManifest_def)

section \<open>The consumer\<close>

lemma demo_image_ok: "image_ok demo_env demo_image"
proof -
  have "list_all (\<lambda>i. part_ok demo_env (known_codes demo_env (take i demo_image)) (demo_image ! i) \<and>
      close_ok demo_env (known_codes demo_env (take i demo_image)) (demo_image ! i)) [0, 1]"
    by code_simp
  moreover have "ascending (map (leaf demo_env) demo_image)" by code_simp
  ultimately show ?thesis
    by (auto simp: image_ok_def demo_image_def less_Suc_eq numeral_2_eq_2)
qed

lemma demo_image_facts:
  "geth_ok demo_env" "list_all hashes_ok demo_image" "length demo_image < 2 ^ 64" "length demo_records < 2 ^ 64"
  using demo_env_ok
  by (simp_all add: env_ok_def demo_image_def hashes_ok_def is_hash_def HashLength_def demo_slots_def
        demo_records_def image_records_def acct_records_def)

lemma demo_records_ok: "list_all record_ok demo_records"
  by code_simp

theorem consumer_sound_witness:
  "\<exists>as. demo_records = image_records demo_env as \<and> image_ok demo_env as \<and>
     image_root demo_env as = image_root demo_env demo_image \<and>
     image_counts demo_env as = image_counts demo_env demo_image"
proof -
  from consumer_accepts_image [OF demo_image_facts(1) demo_image_ok demo_image_facts(2,3), of "()"] obtain c c' where
    c: "consume_all (consume demo_env) demo_records (newRecordConsumer (image_root demo_env demo_image) None None ()) =
        (Inr c :: (nat consumer_error, (nat, unit) consumer) result)"
      "consumer_finish demo_env c =
        Inr (\<lparr>st_Root = image_root demo_env demo_image, st_Counts = image_counts demo_env demo_image\<rparr>, c')"
    unfolding demo_records_def by blast
  from consumer_sound [OF c demo_records_ok demo_image_facts(4)] show ?thesis by auto
qed

theorem consumer_complete_witness:
  "\<exists>c c'. consume_all (consume demo_env) (image_records demo_env demo_image)
       (newRecordConsumer (image_root demo_env demo_image) None None () :: (nat, unit) consumer) = Inr c \<and>
     consumer_finish demo_env c =
       Inr (\<lparr>st_Root = image_root demo_env demo_image, st_Counts = image_counts demo_env demo_image\<rparr>, c')"
  by (rule consumer_complete [OF demo_image_facts(1) demo_image_ok demo_image_facts(2,3)])

text \<open>The scan of the exported bundle.\<close>

lemma demo_scan:
  "\<exists>result. scanBundle demo_env demo_json (Some no_faults) (Inr demo_dir) (Inr demo_dir) (Inr demo_dir)
       (None :: ('e, unit) StateVisitor option) None () = Inr (result, ()) \<and> br_Manifest result = demo_manifest"
proof -
  from demo_exported obtain res w where
    e: "demo_export = Inr (demo_manifest, res, w)" "wr_Compression res = CompressionNone"
      "concat (w_writes w) = demo_stream" by blast
  then have "stream_file demo_env (wr_Compression res) (w_writes w) = demo_stream"
    by (simp add: stream_file_def)
  with e demo_holds show ?thesis
    using exported_bundle_scans [OF demo_env_ok demo_zstd demo_src_sized demo_readLegacyHead, of demo_json
        "''none''" no_faults no_faults demo_world demo_manifest res w demo_dir]
    by (auto simp: demo_export_def demo_world_def)
qed

theorem scanBundle_sound_witness:
  "\<exists>as. image_ok demo_env as \<and> image_root demo_env as = StateRoot demo_head \<and> image_counts demo_env as = demo_counts"
proof -
  from demo_scan obtain result where
    s: "scanBundle demo_env demo_json (Some no_faults) (Inr demo_dir) (Inr demo_dir) (Inr demo_dir)
       (None :: (nat, unit) StateVisitor option) None () = Inr (result, ())" and m: "br_Manifest result = demo_manifest"
    by blast
  have size: "length demo_stream = 466" by code_simp
  have b: "stream_bounded demo_env (br_Manifest result) (Inr demo_dir)"
    unfolding m
    by (auto simp: stream_bounded_def stream_of_def uses_zstd_def demo_manifest_def NewManifest_def OpenRegular_def
          demo_dir_def find_entry_def demo_file_def manifest_names Let_def size split: if_splits)
  from scanBundle_sound [OF s b] m show ?thesis
    by (auto simp: Let_def demo_manifest_def NewManifest_def)
qed

section \<open>Accounts and evidence\<close>

definition demo_account1 :: state_account where
  "demo_account1 = \<lparr>Nonce = 1, Balance = Some 1, Root = demo_EmptyRoot, CodeHash = demo_EmptyCode\<rparr>"

theorem account_roundtrip_witness:
  "\<exists>d full. EncodeAccount demo_env (Some demo_account1) = Inr d \<and>
     rlp_enc_account demo_env demo_account1 = Some full \<and> DecodeAccount demo_env d = Inr (demo_account1, full)"
  by (rule account_roundtrip [OF demo_digests demo_slim demo_account])
     (simp add: account_wf_def demo_account1_def is_hash_def HashLength_def demo_EmptyRoot_def demo_EmptyCode_def)

end
