(* ===== verification/GoStd.thy ===== *)
theory GoStd
  imports Prelude
begin

text \<open>
  The functions of Go's standard library that the program calls on strings: cutting prefixes and
  suffixes, \<^verbatim>\<open>strconv.ParseInt\<close> in base ten at 64 bits, \<^verbatim>\<open>hex.DecodeString\<close> and
  \<^verbatim>\<open>netip.ParseAddr\<close>, the last two reduced to whether they succeed.
\<close>

section \<open>Strings\<close>

text \<open>The conversion \<^verbatim>\<open>string(b)\<close> of a byte slice.\<close>

definition go_string :: "bytes \<Rightarrow> string" where
  "go_string bs = map (\<lambda>b. char_of (unat b)) bs"

definition strings_CutPrefix :: "string \<Rightarrow> string \<Rightarrow> string \<times> bool" where
  "strings_CutPrefix s p = (if take (length p) s = p then (drop (length p) s, True) else (s, False))"

definition strings_CutSuffix :: "string \<Rightarrow> string \<Rightarrow> string \<times> bool" where
  "strings_CutSuffix s p =
     (let n = length s - length p
      in if length p \<le> length s \<and> drop n s = p then (take n s, True) else (s, False))"

lemma CutPrefix_append [simp]: "strings_CutPrefix (p @ s) p = (s, True)"
  by (simp add: strings_CutPrefix_def)

lemma CutSuffix_append [simp]: "strings_CutSuffix (s @ p) p = (s, True)"
  by (simp add: strings_CutSuffix_def)

lemma CutPrefix_True: "strings_CutPrefix s p = (t, True) \<longleftrightarrow> s = p @ t"
  by (auto simp: strings_CutPrefix_def split: if_splits) (metis append_take_drop_id)

lemma CutSuffix_True: "strings_CutSuffix s p = (t, True) \<longleftrightarrow> s = t @ p"
  by (auto simp: strings_CutSuffix_def Let_def split: if_splits) (metis append_take_drop_id)

section \<open>Decimal integers\<close>

definition is_digit :: "char \<Rightarrow> bool" where
  "is_digit c \<longleftrightarrow> 48 \<le> (of_char c :: nat) \<and> (of_char c :: nat) \<le> 57"

definition digit_val :: "char \<Rightarrow> nat" where
  "digit_val c = of_char c - 48"

fun digits_val :: "nat \<Rightarrow> string \<Rightarrow> nat" where
  "digits_val acc [] = acc"
| "digits_val acc (c # cs) = digits_val (acc * 10 + digit_val c) cs"

text \<open>\<^verbatim>\<open>strconv.ParseInt(s, 10, 64)\<close>: an optional sign, digits, and the range of an int64.\<close>

definition ParseInt :: "string \<Rightarrow> int option" where
  "ParseInt s =
     (let (neg, ds) = (case s of [] \<Rightarrow> (False, [])
                       | c # cs \<Rightarrow> if c = CHR ''+'' then (False, cs)
                                   else if c = CHR ''-'' then (True, cs) else (False, s));
          un = digits_val 0 ds
      in if ds = [] \<or> \<not> list_all is_digit ds then None
         else if neg then (if un > 2 ^ 63 then None else Some (- int un))
         else if un \<ge> 2 ^ 63 then None else Some (int un))"

text \<open>A number in decimal, padded with zeros to a width (\<^verbatim>\<open>%0*d\<close> of a non-negative number).\<close>

fun decimal :: "nat \<Rightarrow> string" where
  "decimal n = (if n < 10 then [char_of (48 + n)] else decimal (n div 10) @ [char_of (48 + n mod 10)])"

declare decimal.simps [simp del]

definition pad_decimal :: "nat \<Rightarrow> nat \<Rightarrow> string" where
  "pad_decimal w n = replicate (w - length (decimal n)) (CHR ''0'') @ decimal n"

lemma of_char_digit: "(d :: nat) < 10 \<Longrightarrow> (of_char (char_of (48 + d) :: char) :: nat) = 48 + d"
  by (simp add: of_char_of)

lemma is_digit_char_of [simp]: "(d :: nat) < 10 \<Longrightarrow> is_digit (char_of (48 + d))"
  by (simp add: is_digit_def of_char_digit)

lemma digit_val_char_of [simp]: "(d :: nat) < 10 \<Longrightarrow> digit_val (char_of (48 + d)) = d"
  by (simp add: digit_val_def of_char_digit)

lemma digits_val_append: "digits_val acc (xs @ ys) = digits_val (digits_val acc xs) ys"
  by (induction xs arbitrary: acc) auto

lemma digits_val_zeros: "digits_val 0 (replicate n (CHR ''0'') @ s) = digits_val 0 s"
  by (induction n) (auto simp: digit_val_def)

lemma decimal_digits: "list_all is_digit (decimal n) \<and> decimal n \<noteq> []"
proof (induction n rule: decimal.induct)
  case (1 n)
  then show ?case by (subst (1 2) decimal.simps) auto
qed

lemma digits_val_decimal [simp]: "digits_val 0 (decimal n) = n"
proof (induction n rule: decimal.induct)
  case (1 n)
  show ?case
  proof (cases "n < 10")
    case True
    then show ?thesis by (subst decimal.simps) simp
  next
    case False
    with 1 have "digits_val 0 (decimal (n div 10)) = n div 10" by simp
    with False show ?thesis by (subst decimal.simps) (simp add: digits_val_append)
  qed
qed

lemma pad_decimal_digits: "list_all is_digit (pad_decimal w n) \<and> pad_decimal w n \<noteq> []"
  using decimal_digits [of n] by (auto simp: pad_decimal_def list_all_iff is_digit_def)

lemma digits_val_pad [simp]: "digits_val 0 (pad_decimal w n) = n"
  by (simp add: pad_decimal_def digits_val_zeros)

lemma is_digit_not_sign: "is_digit c \<Longrightarrow> c \<noteq> CHR ''+'' \<and> c \<noteq> CHR ''-''"
  by (auto simp: is_digit_def)

lemma ParseInt_digits:
  assumes "list_all is_digit ds" and "ds \<noteq> []"
  shows "ParseInt ds = (if digits_val 0 ds < 2 ^ 63 then Some (int (digits_val 0 ds)) else None)"
proof -
  from assms obtain c cs where ds: "ds = c # cs" and c: "is_digit c" by (cases ds) auto
  have "c \<noteq> CHR ''+''" "c \<noteq> CHR ''-''" using is_digit_not_sign [OF c] by auto
  with ds assms show ?thesis by (simp add: ParseInt_def)
qed

lemma ParseInt_pad: "n < 2 ^ 63 \<Longrightarrow> ParseInt (pad_decimal w n) = Some (int n)"
  using ParseInt_digits [of "pad_decimal w n"] pad_decimal_digits [of w n] by simp

section \<open>Hexadecimal\<close>

definition is_hex_digit :: "char \<Rightarrow> bool" where
  "is_hex_digit c \<longleftrightarrow> (let n = (of_char c :: nat) in
     (48 \<le> n \<and> n \<le> 57) \<or> (97 \<le> n \<and> n \<le> 102) \<or> (65 \<le> n \<and> n \<le> 70))"

text \<open>Whether \<^verbatim>\<open>hex.DecodeString\<close> succeeds.\<close>

definition hex_DecodeString :: "string \<Rightarrow> bool" where
  "hex_DecodeString s \<longleftrightarrow> even (length s) \<and> list_all is_hex_digit s"

section \<open>Internet addresses\<close>

text \<open>
  \<^verbatim>\<open>parseIPv4Fields\<close>: the loop over the characters, with the value and the number of digits of
  the current field, the number of complete fields, and whether the previous character was a dot
  or there was none.
\<close>

fun parseIPv4_loop :: "nat \<Rightarrow> nat \<Rightarrow> nat \<Rightarrow> bool \<Rightarrow> string \<Rightarrow> bool" where
  "parseIPv4_loop val digLen pos atDot [] = (pos = 3)"
| "parseIPv4_loop val digLen pos atDot (c # cs) =
     (if is_digit c then
        (if digLen = 1 \<and> val = 0 then False
         else let val' = val * 10 + digit_val c
              in if val' > 255 then False else parseIPv4_loop val' (digLen + 1) pos False cs)
      else if c = CHR ''.'' then
        (if atDot \<or> cs = [] then False
         else if pos = 3 then False
         else parseIPv4_loop 0 0 (pos + 1) True cs)
      else False)"

definition parseIPv4Fields :: "string \<Rightarrow> bool" where
  "parseIPv4Fields s = parseIPv4_loop 0 0 0 True s"

text \<open>
  \<^verbatim>\<open>parseIPv6\<close>: the loop over the groups of hexadecimal digits; \<open>i\<close> is the number of address
  bytes so far, \<open>ell\<close> whether an ellipsis was seen. A group of at most four digits never exceeds
  16 bits. The result is the final \<open>i\<close>, \<open>ell\<close> and the unread rest.
\<close>

fun parseIPv6_loop :: "nat \<Rightarrow> nat \<Rightarrow> bool \<Rightarrow> string \<Rightarrow> (nat \<times> bool \<times> string) option" where
  "parseIPv6_loop 0 i ell s = Some (i, ell, s)"
| "parseIPv6_loop (Suc groups) i ell s =
     (let hex = takeWhile is_hex_digit s; rest = dropWhile is_hex_digit s in
      if length hex = 0 \<or> length hex > 4 then None
      else case rest of
        [] \<Rightarrow> Some (i + 2, ell, [])
      | c # more \<Rightarrow>
          if c = CHR ''.'' then
            (if \<not> ell \<and> i \<noteq> 12 then None
             else if i + 4 > 16 then None
             else if parseIPv4Fields s then Some (i + 4, ell, []) else None)
          else if c \<noteq> CHR '':'' then None
          else (case more of
            [] \<Rightarrow> None
          | d # more2 \<Rightarrow>
              if d = CHR '':'' then
                (if ell then None
                 else if more2 = [] then Some (i + 2, True, [])
                 else parseIPv6_loop groups (i + 2) True more2)
              else parseIPv6_loop groups (i + 2) ell more))"

definition parseIPv6 :: "string \<Rightarrow> bool" where
  "parseIPv6 addr =
     (let s0 = takeWhile (\<lambda>c. c \<noteq> CHR ''%'') addr; zone = dropWhile (\<lambda>c. c \<noteq> CHR ''%'') addr in
      if length zone = 1 then False
      else
        let lead = (take 2 s0 = ''::''); s = (if lead then drop 2 s0 else s0) in
        if lead \<and> s = [] then True
        else case parseIPv6_loop 8 0 lead s of
          None \<Rightarrow> False
        | Some (i, ell, rest) \<Rightarrow> rest = [] \<and> (if i < 16 then ell else \<not> ell))"

text \<open>Whether \<^verbatim>\<open>netip.ParseAddr\<close> succeeds; the first dot, colon or percent sign decides.\<close>

fun ParseAddr_kind :: "string \<Rightarrow> char option" where
  "ParseAddr_kind [] = None"
| "ParseAddr_kind (c # cs) =
     (if c = CHR ''.'' \<or> c = CHR '':'' \<or> c = CHR ''%'' then Some c else ParseAddr_kind cs)"

definition ParseAddr :: "string \<Rightarrow> bool" where
  "ParseAddr s =
     (case ParseAddr_kind s of
        None \<Rightarrow> False
      | Some c \<Rightarrow> if c = CHR ''.'' then parseIPv4Fields s
                  else if c = CHR '':'' then parseIPv6 s else False)"

end
