(* ===== verification/PruneScan.thy ===== *)
theory PruneScan
  imports Geth GoStd Framing HashSet
begin

text \<open>
  Classification of database records by prune (\<^verbatim>\<open>prune_scan.go\<close>, first half of
  \<^verbatim>\<open>prune_pipeline.go\<close>): the foreign formats that are refused, the role of a record, and the
  cursor that merges the ordered source with the ordered keep set. The reference definition
  \<open>role_of\<close> looks the key up instead; the merge is shown to agree with it.
\<close>

section \<open>Definitions\<close>

record PruneKVCount =
  Keys :: u64
  Bytes :: u64

definition zeroKV :: PruneKVCount where
  "zeroKV = \<lparr>Keys = 0, Bytes = 0\<rparr>"

definition PruneKVCount_add :: "bytes \<Rightarrow> bytes \<Rightarrow> PruneKVCount \<Rightarrow> PruneKVCount" where
  "PruneKVCount_add key val c =
     c\<lparr>Keys := Keys c + 1, Bytes := Bytes c + of_nat (length key + length val)\<rparr>"

datatype prune_role =
    pruneUnclassified
  | pruneProtect
  | pruneRetainState
  | pruneDelete
  | pruneUnknown

datatype prune_error =
    PruneCanceled
  | PruneKeepMissing bytes
  | PruneKeepDiffers bytes
  | PruneLES bytes
  | PrunePrefixedCode bytes
  | PrunePathData bytes
  | PruneKeepCursor
  | PruneKeepRead
  | PruneSourceRead
  | PruneBlocked
  | PruneWriteFailed
  | PruneHashMismatch bytes
  | PruneRemaining u64
  | PruneInventoryChanged

text \<open>What is used of the key layout of \<^verbatim>\<open>rawdb\<close>, which is not part of the repository.\<close>

record rawdb_keys =
  ResolveAccountTrieNodeKey :: "bytes \<Rightarrow> bool \<times> bytes"
  ResolveStorageTrieNode :: "bytes \<Rightarrow> bool \<times> hash \<times> bytes"
  SnapshotRootKey :: bytes

definition isPruneLESBalanceKey :: "bytes \<Rightarrow> bool" where
  "isPruneLESBalanceKey key =
     (if length key < 5 \<or> key ! 0 \<noteq> 0 \<or> key ! 1 > 1 then False
      else
        let tag = go_string (take 3 (drop 2 key)) in
        if tag = ''pb:'' then length key = 5 + HashLength
        else if tag = ''nb:'' then
          (let ident = go_string (drop 5 key) in
           if ParseAddr ident then True
           else if length ident = 2 * HashLength then hex_DecodeString ident
           else False)
        else False)"

definition isPrunePathKey :: "rawdb_keys \<Rightarrow> bytes \<Rightarrow> bool" where
  "isPrunePathKey lib key =
     (case ResolveAccountTrieNodeKey lib key of
        (True, path) \<Rightarrow> list_all (\<lambda>nibble. nibble \<le> 15) path
      | (False, _) \<Rightarrow>
          (case ResolveStorageTrieNode lib key of
             (False, _) \<Rightarrow> False
           | (True, _, path) \<Rightarrow> list_all (\<lambda>nibble. nibble \<le> 15) path))"

definition les_prefixes :: "string list" where
  "les_prefixes = [''cumulativeTime:'', ''_globalCostFactor'', ''chtIndexV2-'', ''bltIndex-'',
     ''cht-'', ''blt-'', ''chtRootV2-'', ''bltRoot-'']"

definition rejectPruneForeignKey ::
  "geth_env \<Rightarrow> rawdb_keys \<Rightarrow> bytes \<Rightarrow> bytes \<Rightarrow> prune_error option" where
  "rejectPruneForeignKey env lib key val =
     (if isPruneLESBalanceKey key then Some (PruneLES key)
      else if \<exists>p \<in> set les_prefixes. take (length p) (go_string key) = p then Some (PruneLES key)
      else if length key = 33 \<and> key ! 0 = of_char (CHR ''c'') \<and> keccak256 env val = drop 1 key
      then Some (PrunePrefixedCode key)
      else if isPrunePathKey lib key \<or> key = SnapshotRootKey lib then Some (PrunePathData key)
      else None)"

text \<open>\<^verbatim>\<open>common.BytesToHash\<close>: the last 32 bytes, padded with zeros on the left.\<close>

definition BytesToHash :: "bytes \<Rightarrow> hash" where
  "BytesToHash b =
     (let t = drop (length b - HashLength) b in replicate (HashLength - length t) 0 @ t)"

text \<open>
  \<^verbatim>\<open>classifyPruneRecord\<close>: \<open>canceled\<close> is what the poll of the context answers; the result is the
  error and the role the record has afterwards.
\<close>

definition classifyPruneRecord ::
  "geth_env \<Rightarrow> rawdb_keys \<Rightarrow> bool \<Rightarrow> bytes \<Rightarrow> bytes \<Rightarrow> prune_role \<Rightarrow> prune_error option \<times> prune_role" where
  "classifyPruneRecord env lib canceled key val role =
     (if canceled then (Some PruneCanceled, role)
      else
        let role' = (if role = pruneUnclassified then
                       (if keccak256 env val = BytesToHash key then pruneDelete else pruneUnknown)
                     else role)
        in if role' \<noteq> pruneDelete \<and> role' \<noteq> pruneRetainState
           then (rejectPruneForeignKey env lib key val, role')
           else (None, role'))"

definition comparePruneValue :: "bytes \<Rightarrow> bytes \<Rightarrow> bytes \<Rightarrow> prune_error option" where
  "comparePruneValue key a b = (if a \<noteq> b then Some (PruneKeepDiffers key) else None)"

text \<open>
  An ordered iterator: the entries still ahead of it and whether it reports an error at the end.
  The cursor holds the current entry of the keep iterator while it is valid.
\<close>

record pruneMergeCursor =
  mc_current :: "kv option"
  mc_rest :: "kv list"
  mc_fail :: bool

definition cursor_advance :: "pruneMergeCursor \<Rightarrow> prune_error option \<times> pruneMergeCursor" where
  "cursor_advance m =
     (case mc_rest m of
        kv # rest \<Rightarrow> (None, m\<lparr>mc_current := Some kv, mc_rest := rest\<rparr>)
      | [] \<Rightarrow> (if mc_fail m then Some PruneKeepRead else None, m\<lparr>mc_current := None\<rparr>))"

definition unmatched_role :: "bytes \<Rightarrow> prune_role" where
  "unmatched_role key = (if length key = HashLength then pruneUnclassified else pruneProtect)"

definition cursor_role ::
  "bytes \<Rightarrow> bytes \<Rightarrow> pruneMergeCursor \<Rightarrow> (prune_error, prune_role) result \<times> pruneMergeCursor" where
  "cursor_role key val m =
     (case mc_current m of
        None \<Rightarrow> (Inr (unmatched_role key), m)
      | Some (keepKey, keepValue) \<Rightarrow>
          let order = bytes_Compare key keepKey in
          if order > 0 then (Inl (PruneKeepMissing keepKey), m)
          else if order = 0 then
            (case comparePruneValue key keepValue val of
               Some e \<Rightarrow> (Inl e, m)
             | None \<Rightarrow>
                 (case cursor_advance m of
                    (Some e, m') \<Rightarrow> (Inl e, m')
                  | (None, m') \<Rightarrow> (Inr pruneRetainState, m')))
          else (Inr (unmatched_role key), m))"

record pruneInventory =
  inv_Keep :: PruneKVCount
  inv_Protected :: PruneKVCount
  inv_Candidates :: PruneKVCount
  inv_Unknown :: PruneKVCount
  inv_Digest :: hash

definition comparePruneInventory :: "pruneInventory \<Rightarrow> pruneInventory \<Rightarrow> prune_error option" where
  "comparePruneInventory before after =
     (if Keys (inv_Candidates after) \<noteq> 0 then Some (PruneRemaining (Keys (inv_Candidates after)))
      else if inv_Keep before \<noteq> inv_Keep after \<or> inv_Protected before \<noteq> inv_Protected after \<or>
              inv_Unknown before \<noteq> inv_Unknown after \<or> inv_Digest before \<noteq> inv_Digest after
      then Some PruneInventoryChanged
      else None)"

section \<open>The roles by lookup\<close>

text \<open>
  The reference: a record whose key is in the keep set is retained, an unreferenced record under
  the Keccak hash of its value is deleted, another 32-byte key is unknown, the rest protected.
\<close>

type_synonym scan_item = "bytes \<times> bytes \<times> prune_role"

definition role_of :: "geth_env \<Rightarrow> bytes set \<Rightarrow> kv \<Rightarrow> prune_role" where
  "role_of env keep = (\<lambda>(k, v).
     if k \<in> keep then pruneRetainState
     else if length k = HashLength then (if keccak256 env v = k then pruneDelete else pruneUnknown)
     else pruneProtect)"

definition raw_role :: "bytes set \<Rightarrow> kv \<Rightarrow> prune_role" where
  "raw_role keep = (\<lambda>(k, v). if k \<in> keep then pruneRetainState else unmatched_role k)"

definition foreign :: "geth_env \<Rightarrow> rawdb_keys \<Rightarrow> bytes set \<Rightarrow> kv \<Rightarrow> bool" where
  "foreign env lib keep kv \<longleftrightarrow>
     role_of env keep kv \<notin> {pruneDelete, pruneRetainState} \<and>
     rejectPruneForeignKey env lib (fst kv) (snd kv) \<noteq> None"

lemma BytesToHash_id [simp]: "length k = HashLength \<Longrightarrow> BytesToHash k = k"
  by (simp add: BytesToHash_def)

lemma classify_raw_role:
  "classifyPruneRecord env lib False k v (raw_role keep (k, v)) =
     (if role_of env keep (k, v) \<in> {pruneDelete, pruneRetainState} then None
      else rejectPruneForeignKey env lib k v, role_of env keep (k, v))"
  by (auto simp: classifyPruneRecord_def raw_role_def role_of_def unmatched_role_def)

lemma classify_canceled: "classifyPruneRecord env lib True k v r = (Some PruneCanceled, r)"
  by (simp add: classifyPruneRecord_def)

section \<open>The merge agrees with the lookup\<close>

text \<open>The walk over the source with the cursor, without the pipeline behind it.\<close>

fun cursor_roles ::
  "kv list \<Rightarrow> pruneMergeCursor \<Rightarrow> (prune_error option \<times> scan_item list) \<times> pruneMergeCursor" where
  "cursor_roles [] m = ((None, []), m)"
| "cursor_roles ((k, v) # kvs) m =
     (case cursor_role k v m of
        (Inl e, m') \<Rightarrow> ((Some e, []), m')
      | (Inr r, m') \<Rightarrow> (case cursor_roles kvs m' of ((e, items), m'') \<Rightarrow> ((e, (k, v, r) # items), m'')))"

definition raw_items :: "bytes set \<Rightarrow> kv list \<Rightarrow> scan_item list" where
  "raw_items keep kvs = map (\<lambda>(k, v). (k, v, raw_role keep (k, v))) kvs"

text \<open>The entries a cursor has still to match.\<close>

definition ahead :: "pruneMergeCursor \<Rightarrow> kv list" where
  "ahead m = (case mc_current m of None \<Rightarrow> [] | Some kv \<Rightarrow> kv # mc_rest m)"

definition cursor_wf :: "pruneMergeCursor \<Rightarrow> bool" where
  "cursor_wf m \<longleftrightarrow> ascending (ahead m) \<and> (mc_current m = None \<longrightarrow> mc_rest m = [])"

lemma cursor_wf_None: "cursor_wf m \<Longrightarrow> mc_current m = None \<longleftrightarrow> ahead m = []"
  by (simp add: ahead_def split: option.splits)

lemma cursor_advance_ok:
  assumes "cursor_wf m" "mc_current m = Some kv" "cursor_advance m = (None, m')"
  shows "cursor_wf m'" "ahead m = kv # ahead m'" "mc_fail m' = mc_fail m"
  using assms by (auto simp: cursor_advance_def cursor_wf_def ahead_def split: list.splits if_splits)

lemma cursor_advance_no_fail:
  "\<not> mc_fail m \<Longrightarrow> \<exists>m'. cursor_advance m = (None, m')"
  by (auto simp: cursor_advance_def split: list.splits)

lemma cursor_role_cases:
  assumes "cursor_wf m" "cursor_role k v m = (Inr r, m')"
  shows "(\<exists>rest. ahead m = (k, v) # rest \<and> r = pruneRetainState \<and> ahead m' = rest \<and> cursor_wf m') \<or>
     (r = unmatched_role k \<and> m' = m \<and> (\<forall>k' \<in> fst ` set (ahead m). k < k'))"
proof (cases "mc_current m")
  case None
  with assms show ?thesis by (auto simp: cursor_role_def ahead_def)
next
  case (Some kv)
  obtain kk kv' where kv: "kv = (kk, kv')" by (cases kv)
  from Some kv have ah: "ahead m = (kk, kv') # mc_rest m" by (simp add: ahead_def)
  have asc: "ascending (ahead m)" using assms(1) by (simp add: cursor_wf_def)
  consider "k = kk" | "k < kk" | "kk < k" by fastforce
  then show ?thesis
  proof cases
    case 1
    with assms(2) Some kv obtain m'' where
      "kv' = v" "cursor_advance m = (None, m'')" "r = pruneRetainState" "m' = m''"
      by (auto simp: cursor_role_def comparePruneValue_def split: prod.splits option.splits if_splits)
    with cursor_advance_ok [OF assms(1) Some] 1 kv show ?thesis by auto
  next
    case 2
    with assms(2) Some kv have "r = unmatched_role k \<and> m' = m"
      by (auto simp: cursor_role_def Let_def bytes_Compare_def split: if_splits)
    moreover have "\<forall>k' \<in> fst ` set (ahead m). k < k'" using asc ah 2 by auto
    ultimately show ?thesis by simp
  next
    case 3
    with assms(2) Some kv show ?thesis by (auto simp: cursor_role_def Let_def)
  qed
qed

text \<open>When the merge runs through, every entry ahead of the cursor but the final ones was matched.\<close>

lemma cursor_roles_sound:
  assumes "cursor_wf m" "ascending kvs" "cursor_roles kvs m = ((None, items), m')"
  shows "cursor_wf m' \<and> (\<exists>used. ahead m = used @ ahead m' \<and> set used \<subseteq> set kvs \<and>
     items = raw_items (fst ` set used) kvs)"
  using assms
proof (induction kvs arbitrary: m items)
  case Nil
  then show ?case by (auto simp: raw_items_def intro!: exI [of _ "[]"])
next
  case (Cons kv kvs)
  obtain k v where kv: "kv = (k, v)" by (cases kv)
  with Cons.prems(3) obtain r m1 items1 where r: "cursor_role k v m = (Inr r, m1)"
    and rest: "cursor_roles kvs m1 = ((None, items1), m')" and items: "items = (k, v, r) # items1"
    by (auto split: prod.splits sum.splits)
  have above: "\<forall>k' \<in> fst ` set kvs. k < k'" and asc: "ascending kvs" using Cons.prems(2) kv by auto
  from cursor_role_cases [OF Cons.prems(1) r] show ?case
  proof
    assume "\<exists>rest. ahead m = (k, v) # rest \<and> r = pruneRetainState \<and> ahead m1 = rest \<and> cursor_wf m1"
    then have ah: "ahead m = (k, v) # ahead m1" and rr: "r = pruneRetainState" and wf: "cursor_wf m1" by auto
    from Cons.IH [OF wf asc rest] obtain used where
      u: "cursor_wf m'" "ahead m1 = used @ ahead m'" "set used \<subseteq> set kvs"
         "items1 = raw_items (fst ` set used) kvs" by auto
    have "raw_items (insert k (fst ` set used)) kvs = raw_items (fst ` set used) kvs"
      using above by (force simp: raw_items_def raw_role_def)
    with u ah rr items kv show ?thesis
      by (auto intro!: exI [of _ "(k, v) # used"] simp: raw_items_def raw_role_def)
  next
    assume "r = unmatched_role k \<and> m1 = m \<and> (\<forall>k' \<in> fst ` set (ahead m). k < k')"
    then have rr: "r = unmatched_role k" and m1: "m1 = m" and lt: "\<forall>k' \<in> fst ` set (ahead m). k < k'" by auto
    from Cons.IH [OF Cons.prems(1) asc] rest m1 obtain used where
      u: "cursor_wf m'" "ahead m = used @ ahead m'" "set used \<subseteq> set kvs"
         "items1 = raw_items (fst ` set used) kvs" by auto
    have "k \<notin> fst ` set used" using lt u(2) by auto
    with u rr items kv show ?thesis
      by (intro conjI exI [of _ used]) (auto simp: raw_items_def raw_role_def)
  qed
qed

lemma cursor_roles_complete:
  assumes "cursor_wf m" "ascending kvs" "set (ahead m) \<subseteq> set kvs" "\<not> mc_fail m"
  shows "\<exists>m'. cursor_roles kvs m = ((None, raw_items (fst ` set (ahead m)) kvs), m') \<and> mc_current m' = None"
  using assms
proof (induction kvs arbitrary: m)
  case Nil
  then show ?case by (simp add: raw_items_def cursor_wf_None)
next
  case (Cons kv kvs)
  obtain k v where kv: "kv = (k, v)" by (cases kv)
  have above: "\<forall>k' \<in> fst ` set kvs. k < k'" and asc: "ascending kvs" using Cons.prems(2) kv by auto
  show ?case
  proof (cases "(k, v) \<in> set (ahead m)")
    case True
    then obtain hd where cur: "mc_current m = Some hd" and ah: "ahead m = hd # mc_rest m"
      by (cases "mc_current m") (simp_all add: ahead_def)
    have "hd = (k, v)"
    proof (rule ccontr)
      assume ne: "hd \<noteq> (k, v)"
      have "fst hd < k" using True ne ah Cons.prems(1) by (force simp: cursor_wf_def)
      moreover have "hd \<in> set kvs" using ah Cons.prems(3) kv ne by auto
      ultimately show False using above by (force dest: less_trans)
    qed
    from cursor_advance_no_fail [OF Cons.prems(4)] obtain m1 where adv: "cursor_advance m = (None, m1)" by auto
    note ok = cursor_advance_ok [OF Cons.prems(1) cur adv]
    have ahd: "ahead m = (k, v) # ahead m1" using ok(2) \<open>hd = (k, v)\<close> by simp
    have "ascending (ahead m)" using Cons.prems(1) by (simp add: cursor_wf_def)
    with ahd have nk: "(k, v) \<notin> set (ahead m1)" by force
    have "set (ahead m1) \<subseteq> set kvs" using ahd nk Cons.prems(3) kv by auto
    from Cons.IH [OF ok(1) asc this] ok(3) Cons.prems(4) obtain m' where
      ih: "cursor_roles kvs m1 = ((None, raw_items (fst ` set (ahead m1)) kvs), m')" "mc_current m' = None" by auto
    have "raw_items (fst ` set (ahead m)) kvs = raw_items (fst ` set (ahead m1)) kvs"
      using above by (force simp: raw_items_def raw_role_def ahd)
    moreover have "cursor_role k v m = (Inr pruneRetainState, m1)"
      using cur \<open>hd = (k, v)\<close> adv by (simp add: cursor_role_def comparePruneValue_def)
    ultimately show ?thesis using ih kv ahd by (simp add: raw_items_def raw_role_def)
  next
    case False
    have "set (ahead m) \<subseteq> set kvs" using False Cons.prems(3) kv by auto
    from Cons.IH [OF Cons.prems(1) asc this Cons.prems(4)] obtain m' where
      ih: "cursor_roles kvs m = ((None, raw_items (fst ` set (ahead m)) kvs), m')" "mc_current m' = None" by auto
    have lt: "\<forall>k' \<in> fst ` set (ahead m). k < k'" using above \<open>set (ahead m) \<subseteq> set kvs\<close> by auto
    then have "mc_current m = Some kv' \<Longrightarrow> k < fst kv'" for kv' by (simp add: ahead_def)
    then have "cursor_role k v m = (Inr (unmatched_role k), m)"
      by (fastforce simp: cursor_role_def bytes_Compare_def Let_def split: option.splits)
    moreover have "k \<notin> fst ` set (ahead m)" using lt by auto
    ultimately show ?thesis using ih kv by (simp add: raw_items_def raw_role_def)
  qed
qed

end
