(* ===== verification/PrunePipeline.thy ===== *)
theory PrunePipeline
  imports PruneScan
begin

text \<open>
  The scan pipeline of prune (\<^verbatim>\<open>prune_pipeline.go\<close>): a ring of slots holds copies of records
  while worker goroutines classify them, and one coordinator consumes them in source order.
  The interleaving is explicit: before each point where the coordinator polls a context or waits
  for a slot, any sequence of events may happen - the caller cancels, or a worker classifies one
  of the queued slots. The main lemma says that the schedule, the number of slots and the byte
  limit do not matter: the consumer sees what a plain loop would give it.
\<close>

section \<open>Definitions\<close>

datatype slot_state = SlotIdle | SlotQueued | SlotDone

record pruneScanRecord =
  r_key :: bytes
  r_value :: bytes
  r_role :: prune_role
  r_err :: "prune_error option"
  r_done :: slot_state

definition empty_slot :: pruneScanRecord where
  "empty_slot = \<lparr>r_key = [], r_value = [], r_role = pruneProtect, r_err = None, r_done = SlotIdle\<rparr>"

text \<open>
  The fields of \<^verbatim>\<open>pruneScanPipeline\<close>, with whether its own context and the caller's context
  are cancelled, the optional progress counters, the state of the consumer, and a clock that
  numbers the points where events may happen.
\<close>

record 's pruneScanPipeline =
  p_slots :: "pruneScanRecord list"
  p_first :: nat
  p_pending :: nat
  p_bytes :: nat
  p_limit :: nat
  p_started :: bool
  p_failure :: "prune_error latch"
  p_canceled :: bool
  p_outer :: bool
  p_scan :: "PruneKVCount option"
  p_consumer :: 's
  p_clock :: nat

datatype pipe_ev = OuterCancel | WorkerRun nat

type_synonym classifier = "bool \<Rightarrow> bytes \<Rightarrow> bytes \<Rightarrow> prune_role \<Rightarrow> prune_error option \<times> prune_role"
type_synonym 's scan_consumer = "scan_item \<Rightarrow> 's \<Rightarrow> prune_error option \<times> 's"

definition pruneParallelHashBytes :: nat where
  "pruneParallelHashBytes = 4096"

definition newPruneScanPipeline :: "nat \<Rightarrow> nat \<Rightarrow> PruneKVCount option \<Rightarrow> 's \<Rightarrow> 's pruneScanPipeline" where
  "newPruneScanPipeline workers scanBytes scan s =
     \<lparr>p_slots = replicate (2 * workers) empty_slot, p_first = 0, p_pending = 0, p_bytes = 0,
      p_limit = scanBytes, p_started = False, p_failure = None, p_canceled = False, p_outer = False,
      p_scan = scan, p_consumer = s, p_clock = 0\<rparr>"

definition pipeline_fail :: "prune_error option \<Rightarrow> 's pruneScanPipeline \<Rightarrow> 's pruneScanPipeline" where
  "pipeline_fail err p =
     (case err of
        None \<Rightarrow> p
      | Some e \<Rightarrow>
          if e = PruneCanceled then p
          else let (first, latch) = migrateRunFailure_record (p_failure p) e
               in if first then p\<lparr>p_failure := latch, p_canceled := True\<rparr> else p\<lparr>p_failure := latch\<rparr>)"

text \<open>One turn of a worker: the body of the loop that \<^verbatim>\<open>startWorkers\<close> starts.\<close>

definition worker_run :: "classifier \<Rightarrow> nat \<Rightarrow> 's pruneScanPipeline \<Rightarrow> 's pruneScanPipeline" where
  "worker_run classify i p =
     (if i < length (p_slots p) \<and> r_done (p_slots p ! i) = SlotQueued then
        (let r = p_slots p ! i;
             (err, role) = classify (p_canceled p) (r_key r) (r_value r) (r_role r);
             r' = r\<lparr>r_role := role, r_err := err, r_done := SlotDone\<rparr>
         in pipeline_fail err (p\<lparr>p_slots := (p_slots p)[i := r']\<rparr>))
      else p)"

fun pipe_event :: "classifier \<Rightarrow> pipe_ev \<Rightarrow> 's pruneScanPipeline \<Rightarrow> 's pruneScanPipeline" where
  "pipe_event classify OuterCancel p = p\<lparr>p_outer := True, p_canceled := True\<rparr>"
| "pipe_event classify (WorkerRun i) p = worker_run classify i p"

type_synonym schedule = "nat \<Rightarrow> pipe_ev list"

definition pipe_tick :: "classifier \<Rightarrow> schedule \<Rightarrow> 's pruneScanPipeline \<Rightarrow> 's pruneScanPipeline" where
  "pipe_tick classify sched p =
     foldl (\<lambda>q ev. pipe_event classify ev q) (p\<lparr>p_clock := p_clock p + 1\<rparr>) (sched (p_clock p))"

text \<open>The consumer \<^verbatim>\<open>walkPruneDifference\<close> passes to the pipeline: poll, consume, count.\<close>

definition walk_consume ::
  "classifier \<Rightarrow> 's scan_consumer \<Rightarrow> schedule \<Rightarrow> scan_item \<Rightarrow> 's pruneScanPipeline \<Rightarrow>
   prune_error option \<times> 's pruneScanPipeline" where
  "walk_consume classify consume sched item p0 =
     (let p = pipe_tick classify sched p0 in
      if p_outer p then (Some PruneCanceled, p)
      else case consume item (p_consumer p) of
        (Some e, s) \<Rightarrow> (Some e, p\<lparr>p_consumer := s\<rparr>)
      | (None, s) \<Rightarrow> (None, p\<lparr>p_consumer := s,
            p_scan := map_option (PruneKVCount_add (fst item) (fst (snd item))) (p_scan p)\<rparr>))"

definition poll_context ::
  "classifier \<Rightarrow> schedule \<Rightarrow> 's pruneScanPipeline \<Rightarrow> prune_error option \<times> 's pruneScanPipeline" where
  "poll_context classify sched p0 =
     (let p = pipe_tick classify sched p0 in (if p_canceled p then Some PruneCanceled else None, p))"

text \<open>Waiting for \<^verbatim>\<open>r.done\<close>: when no worker has classified the slot yet, one does so now.\<close>

definition await_slot :: "classifier \<Rightarrow> schedule \<Rightarrow> 's pruneScanPipeline \<Rightarrow> 's pruneScanPipeline" where
  "await_slot classify sched p0 =
     (let p = pipe_tick classify sched p0 in worker_run classify (p_first p) p)"

definition slot_item :: "pruneScanRecord \<Rightarrow> scan_item" where
  "slot_item r = (r_key r, r_value r, r_role r)"

definition slot_size :: "pruneScanRecord \<Rightarrow> nat" where
  "slot_size r = length (r_key r) + length (r_value r)"

definition release_slot :: "'s pruneScanPipeline \<Rightarrow> 's pruneScanPipeline" where
  "release_slot p =
     (let r = p_slots p ! p_first p in
      p\<lparr>p_bytes := p_bytes p - slot_size r,
        p_slots := (p_slots p)[p_first p := r\<lparr>r_key := [], r_value := [], r_err := None, r_done := SlotIdle\<rparr>],
        p_first := (p_first p + 1) mod length (p_slots p),
        p_pending := p_pending p - 1\<rparr>)"

definition drainOne ::
  "classifier \<Rightarrow> 's scan_consumer \<Rightarrow> schedule \<Rightarrow> 's pruneScanPipeline \<Rightarrow>
   prune_error option \<times> 's pruneScanPipeline" where
  "drainOne classify consume sched p0 =
     (let p1 = await_slot classify sched p0;
          r = p_slots p1 ! p_first p1;
          (err, p2) = (case r_err r of
              Some e \<Rightarrow> (Some e, p1)
            | None \<Rightarrow> (case poll_context classify sched p1 of
                  (Some e, p2) \<Rightarrow> (Some e, p2)
                | (None, p2) \<Rightarrow> walk_consume classify consume sched (slot_item r) p2))
      in (err, release_slot (pipeline_fail err p2)))"

text \<open>
  The loop of \<^verbatim>\<open>drain\<close> runs while slots are pending; each turn releases one, so the number of
  pending slots is the number of turns.
\<close>

fun drain_loop ::
  "classifier \<Rightarrow> 's scan_consumer \<Rightarrow> schedule \<Rightarrow> nat \<Rightarrow> 's pruneScanPipeline \<Rightarrow>
   prune_error option \<times> 's pruneScanPipeline" where
  "drain_loop classify consume sched 0 p = poll_context classify sched p"
| "drain_loop classify consume sched (Suc n) p =
     (case drainOne classify consume sched p of
        (Some e, p') \<Rightarrow> (Some e, p')
      | (None, p') \<Rightarrow> drain_loop classify consume sched n p')"

definition drain ::
  "classifier \<Rightarrow> 's scan_consumer \<Rightarrow> schedule \<Rightarrow> 's pruneScanPipeline \<Rightarrow>
   prune_error option \<times> 's pruneScanPipeline" where
  "drain classify consume sched p = drain_loop classify consume sched (p_pending p) p"

text \<open>
  The loop of \<^verbatim>\<open>push\<close> that makes room. With no slot pending another turn would wait for ever on
  an idle slot; that is the value \<open>PruneBlocked\<close>, which is shown not to occur.
\<close>

fun make_room ::
  "classifier \<Rightarrow> 's scan_consumer \<Rightarrow> schedule \<Rightarrow> nat \<Rightarrow> nat \<Rightarrow> 's pruneScanPipeline \<Rightarrow>
   prune_error option \<times> 's pruneScanPipeline" where
  "make_room classify consume sched sz 0 p =
     (if p_pending p = length (p_slots p) \<or> p_bytes p + sz > p_limit p then (Some PruneBlocked, p)
      else (None, p))"
| "make_room classify consume sched sz (Suc n) p =
     (if p_pending p = length (p_slots p) \<or> p_bytes p + sz > p_limit p then
        (case drainOne classify consume sched p of
           (Some e, p') \<Rightarrow> (Some e, p')
         | (None, p') \<Rightarrow> make_room classify consume sched sz n p')
      else (None, p))"

definition consumeDirect ::
  "classifier \<Rightarrow> 's scan_consumer \<Rightarrow> schedule \<Rightarrow> scan_item \<Rightarrow> 's pruneScanPipeline \<Rightarrow>
   prune_error option \<times> 's pruneScanPipeline" where
  "consumeDirect classify consume sched item p0 =
     (let (key, val, role) = item; p = pipe_tick classify sched p0 in
      case classify (p_canceled p) key val role of
        (Some e, _) \<Rightarrow> (Some e, p)
      | (None, role') \<Rightarrow>
          (case poll_context classify sched p of
             (Some e, p') \<Rightarrow> (Some e, p')
           | (None, p') \<Rightarrow> walk_consume classify consume sched (key, val, role') p'))"

definition enqueue :: "scan_item \<Rightarrow> 's pruneScanPipeline \<Rightarrow> 's pruneScanPipeline" where
  "enqueue item p =
     (let (key, val, role) = item; i = (p_first p + p_pending p) mod length (p_slots p) in
      p\<lparr>p_slots := (p_slots p)[i := (p_slots p ! i)\<lparr>r_key := key, r_value := val, r_role := role, r_done := SlotQueued\<rparr>],
        p_pending := p_pending p + 1,
        p_bytes := p_bytes p + (length key + length val),
        p_started := True\<rparr>)"

definition push ::
  "classifier \<Rightarrow> 's scan_consumer \<Rightarrow> schedule \<Rightarrow> scan_item \<Rightarrow> 's pruneScanPipeline \<Rightarrow>
   prune_error option \<times> 's pruneScanPipeline" where
  "push classify consume sched item p0 =
     (case poll_context classify sched p0 of
        (Some e, p) \<Rightarrow> (Some e, p)
      | (None, p) \<Rightarrow>
          let (key, val, role) = item;
              sz = length key + length val;
              parallel = (role = pruneUnclassified \<and> length val \<ge> pruneParallelHashBytes)
          in if sz > p_limit p \<or> (\<not> parallel \<and> p_pending p = 0) then
               (case drain classify consume sched p of
                  (Some e, p') \<Rightarrow> (Some e, p')
                | (None, p') \<Rightarrow> consumeDirect classify consume sched item p')
             else
               (case make_room classify consume sched sz (p_pending p) p of
                  (Some e, p') \<Rightarrow> (Some e, p')
                | (None, p') \<Rightarrow> (None, enqueue item p')))"

text \<open>
  \<^verbatim>\<open>close\<close> cancels and joins the workers. The join is the last point where a worker that had
  already polled its context can still record a failure.
\<close>

definition pipeline_close :: "classifier \<Rightarrow> schedule \<Rightarrow> 's pruneScanPipeline \<Rightarrow> 's pruneScanPipeline" where
  "pipeline_close classify sched p =
     (pipe_tick classify sched p)\<lparr>p_canceled := True, p_started := False\<rparr>"

section \<open>The walk\<close>

text \<open>
  An open database as its iterator shows it: the entries in key order and whether the iterator
  ends with an error. A LevelDB or Pebble iterator reads a snapshot.
\<close>

record kv_view =
  kv_entries :: "kv list"
  kv_fail :: bool

fun walk_loop ::
  "classifier \<Rightarrow> 's scan_consumer \<Rightarrow> schedule \<Rightarrow> kv list \<Rightarrow> pruneMergeCursor \<Rightarrow> 's pruneScanPipeline \<Rightarrow>
   prune_error option \<times> pruneMergeCursor \<times> 's pruneScanPipeline" where
  "walk_loop classify consume sched [] m p = (None, m, p)"
| "walk_loop classify consume sched ((k, v) # kvs) m p =
     (case cursor_role k v m of
        (Inl e, m') \<Rightarrow> (Some e, m', p)
      | (Inr role, m') \<Rightarrow>
          (case push classify consume sched (k, v, role) p of
             (Some e, p') \<Rightarrow> (Some e, m', p')
           | (None, p') \<Rightarrow> walk_loop classify consume sched kvs m' p'))"

definition walkPruneDifference ::
  "classifier \<Rightarrow> 's scan_consumer \<Rightarrow> schedule \<Rightarrow> nat \<Rightarrow> nat \<Rightarrow> PruneKVCount option \<Rightarrow>
   kv_view \<Rightarrow> kv_view \<Rightarrow> 's \<Rightarrow> prune_error option \<times> 's pruneScanPipeline" where
  "walkPruneDifference classify consume sched workers scanBytes scan db keep s =
     (let p0 = newPruneScanPipeline workers scanBytes scan s in
      case cursor_advance \<lparr>mc_current = None, mc_rest = kv_entries keep, mc_fail = kv_fail keep\<rparr> of
        (Some _, _) \<Rightarrow> (Some PruneKeepCursor, p0)
      | (None, m) \<Rightarrow>
          let (err, m', p) = walk_loop classify consume sched (kv_entries db) m p0;
              (err', p') =
                (case err of
                   Some e \<Rightarrow> (Some e, p)
                 | None \<Rightarrow>
                     if kv_fail db then (Some PruneSourceRead, p)
                     else case mc_current m' of
                       Some (k, _) \<Rightarrow> (Some (PruneKeepMissing k), p)
                     | None \<Rightarrow> drain classify consume sched p);
              q = pipeline_close classify sched p'
          in (case migrateRunFailure_load (p_failure q) of Some e \<Rightarrow> Some e | None \<Rightarrow> err', q))"

section \<open>The plain loop\<close>

text \<open>The reference: classify and consume one record after the other.\<close>

fun seq_run ::
  "classifier \<Rightarrow> 's scan_consumer \<Rightarrow> scan_item list \<Rightarrow> 's \<Rightarrow> prune_error option \<times> 's" where
  "seq_run classify consume [] s = (None, s)"
| "seq_run classify consume ((k, v, r) # items) s =
     (case classify False k v r of
        (Some e, _) \<Rightarrow> (Some e, s)
      | (None, r') \<Rightarrow>
          (case consume (k, v, r') s of
             (Some e, s') \<Rightarrow> (Some e, s')
           | (None, s') \<Rightarrow> seq_run classify consume items s'))"

lemma seq_run_append:
  "seq_run classify consume (xs @ ys) s =
     (case seq_run classify consume xs s of
        (Some e, s') \<Rightarrow> (Some e, s') | (None, s') \<Rightarrow> seq_run classify consume ys s')"
proof (induction xs arbitrary: s)
  case (Cons x xs)
  obtain k v r where x: "x = (k, v, r)" by (cases x)
  show ?case using Cons by (simp add: x split: prod.splits option.splits)
qed simp

section \<open>The ring\<close>

text \<open>
  The slots from the first one on: the pending ones in the order in which they are drained, then
  the idle ones.
\<close>

definition layout :: "'s pruneScanPipeline \<Rightarrow> pruneScanRecord list \<Rightarrow> pruneScanRecord list \<Rightarrow> bool" where
  "layout p q idle \<longleftrightarrow>
     rotate (p_first p) (p_slots p) = q @ idle \<and> p_first p < length (p_slots p) \<and>
     p_pending p = length q \<and> p_bytes p = sum_list (map slot_size q) \<and>
     (\<forall>r \<in> set idle. r_done r = SlotIdle \<and> r_err r = None)"

lemma mod_wrap:
  fixes f k n :: nat
  assumes "f < n" "k < n"
  shows "(f + k) mod n = (if f + k < n then f + k else f + k - n)"
proof (cases "f + k < n")
  case False
  with assms have "(f + k) mod n = (f + k - n) mod n" by (simp add: le_mod_geq)
  moreover have "f + k - n < n" using assms by linarith
  ultimately show ?thesis using False by simp
qed simp

lemma rotate_update:
  assumes "f < length xs" "i < length xs"
  shows "rotate f (xs[(f + i) mod length xs := x]) = (rotate f xs)[i := x]"
proof (rule nth_equalityI)
  fix j assume "j < length (rotate f (xs[(f + i) mod length xs := x]))"
  then have j: "j < length xs" by simp
  have inj: "(f + i) mod length xs = (f + j) mod length xs \<longleftrightarrow> i = j"
    unfolding mod_wrap [OF assms] mod_wrap [OF assms(1) j] using assms j by (simp split: if_splits) linarith
  have "0 < length xs" using assms by linarith
  then have lt: "(f + i) mod length xs < length xs" by (rule mod_less_divisor)
  have "rotate f (xs[(f + i) mod length xs := x]) ! j =
      xs[(f + i) mod length xs := x] ! ((f + j) mod length xs)"
    using j nth_rotate [of j "xs[(f + i) mod length xs := x]" f] by simp
  also have "\<dots> = (if i = j then x else xs ! ((f + j) mod length xs))"
    by (simp only: nth_list_update [OF lt] inj)
  also have "\<dots> = (rotate f xs)[i := x] ! j"
    using j assms nth_rotate [OF j, of f] by (simp add: nth_list_update)
  finally show "rotate f (xs[(f + i) mod length xs := x]) ! j = (rotate f xs)[i := x] ! j" .
qed simp

lemma rotate_index:
  assumes "f < length xs" "i < length xs"
  shows "\<exists>j < length xs. i = (f + j) mod length xs"
proof (cases "f \<le> i")
  case True
  with assms show ?thesis by (intro exI [of _ "i - f"]) auto
next
  case False
  then have "i = (f + (length xs - f + i)) mod length xs" using assms by simp
  moreover have "length xs - f + i < length xs" using False assms by linarith
  ultimately show ?thesis by blast
qed

lemma layout_length: "layout p q idle \<Longrightarrow> length (p_slots p) = length q + length idle"
  unfolding layout_def by (metis length_append length_rotate)

lemma layout_first:
  "layout p (r # q) idle \<Longrightarrow> p_slots p ! p_first p = r"
proof -
  assume "layout p (r # q) idle"
  then have rot: "rotate (p_first p) (p_slots p) = r # q @ idle" and f: "p_first p < length (p_slots p)"
    by (auto simp: layout_def)
  have "rotate (p_first p) (p_slots p) ! 0 = p_slots p ! ((p_first p + 0) mod length (p_slots p))"
    using f by (intro nth_rotate) auto
  with rot f show ?thesis by simp
qed

lemma layout_release:
  assumes "layout p (r # q) idle"
  shows "\<exists>e. layout (release_slot p) q (idle @ [e])"
proof -
  let ?e = "r\<lparr>r_key := [], r_value := [], r_err := None, r_done := SlotIdle\<rparr>"
  let ?xs = "(p_slots p)[p_first p := ?e]"
  have f: "p_first p < length (p_slots p)" and rot: "rotate (p_first p) (p_slots p) = r # q @ idle"
    using assms by (auto simp: layout_def)
  have "0 < length (p_slots p)" using f by linarith
  from rotate_update [OF f this, of ?e] have "rotate (p_first p) ?xs = ?e # q @ idle"
    using f rot by simp
  then have "rotate (Suc (p_first p)) ?xs = q @ idle @ [?e]" by simp
  then have "rotate ((p_first p + 1) mod length (p_slots p)) ?xs = q @ idle @ [?e]"
    by (metis Suc_eq_plus1 length_list_update rotate_conv_mod)
  moreover have "0 < length (p_slots p)" using f by linarith
  then have "(p_first p + 1) mod length (p_slots p) < length (p_slots p)" by (rule mod_less_divisor)
  ultimately show ?thesis
    using assms layout_first [OF assms]
    by (intro exI [of _ ?e]) (auto simp: layout_def release_slot_def Let_def)
qed

lemma layout_enqueue:
  assumes "layout p q (x # idle)"
  shows "layout (enqueue (k, v, r) p)
     (q @ [x\<lparr>r_key := k, r_value := v, r_role := r, r_done := SlotQueued\<rparr>]) idle"
proof -
  let ?i = "(p_first p + length q) mod length (p_slots p)"
  let ?x = "x\<lparr>r_key := k, r_value := v, r_role := r, r_done := SlotQueued\<rparr>"
  have f: "p_first p < length (p_slots p)" and rot: "rotate (p_first p) (p_slots p) = q @ x # idle"
    and pend: "p_pending p = length q" using assms by (auto simp: layout_def)
  have lt: "length q < length (p_slots p)" using layout_length [OF assms] by simp
  have "p_slots p ! ?i = x" using nth_rotate [OF lt, of "p_first p"] rot by simp
  moreover have "rotate (p_first p) ((p_slots p)[?i := ?x]) = q @ ?x # idle"
    using rotate_update [OF f lt, of ?x] rot by (simp add: list_update_append)
  ultimately show ?thesis
    using assms f pend by (auto simp: layout_def enqueue_def Let_def slot_size_def)
qed

section \<open>The invariant of the pipeline\<close>

text \<open>
  A classifier fails when its context is cancelled; otherwise it is a function of the record.
  \<open>slot_ok\<close> relates a pending slot to the record that was pushed: still queued, or classified
  like the plain loop classifies it, or failed for a reason the plain loop would have too, unless
  the context is cancelled.
\<close>

definition slot_ok :: "classifier \<Rightarrow> bool \<Rightarrow> scan_item \<Rightarrow> pruneScanRecord \<Rightarrow> bool" where
  "slot_ok classify canceled = (\<lambda>(k, v, r) q.
     r_key q = k \<and> r_value q = v \<and>
     (r_done q = SlotQueued \<and> r_err q = None \<and> r_role q = r \<or>
      r_done q = SlotDone \<and> r_err q = None \<and> classify False k v r = (None, r_role q) \<or>
      r_done q = SlotDone \<and> r_err q \<noteq> None \<and> (canceled \<or> fst (classify False k v r) \<noteq> None)))"

definition seq_fails :: "classifier \<Rightarrow> 's scan_consumer \<Rightarrow> scan_item list \<Rightarrow> 's \<Rightarrow> bool" where
  "seq_fails classify consume items s \<longleftrightarrow> fst (seq_run classify consume items s) \<noteq> None"

definition excused :: "classifier \<Rightarrow> 's scan_consumer \<Rightarrow> scan_item list \<Rightarrow> 's \<Rightarrow> 's pruneScanPipeline \<Rightarrow> bool" where
  "excused classify consume items s p \<longleftrightarrow> p_outer p \<or> seq_fails classify consume items s"

definition pipe_inv ::
  "classifier \<Rightarrow> 's scan_consumer \<Rightarrow> scan_item list \<Rightarrow> scan_item list \<Rightarrow> 's \<Rightarrow> 's pruneScanPipeline \<Rightarrow> bool" where
  "pipe_inv classify consume ds qs s p \<longleftrightarrow>
     (\<exists>q idle. layout p q idle \<and> list_all2 (slot_ok classify (p_canceled p)) qs q) \<and>
     seq_run classify consume ds s = (None, p_consumer p) \<and>
     (p_canceled p \<or> p_failure p \<noteq> None \<longrightarrow> excused classify consume (ds @ qs) s p)"

text \<open>After an error: there is a reason for it, and the consumer has seen a prefix of the records.\<close>

definition pipe_stopped :: "classifier \<Rightarrow> 's scan_consumer \<Rightarrow> scan_item list \<Rightarrow> 's \<Rightarrow> 's pruneScanPipeline \<Rightarrow> bool" where
  "pipe_stopped classify consume items s p \<longleftrightarrow>
     excused classify consume items s p \<and>
     (\<exists>ds es. items = ds @ es \<and> snd (seq_run classify consume ds s) = p_consumer p)"

lemma seq_fails_append: "seq_fails classify consume xs s \<Longrightarrow> seq_fails classify consume (xs @ ys) s"
  by (auto simp: seq_fails_def seq_run_append split: prod.splits option.splits)

lemma seq_fails_item:
  assumes "(k, v, r) \<in> set items" and "fst (classify False k v r) \<noteq> None"
  shows "seq_fails classify consume items s"
proof -
  from assms(1) obtain xs ys where items: "items = xs @ (k, v, r) # ys" by (auto simp: in_set_conv_decomp)
  show ?thesis
    using assms(2) by (auto simp: items seq_fails_def seq_run_append split: prod.splits option.splits)
qed

lemma slot_ok_mono: "slot_ok classify c i q \<Longrightarrow> (c \<longrightarrow> c') \<Longrightarrow> slot_ok classify c' i q"
  by (auto simp: slot_ok_def split: prod.splits)

lemma slots_ok_mono:
  "list_all2 (slot_ok classify c) is qs \<Longrightarrow> (c \<longrightarrow> c') \<Longrightarrow> list_all2 (slot_ok classify c') is qs"
  by (auto elim!: list_all2_mono intro: slot_ok_mono)

lemma pipe_inv_stopped:
  "pipe_inv classify consume ds qs s p \<Longrightarrow> excused classify consume (ds @ qs) s p \<Longrightarrow>
     pipe_stopped classify consume (ds @ qs) s p"
  unfolding pipe_inv_def pipe_stopped_def by (metis snd_conv)

lemma pipe_stopped_cong:
  "p_outer p' = p_outer p \<Longrightarrow> p_consumer p' = p_consumer p \<Longrightarrow>
     pipe_stopped classify consume items s p' = pipe_stopped classify consume items s p"
  by (simp add: pipe_stopped_def excused_def)

lemma pipe_inv_pending: "pipe_inv classify consume ds qs s p \<Longrightarrow> p_pending p = length qs"
  by (auto simp: pipe_inv_def layout_def dest: list_all2_lengthD)

lemma pipe_stopped_append:
  "pipe_stopped classify consume xs s p \<Longrightarrow> pipe_stopped classify consume (xs @ ys) s p"
  unfolding pipe_stopped_def excused_def by (metis append_assoc seq_fails_append)

lemma pipeline_fail_fields [simp]:
  "p_slots (pipeline_fail e p) = p_slots p" "p_first (pipeline_fail e p) = p_first p"
  "p_pending (pipeline_fail e p) = p_pending p" "p_bytes (pipeline_fail e p) = p_bytes p"
  "p_limit (pipeline_fail e p) = p_limit p" "p_consumer (pipeline_fail e p) = p_consumer p"
  "p_outer (pipeline_fail e p) = p_outer p" "p_canceled p \<Longrightarrow> p_canceled (pipeline_fail e p)"
  by (auto simp: pipeline_fail_def Let_def split: option.splits prod.splits)

lemma layout_fail [simp]: "layout (pipeline_fail e p) q idle = layout p q idle"
  by (simp add: layout_def)

text \<open>What the shape of the pipeline is; events and failures leave it alone.\<close>

definition same_shape :: "'s pruneScanPipeline \<Rightarrow> 's pruneScanPipeline \<Rightarrow> bool" where
  "same_shape p p' \<longleftrightarrow> p_limit p' = p_limit p \<and> length (p_slots p') = length (p_slots p)"

lemma same_shape_refl [simp]: "same_shape p p"
  by (simp add: same_shape_def)

lemma same_shape_trans [trans]: "same_shape p q \<Longrightarrow> same_shape q r \<Longrightarrow> same_shape p r"
  by (simp add: same_shape_def)

lemma same_shape_fail [simp]: "same_shape p (pipeline_fail e q) = same_shape p q"
  by (simp add: same_shape_def)

lemma same_shape_release [simp]: "same_shape p (release_slot q) = same_shape p q"
  by (simp add: same_shape_def release_slot_def Let_def)

lemma worker_fields [simp]:
  "p_limit (worker_run c i p) = p_limit p" "length (p_slots (worker_run c i p)) = length (p_slots p)"
  "p_consumer (worker_run c i p) = p_consumer p" "p_outer (worker_run c i p) = p_outer p"
  "p_first (worker_run c i p) = p_first p" "p_pending (worker_run c i p) = p_pending p"
  by (simp_all add: worker_run_def Let_def split: prod.splits)

lemma event_fields [simp]:
  "p_limit (pipe_event c ev p) = p_limit p" "length (p_slots (pipe_event c ev p)) = length (p_slots p)"
  "p_consumer (pipe_event c ev p) = p_consumer p" "p_first (pipe_event c ev p) = p_first p"
  "p_pending (pipe_event c ev p) = p_pending p"
  by (cases ev; simp)+

lemma events_fields:
  "p_limit (foldl (\<lambda>q ev. pipe_event c ev q) p evs) = p_limit p \<and>
   length (p_slots (foldl (\<lambda>q ev. pipe_event c ev q) p evs)) = length (p_slots p) \<and>
   p_consumer (foldl (\<lambda>q ev. pipe_event c ev q) p evs) = p_consumer p \<and>
   p_first (foldl (\<lambda>q ev. pipe_event c ev q) p evs) = p_first p \<and>
   p_pending (foldl (\<lambda>q ev. pipe_event c ev q) p evs) = p_pending p"
  by (induction evs arbitrary: p) simp_all

lemma tick_fields [simp]:
  "p_limit (pipe_tick c sched p) = p_limit p" "length (p_slots (pipe_tick c sched p)) = length (p_slots p)"
  "p_consumer (pipe_tick c sched p) = p_consumer p" "p_first (pipe_tick c sched p) = p_first p"
  "p_pending (pipe_tick c sched p) = p_pending p"
  using events_fields [of c "p\<lparr>p_clock := p_clock p + 1\<rparr>" "sched (p_clock p)"] by (simp_all add: pipe_tick_def)

lemma same_shape_tick [simp]: "same_shape p (pipe_tick c sched q) = same_shape p q"
  by (simp add: same_shape_def)

lemma same_shape_worker [simp]: "same_shape p (worker_run c i q) = same_shape p q"
  by (simp add: same_shape_def)

section \<open>Every operation keeps the invariant\<close>

text \<open>
  What the pipeline relies on of the classifier it is given: under a cancelled context it fails.
\<close>

locale scan_classifier =
  fixes classify :: classifier
  assumes canceled_fails: "fst (classify True k v r) \<noteq> None"
begin

lemma fail_inv:
  assumes "pipe_inv classify consume ds qs s p"
    and "\<And>e. err = Some e \<Longrightarrow> e \<noteq> PruneCanceled \<Longrightarrow> excused classify consume (ds @ qs) s p"
  shows "pipe_inv classify consume ds qs s (pipeline_fail err p)"
proof -
  have mono: "p_canceled p \<longrightarrow> p_canceled (pipeline_fail err p)" by simp
  have same: "p_canceled (pipeline_fail err p) \<or> p_failure (pipeline_fail err p) \<noteq> None \<Longrightarrow>
      p_canceled p \<or> p_failure p \<noteq> None \<or> (\<exists>e. err = Some e \<and> e \<noteq> PruneCanceled)"
    by (auto simp: pipeline_fail_def migrateRunFailure_record_def split: option.splits if_splits)
  from assms(1) obtain q idle where "layout p q idle" "list_all2 (slot_ok classify (p_canceled p)) qs q"
    by (auto simp: pipe_inv_def)
  with mono have "\<exists>q idle. layout (pipeline_fail err p) q idle \<and>
      list_all2 (slot_ok classify (p_canceled (pipeline_fail err p))) qs q"
    using slots_ok_mono [OF _ mono] by auto
  moreover have "excused classify consume (ds @ qs) s (pipeline_fail err p)"
    if "p_canceled (pipeline_fail err p) \<or> p_failure (pipeline_fail err p) \<noteq> None"
    using same [OF that] assms by (auto simp: pipe_inv_def excused_def)
  ultimately show ?thesis using assms(1) by (simp add: pipe_inv_def)
qed

lemma worker_inv:
  assumes inv: "pipe_inv classify consume ds qs s p"
  shows "pipe_inv classify consume ds qs s (worker_run classify i p)"
proof (cases "i < length (p_slots p) \<and> r_done (p_slots p ! i) = SlotQueued")
  case True
  from inv obtain q idle where lay: "layout p q idle"
    and ok: "list_all2 (slot_ok classify (p_canceled p)) qs q" by (auto simp: pipe_inv_def)
  then have f: "p_first p < length (p_slots p)" and rot: "rotate (p_first p) (p_slots p) = q @ idle"
    by (auto simp: layout_def)
  from rotate_index [OF f] True obtain j where j: "j < length (p_slots p)"
    "i = (p_first p + j) mod length (p_slots p)" by blast
  have nth: "p_slots p ! i = (q @ idle) ! j" using nth_rotate [OF j(1), of "p_first p"] rot j(2) by simp
  have jq: "j < length q"
  proof (rule ccontr)
    assume "\<not> j < length q"
    then have "p_slots p ! i \<in> set idle" using nth j(1) layout_length [OF lay] by (simp add: nth_append)
    with lay True show False by (auto simp: layout_def)
  qed
  then have r: "p_slots p ! i = q ! j" using nth by (simp add: nth_append)
  have jqs: "j < length qs" using jq ok by (simp add: list_all2_lengthD)
  obtain k v r0 where x: "qs ! j = (k, v, r0)" by (cases "qs ! j")
  have so: "slot_ok classify (p_canceled p) (k, v, r0) (q ! j)"
    using list_all2_nthD [OF ok jqs] x by simp
  with True r have key: "r_key (q ! j) = k" "r_value (q ! j) = v" "r_role (q ! j) = r0"
    by (auto simp: slot_ok_def)
  obtain err role where c: "classify (p_canceled p) k v r0 = (err, role)" by (cases "classify (p_canceled p) k v r0")
  let ?r = "(q ! j)\<lparr>r_role := role, r_err := err, r_done := SlotDone\<rparr>"
  let ?p = "p\<lparr>p_slots := (p_slots p)[i := ?r]\<rparr>"
  have "rotate (p_first p) ((p_slots p)[i := ?r]) = q[j := ?r] @ idle"
    using rotate_update [OF f j(1), of ?r] rot jq by (simp add: j(2) list_update_append)
  moreover have "map slot_size (q[j := ?r]) = map slot_size q"
    using jq by (simp add: map_update list_update_same_conv slot_size_def)
  ultimately have "layout ?p (q[j := ?r]) idle" using lay by (simp add: layout_def)
  moreover have "slot_ok classify (p_canceled p) (k, v, r0) ?r"
    using c key canceled_fails [of k v r0] by (cases "p_canceled p"; cases err) (auto simp: slot_ok_def)
  then have "list_all2 (slot_ok classify (p_canceled p)) (qs[j := qs ! j]) (q[j := ?r])"
    using ok x by (simp only: list_all2_update_cong)
  then have "list_all2 (slot_ok classify (p_canceled p)) qs (q[j := ?r])" by simp
  ultimately have "pipe_inv classify consume ds qs s ?p"
    using inv by (auto simp: pipe_inv_def excused_def)
  then have "pipe_inv classify consume ds qs s (pipeline_fail err ?p)"
  proof (rule fail_inv)
    fix e assume e: "err = Some e"
    show "excused classify consume (ds @ qs) s ?p"
    proof (cases "p_canceled p")
      case True
      with inv show ?thesis by (simp add: pipe_inv_def excused_def)
    next
      case False
      with c e have "fst (classify False k v r0) \<noteq> None" by simp
      moreover have "(k, v, r0) \<in> set (ds @ qs)" using jqs x by (metis in_set_conv_decomp nth_mem Un_iff set_append)
      ultimately show ?thesis by (simp add: excused_def seq_fails_item del: set_append)
    qed
  qed
  with True r c key show ?thesis by (simp add: worker_run_def)
qed (use inv in \<open>auto simp: worker_run_def\<close>)

lemma event_inv:
  assumes "pipe_inv classify consume ds qs s p"
  shows "pipe_inv classify consume ds qs s (pipe_event classify ev p)"
proof (cases ev)
  case OuterCancel
  from assms obtain q idle where "layout p q idle" "list_all2 (slot_ok classify True) qs q"
    by (auto simp: pipe_inv_def intro: slots_ok_mono)
  with assms OuterCancel show ?thesis by (auto simp: pipe_inv_def layout_def excused_def)
qed (simp add: worker_inv assms)

lemma events_inv:
  "pipe_inv classify consume ds qs s p \<Longrightarrow>
     pipe_inv classify consume ds qs s (foldl (\<lambda>q ev. pipe_event classify ev q) p evs)"
  by (induction evs arbitrary: p) (simp_all add: event_inv)

lemma tick_inv:
  "pipe_inv classify consume ds qs s p \<Longrightarrow> pipe_inv classify consume ds qs s (pipe_tick classify sched p)"
  unfolding pipe_tick_def by (rule events_inv) (simp add: pipe_inv_def layout_def excused_def)

text \<open>The result of an operation: the invariant with all records accounted for, or stopped.\<close>

lemma poll_inv:
  assumes "pipe_inv classify consume ds qs s p" "poll_context classify sched p = (err, p')"
  shows "pipe_inv classify consume ds qs s p'" "same_shape p p'" "p_pending p' = p_pending p"
    "err = None \<Longrightarrow> \<not> p_canceled p'" "err \<noteq> None \<Longrightarrow> pipe_stopped classify consume (ds @ qs) s p'"
proof -
  have p': "p' = pipe_tick classify sched p" and err: "err = (if p_canceled p' then Some PruneCanceled else None)"
    using assms(2) by (auto simp: poll_context_def Let_def)
  show inv: "pipe_inv classify consume ds qs s p'" using tick_inv [OF assms(1)] p' by simp
  show "same_shape p p'" "p_pending p' = p_pending p" "err = None \<Longrightarrow> \<not> p_canceled p'"
    using p' err by (auto split: if_splits)
  assume "err \<noteq> None"
  with err inv show "pipe_stopped classify consume (ds @ qs) s p'"
    by (intro pipe_inv_stopped) (auto simp: pipe_inv_def split: if_splits)
qed

lemma walk_consume_inv:
  assumes inv: "pipe_inv classify consume ds (x # qs) s p" and x: "x = (k, v, r)"
    and cl: "classify False k v r = (None, role)"
    and wc: "walk_consume classify consume sched (k, v, role) p = (err, p')"
  shows "same_shape p p'" "p_pending p' = p_pending p"
    "err = None \<Longrightarrow> seq_run classify consume (ds @ [x]) s = (None, p_consumer p') \<and>
       (\<exists>p1. pipe_inv classify consume ds (x # qs) s p1 \<and>
          p' = p1\<lparr>p_consumer := p_consumer p', p_scan := p_scan p'\<rparr>)"
    "err \<noteq> None \<Longrightarrow> pipe_stopped classify consume (ds @ x # qs) s p'"
proof -
  let ?p = "pipe_tick classify sched p"
  have inv1: "pipe_inv classify consume ds (x # qs) s ?p" by (rule tick_inv [OF inv])
  then have run: "seq_run classify consume ds s = (None, p_consumer ?p)" by (simp add: pipe_inv_def)
  show "same_shape p p'" "p_pending p' = p_pending p"
    using wc by (auto simp: walk_consume_def Let_def same_shape_def split: if_splits option.splits prod.splits)
  show "seq_run classify consume (ds @ [x]) s = (None, p_consumer p') \<and>
       (\<exists>p1. pipe_inv classify consume ds (x # qs) s p1 \<and>
          p' = p1\<lparr>p_consumer := p_consumer p', p_scan := p_scan p'\<rparr>)" if "err = None"
  proof -
    from wc that obtain s' where c: "consume (k, v, role) (p_consumer ?p) = (None, s')"
      and p': "p' = ?p\<lparr>p_consumer := s', p_scan := map_option (PruneKVCount_add k v) (p_scan ?p)\<rparr>"
      by (auto simp: walk_consume_def Let_def split: if_splits option.splits prod.splits)
    have "p' = ?p\<lparr>p_consumer := p_consumer p', p_scan := p_scan p'\<rparr>" using p' by simp
    with inv1 run c p' cl x show ?thesis by (auto simp: seq_run_append)
  qed
  assume "err \<noteq> None"
  then obtain e where e: "err = Some e" by auto
  show "pipe_stopped classify consume (ds @ x # qs) s p'"
  proof (cases "p_outer ?p")
    case True
    then have "p' = ?p" using wc by (simp add: walk_consume_def Let_def)
    with True show ?thesis using pipe_inv_stopped [OF inv1] by (simp add: excused_def)
  next
    case False
    with wc e obtain s' where c: "consume (k, v, role) (p_consumer ?p) = (Some e, s')"
      and p': "p' = ?p\<lparr>p_consumer := s'\<rparr>"
      by (auto simp: walk_consume_def Let_def split: if_splits option.splits prod.splits)
    have "seq_run classify consume (ds @ [x]) s = (Some e, s')"
      using run c cl x by (simp add: seq_run_append)
    moreover from this have "seq_fails classify consume ((ds @ [x]) @ qs) s"
      unfolding seq_fails_def [symmetric] by (metis seq_fails_append seq_fails_def fst_conv option.distinct(1))
    ultimately have "seq_fails classify consume (ds @ x # qs) s"
      "ds @ x # qs = (ds @ [x]) @ qs" "snd (seq_run classify consume (ds @ [x]) s) = p_consumer p'"
      using p' by simp_all
    then show ?thesis unfolding pipe_stopped_def excused_def by blast
  qed
qed

lemma release_inv:
  assumes inv: "pipe_inv classify consume ds (x # qs) s p1"
    and p': "p' = p1\<lparr>p_consumer := s', p_scan := sc\<rparr>"
    and run: "seq_run classify consume (ds @ [x]) s = (None, s')"
  shows "pipe_inv classify consume (ds @ [x]) qs s (release_slot p')"
proof -
  from inv obtain q idle where lay: "layout p1 q idle"
    and ok: "list_all2 (slot_ok classify (p_canceled p1)) (x # qs) q" by (auto simp: pipe_inv_def)
  from ok obtain r q' where q: "q = r # q'" by (cases q) auto
  from lay q p' have "layout p' (r # q') idle" by (simp add: layout_def)
  from layout_release [OF this] obtain e where "layout (release_slot p') q' (idle @ [e])" by blast
  moreover have "p_canceled (release_slot p') = p_canceled p1" "p_failure (release_slot p') = p_failure p1"
    "p_outer (release_slot p') = p_outer p1" "p_consumer (release_slot p') = s'"
    using p' by (simp_all add: release_slot_def Let_def)
  ultimately show ?thesis
    using inv ok q run by (auto simp: pipe_inv_def excused_def)
qed

lemma pipe_head:
  assumes "pipe_inv classify consume ds (x # qs) s p"
  shows "slot_ok classify (p_canceled p) x (p_slots p ! p_first p)"
proof -
  from assms obtain q idle where lay: "layout p q idle"
    and ok: "list_all2 (slot_ok classify (p_canceled p)) (x # qs) q" by (auto simp: pipe_inv_def)
  from ok obtain r q' where q: "q = r # q'" by (cases q) auto
  with lay ok show ?thesis using layout_first [of p r q' idle] by simp
qed

lemma await_done:
  assumes inv: "pipe_inv classify consume ds (x # qs) s p"
  shows "r_done (p_slots (await_slot classify sched p) ! p_first (await_slot classify sched p)) = SlotDone"
proof -
  let ?p = "pipe_tick classify sched p"
  have inv1: "pipe_inv classify consume ds (x # qs) s ?p" by (rule tick_inv [OF inv])
  have "p_first ?p < length (p_slots ?p)" using inv1 by (auto simp: pipe_inv_def layout_def)
  with pipe_head [OF inv1] show ?thesis
    by (auto simp: await_slot_def Let_def worker_run_def slot_ok_def split: prod.splits)
qed

lemma drainOne_inv:
  assumes inv: "pipe_inv classify consume ds (x # qs) s p"
    and dr: "drainOne classify consume sched p = (err, p')"
  shows "same_shape p p'"
    "err = None \<Longrightarrow> pipe_inv classify consume (ds @ [x]) qs s p'"
    "err \<noteq> None \<Longrightarrow> pipe_stopped classify consume (ds @ x # qs) s p'"
proof -
  let ?p1 = "await_slot classify sched p"
  let ?r = "p_slots ?p1 ! p_first ?p1"
  obtain k v r where x: "x = (k, v, r)" by (cases x)
  have inv1: "pipe_inv classify consume ds (x # qs) s ?p1"
    unfolding await_slot_def Let_def by (intro worker_inv tick_inv inv)
  have sh1: "same_shape p ?p1" by (simp add: await_slot_def Let_def)
  have ok: "slot_ok classify (p_canceled ?p1) (k, v, r) ?r" using pipe_head [OF inv1] x by simp
  have fin: "r_done ?r = SlotDone" by (rule await_done [OF inv])
  obtain e2 p2 where body: "(case r_err ?r of
              Some e \<Rightarrow> (Some e, ?p1)
            | None \<Rightarrow> (case poll_context classify sched ?p1 of
                  (Some e, p2) \<Rightarrow> (Some e, p2)
                | (None, p2) \<Rightarrow> walk_consume classify consume sched (slot_item ?r) p2)) = (e2, p2)"
    by fastforce
  then have res: "err = e2" "p' = release_slot (pipeline_fail e2 p2)"
    using dr by (auto simp: drainOne_def Let_def)
  have stop: "pipe_stopped classify consume (ds @ x # qs) s p' = pipe_stopped classify consume (ds @ x # qs) s p2"
    using res by (intro pipe_stopped_cong) (simp_all add: release_slot_def Let_def)
  consider (err) e where "r_err ?r = Some e" "e2 = Some e" "p2 = ?p1"
    | (poll) e where "r_err ?r = None" "poll_context classify sched ?p1 = (Some e, p2)" "e2 = Some e"
    | (walk) p3 where "r_err ?r = None" "poll_context classify sched ?p1 = (None, p3)"
        "walk_consume classify consume sched (slot_item ?r) p3 = (e2, p2)"
    using body by (cases "r_err ?r"; cases "poll_context classify sched ?p1"; cases "fst (poll_context classify sched ?p1)") auto
  then have "same_shape p p' \<and> (err = None \<longrightarrow> pipe_inv classify consume (ds @ [x]) qs s p') \<and>
      (err \<noteq> None \<longrightarrow> pipe_stopped classify consume (ds @ x # qs) s p')"
  proof cases
    case err
    with ok have "p_canceled ?p1 \<or> fst (classify False k v r) \<noteq> None" by (auto simp: slot_ok_def)
    then have "excused classify consume (ds @ x # qs) s ?p1"
    proof
      assume "p_canceled ?p1"
      with inv1 show ?thesis by (simp add: pipe_inv_def)
    next
      assume "fst (classify False k v r) \<noteq> None"
      then have "seq_fails classify consume (ds @ x # qs) s" using x by (intro seq_fails_item [of k v r]) auto
      then show ?thesis by (simp add: excused_def)
    qed
    with err res stop sh1 pipe_inv_stopped [OF inv1] show ?thesis by simp
  next
    case poll
    with poll_inv [OF inv1 poll(2)] sh1 res stop show ?thesis by (auto intro: same_shape_trans)
  next
    case walk
    note p3 = poll_inv [OF inv1 walk(2)]
    from ok fin walk(1) have cl: "classify False k v r = (None, r_role ?r)"
      and item: "slot_item ?r = (k, v, r_role ?r)"
      by (auto simp: slot_ok_def slot_item_def)
    note w = walk_consume_inv [OF p3(1) x cl walk(3) [unfolded item]]
    have sh: "same_shape p p'"
      using sh1 p3(2) w(1) res by (auto intro: same_shape_trans)
    show ?thesis
    proof (cases e2)
      case None
      from w(3) [OF None] obtain p1 where p1: "pipe_inv classify consume ds (x # qs) s p1"
        "p2 = p1\<lparr>p_consumer := p_consumer p2, p_scan := p_scan p2\<rparr>"
        and run: "seq_run classify consume (ds @ [x]) s = (None, p_consumer p2)" by auto
      from release_inv [OF p1 run] res None sh show ?thesis by (simp add: pipeline_fail_def)
    next
      case (Some e)
      with w(4) res stop sh show ?thesis by simp
    qed
  qed
  then show "same_shape p p'"
    "err = None \<Longrightarrow> pipe_inv classify consume (ds @ [x]) qs s p'"
    "err \<noteq> None \<Longrightarrow> pipe_stopped classify consume (ds @ x # qs) s p'" by auto
qed

lemma drain_loop_inv:
  assumes "pipe_inv classify consume ds qs s p" "drain_loop classify consume sched (length qs) p = (err, p')"
  shows "same_shape p p' \<and> (err = None \<longrightarrow> pipe_inv classify consume (ds @ qs) [] s p' \<and> \<not> p_canceled p') \<and>
     (err \<noteq> None \<longrightarrow> pipe_stopped classify consume (ds @ qs) s p')"
  using assms
proof (induction qs arbitrary: ds p)
  case Nil
  with poll_inv [OF Nil(1), of sched err p'] show ?case by simp
next
  case (Cons x qs)
  obtain e p1 where d: "drainOne classify consume sched p = (e, p1)" by fastforce
  note inv = drainOne_inv [OF Cons.prems(1) d]
  show ?case
  proof (cases e)
    case None
    with d Cons.prems(2) have "drain_loop classify consume sched (length qs) p1 = (err, p')" by simp
    from Cons.IH [OF inv(2) [OF None] this] inv(1) show ?thesis by (auto intro: same_shape_trans)
  next
    case (Some a)
    with d Cons.prems(2) have "err = Some a" "p' = p1" by simp_all
    with inv Some show ?thesis by simp
  qed
qed

lemma drain_inv:
  assumes "pipe_inv classify consume ds qs s p" "drain classify consume sched p = (err, p')"
  shows "same_shape p p' \<and> (err = None \<longrightarrow> pipe_inv classify consume (ds @ qs) [] s p' \<and> \<not> p_canceled p') \<and>
     (err \<noteq> None \<longrightarrow> pipe_stopped classify consume (ds @ qs) s p')"
  using drain_loop_inv [OF assms(1)] assms(2) pipe_inv_pending [OF assms(1)] by (simp add: drain_def)

text \<open>Making room ends: when nothing is pending there is room, so the coordinator never blocks.\<close>

lemma make_room_inv:
  assumes "pipe_inv classify consume ds qs s p" "sz \<le> p_limit p"
    and "make_room classify consume sched sz (length qs) p = (err, p')"
  shows "same_shape p p' \<and>
     (err = None \<longrightarrow> (\<exists>es rs. ds @ qs = es @ rs \<and> pipe_inv classify consume es rs s p') \<and>
        p_pending p' < length (p_slots p') \<and> p_bytes p' + sz \<le> p_limit p') \<and>
     (err \<noteq> None \<longrightarrow> pipe_stopped classify consume (ds @ qs) s p')"
  using assms
proof (induction qs arbitrary: ds p)
  case Nil
  from Nil(1) have "p_pending p = 0" "p_bytes p = 0" "0 < length (p_slots p)"
    by (auto simp: pipe_inv_def layout_def)
  moreover have "\<exists>es rs. ds @ [] = es @ rs \<and> pipe_inv classify consume es rs s p" using Nil(1) by blast
  ultimately show ?case using Nil by (auto split: if_splits)
next
  case (Cons x qs)
  show ?case
  proof (cases "p_pending p = length (p_slots p) \<or> p_bytes p + sz > p_limit p")
    case False
    have "p_pending p \<le> length (p_slots p)"
      using Cons.prems(1) layout_length by (fastforce simp: pipe_inv_def layout_def)
    moreover have "\<exists>es rs. ds @ x # qs = es @ rs \<and> pipe_inv classify consume es rs s p"
      using Cons.prems(1) by blast
    ultimately show ?thesis using False Cons.prems by auto
  next
    case True
    obtain e p1 where d: "drainOne classify consume sched p = (e, p1)" by fastforce
    note inv = drainOne_inv [OF Cons.prems(1) d]
    show ?thesis
    proof (cases e)
      case None
      with d True Cons.prems(3) have "make_room classify consume sched sz (length qs) p1 = (err, p')" by simp
      moreover have "sz \<le> p_limit p1" using Cons.prems(2) inv(1) by (simp add: same_shape_def)
      ultimately show ?thesis using Cons.IH [OF inv(2) [OF None]] inv(1) by (auto intro: same_shape_trans)
    next
      case (Some a)
      with d True Cons.prems(3) have "err = Some a" "p' = p1" by auto
      with inv Some show ?thesis by simp
    qed
  qed
qed

lemma push_snoc_inv:
  assumes "pipe_inv classify consume ds qs s p" "p_pending p < length (p_slots p)"
  shows "pipe_inv classify consume ds (qs @ [(k, v, r)]) s (enqueue (k, v, r) p)"
proof -
  from assms(1) obtain q idle where lay: "layout p q idle"
    and ok: "list_all2 (slot_ok classify (p_canceled p)) qs q" by (auto simp: pipe_inv_def)
  from assms(2) lay layout_length [OF lay] obtain x idle' where idle: "idle = x # idle'"
    by (cases idle) (auto simp: layout_def)
  let ?x = "x\<lparr>r_key := k, r_value := v, r_role := r, r_done := SlotQueued\<rparr>"
  have "layout (enqueue (k, v, r) p) (q @ [?x]) idle'" using layout_enqueue lay idle by simp
  moreover have "slot_ok classify (p_canceled p) (k, v, r) ?x"
    using lay idle by (simp add: slot_ok_def layout_def)
  then have "list_all2 (slot_ok classify (p_canceled p)) (qs @ [(k, v, r)]) (q @ [?x])"
    using ok by (simp add: list_all2_appendI)
  moreover have "p_canceled (enqueue (k, v, r) p) = p_canceled p" "p_failure (enqueue (k, v, r) p) = p_failure p"
    "p_outer (enqueue (k, v, r) p) = p_outer p" "p_consumer (enqueue (k, v, r) p) = p_consumer p"
    by (simp_all add: enqueue_def Let_def)
  moreover have "excused classify consume (ds @ qs @ [(k, v, r)]) s p" if "excused classify consume (ds @ qs) s p"
    using that seq_fails_append [of classify consume "ds @ qs" s "[(k, v, r)]"] by (auto simp: excused_def)
  ultimately show ?thesis using assms(1) by (auto simp: pipe_inv_def excused_def)
qed

text \<open>With an empty ring, a record that is not stored is an item that leaves the ring at once.\<close>

lemma pipe_inv_grow:
  assumes "pipe_inv classify consume ds [] s p" "seq_run classify consume (ds @ [x]) s = (None, s')"
  shows "pipe_inv classify consume (ds @ [x]) [] s (p\<lparr>p_consumer := s', p_scan := sc\<rparr>)"
  using assms seq_fails_append [of classify consume ds s "[x]"]
  by (auto simp: pipe_inv_def layout_def excused_def)

lemma stopped_snoc:
  assumes "pipe_inv classify consume ds [] s q" "excused classify consume (ds @ [x]) s q"
  shows "pipe_stopped classify consume (ds @ [x]) s q"
proof -
  from assms(1) have "snd (seq_run classify consume ds s) = p_consumer q" by (simp add: pipe_inv_def)
  with assms(2) show ?thesis unfolding pipe_stopped_def by blast
qed

lemma walk_consume_direct:
  assumes inv: "pipe_inv classify consume ds [] s p" and cl: "classify False k v r = (None, role)"
    and wc: "walk_consume classify consume sched (k, v, role) p = (err, p')"
  shows "same_shape p p' \<and> (err = None \<longrightarrow> pipe_inv classify consume (ds @ [(k, v, r)]) [] s p') \<and>
     (err \<noteq> None \<longrightarrow> pipe_stopped classify consume (ds @ [(k, v, r)]) s p')"
proof -
  let ?x = "(k, v, r)" and ?p = "pipe_tick classify sched p"
  have inv1: "pipe_inv classify consume ds [] s ?p" by (rule tick_inv [OF inv])
  then have run: "seq_run classify consume ds s = (None, p_consumer ?p)" by (simp add: pipe_inv_def)
  obtain e4 s4 where co: "consume (k, v, role) (p_consumer ?p) = (e4, s4)" by fastforce
  have seq: "seq_run classify consume (ds @ [?x]) s = (e4, s4)"
    using run co cl by (cases e4) (simp_all add: seq_run_append)
  consider (outer) "p_outer ?p" | (ok) "\<not> p_outer ?p" "e4 = None" | (bad) e where "\<not> p_outer ?p" "e4 = Some e"
    by (cases e4) auto
  then show ?thesis
  proof cases
    case outer
    then have "err = Some PruneCanceled" "p' = ?p" using wc by (simp_all add: walk_consume_def Let_def)
    with outer stopped_snoc [OF inv1] show ?thesis by (simp add: excused_def)
  next
    case ok
    then have "err = None" and p': "p' = ?p\<lparr>p_consumer := s4, p_scan := map_option (PruneKVCount_add k v) (p_scan ?p)\<rparr>"
      using wc co by (simp_all add: walk_consume_def Let_def)
    moreover have "same_shape p p'" using p' by (simp add: same_shape_def)
    ultimately show ?thesis using pipe_inv_grow [OF inv1] seq ok by simp
  next
    case bad
    then have e: "err = Some e" "p' = ?p\<lparr>p_consumer := s4\<rparr>"
      using wc co by (simp_all add: walk_consume_def Let_def)
    have "seq_fails classify consume (ds @ [?x]) s" using seq bad by (simp add: seq_fails_def)
    moreover have "ds @ [?x] = (ds @ [?x]) @ []" "snd (seq_run classify consume (ds @ [?x]) s) = p_consumer p'"
      using seq e by simp_all
    ultimately have "pipe_stopped classify consume (ds @ [?x]) s p'"
      unfolding pipe_stopped_def excused_def by blast
    with e show ?thesis by (simp add: same_shape_def)
  qed
qed

lemma consumeDirect_inv:
  assumes inv: "pipe_inv classify consume ds [] s p"
    and cd: "consumeDirect classify consume sched (k, v, r) p = (err, p')"
  shows "same_shape p p' \<and> (err = None \<longrightarrow> pipe_inv classify consume (ds @ [(k, v, r)]) [] s p') \<and>
     (err \<noteq> None \<longrightarrow> pipe_stopped classify consume (ds @ [(k, v, r)]) s p')"
proof -
  let ?x = "(k, v, r)" and ?p1 = "pipe_tick classify sched p"
  have inv1: "pipe_inv classify consume ds [] s ?p1" by (rule tick_inv [OF inv])
  obtain e1 role where c: "classify (p_canceled ?p1) k v r = (e1, role)" by fastforce
  show ?thesis
  proof (cases e1)
    case (Some e)
    then have "err = Some e" "p' = ?p1" using cd c by (simp_all add: consumeDirect_def Let_def)
    moreover have "excused classify consume (ds @ [?x]) s ?p1"
    proof (cases "p_canceled ?p1")
      case True
      with inv1 seq_fails_append [of classify consume ds s "[?x]"] show ?thesis by (auto simp: pipe_inv_def excused_def)
    next
      case False
      with c Some have "seq_fails classify consume (ds @ [?x]) s" by (intro seq_fails_item [of k v r]) auto
      then show ?thesis by (simp add: excused_def)
    qed
    ultimately show ?thesis using stopped_snoc [OF inv1] by simp
  next
    case None
    then have "\<not> p_canceled ?p1" using c canceled_fails [of k v r] by (metis fst_conv)
    with c None have cl: "classify False k v r = (None, role)" by simp
    obtain e2 p2 where po: "poll_context classify sched ?p1 = (e2, p2)" by fastforce
    note p2 = poll_inv [OF inv1 po]
    have sh: "same_shape p p2" using p2(2) by (simp add: same_shape_def)
    show ?thesis
    proof (cases e2)
      case (Some e)
      then have "err = Some e" "p' = p2" using cd c None po by (simp_all add: consumeDirect_def Let_def)
      with p2 Some sh pipe_stopped_append [of classify consume ds s p2 "[?x]"] show ?thesis by simp
    next
      case None2: None
      have "walk_consume classify consume sched (k, v, role) p2 = (err, p')"
        using cd c None po None2 by (simp add: consumeDirect_def Let_def)
      from walk_consume_direct [OF p2(1) cl this] sh show ?thesis by (auto intro: same_shape_trans)
    qed
  qed
qed

text \<open>Pushing a record: it is accounted for, in the ring or at the consumer, or the run stops.\<close>

lemma push_inv:
  assumes inv: "pipe_inv classify consume ds qs s p"
    and pu: "push classify consume sched (k, v, r) p = (err, p')"
  shows "(err = None \<longrightarrow> (\<exists>es rs. ds @ qs @ [(k, v, r)] = es @ rs \<and> pipe_inv classify consume es rs s p')) \<and>
     (err \<noteq> None \<longrightarrow> pipe_stopped classify consume (ds @ qs @ [(k, v, r)]) s p')"
proof -
  obtain e1 p1 where po: "poll_context classify sched p = (e1, p1)" by fastforce
  note p1 = poll_inv [OF inv po]
  note snoc = pipe_stopped_append [of classify consume "ds @ qs" s p' "[(k, v, r)]", simplified]
  let ?sz = "length k + length v"
  let ?direct = "?sz > p_limit p1 \<or> \<not> (r = pruneUnclassified \<and> length v \<ge> pruneParallelHashBytes) \<and> p_pending p1 = 0"
  have lq: "p_pending p1 = length qs" by (rule pipe_inv_pending [OF p1(1)])
  show ?thesis
  proof (cases e1)
    case (Some e)
    then have "err = Some e" "p' = p1" using pu po by (simp_all add: push_def)
    with p1(5) Some snoc show ?thesis by simp
  next
    case None
    obtain e2 p2 where dr: "drain classify consume sched p1 = (e2, p2)" by fastforce
    obtain e3 p3 where mr: "make_room classify consume sched ?sz (length qs) p1 = (e3, p3)" by fastforce
    show ?thesis
    proof (cases ?direct)
      case True
      have res: "(err, p') = (case e2 of Some e \<Rightarrow> (Some e, p2) | None \<Rightarrow> consumeDirect classify consume sched (k, v, r) p2)"
        using pu po None True dr by (auto simp: push_def Let_def split: option.splits)
      note d = drain_inv [OF p1(1) dr]
      show ?thesis
      proof (cases e2)
        case None2: None
        with res have "consumeDirect classify consume sched (k, v, r) p2 = (err, p')" by simp
        from consumeDirect_inv [OF _ this, of "ds @ qs" s] d None2 show ?thesis
          by (metis append.right_neutral append_assoc)
      next
        case (Some e)
        with res d snoc show ?thesis by simp
      qed
    next
      case False
      have res: "(err, p') = (case e3 of Some e \<Rightarrow> (Some e, p3) | None \<Rightarrow> (None, enqueue (k, v, r) p3))"
        using pu po None False mr lq by (auto simp: push_def Let_def split: option.splits)
      have "?sz \<le> p_limit p1" using False by simp
      note m = make_room_inv [OF p1(1) this mr]
      show ?thesis
      proof (cases e3)
        case None2: None
        with m obtain es rs where er: "ds @ qs = es @ rs" "pipe_inv classify consume es rs s p3"
          "p_pending p3 < length (p_slots p3)" by auto
        with push_snoc_inv [OF er(2,3), of k v r] res None2 show ?thesis
          by (metis append_assoc option.case(1) option.distinct(1) prod.inject)
      next
        case (Some e)
        with res m snoc show ?thesis by simp
      qed
    qed
  qed
qed

end

interpretation prune_classify: scan_classifier "classifyPruneRecord env lib"
  by unfold_locales (simp add: classify_canceled)

end
