(* ===== verification/PruneWalk.thy ===== *)
theory PruneWalk
  imports PrunePipeline
begin

text \<open>
  The walk over the difference of the source and the keep set (\<^verbatim>\<open>walkPruneDifference\<close>) computes
  what the plain loop computes on the roles found by lookup, for every schedule of the workers,
  every number of slots and every byte limit.
\<close>

section \<open>Without cancellation nothing cancels\<close>

definition uncancelled :: "schedule \<Rightarrow> bool" where
  "uncancelled sched \<longleftrightarrow> (\<forall>t. OuterCancel \<notin> set (sched t))"

lemma quiet_events:
  "OuterCancel \<notin> set evs \<Longrightarrow> p_outer (foldl (\<lambda>q ev. pipe_event c ev q) p evs) = p_outer p"
proof (induction evs arbitrary: p)
  case (Cons ev evs)
  then show ?case by (cases ev) auto
qed simp

lemma quiet_tick [simp]: "uncancelled sched \<Longrightarrow> p_outer (pipe_tick c sched p) = p_outer p"
  by (simp add: pipe_tick_def quiet_events uncancelled_def)

lemma quiet_poll: "uncancelled sched \<Longrightarrow> poll_context c sched p = (e, p') \<Longrightarrow> p_outer p' = p_outer p"
  by (auto simp: poll_context_def Let_def)

lemma quiet_consume: "uncancelled sched \<Longrightarrow> walk_consume c f sched i p = (e, p') \<Longrightarrow> p_outer p' = p_outer p"
  by (auto simp: walk_consume_def Let_def split: prod.splits option.splits if_splits)

lemma quiet_release [simp]: "p_outer (release_slot p) = p_outer p"
  by (simp add: release_slot_def Let_def)

lemma quiet_drainOne:
  assumes q: "uncancelled sched" and "drainOne c f sched p = (e, p')"
  shows "p_outer p' = p_outer p"
  using assms(2) by (auto simp: drainOne_def await_slot_def Let_def q
      split: prod.splits option.splits dest!: quiet_poll [OF q] quiet_consume [OF q])

lemma quiet_drain_loop:
  assumes q: "uncancelled sched" and "drain_loop c f sched n p = (e, p')"
  shows "p_outer p' = p_outer p"
  using assms(2)
  by (induction n arbitrary: p)
     (auto split: prod.splits option.splits dest: quiet_poll [OF q] dest!: quiet_drainOne [OF q])

lemma quiet_make_room:
  assumes q: "uncancelled sched" and "make_room c f sched sz n p = (e, p')"
  shows "p_outer p' = p_outer p"
  using assms(2)
  by (induction n arbitrary: p) (auto split: prod.splits option.splits if_splits dest!: quiet_drainOne [OF q])

lemma quiet_direct:
  assumes q: "uncancelled sched" and "consumeDirect c f sched i p = (e, p')"
  shows "p_outer p' = p_outer p"
  using assms(2) by (auto simp: consumeDirect_def Let_def q
      split: prod.splits option.splits dest!: quiet_poll [OF q] quiet_consume [OF q])

lemma quiet_push:
  assumes q: "uncancelled sched" and "push c f sched i p = (e, p')"
  shows "p_outer p' = p_outer p"
proof -
  obtain k v r where i: "i = (k, v, r)" by (cases i)
  obtain e1 p1 where po: "poll_context c sched p = (e1, p1)" by fastforce
  have en: "p_outer (enqueue j x) = p_outer x" for j and x :: "'a pruneScanPipeline"
    by (simp add: enqueue_def Let_def split: prod.splits)
  show ?thesis
    using assms(2) quiet_poll [OF q po]
    by (auto simp: push_def drain_def po Let_def i en split: prod.splits option.splits if_splits
        dest!: quiet_drain_loop [OF q] quiet_make_room [OF q] quiet_direct [OF q])
qed

lemma quiet_walk_loop:
  assumes q: "uncancelled sched" and "walk_loop c f sched kvs m p = (e, m', p')"
  shows "p_outer p' = p_outer p"
  using assms(2)
proof (induction kvs arbitrary: m p)
  case (Cons kv kvs)
  obtain k v where kv: "kv = (k, v)" by (cases kv)
  from Cons show ?case
    by (auto simp: kv split: prod.splits sum.splits option.splits dest!: quiet_push [OF q])
qed simp

section \<open>The loop over the source\<close>

context scan_classifier
begin

definition pipe_ok :: "'s scan_consumer \<Rightarrow> scan_item list \<Rightarrow> 's \<Rightarrow> 's pruneScanPipeline \<Rightarrow> bool" where
  "pipe_ok consume items s p \<longleftrightarrow> (\<exists>ds qs. items = ds @ qs \<and> pipe_inv classify consume ds qs s p)"

definition consumed_prefix :: "'s scan_consumer \<Rightarrow> scan_item list \<Rightarrow> 's \<Rightarrow> 's \<Rightarrow> bool" where
  "consumed_prefix consume items s s' \<longleftrightarrow> (\<exists>ds es. items = ds @ es \<and> snd (seq_run classify consume ds s) = s')"

lemma pipe_ok_push:
  assumes "pipe_ok consume items s p" "push classify consume sched (k, v, r) p = (err, p')"
  shows "err = None \<Longrightarrow> pipe_ok consume (items @ [(k, v, r)]) s p'"
    "err \<noteq> None \<Longrightarrow> pipe_stopped classify consume (items @ [(k, v, r)]) s p'"
  using assms push_inv [of consume _ _ s p sched k v r err p'] by (auto simp: pipe_ok_def)

lemma stopped_prefix: "pipe_stopped classify consume items s p \<Longrightarrow> consumed_prefix consume items s (p_consumer p)"
  by (auto simp: pipe_stopped_def consumed_prefix_def)

lemma pipe_ok_prefix: "pipe_ok consume items s p \<Longrightarrow> consumed_prefix consume items s (p_consumer p)"
  unfolding pipe_ok_def consumed_prefix_def pipe_inv_def by (metis snd_conv)

lemma walk_loop_inv:
  assumes "pipe_ok consume items s p" "walk_loop classify consume sched kvs m p = (err, m', p')"
    and "cursor_roles kvs m = ((ce, new), mc)"
  shows "(err = None \<longrightarrow> ce = None \<and> m' = mc \<and> pipe_ok consume (items @ new) s p') \<and>
     (err \<noteq> None \<longrightarrow> (ce \<noteq> None \<or> excused classify consume (items @ new) s p') \<and>
        consumed_prefix consume (items @ new) s (p_consumer p'))"
  using assms
proof (induction kvs arbitrary: items m p new ce mc)
  case Nil
  then show ?case by auto
next
  case (Cons kv kvs)
  obtain k v where kv: "kv = (k, v)" by (cases kv)
  obtain role m1 where cr: "cursor_role k v m = (role, m1)" by fastforce
  show ?case
  proof (cases role)
    case (Inl e)
    with Cons.prems cr kv have "err = Some e" "p' = p" "ce = Some e" "new = []" by auto
    with pipe_ok_prefix [OF Cons.prems(1)] show ?thesis by simp
  next
    case (Inr r)
    obtain ce1 new1 mc1 where rec: "cursor_roles kvs m1 = ((ce1, new1), mc1)" by (cases "cursor_roles kvs m1") auto
    with Cons.prems(3) cr kv Inr have new: "new = (k, v, r) # new1" "ce = ce1" "mc = mc1" by auto
    obtain e p1 where pu: "push classify consume sched (k, v, r) p = (e, p1)" by fastforce
    show ?thesis
    proof (cases e)
      case None
      with Cons.prems(2) cr kv Inr pu have "walk_loop classify consume sched kvs m1 p1 = (err, m', p')" by simp
      from Cons.IH [OF pipe_ok_push(1) [OF Cons.prems(1) pu None] this rec] new show ?thesis by simp
    next
      case (Some a)
      with Cons.prems(2) cr kv Inr pu have res: "err = Some a" "p' = p1" by auto
      from pipe_ok_push(2) [OF Cons.prems(1) pu] Some
      have "pipe_stopped classify consume ((items @ [(k, v, r)]) @ new1) s p1"
        by (simp only: pipe_stopped_append option.distinct not_False_eq_True)
      then have "excused classify consume (items @ new) s p'" "consumed_prefix consume (items @ new) s (p_consumer p')"
        using res new stopped_prefix [of consume "items @ new" s p'] by (simp_all add: pipe_stopped_def)
      with res show ?thesis by simp
    qed
  qed
qed

lemma pipe_ok_init: "0 < workers \<Longrightarrow> pipe_ok consume [] s (newPruneScanPipeline workers scanBytes scan s)"
  unfolding pipe_ok_def pipe_inv_def
  by (auto simp: newPruneScanPipeline_def layout_def empty_slot_def)

lemma drain_ok:
  assumes "pipe_ok consume items s p" "drain classify consume sched p = (err, p')"
  shows "err = None \<Longrightarrow> pipe_inv classify consume items [] s p'"
    "err \<noteq> None \<Longrightarrow> pipe_stopped classify consume items s p'"
  using assms drain_inv [of consume _ _ s p sched err p'] by (auto simp: pipe_ok_def)

lemma close_consumer [simp]: "p_consumer (pipeline_close classify sched p) = p_consumer p"
  by (simp add: pipeline_close_def)

lemma close_failure: "p_failure (pipeline_close classify sched p) = p_failure (pipe_tick classify sched p)"
  by (simp add: pipeline_close_def)

lemma walk_result:
  assumes adv: "cursor_advance \<lparr>mc_current = None, mc_rest = kv_entries keep, mc_fail = kv_fail keep\<rparr> = (None, m)"
    and roles: "cursor_roles (kv_entries db) m = ((ce, items), mc)" and w: "0 < workers"
    and walk: "walkPruneDifference classify consume sched workers scanBytes scan db keep s = (err, q)"
  shows "err = None \<Longrightarrow> ce = None \<and> mc_current mc = None \<and> \<not> kv_fail db \<and>
       seq_run classify consume items s = (None, p_consumer q)"
    "consumed_prefix consume items s (p_consumer q)"
    "err \<noteq> None \<Longrightarrow> uncancelled sched \<Longrightarrow>
       ce \<noteq> None \<or> mc_current mc \<noteq> None \<or> kv_fail db \<or> seq_fails classify consume items s"
proof -
  let ?p0 = "newPruneScanPipeline workers scanBytes scan s"
  obtain e1 m1 p1 where loop: "walk_loop classify consume sched (kv_entries db) m ?p0 = (e1, m1, p1)"
    by (cases "walk_loop classify consume sched (kv_entries db) m ?p0") auto
  obtain e2 p2 where fin: "(case e1 of Some e \<Rightarrow> (Some e, p1)
      | None \<Rightarrow> if kv_fail db then (Some PruneSourceRead, p1)
                else case mc_current m1 of Some (k, _) \<Rightarrow> (Some (PruneKeepMissing k), p1)
                     | None \<Rightarrow> drain classify consume sched p1) = (e2, p2)" by fastforce
  have q: "q = pipeline_close classify sched p2" and err: "err = (case p_failure q of Some e \<Rightarrow> Some e | None \<Rightarrow> e2)"
    using walk adv loop fin by (auto simp: walkPruneDifference_def Let_def migrateRunFailure_load_def)
  note li = walk_loop_inv [OF pipe_ok_init [OF w] loop roles, simplified]
  obtain e3 p3 where dr: "drain classify consume sched p1 = (e3, p3)" by fastforce
  consider (loop) e where "e1 = Some e" "e2 = Some e" "p2 = p1"
    | (source) "e1 = None" "kv_fail db" "e2 = Some PruneSourceRead" "p2 = p1"
    | (keep) k v where "e1 = None" "\<not> kv_fail db" "mc_current m1 = Some (k, v)" "e2 = Some (PruneKeepMissing k)" "p2 = p1"
    | (drain) "e1 = None" "\<not> kv_fail db" "mc_current m1 = None" "e2 = e3" "p2 = p3"
    using fin dr by (cases e1; cases "mc_current m1") (auto split: if_splits)
  then have main: "consumed_prefix consume items s (p_consumer p2) \<and>
      (e2 = None \<longrightarrow> ce = None \<and> mc_current mc = None \<and> \<not> kv_fail db \<and> pipe_inv classify consume items [] s p2) \<and>
      (e2 \<noteq> None \<longrightarrow> ce \<noteq> None \<or> mc_current mc \<noteq> None \<or> kv_fail db \<or> excused classify consume items s p2)"
  proof cases
    case drain
    with li have ok: "ce = None" "m1 = mc" "pipe_ok consume items s p1" by auto
    note d = drain_ok [OF ok(3) dr]
    have "pipe_ok consume items s p3" if "e3 = None"
      using d(1) [OF that] unfolding pipe_ok_def by (metis append.right_neutral)
    with drain ok d show ?thesis
      using pipe_ok_prefix [of consume items s p3] stopped_prefix [of consume items s p3]
      by (cases e3) (auto simp only: pipe_stopped_def option.distinct)
  qed (use li pipe_ok_prefix in auto)
  have close: "p_failure q = None \<or> excused classify consume items s (pipe_tick classify sched p2)" if "e2 = None"
    using main that tick_inv [of consume items "[]" s p2 sched] by (auto simp: q close_failure pipe_inv_def)
  show "consumed_prefix consume items s (p_consumer q)" using main q by simp
  show "ce = None \<and> mc_current mc = None \<and> \<not> kv_fail db \<and> seq_run classify consume items s = (None, p_consumer q)"
    if "err = None"
    using that main err q by (auto simp: pipe_inv_def split: option.splits)
  assume "err \<noteq> None" and qu: "uncancelled sched"
  have outer: "\<not> p_outer p2"
    using qu loop fin dr quiet_walk_loop [OF qu loop] quiet_drain_loop [OF qu, of classify consume "p_pending p1" p1 e3 p3]
    by (auto simp: newPruneScanPipeline_def drain_def split: option.splits if_splits)
  show "ce \<noteq> None \<or> mc_current mc \<noteq> None \<or> kv_fail db \<or> seq_fails classify consume items s"
  proof (cases e2)
    case None
    with \<open>err \<noteq> None\<close> err have "p_failure q \<noteq> None" by (auto split: option.splits)
    with close None outer qu show ?thesis by (simp add: excused_def)
  next
    case (Some e)
    with main outer show ?thesis by (auto simp: excused_def)
  qed
qed

end

section \<open>The walk by lookup\<close>

text \<open>
  The items the plain loop consumes: every entry with the role found by lookup. A foreign record
  stops it.
\<close>

definition db_ok :: "kv_view \<Rightarrow> bool" where
  "db_ok v \<longleftrightarrow> ascending (kv_entries v) \<and> \<not> kv_fail v"

definition keep_keys :: "kv_view \<Rightarrow> bytes set" where
  "keep_keys keep = fst ` set (kv_entries keep)"

definition role_items :: "geth_env \<Rightarrow> bytes set \<Rightarrow> kv list \<Rightarrow> scan_item list" where
  "role_items env keep kvs = map (\<lambda>(k, v). (k, v, role_of env keep (k, v))) kvs"

fun consume_items :: "'s scan_consumer \<Rightarrow> scan_item list \<Rightarrow> 's \<Rightarrow> prune_error option \<times> 's" where
  "consume_items consume [] s = (None, s)"
| "consume_items consume (i # is) s =
     (case consume i s of (Some e, s') \<Rightarrow> (Some e, s') | (None, s') \<Rightarrow> consume_items consume is s')"

lemma seq_run_lookup:
  "seq_run (classifyPruneRecord env lib) consume (raw_items keep kvs) s = (None, s') \<longleftrightarrow>
     (\<forall>kv \<in> set kvs. \<not> foreign env lib keep kv) \<and>
     consume_items consume (role_items env keep kvs) s = (None, s')"
proof (induction kvs arbitrary: s)
  case (Cons kv kvs)
  obtain k v where kv: "kv = (k, v)" by (cases kv)
  show ?case
    using Cons
    by (auto simp: kv raw_items_def role_items_def classify_raw_role foreign_def
        split: prod.splits option.splits if_splits)
qed (auto simp: raw_items_def role_items_def)

text \<open>Whatever the consumer was given is a prefix of what the lookup gives.\<close>

lemma seq_run_prefix:
  "\<exists>n. snd (seq_run (classifyPruneRecord env lib) consume (raw_items keep kvs) s) =
     snd (consume_items consume (take n (role_items env keep kvs)) s)"
proof (induction kvs arbitrary: s)
  case (Cons kv kvs)
  obtain k v where kv: "kv = (k, v)" by (cases kv)
  let ?role = "role_of env keep (k, v)"
  obtain e s1 where c: "consume (k, v, ?role) s = (e, s1)" by fastforce
  from Cons.IH [of s1] obtain n where n:
    "snd (seq_run (classifyPruneRecord env lib) consume (raw_items keep kvs) s1) =
     snd (consume_items consume (take n (role_items env keep kvs)) s1)" by auto
  show ?case
  proof (cases "foreign env lib keep kv")
    case True
    then show ?thesis
      by (intro exI [of _ 0])
         (auto simp: kv raw_items_def classify_raw_role foreign_def split: option.splits)
  next
    case False
    then have cl: "classifyPruneRecord env lib False k v (raw_role keep (k, v)) = (None, ?role)"
      by (auto simp: classify_raw_role foreign_def kv)
    show ?thesis
      using n by (cases e) (auto intro!: exI [of _ "Suc n"] simp: kv raw_items_def role_items_def cl c)
  qed
qed (auto simp: raw_items_def role_items_def)

definition initial_cursor :: "kv_view \<Rightarrow> pruneMergeCursor" where
  "initial_cursor keep = \<lparr>mc_current = None, mc_rest = kv_entries keep, mc_fail = kv_fail keep\<rparr>"

lemma initial_advance:
  assumes "ascending (kv_entries keep)" "cursor_advance (initial_cursor keep) = (None, m)"
  shows "cursor_wf m" "ahead m = kv_entries keep" "mc_fail m = kv_fail keep" "kv_entries keep = [] \<Longrightarrow> \<not> kv_fail keep"
  using assms
  by (auto simp: cursor_advance_def initial_cursor_def cursor_wf_def ahead_def split: list.splits if_splits)

text \<open>A merge that ends with nothing ahead has read the end of the keep set, so it did not fail.\<close>

lemma cursor_role_fail: "cursor_role k v m = (Inr r, m') \<Longrightarrow> mc_fail m' = mc_fail m \<and>
    (mc_current m' = None \<longrightarrow> mc_current m = None \<or> \<not> mc_fail m)"
  by (auto simp: cursor_role_def cursor_advance_def comparePruneValue_def Let_def
      split: option.splits prod.splits if_splits list.splits)

lemma cursor_roles_fail:
  "cursor_roles kvs m = ((None, items), m') \<Longrightarrow> mc_current m' = None \<Longrightarrow> mc_current m = None \<or> \<not> mc_fail m"
proof (induction kvs arbitrary: m items)
  case (Cons kv kvs)
  obtain k v where kv: "kv = (k, v)" by (cases kv)
  with Cons.prems obtain r m1 items1 where "cursor_role k v m = (Inr r, m1)" "cursor_roles kvs m1 = ((None, items1), m')"
    by (auto split: prod.splits sum.splits)
  with Cons.IH [of m1 items1] Cons.prems(2) cursor_role_fail [of k v m r m1] show ?case by auto
qed simp

lemma walk_sound:
  assumes asc: "ascending (kv_entries db)" "ascending (kv_entries keep)" and w: "0 < workers"
    and walk: "walkPruneDifference (classifyPruneRecord env lib) consume sched workers scanBytes scan db keep s = (None, q)"
  shows "db_ok db \<and> db_ok keep \<and> set (kv_entries keep) \<subseteq> set (kv_entries db) \<and>
     (\<forall>kv \<in> set (kv_entries db). \<not> foreign env lib (keep_keys keep) kv) \<and>
     consume_items consume (role_items env (keep_keys keep) (kv_entries db)) s = (None, p_consumer q)"
proof -
  from walk obtain m where adv: "cursor_advance (initial_cursor keep) = (None, m)"
    by (cases "cursor_advance (initial_cursor keep)"; cases "fst (cursor_advance (initial_cursor keep))")
       (auto simp: walkPruneDifference_def initial_cursor_def [symmetric] Let_def)
  obtain ce items mc where roles: "cursor_roles (kv_entries db) m = ((ce, items), mc)"
    by (cases "cursor_roles (kv_entries db) m") auto
  note m = initial_advance [OF asc(2) adv]
  from prune_classify.walk_result(1) [OF adv [unfolded initial_cursor_def] roles w walk]
  have ok: "ce = None" "mc_current mc = None" "\<not> kv_fail db"
    and seq: "seq_run (classifyPruneRecord env lib) consume items s = (None, p_consumer q)" by auto
  from cursor_roles_sound [OF m(1) asc(1) roles [unfolded ok(1)]] obtain used where
    used: "cursor_wf mc" "kv_entries keep = used @ ahead mc" "set used \<subseteq> set (kv_entries db)"
      "items = raw_items (fst ` set used) (kv_entries db)" using m(2) by auto
  have "ahead mc = []" using cursor_wf_None [OF used(1)] ok(2) by simp
  with used have all: "set (kv_entries keep) \<subseteq> set (kv_entries db)"
    "items = raw_items (keep_keys keep) (kv_entries db)" by (auto simp: keep_keys_def)
  have "\<not> kv_fail keep"
    using cursor_roles_fail [OF roles [unfolded ok(1)] ok(2)] m cursor_wf_None [OF m(1)] by auto
  with all seq ok asc show ?thesis by (auto simp: db_ok_def seq_run_lookup)
qed

lemma walk_complete:
  assumes "db_ok db" "db_ok keep" and w: "0 < workers" and q: "uncancelled sched"
    and sub: "set (kv_entries keep) \<subseteq> set (kv_entries db)"
    and nf: "\<forall>kv \<in> set (kv_entries db). \<not> foreign env lib (keep_keys keep) kv"
    and all: "consume_items consume (role_items env (keep_keys keep) (kv_entries db)) s = (None, s')"
  shows "\<exists>p. walkPruneDifference (classifyPruneRecord env lib) consume sched workers scanBytes scan db keep s = (None, p)
     \<and> p_consumer p = s'"
proof -
  have nofail: "\<not> kv_fail keep" "\<not> kv_fail db" and asc: "ascending (kv_entries keep)" "ascending (kv_entries db)"
    using assms by (auto simp: db_ok_def)
  obtain m where adv: "cursor_advance (initial_cursor keep) = (None, m)"
    using cursor_advance_no_fail [of "initial_cursor keep"] nofail by (auto simp: initial_cursor_def)
  note m = initial_advance [OF asc(1) adv]
  from cursor_roles_complete [OF m(1) asc(2)] m sub nofail obtain mc where
    roles: "cursor_roles (kv_entries db) m = ((None, raw_items (keep_keys keep) (kv_entries db)), mc)"
      "mc_current mc = None" by (auto simp: keep_keys_def)
  obtain err p where walk:
    "walkPruneDifference (classifyPruneRecord env lib) consume sched workers scanBytes scan db keep s = (err, p)" by fastforce
  note res = prune_classify.walk_result [OF adv [unfolded initial_cursor_def] roles(1) w walk]
  have seq: "seq_run (classifyPruneRecord env lib) consume (raw_items (keep_keys keep) (kv_entries db)) s = (None, s')"
    using nf all by (simp add: seq_run_lookup)
  then have "err = None" using res(3) q roles(2) nofail by (cases err) (auto simp: seq_fails_def)
  with res(1) seq walk show ?thesis by auto
qed

text \<open>Also when the walk fails, the roles it handed out are those of the lookup.\<close>

lemma cursor_roles_items:
  assumes "cursor_wf m" "ascending kvs" "cursor_roles kvs m = ((ce, items), mc)"
  shows "\<exists>n. items = raw_items (fst ` set (ahead m)) (take n kvs)"
  using assms
proof (induction kvs arbitrary: m items)
  case (Cons kv kvs)
  obtain k v where kv: "kv = (k, v)" by (cases kv)
  have above: "\<forall>k' \<in> fst ` set kvs. k < k'" and asc: "ascending kvs" using Cons.prems(2) kv by auto
  obtain role m1 where cr: "cursor_role k v m = (role, m1)" by fastforce
  show ?case
  proof (cases role)
    case (Inl e)
    with Cons.prems(3) cr kv have "items = []" by auto
    then show ?thesis by (intro exI [of _ 0]) (simp add: raw_items_def)
  next
    case (Inr r)
    with Cons.prems(3) cr kv obtain items1 where
      rest: "cursor_roles kvs m1 = ((ce, items1), mc)" and items: "items = (k, v, r) # items1"
      by (auto split: prod.splits)
    from cursor_role_cases [OF Cons.prems(1) cr [unfolded Inr]] show ?thesis
    proof
      assume "\<exists>rest. ahead m = (k, v) # rest \<and> r = pruneRetainState \<and> ahead m1 = rest \<and> cursor_wf m1"
      then have ah: "ahead m = (k, v) # ahead m1" and r: "r = pruneRetainState" and wf: "cursor_wf m1" by auto
      from Cons.IH [OF wf asc rest] obtain n where n: "items1 = raw_items (fst ` set (ahead m1)) (take n kvs)" by auto
      have "raw_items (fst ` set (ahead m)) (take n kvs) = items1"
        using above by (force simp: n ah raw_items_def raw_role_def dest: in_set_takeD)
      with items kv ah r show ?thesis by (intro exI [of _ "Suc n"]) (simp add: raw_items_def raw_role_def)
    next
      assume "r = unmatched_role k \<and> m1 = m \<and> (\<forall>k' \<in> fst ` set (ahead m). k < k')"
      then have r: "r = unmatched_role k" "m1 = m" "k \<notin> fst ` set (ahead m)" by auto
      from Cons.IH [OF Cons.prems(1) asc] rest r(2) obtain n where
        "items1 = raw_items (fst ` set (ahead m)) (take n kvs)" by auto
      with items kv r show ?thesis by (intro exI [of _ "Suc n"]) (simp add: raw_items_def raw_role_def)
    qed
  qed
qed (simp add: raw_items_def)

lemma walk_prefix:
  assumes asc: "ascending (kv_entries db)" "ascending (kv_entries keep)" and w: "0 < workers"
    and walk: "walkPruneDifference (classifyPruneRecord env lib) consume sched workers scanBytes scan db keep s = (err, q)"
  shows "\<exists>n. p_consumer q = snd (consume_items consume (take n (role_items env (keep_keys keep) (kv_entries db))) s)"
proof (cases "cursor_advance (initial_cursor keep)")
  case (Pair e m)
  show ?thesis
  proof (cases e)
    case (Some a)
    with walk Pair have "p_consumer q = s"
      by (auto simp: walkPruneDifference_def initial_cursor_def newPruneScanPipeline_def)
    then show ?thesis by (intro exI [of _ 0]) simp
  next
    case None
    with Pair have adv: "cursor_advance (initial_cursor keep) = (None, m)" by simp
    note m = initial_advance [OF asc(2) adv]
    obtain ce items mc where roles: "cursor_roles (kv_entries db) m = ((ce, items), mc)"
      by (cases "cursor_roles (kv_entries db) m") auto
    from cursor_roles_items [OF m(1) asc(1) roles] m(2) obtain n where
      items: "items = raw_items (keep_keys keep) (take n (kv_entries db))" by (auto simp: keep_keys_def)
    from prune_classify.walk_result(2) [OF adv [unfolded initial_cursor_def] roles w walk] obtain ds es where
      "items = ds @ es" and ds: "snd (seq_run (classifyPruneRecord env lib) consume ds s) = p_consumer q"
      by (auto simp: prune_classify.consumed_prefix_def)
    then have "ds = take (length ds) items" by simp
    also have "\<dots> = raw_items (keep_keys keep) (take (length ds) (take n (kv_entries db)))"
      by (simp only: items raw_items_def take_map)
    finally have "ds = raw_items (keep_keys keep) (take (min (length ds) n) (kv_entries db))" by simp
    with seq_run_prefix [of env lib consume "keep_keys keep" "take (min (length ds) n) (kv_entries db)" s] ds
    obtain l where "p_consumer q = snd (consume_items consume (take l (role_items env (keep_keys keep) (take (min (length ds) n) (kv_entries db)))) s)"
      by metis
    then show ?thesis by (auto simp: role_items_def take_map [symmetric])
  qed
qed

end
