(* ===== verification/PruneDelete.thy ===== *)
theory PruneDelete
  imports PruneWalk
begin

text \<open>
  The two consumers of the walk: the inventory scan (\<^verbatim>\<open>scanPruneDB\<close> of \<^verbatim>\<open>prune_scan.go\<close>) and
  the deletion (\<^verbatim>\<open>deletePruneDifference\<close> of \<^verbatim>\<open>prune.go\<close>). The deletion writes batches; every
  poll and every write may fail, and a failing write may or may not have been applied.
\<close>

section \<open>Definitions\<close>

definition prune_digest_domain :: bytes where
  "prune_digest_domain = map of_char ''metis-l2state-prune-protected/v1''"

definition empty_inventory :: pruneInventory where
  "empty_inventory = \<lparr>inv_Keep = zeroKV, inv_Protected = zeroKV, inv_Candidates = zeroKV,
     inv_Unknown = zeroKV, inv_Digest = zero_hash\<rparr>"

definition scan_record :: "(pruneInventory \<times> bytes) scan_consumer" where
  "scan_record = (\<lambda>(key, val, role) (res, digest).
     if role = pruneDelete
     then (None, res\<lparr>inv_Candidates := PruneKVCount_add key val (inv_Candidates res)\<rparr>, digest)
     else
       let res1 = (if role = pruneRetainState then res\<lparr>inv_Keep := PruneKVCount_add key val (inv_Keep res)\<rparr> else res);
           res2 = (if role = pruneUnknown then res1\<lparr>inv_Unknown := PruneKVCount_add key val (inv_Unknown res1)\<rparr> else res1);
           res3 = res2\<lparr>inv_Protected := PruneKVCount_add key val (inv_Protected res2)\<rparr>
       in (None, res3, hashPruneKV digest key val))"

text \<open>What a phase is run with: the schedule, the execution's bounds and the progress counters.\<close>

record scan_setup =
  su_sched :: schedule
  su_workers :: nat
  su_scanBytes :: nat
  su_progress :: "PruneKVCount option"

definition scanPruneDB ::
  "geth_env \<Rightarrow> rawdb_keys \<Rightarrow> scan_setup \<Rightarrow> kv_view \<Rightarrow> kv_view \<Rightarrow> (prune_error, pruneInventory) result" where
  "scanPruneDB env lib su db keep =
     (case walkPruneDifference (classifyPruneRecord env lib) scan_record (su_sched su) (su_workers su)
             (su_scanBytes su) (su_progress su) db keep (empty_inventory, prune_digest_domain) of
        (Some e, _) \<Rightarrow> Inl e
      | (None, p) \<Rightarrow> Inr ((fst (p_consumer p))\<lparr>inv_Digest := keccak256 env (snd (p_consumer p))\<rparr>))"

definition pruneDeleteBatchBytes :: nat where
  "pruneDeleteBatchBytes = 2 ^ 20"

definition pruneDeleteBatchKeys :: nat where
  "pruneDeleteBatchKeys = 16384"

datatype write_outcome = WriteDone | WriteLost | WriteAppliedWithError

text \<open>
  The outside of the deletion: what a poll of the context and a write answer, by the number of
  the flush, and the size of LevelDB's encoding of a batch.
\<close>

record delete_world =
  dw_poll :: faults
  dw_write :: "nat \<Rightarrow> write_outcome"
  dw_dumpLen :: "bytes list \<Rightarrow> nat"

record delete_state =
  d_batch :: "bytes list"
  d_pending :: PruneKVCount
  d_deleted :: PruneKVCount
  d_started :: bool
  d_flushes :: nat
  d_db :: "kv list"

definition apply_deletes :: "bytes list \<Rightarrow> kv list \<Rightarrow> kv list" where
  "apply_deletes keys db = filter (\<lambda>kv. fst kv \<notin> set keys) db"

definition addKV :: "PruneKVCount \<Rightarrow> PruneKVCount \<Rightarrow> PruneKVCount" where
  "addKV a b = \<lparr>Keys = Keys a + Keys b, Bytes = Bytes a + Bytes b\<rparr>"

definition delete_flush :: "delete_world \<Rightarrow> delete_state \<Rightarrow> prune_error option \<times> delete_state" where
  "delete_flush world st =
     (if d_batch st = [] then (None, st)
      else
        let n = d_flushes st; st1 = st\<lparr>d_flushes := n + 1\<rparr> in
        if dw_poll world n then (Some PruneCanceled, st1)
        else
          let st2 = st1\<lparr>d_started := True\<rparr> in
          (case dw_write world n of
             WriteLost \<Rightarrow> (Some PruneWriteFailed, st2)
           | WriteAppliedWithError \<Rightarrow> (Some PruneWriteFailed, st2\<lparr>d_db := apply_deletes (d_batch st2) (d_db st2)\<rparr>)
           | WriteDone \<Rightarrow>
               (None, st2\<lparr>d_db := apply_deletes (d_batch st2) (d_db st2),
                          d_deleted := addKV (d_deleted st2) (d_pending st2),
                          d_pending := zeroKV, d_batch := []\<rparr>)))"

definition delete_record :: "delete_world \<Rightarrow> delete_state scan_consumer" where
  "delete_record world = (\<lambda>(key, val, role) st.
     if role \<noteq> pruneDelete then (None, st)
     else
       let st1 = st\<lparr>d_batch := d_batch st @ [key], d_pending := PruneKVCount_add key val (d_pending st)\<rparr> in
       if length (d_batch st1) \<ge> pruneDeleteBatchKeys \<or> dw_dumpLen world (d_batch st1) \<ge> pruneDeleteBatchBytes
       then delete_flush world st1
       else (None, st1))"

definition delete_init :: "kv list \<Rightarrow> delete_state" where
  "delete_init db = \<lparr>d_batch = [], d_pending = zeroKV, d_deleted = zeroKV, d_started = False,
     d_flushes = 0, d_db = db\<rparr>"

definition deletePruneDifference ::
  "geth_env \<Rightarrow> rawdb_keys \<Rightarrow> scan_setup \<Rightarrow> delete_world \<Rightarrow> kv_view \<Rightarrow> kv_view \<Rightarrow>
   prune_error option \<times> delete_state" where
  "deletePruneDifference env lib su world db keep =
     (case walkPruneDifference (classifyPruneRecord env lib) (delete_record world) (su_sched su) (su_workers su)
             (su_scanBytes su) (su_progress su) db keep (delete_init (kv_entries db)) of
        (Some e, p) \<Rightarrow> (Some e, p_consumer p)
      | (None, p) \<Rightarrow> delete_flush world (p_consumer p))"

section \<open>The inventory by filtering\<close>

definition kv_total :: "kv list \<Rightarrow> PruneKVCount" where
  "kv_total kvs = \<lparr>Keys = of_nat (length kvs), Bytes = of_nat (sum_list (map (\<lambda>(k, v). length k + length v) kvs))\<rparr>"

definition with_role :: "geth_env \<Rightarrow> bytes set \<Rightarrow> prune_role \<Rightarrow> kv list \<Rightarrow> kv list" where
  "with_role env keep r kvs = filter (\<lambda>kv. role_of env keep kv = r) kvs"

definition candidates :: "geth_env \<Rightarrow> bytes set \<Rightarrow> kv list \<Rightarrow> kv list" where
  "candidates env keep kvs = with_role env keep pruneDelete kvs"

definition survivors :: "geth_env \<Rightarrow> bytes set \<Rightarrow> kv list \<Rightarrow> kv list" where
  "survivors env keep kvs = filter (\<lambda>kv. role_of env keep kv \<noteq> pruneDelete) kvs"

definition inventory_of :: "geth_env \<Rightarrow> bytes set \<Rightarrow> kv list \<Rightarrow> pruneInventory" where
  "inventory_of env keep kvs =
     \<lparr>inv_Keep = kv_total (with_role env keep pruneRetainState kvs),
      inv_Protected = kv_total (survivors env keep kvs),
      inv_Candidates = kv_total (candidates env keep kvs),
      inv_Unknown = kv_total (with_role env keep pruneUnknown kvs),
      inv_Digest = keccak256 env (prune_digest_domain @ concat (map prune_frame (survivors env keep kvs)))\<rparr>"

lemma kv_total_simps [simp]:
  "kv_total [] = zeroKV" "kv_total (kvs @ [(k, v)]) = PruneKVCount_add k v (kv_total kvs)"
  by (simp_all add: kv_total_def zeroKV_def PruneKVCount_add_def)

lemma consume_items_append:
  "consume_items f (xs @ ys) s =
     (case consume_items f xs s of (Some e, s') \<Rightarrow> (Some e, s') | (None, s') \<Rightarrow> consume_items f ys s')"
  by (induction xs arbitrary: s) (auto split: prod.splits option.splits)

lemma scan_records:
  "consume_items scan_record (role_items env keep kvs) (empty_inventory, prune_digest_domain) =
     (None, (inventory_of env keep kvs)\<lparr>inv_Digest := zero_hash\<rparr>,
      prune_digest_domain @ concat (map prune_frame (survivors env keep kvs)))"
proof (induction kvs rule: rev_induct)
  case Nil
  show ?case
    by (simp add: role_items_def inventory_of_def with_role_def survivors_def candidates_def empty_inventory_def)
next
  case (snoc kv kvs)
  obtain k v where kv: "kv = (k, v)" by (cases kv)
  have "role_items env keep (kvs @ [kv]) = role_items env keep kvs @ [(k, v, role_of env keep (k, v))]"
    by (simp add: role_items_def kv)
  with snoc show ?case
    by (cases "role_of env keep (k, v)")
       (auto simp: consume_items_append scan_record_def kv inventory_of_def with_role_def survivors_def
          candidates_def hashPruneKV_frame Let_def)
qed

lemma scanPruneDB_sound:
  assumes "ascending (kv_entries db)" "ascending (kv_entries keep)" "0 < su_workers su"
    and "scanPruneDB env lib su db keep = Inr i"
  shows "i = inventory_of env (keep_keys keep) (kv_entries db)" "db_ok db" "db_ok keep"
    "set (kv_entries keep) \<subseteq> set (kv_entries db)"
    "\<forall>kv \<in> set (kv_entries db). \<not> foreign env lib (keep_keys keep) kv"
proof -
  from assms(4) obtain p where
    walk: "walkPruneDifference (classifyPruneRecord env lib) scan_record (su_sched su) (su_workers su)
             (su_scanBytes su) (su_progress su) db keep (empty_inventory, prune_digest_domain) = (None, p)"
    and i: "i = (fst (p_consumer p))\<lparr>inv_Digest := keccak256 env (snd (p_consumer p))\<rparr>"
    by (auto simp: scanPruneDB_def split: prod.splits option.splits)
  from walk_sound [OF assms(1-3) walk]
  show "db_ok db" "db_ok keep" "set (kv_entries keep) \<subseteq> set (kv_entries db)"
    "\<forall>kv \<in> set (kv_entries db). \<not> foreign env lib (keep_keys keep) kv" by auto
  from walk_sound [OF assms(1-3) walk]
  have "p_consumer p = ((inventory_of env (keep_keys keep) (kv_entries db))\<lparr>inv_Digest := zero_hash\<rparr>,
      prune_digest_domain @ concat (map prune_frame (survivors env (keep_keys keep) (kv_entries db))))"
    by (simp add: scan_records)
  with i show "i = inventory_of env (keep_keys keep) (kv_entries db)" by (simp add: inventory_of_def)
qed

lemma scanPruneDB_complete:
  assumes "db_ok db" "db_ok keep" "0 < su_workers su" "uncancelled (su_sched su)"
    and "set (kv_entries keep) \<subseteq> set (kv_entries db)"
    and "\<forall>kv \<in> set (kv_entries db). \<not> foreign env lib (keep_keys keep) kv"
  shows "scanPruneDB env lib su db keep = Inr (inventory_of env (keep_keys keep) (kv_entries db))"
proof -
  from walk_complete [OF assms scan_records] obtain p where
    "walkPruneDifference (classifyPruneRecord env lib) scan_record (su_sched su) (su_workers su)
       (su_scanBytes su) (su_progress su) db keep (empty_inventory, prune_digest_domain) = (None, p)"
    "p_consumer p = ((inventory_of env (keep_keys keep) (kv_entries db))\<lparr>inv_Digest := zero_hash\<rparr>,
      prune_digest_domain @ concat (map prune_frame (survivors env (keep_keys keep) (kv_entries db))))"
    by blast
  then show ?thesis by (simp add: scanPruneDB_def inventory_of_def)
qed

section \<open>What a deletion has removed\<close>

text \<open>
  Between two records: the candidates seen so far are those already written, followed by those
  of the current batch, and both counters count them.
\<close>

definition delete_inv :: "kv list \<Rightarrow> kv list \<Rightarrow> delete_state \<Rightarrow> bool" where
  "delete_inv D cands st \<longleftrightarrow>
     (\<exists>fl pend. cands = fl @ pend \<and> d_db st = apply_deletes (map fst fl) D \<and> d_batch st = map fst pend \<and>
        d_deleted st = kv_total fl \<and> d_pending st = kv_total pend)"

definition removed_some :: "kv list \<Rightarrow> kv list \<Rightarrow> kv list \<Rightarrow> bool" where
  "removed_some D cands db \<longleftrightarrow> (\<exists>ks. set ks \<subseteq> fst ` set cands \<and> db = apply_deletes ks D)"

lemma kv_total_append: "kv_total (xs @ ys) = addKV (kv_total xs) (kv_total ys)"
  by (simp add: kv_total_def addKV_def)

lemma apply_deletes_append [simp]: "apply_deletes (xs @ ys) D = apply_deletes ys (apply_deletes xs D)"
  by (induction D) (auto simp: apply_deletes_def)

lemma delete_inv_removed: "delete_inv D cands st \<Longrightarrow> removed_some D cands (d_db st)"
  unfolding delete_inv_def removed_some_def by (metis Un_upper1 image_mono list.set_map set_append)

lemma removed_some_mono: "removed_some D cands db \<Longrightarrow> set cands \<subseteq> set cands2 \<Longrightarrow> removed_some D cands2 db"
  by (force simp: removed_some_def)

lemma delete_flush_inv:
  assumes inv: "delete_inv D cands st" and fl: "delete_flush world st = (e, st')"
  shows "e = None \<Longrightarrow> delete_inv D cands st' \<and> d_batch st' = []" "removed_some D cands (d_db st')"
proof -
  from inv obtain fl pend where i: "cands = fl @ pend" "d_db st = apply_deletes (map fst fl) D"
    "d_batch st = map fst pend" "d_deleted st = kv_total fl" "d_pending st = kv_total pend"
    by (auto simp: delete_inv_def)
  have new: "apply_deletes (d_batch st) (d_db st) = apply_deletes (map fst cands) D" using i by simp
  have total: "addKV (d_deleted st) (d_pending st) = kv_total cands" using i by (simp add: kv_total_append)
  show "delete_inv D cands st' \<and> d_batch st' = []" if "e = None"
  proof (cases "d_batch st = []")
    case True
    with fl inv show ?thesis by (simp add: delete_flush_def)
  next
    case False
    with fl that have "d_db st' = apply_deletes (map fst cands) D" "d_batch st' = []"
      "d_deleted st' = kv_total cands" "d_pending st' = zeroKV"
      using new total by (auto simp: delete_flush_def Let_def split: if_splits write_outcome.splits)
    then show ?thesis by (auto simp: delete_inv_def)
  qed
  have "d_db st' = d_db st \<or> d_db st' = apply_deletes (map fst cands) D"
    using fl new by (auto simp: delete_flush_def Let_def split: if_splits write_outcome.splits)
  then show "removed_some D cands (d_db st')"
  proof
    assume "d_db st' = d_db st"
    with delete_inv_removed [OF inv] show ?thesis by simp
  qed (auto simp: removed_some_def intro!: exI [of _ "map fst cands"])
qed

lemma delete_record_inv:
  assumes inv: "delete_inv D (candidates env keep kvs) st"
    and rec: "delete_record world (k, v, role_of env keep (k, v)) st = (e, st')"
  shows "e = None \<Longrightarrow> delete_inv D (candidates env keep (kvs @ [(k, v)])) st'"
    "removed_some D (candidates env keep (kvs @ [(k, v)])) (d_db st')"
proof -
  let ?new = "candidates env keep (kvs @ [(k, v)])"
  have "(e = None \<longrightarrow> delete_inv D ?new st') \<and> removed_some D ?new (d_db st')"
  proof (cases "role_of env keep (k, v) = pruneDelete")
    case False
    then have "?new = candidates env keep kvs" by (simp add: candidates_def with_role_def)
    with False rec inv delete_inv_removed [OF inv] show ?thesis by (auto simp: delete_record_def)
  next
    case True
    let ?st = "st\<lparr>d_batch := d_batch st @ [k], d_pending := PruneKVCount_add k v (d_pending st)\<rparr>"
    from inv obtain fl pend where i: "candidates env keep kvs = fl @ pend" "d_db st = apply_deletes (map fst fl) D"
      "d_batch st = map fst pend" "d_deleted st = kv_total fl" "d_pending st = kv_total pend"
      by (auto simp: delete_inv_def)
    have "?new = fl @ pend @ [(k, v)]" using True i by (simp add: candidates_def with_role_def)
    with i have inv': "delete_inv D ?new ?st"
      unfolding delete_inv_def by (intro exI [of _ fl] exI [of _ "pend @ [(k, v)]"]) simp
    show ?thesis
    proof (cases "length (d_batch ?st) \<ge> pruneDeleteBatchKeys \<or> dw_dumpLen world (d_batch ?st) \<ge> pruneDeleteBatchBytes")
      case True
      with rec \<open>role_of env keep (k, v) = pruneDelete\<close> have "delete_flush world ?st = (e, st')"
        by (auto simp: delete_record_def Let_def)
      from delete_flush_inv [OF inv' this] show ?thesis by simp
    next
      case False
      with rec True have "e = None" "st' = ?st" by (auto simp: delete_record_def Let_def)
      with inv' delete_inv_removed [OF inv'] show ?thesis by simp
    qed
  qed
  then show "e = None \<Longrightarrow> delete_inv D ?new st'" "removed_some D ?new (d_db st')" by auto
qed

lemma delete_records:
  "consume_items (delete_record world) (role_items env keep kvs) (delete_init D) = (e, st) \<Longrightarrow>
     (e = None \<longrightarrow> delete_inv D (candidates env keep kvs) st) \<and>
     removed_some D (candidates env keep kvs) (d_db st)"
proof (induction kvs arbitrary: e st rule: rev_induct)
  case Nil
  have "delete_inv D [] (delete_init D)" by (auto simp: delete_inv_def delete_init_def apply_deletes_def)
  with Nil delete_inv_removed [OF this] show ?case by (auto simp: role_items_def candidates_def with_role_def)
next
  case (snoc kv kvs)
  obtain k v where kv: "kv = (k, v)" by (cases kv)
  obtain e1 st1 where pre: "consume_items (delete_record world) (role_items env keep kvs) (delete_init D) = (e1, st1)"
    by fastforce
  note ih = snoc.IH [OF pre]
  have items: "role_items env keep (kvs @ [kv]) = role_items env keep kvs @ [(k, v, role_of env keep (k, v))]"
    by (simp add: role_items_def kv)
  show ?case
  proof (cases e1)
    case None
    with snoc.prems pre items have "delete_record world (k, v, role_of env keep (k, v)) st1 = (e, st)"
      by (auto simp: consume_items_append split: prod.splits option.splits)
    from delete_record_inv [OF _ this, of D kvs] ih None kv show ?thesis by auto
  next
    case (Some a)
    with snoc.prems pre items have "e = Some a" "st = st1" by (auto simp: consume_items_append)
    moreover have "set (candidates env keep kvs) \<subseteq> set (candidates env keep (kvs @ [kv]))"
      by (auto simp: candidates_def with_role_def)
    ultimately show ?thesis using ih removed_some_mono by auto
  qed
qed

lemma delete_removes_candidates:
  assumes "ascending (kv_entries db)" "ascending (kv_entries keep)" "0 < su_workers su"
    and del: "deletePruneDifference env lib su world db keep = (e, st)"
  shows "removed_some (kv_entries db) (candidates env (keep_keys keep) (kv_entries db)) (d_db st)"
proof -
  let ?D = "kv_entries db" and ?K = "keep_keys keep"
  obtain e1 p where walk: "walkPruneDifference (classifyPruneRecord env lib) (delete_record world) (su_sched su)
      (su_workers su) (su_scanBytes su) (su_progress su) db keep (delete_init ?D) = (e1, p)" by fastforce
  show ?thesis
  proof (cases e1)
    case None
    from walk_sound [OF assms(1-3) walk [unfolded None]]
    have "consume_items (delete_record world) (role_items env ?K ?D) (delete_init ?D) = (None, p_consumer p)" by simp
    with delete_records have "delete_inv ?D (candidates env ?K ?D) (p_consumer p)" by blast
    moreover have "delete_flush world (p_consumer p) = (e, st)"
      using del walk None by (simp add: deletePruneDifference_def)
    ultimately show ?thesis by (rule delete_flush_inv(2))
  next
    case (Some a)
    with del walk have st: "st = p_consumer p" by (simp add: deletePruneDifference_def)
    from walk_prefix [OF assms(1-3) walk] st obtain n where
      "st = snd (consume_items (delete_record world) (role_items env ?K (take n ?D)) (delete_init ?D))"
      by (auto simp: role_items_def take_map)
    with delete_records have "removed_some ?D (candidates env ?K (take n ?D)) (d_db st)" by (metis prod.collapse)
    then show ?thesis
      by (rule removed_some_mono) (auto simp: candidates_def with_role_def dest: in_set_takeD)
  qed
qed

lemma delete_complete_run:
  assumes "ascending (kv_entries db)" "ascending (kv_entries keep)" "0 < su_workers su"
    and del: "deletePruneDifference env lib su world db keep = (None, st)"
  shows "delete_inv (kv_entries db) (candidates env (keep_keys keep) (kv_entries db)) st" "d_batch st = []"
    "db_ok keep" "set (kv_entries keep) \<subseteq> set (kv_entries db)"
    "\<forall>kv \<in> set (kv_entries db). \<not> foreign env lib (keep_keys keep) kv"
proof -
  let ?D = "kv_entries db" and ?K = "keep_keys keep"
  from del obtain p where walk: "walkPruneDifference (classifyPruneRecord env lib) (delete_record world) (su_sched su)
      (su_workers su) (su_scanBytes su) (su_progress su) db keep (delete_init ?D) = (None, p)"
    and flush: "delete_flush world (p_consumer p) = (None, st)"
    by (auto simp: deletePruneDifference_def split: prod.splits option.splits)
  note ok = walk_sound [OF assms(1-3) walk]
  with delete_records have "delete_inv ?D (candidates env ?K ?D) (p_consumer p)" by blast
  from delete_flush_inv(1) [OF this flush]
  show "delete_inv ?D (candidates env ?K ?D) st" "d_batch st = []" by auto
  from ok show "db_ok keep" "set (kv_entries keep) \<subseteq> set (kv_entries db)"
    "\<forall>kv \<in> set (kv_entries db). \<not> foreign env lib (keep_keys keep) kv" by auto
qed

text \<open>With distinct keys a key of a candidate is the key of no other record.\<close>

lemma candidate_key_role:
  assumes "ascending D" "kv \<in> set D" "fst kv \<in> fst ` set (candidates env keep D)"
  shows "role_of env keep kv = pruneDelete"
proof -
  from assms(3) obtain kv' where "kv' \<in> set D" "role_of env keep kv' = pruneDelete" "fst kv' = fst kv"
    by (auto simp: candidates_def with_role_def)
  with assms(1,2) ascending_distinct [OF assms(1)] show ?thesis
    by (metis eq_key_imp_eq_value prod.collapse)
qed

lemma delete_all_candidates:
  "ascending D \<Longrightarrow> apply_deletes (map fst (candidates env keep D)) D = survivors env keep D"
proof -
  assume asc: "ascending D"
  have "fst kv \<notin> set (map fst (candidates env keep D)) \<longleftrightarrow> role_of env keep kv \<noteq> pruneDelete" if "kv \<in> set D" for kv
    using candidate_key_role [OF asc that, of env keep] that by (auto simp: candidates_def with_role_def)
  then show "apply_deletes (map fst (candidates env keep D)) D = survivors env keep D"
    unfolding apply_deletes_def survivors_def by (intro filter_cong) auto
qed

lemma delete_result:
  assumes "ascending (kv_entries db)" "ascending (kv_entries keep)" "0 < su_workers su"
    and "deletePruneDifference env lib su world db keep = (None, st)"
  shows "d_db st = survivors env (keep_keys keep) (kv_entries db)"
    "d_deleted st = kv_total (candidates env (keep_keys keep) (kv_entries db))"
  using delete_complete_run(1,2) [OF assms] delete_all_candidates [OF assms(1)]
  by (auto simp: delete_inv_def)

section \<open>Scanning what is left\<close>

definition plain_view :: "kv list \<Rightarrow> kv_view" where
  "plain_view kvs = \<lparr>kv_entries = kvs, kv_fail = False\<rparr>"

lemma plain_view_simps [simp]:
  "kv_entries (plain_view kvs) = kvs" "kv_fail (plain_view kvs) = False"
  by (simp_all add: plain_view_def)

lemma survivors_inventory:
  "survivors env keep (survivors env keep D) = survivors env keep D"
  "candidates env keep (survivors env keep D) = []"
  "with_role env keep pruneRetainState (survivors env keep D) = with_role env keep pruneRetainState D"
  "with_role env keep pruneUnknown (survivors env keep D) = with_role env keep pruneUnknown D"
  by (auto simp: survivors_def candidates_def with_role_def filter_empty_conv intro!: filter_cong)

lemma compare_survivors:
  "comparePruneInventory (inventory_of env keep D) (inventory_of env keep (survivors env keep D)) = None"
  by (simp add: comparePruneInventory_def inventory_of_def survivors_inventory zeroKV_def)

lemma survivors_apply:
  assumes "ascending D" "removed_some D (candidates env keep D) db"
  shows "survivors env keep db = survivors env keep D" "ascending db" "set db \<subseteq> set D"
    "\<And>kv. kv \<in> set D \<Longrightarrow> kv \<notin> set db \<Longrightarrow> role_of env keep kv = pruneDelete"
proof -
  from assms(2) obtain ks where ks: "set ks \<subseteq> fst ` set (candidates env keep D)" "db = apply_deletes ks D"
    by (auto simp: removed_some_def)
  have gone: "role_of env keep kv = pruneDelete" if "kv \<in> set D" "fst kv \<in> set ks" for kv
    using candidate_key_role [OF assms(1) that(1)] that(2) ks(1) by blast
  show "survivors env keep db = survivors env keep D"
    using gone by (auto simp: survivors_def ks(2) apply_deletes_def filter_filter intro!: filter_cong)
  show "ascending db" "set db \<subseteq> set D" using assms(1) ks(2) by (auto simp: apply_deletes_def)
  show "role_of env keep kv = pruneDelete" if "kv \<in> set D" "kv \<notin> set db" for kv
    using gone [OF that(1)] that ks(2) by (auto simp: apply_deletes_def)
qed

lemma retained_survive: "set kvs \<subseteq> set D \<Longrightarrow> set kvs \<subseteq> set (survivors env (fst ` set kvs) D)"
  by (force simp: survivors_def role_of_def split: if_splits)

lemma candidate_iff:
  "role_of env keep (k, v) = pruneDelete \<longleftrightarrow> k \<notin> keep \<and> length k = HashLength \<and> keccak256 env v = k"
  by (auto simp: role_of_def)

section \<open>Properties\<close>

text \<open>
  Property C14. Prune only ever deletes unreferenced content-addressed records. Whatever fails or
  is cancelled during the deletion - a poll, a write that is lost, a write that is applied and
  still reports an error, the keep cursor, the classification of some record - and however the
  workers are scheduled, the database left behind is the old one without some records whose
  32-byte key is the Keccak hash of their value and is not in the keep set.
\<close>

theorem prune_deletes_only_garbage:
  assumes "ascending (kv_entries db)" and "ascending (kv_entries keep)" and "0 < su_workers su"
    and "deletePruneDifference env lib su world db keep = (e, st)"
  shows "ascending (d_db st) \<and> set (d_db st) \<subseteq> set (kv_entries db) \<and>
     (\<forall>k v. (k, v) \<in> set (kv_entries db) \<and> (k, v) \<notin> set (d_db st) \<longrightarrow>
        length k = HashLength \<and> keccak256 env v = k \<and> k \<notin> keep_keys keep)"
  using survivors_apply [OF assms(1) delete_removes_candidates [OF assms]] candidate_iff by blast

text \<open>
  Property C28. A deletion that succeeds removes every candidate and nothing else, reports
  exactly the candidates the preflight scan counted, and passes its own verification: the scan
  after it succeeds, under any schedule without cancellation, and \<^verbatim>\<open>comparePruneInventory\<close>
  accepts it.
\<close>

theorem prune_delete_verifies:
  assumes "ascending (kv_entries db)" and "ascending (kv_entries keep)"
    and "0 < su_workers su" and "0 < su_workers su1" and "0 < su_workers su2" and "uncancelled (su_sched su2)"
    and "scanPruneDB env lib su1 db keep = Inr before"
    and "deletePruneDifference env lib su world db keep = (None, st)"
  shows "d_db st = survivors env (keep_keys keep) (kv_entries db) \<and> d_deleted st = inv_Candidates before \<and>
     (\<exists>after. scanPruneDB env lib su2 (plain_view (d_db st)) keep = Inr after \<and>
        comparePruneInventory before after = None)"
proof -
  let ?D = "kv_entries db" and ?K = "keep_keys keep"
  have before: "before = inventory_of env ?K ?D" by (rule scanPruneDB_sound(1) [OF assms(1,2,4,7)])
  note res = delete_result [OF assms(1,2,3,8)]
  note ok = delete_complete_run(3-5) [OF assms(1,2,3,8)]
  have "scanPruneDB env lib su2 (plain_view (d_db st)) keep =
      Inr (inventory_of env ?K (kv_entries (plain_view (d_db st))))"
  proof (rule scanPruneDB_complete)
    show "db_ok (plain_view (d_db st))" using assms(1) res(1) by (simp add: db_ok_def survivors_def)
    show "set (kv_entries keep) \<subseteq> set (kv_entries (plain_view (d_db st)))"
      using retained_survive [OF ok(2)] res(1) by (simp add: keep_keys_def)
    show "\<forall>kv \<in> set (kv_entries (plain_view (d_db st))). \<not> foreign env lib ?K kv"
      using ok(3) res(1) by (auto simp: survivors_def)
  qed (use assms ok in auto)
  with res before compare_survivors show ?thesis by (simp add: inventory_of_def)
qed


text \<open>
  Property C7. The pipelined walk is the plain loop: for every number of workers, every byte
  limit and every schedule of the worker goroutines, as long as the caller does not cancel, the
  walk succeeds with a consumer state exactly when both iterators end without error, every keep
  entry occurs in the source, no record belongs to a foreign format, and consuming the records
  one after the other, each with the role a lookup in the keep set gives it, ends in that state.
\<close>

theorem prune_walk_is_lookup:
  assumes "ascending (kv_entries db)" and "ascending (kv_entries keep)" and "0 < workers" and "uncancelled sched"
  shows "(\<exists>p. walkPruneDifference (classifyPruneRecord env lib) consume sched workers scanBytes scan db keep s = (None, p)
             \<and> p_consumer p = s') \<longleftrightarrow>
     \<not> kv_fail db \<and> \<not> kv_fail keep \<and> set (kv_entries keep) \<subseteq> set (kv_entries db) \<and>
     (\<forall>kv \<in> set (kv_entries db). \<not> foreign env lib (keep_keys keep) kv) \<and>
     consume_items consume (role_items env (keep_keys keep) (kv_entries db)) s = (None, s')"
  (is "?walk \<longleftrightarrow> ?plain")
proof
  assume ?walk
  with walk_sound [OF assms(1-3)] show ?plain by (fastforce simp: db_ok_def)
next
  assume plain: ?plain
  with assms(1,2) have "db_ok db" "db_ok keep" by (simp_all add: db_ok_def)
  then show ?walk by (rule walk_complete [OF _ _ assms(3,4)]) (use plain in auto)
qed


end
