(* ===== verification/PruneKeep.thy ===== *)
theory PruneKeep
  imports PruneDelete Export
begin

text \<open>
  The keep set (\<^verbatim>\<open>prune_keep.go\<close>, \<^verbatim>\<open>collectPruneState\<close> of \<^verbatim>\<open>prune.go\<close>): while the state is
  validated, every database read under a 32-byte key is recorded through sharded batches. The
  validation itself is any program that reads the database by point lookups; the trie library it
  runs is not part of the repository. The goroutines of the validation serialise on the mutex of a
  shard, so a run is one sequence of reads.
\<close>

section \<open>Definitions\<close>

datatype 'a reader = Finish 'a | Lookup bytes "bytes option \<Rightarrow> 'a reader"

primrec run_reader :: "'a reader \<Rightarrow> (bytes \<Rightarrow> 's \<Rightarrow> bytes option \<times> 's) \<Rightarrow> 's \<Rightarrow> 'a \<times> 's" where
  "run_reader (Finish a) db s = (a, s)"
| "run_reader (Lookup key cont) db s = (case db key s of (answer, s') \<Rightarrow> run_reader (cont answer) db s')"

record pruneKeepShard =
  sh_batch :: "kv list"
  sh_pending :: "hash \<rightharpoonup> bytes"

text \<open>
  The writer, with the content of the keep database behind its batches, whether the caller's
  context was cancelled by it, and the number of batch operations so far.
\<close>

record pruneKeepWriter =
  kw_shards :: "pruneKeepShard list"
  kw_failure :: "prune_error latch"
  kw_canceled :: bool
  kw_progress :: "PruneKVCount option"
  kw_db :: "kv list"
  kw_ops :: nat
  kw_closed :: bool

record keep_world =
  kp_putErr :: faults
  kp_write :: "nat \<Rightarrow> write_outcome"
  kp_poll :: faults
  kp_ValueSize :: "kv list \<Rightarrow> nat"
  kp_IdealBatchSize :: nat

definition newPruneKeepWriter :: "nat \<Rightarrow> PruneKVCount option \<Rightarrow> pruneKeepWriter" where
  "newPruneKeepWriter workers progress =
     \<lparr>kw_shards = replicate workers \<lparr>sh_batch = [], sh_pending = Map.empty\<rparr>, kw_failure = None,
      kw_canceled = False, kw_progress = progress, kw_db = [], kw_ops = 0, kw_closed = False\<rparr>"

definition keep_fail :: "prune_error option \<Rightarrow> pruneKeepWriter \<Rightarrow> prune_error option \<times> pruneKeepWriter" where
  "keep_fail err w =
     (case err of
        None \<Rightarrow> (None, w)
      | Some e \<Rightarrow>
          let (first, latch) = pruneKeepFailure_record (kw_failure w) e
          in (err, if first then w\<lparr>kw_failure := latch, kw_canceled := True\<rparr> else w\<lparr>kw_failure := latch\<rparr>))"

definition shard_flush :: "keep_world \<Rightarrow> nat \<Rightarrow> pruneKeepWriter \<Rightarrow> prune_error option \<times> pruneKeepWriter" where
  "shard_flush world i w =
     (let sh = kw_shards w ! i; w1 = w\<lparr>kw_ops := kw_ops w + 1\<rparr>;
          written = write_batch (sh_batch sh) (kw_db w)
      in case kp_write world (kw_ops w) of
           WriteLost \<Rightarrow> (Some PruneWriteFailed, w1)
         | WriteAppliedWithError \<Rightarrow> (Some PruneWriteFailed, w1\<lparr>kw_db := written\<rparr>)
         | WriteDone \<Rightarrow>
             (None, w1\<lparr>kw_db := written, kw_shards := (kw_shards w)[i := \<lparr>sh_batch = [], sh_pending = Map.empty\<rparr>]\<rparr>))"

definition shard_put ::
  "keep_world \<Rightarrow> nat \<Rightarrow> hash \<Rightarrow> bytes \<Rightarrow> pruneKeepWriter \<Rightarrow> prune_error option \<times> pruneKeepWriter" where
  "shard_put world i h val w =
     (let sh = kw_shards w ! i in
      case sh_pending sh h of
        Some previous \<Rightarrow> (comparePruneValue h previous val, w)
      | None \<Rightarrow>
          let w1 = w\<lparr>kw_ops := kw_ops w + 1\<rparr> in
          if kp_putErr world (kw_ops w) then (Some PruneWriteFailed, w1)
          else
            let sh' = sh\<lparr>sh_batch := sh_batch sh @ [(h, val)], sh_pending := (sh_pending sh)(h \<mapsto> val)\<rparr>;
                w2 = w1\<lparr>kw_shards := (kw_shards w1)[i := sh']\<rparr>
            in if kp_ValueSize world (sh_batch sh') \<ge> kp_IdealBatchSize world then shard_flush world i w2
               else (None, w2))"

definition shard_index :: "hash \<Rightarrow> pruneKeepWriter \<Rightarrow> nat" where
  "shard_index h w = unat (h ! 0) mod length (kw_shards w)"

definition keep_put ::
  "geth_env \<Rightarrow> keep_world \<Rightarrow> bytes \<Rightarrow> bytes \<Rightarrow> pruneKeepWriter \<Rightarrow> prune_error option \<times> pruneKeepWriter" where
  "keep_put env world key val w =
     (case pruneKeepFailure_load (kw_failure w) of
        Some e \<Rightarrow> (Some e, w)
      | None \<Rightarrow>
          if length key \<noteq> HashLength \<or> keccak256 env val \<noteq> BytesToHash key
          then keep_fail (Some (PruneHashMismatch key)) w
          else
            let h = BytesToHash key;
                (err, w1) = shard_put world (shard_index h w) h val w;
                (err', w2) = keep_fail err w1
            in (err', if err' = None then w2\<lparr>kw_progress := map_option (PruneKVCount_add key val) (kw_progress w2)\<rparr> else w2))"

definition keep_abort :: "pruneKeepWriter \<Rightarrow> pruneKeepWriter" where
  "keep_abort w = w\<lparr>kw_closed := True\<rparr>"

fun close_shards :: "keep_world \<Rightarrow> nat list \<Rightarrow> pruneKeepWriter \<Rightarrow> prune_error option \<times> pruneKeepWriter" where
  "close_shards world [] w = (None, w)"
| "close_shards world (i # is) w =
     (if kp_poll world i then (Some PruneCanceled, w)
      else case shard_flush world i w of
        (Some e, w') \<Rightarrow> keep_fail (Some e) w'
      | (None, w') \<Rightarrow> close_shards world is w')"

definition keep_close :: "keep_world \<Rightarrow> pruneKeepWriter \<Rightarrow> prune_error option \<times> pruneKeepWriter" where
  "keep_close world w =
     (case pruneKeepFailure_load (kw_failure w) of
        Some e \<Rightarrow> (Some e, keep_abort w)
      | None \<Rightarrow> map_prod id keep_abort (close_shards world [0..<length (kw_shards w)] w))"

definition recording_Get ::
  "geth_env \<Rightarrow> keep_world \<Rightarrow> (bytes \<rightharpoonup> bytes) \<Rightarrow> bytes \<Rightarrow> pruneKeepWriter \<Rightarrow> bytes option \<times> pruneKeepWriter" where
  "recording_Get env world src key w =
     (case src key of
        None \<Rightarrow> (None, w)
      | Some val \<Rightarrow>
          if length key = HashLength then
            (case keep_put env world key val w of
               (Some e, w') \<Rightarrow> (None, w')
             | (None, w') \<Rightarrow> (Some val, w'))
          else (Some val, w))"

text \<open>
  \<^verbatim>\<open>collectPruneState\<close>: validate through the recording database, add the genesis root node,
  let a latched failure override the outcome, and close the writer.
\<close>

datatype collect_error = CollectState | CollectKeep prune_error

definition collectPruneState ::
  "geth_env \<Rightarrow> keep_world \<Rightarrow> (unit, StateResult) result reader \<Rightarrow> (bytes \<rightharpoonup> bytes) \<Rightarrow> nat \<Rightarrow>
   PruneKVCount option \<Rightarrow> hash \<Rightarrow> bytes \<Rightarrow> (collect_error, StateResult) result \<times> pruneKeepWriter" where
  "collectPruneState env world validate src workers progress genesis node =
     (let (state, w1) = run_reader validate (recording_Get env world src) (newPruneKeepWriter workers progress);
          (err, w2) = (case state of
              Inl _ \<Rightarrow> (Some CollectState, w1)
            | Inr _ \<Rightarrow> if node \<noteq> [] then map_prod (map_option CollectKeep) id (keep_put env world genesis node w1)
                       else (None, w1));
          err' = (case pruneKeepFailure_load (kw_failure w2) of Some e \<Rightarrow> Some (CollectKeep e) | None \<Rightarrow> err)
      in case err' of
           Some e \<Rightarrow> (Inl e, keep_abort w2)
         | None \<Rightarrow>
             (case keep_close world w2 of
                (Some e, w3) \<Rightarrow> (Inl (CollectKeep e), w3)
              | (None, w3) \<Rightarrow> (Inr (projr state), w3)))"

section \<open>Reading a fixed database\<close>

primrec answer :: "'a reader \<Rightarrow> (bytes \<rightharpoonup> bytes) \<Rightarrow> 'a" where
  "answer (Finish a) db = a"
| "answer (Lookup key cont) db = answer (cont (db key)) db"

primrec reads :: "'a reader \<Rightarrow> (bytes \<rightharpoonup> bytes) \<Rightarrow> bytes list" where
  "reads (Finish a) db = []"
| "reads (Lookup key cont) db = key # reads (cont (db key)) db"

lemma answer_frame: "(\<And>k. k \<in> set (reads r db) \<Longrightarrow> db' k = db k) \<Longrightarrow> answer r db' = answer r db"
  by (induction r) auto

section \<open>The invariant of the keep writer\<close>

text \<open>
  Everything stored or batched is a record of the source under the Keccak hash of its value, the
  pending map of a shard mirrors its batch, and every recorded key is stored or batched.
\<close>

definition content_of :: "geth_env \<Rightarrow> (bytes \<rightharpoonup> bytes) \<Rightarrow> kv \<Rightarrow> bool" where
  "content_of env src = (\<lambda>(k, v). src k = Some v \<and> length k = HashLength \<and> keccak256 env v = k)"

definition shard_ok :: "geth_env \<Rightarrow> (bytes \<rightharpoonup> bytes) \<Rightarrow> pruneKeepShard \<Rightarrow> bool" where
  "shard_ok env src sh \<longleftrightarrow>
     (\<forall>kv \<in> set (sh_batch sh). content_of env src kv) \<and>
     (\<forall>k v. sh_pending sh k = Some v \<longleftrightarrow> (k, v) \<in> set (sh_batch sh))"

definition batched :: "pruneKeepWriter \<Rightarrow> bytes set" where
  "batched w = (\<Union>sh \<in> set (kw_shards w). fst ` set (sh_batch sh))"

definition keep_inv :: "geth_env \<Rightarrow> (bytes \<rightharpoonup> bytes) \<Rightarrow> bytes set \<Rightarrow> pruneKeepWriter \<Rightarrow> bool" where
  "keep_inv env src recs w \<longleftrightarrow>
     kw_shards w \<noteq> [] \<and> (\<forall>sh \<in> set (kw_shards w). shard_ok env src sh) \<and>
     ascending (kw_db w) \<and> (\<forall>k v. map_of (kw_db w) k = Some v \<longrightarrow> content_of env src (k, v)) \<and>
     recs \<subseteq> fst ` set (kw_db w) \<union> batched w"

lemma batched_update:
  "i < length (kw_shards w) \<Longrightarrow>
     batched w \<subseteq> batched (w\<lparr>kw_shards := (kw_shards w)[i := sh]\<rparr>) \<union> fst ` set (sh_batch (kw_shards w ! i))"
  unfolding batched_def
proof
  fix k assume i: "i < length (kw_shards w)" and "k \<in> (\<Union>sh \<in> set (kw_shards w). fst ` set (sh_batch sh))"
  then obtain j where j: "j < length (kw_shards w)" "k \<in> fst ` set (sh_batch (kw_shards w ! j))"
    by (metis (no_types, lifting) UN_E in_set_conv_nth)
  show "k \<in> (\<Union>sh \<in> set (kw_shards (w\<lparr>kw_shards := (kw_shards w)[i := sh]\<rparr>)). fst ` set (sh_batch sh)) \<union>
      fst ` set (sh_batch (kw_shards w ! i))"
  proof (cases "i = j")
    case False
    then have "kw_shards w ! j \<in> set ((kw_shards w)[i := sh])"
      using j(1) by (metis length_list_update nth_list_update_neq nth_mem)
    with j show ?thesis by auto
  qed (use j in auto)
qed

lemma keep_inv_cong:
  "kw_shards w' = kw_shards w \<Longrightarrow> kw_db w' = kw_db w \<Longrightarrow> keep_inv env src recs w' = keep_inv env src recs w"
  by (simp add: keep_inv_def batched_def)

lemma flush_inv:
  assumes inv: "keep_inv env src recs w" and i: "i < length (kw_shards w)"
    and fl: "shard_flush world i w = (err, w')"
  shows "keep_inv env src recs w'" "kw_failure w' = kw_failure w" "length (kw_shards w') = length (kw_shards w)"
    "err = None \<Longrightarrow> sh_batch (kw_shards w' ! i) = [] \<and> (\<forall>j. j \<noteq> i \<longrightarrow> kw_shards w' ! j = kw_shards w ! j)"
proof -
  let ?b = "sh_batch (kw_shards w ! i)"
  let ?e = "\<lparr>sh_batch = [], sh_pending = Map.empty\<rparr> :: pruneKeepShard"
  have okb: "\<forall>kv \<in> set ?b. content_of env src kv" using inv i by (auto simp: keep_inv_def shard_ok_def)
  have dbok: "content_of env src (k, v)" if "map_of (write_batch ?b (kw_db w)) k = Some v" for k v
    using write_batch_Some [OF _ that] okb inv by (auto simp: keep_inv_def)
  have e: "shard_ok env src ?e" by (simp add: shard_ok_def)
  have shards: "\<forall>sh \<in> set ((kw_shards w)[i := ?e]). shard_ok env src sh"
    using inv e set_update_subset_insert [of "kw_shards w" i ?e] by (auto simp: keep_inv_def)
  have cover: "recs \<subseteq> fst ` set (write_batch ?b (kw_db w)) \<union> batched (w\<lparr>kw_shards := (kw_shards w)[i := ?e]\<rparr>)"
    using inv batched_update [OF i, of ?e] by (auto simp: keep_inv_def write_batch_dom)
  have cover2: "recs \<subseteq> fst ` set (write_batch ?b (kw_db w)) \<union> batched w"
    using inv by (auto simp: keep_inv_def write_batch_dom)
  show "keep_inv env src recs w'"
  proof (cases "kp_write world (kw_ops w)")
    case WriteDone
    with fl have w': "kw_db w' = write_batch ?b (kw_db w)" "kw_shards w' = (kw_shards w)[i := ?e]"
      by (auto simp: shard_flush_def Let_def)
    then have "batched w' = batched (w\<lparr>kw_shards := (kw_shards w)[i := ?e]\<rparr>)" by (simp add: batched_def)
    with w' cover shards dbok inv show ?thesis by (simp add: keep_inv_def)
  next
    case WriteLost
    with fl have "kw_shards w' = kw_shards w" "kw_db w' = kw_db w" by (auto simp: shard_flush_def Let_def)
    with inv keep_inv_cong show ?thesis by blast
  next
    case WriteAppliedWithError
    with fl have w': "kw_db w' = write_batch ?b (kw_db w)" "kw_shards w' = kw_shards w"
      by (auto simp: shard_flush_def Let_def)
    then have "batched w' = batched w" by (simp add: batched_def)
    with w' cover2 dbok inv show ?thesis by (simp add: keep_inv_def)
  qed
  show "kw_failure w' = kw_failure w" "length (kw_shards w') = length (kw_shards w)"
    "err = None \<Longrightarrow> sh_batch (kw_shards w' ! i) = [] \<and> (\<forall>j. j \<noteq> i \<longrightarrow> kw_shards w' ! j = kw_shards w ! j)"
    using fl i by (auto simp: shard_flush_def Let_def split: write_outcome.splits)
qed

lemma shard_put_inv:
  assumes inv: "keep_inv env src recs w" and i: "i < length (kw_shards w)"
    and c: "content_of env src (h, val)" and pu: "shard_put world i h val w = (err, w')"
  shows "keep_inv env src recs w'" "kw_failure w' = kw_failure w"
    "err = None \<Longrightarrow> keep_inv env src (insert h recs) w'"
proof -
  let ?sh = "kw_shards w ! i"
  let ?new = "?sh\<lparr>sh_batch := sh_batch ?sh @ [(h, val)], sh_pending := (sh_pending ?sh)(h \<mapsto> val)\<rparr>"
  let ?w2 = "w\<lparr>kw_ops := kw_ops w + 1, kw_shards := (kw_shards w)[i := ?new]\<rparr>"
  have ok: "shard_ok env src ?sh" using inv i by (simp add: keep_inv_def)
  have "keep_inv env src recs w' \<and> kw_failure w' = kw_failure w \<and> (err = None \<longrightarrow> keep_inv env src (insert h recs) w')"
  proof (cases "sh_pending ?sh h")
    case (Some previous)
    then have "h \<in> batched w" using ok i by (force simp: shard_ok_def batched_def)
    with Some pu inv show ?thesis by (auto simp: shard_put_def Let_def keep_inv_def)
  next
    case None
    have fresh: "h \<notin> fst ` set (sh_batch ?sh)"
    proof
      assume "h \<in> fst ` set (sh_batch ?sh)"
      then obtain b where "(h, b) \<in> set (sh_batch ?sh)" by auto
      with ok have "sh_pending ?sh h = Some b" by (simp add: shard_ok_def)
      with None show False by simp
    qed
    have new: "shard_ok env src ?new" using ok c fresh by (force simp: shard_ok_def)
    have "?new \<in> set (kw_shards ?w2)" using i by (simp add: set_update_memI)
    then have part: "fst ` set (sh_batch ?new) \<subseteq> batched ?w2" unfolding batched_def by (rule UN_upper)
    have "batched (w\<lparr>kw_shards := (kw_shards w)[i := ?new]\<rparr>) = batched ?w2" by (simp add: batched_def)
    with part batched_update [OF i, of ?new] have "batched w \<subseteq> batched ?w2" "h \<in> batched ?w2" by auto
    moreover have "\<forall>sh \<in> set ((kw_shards w)[i := ?new]). shard_ok env src sh"
      using inv new set_update_subset_insert [of "kw_shards w" i ?new] by (auto simp: keep_inv_def)
    ultimately have inv2: "keep_inv env src (insert h recs) ?w2" using inv by (auto simp: keep_inv_def)
    then have weak: "keep_inv env src recs ?w2" by (simp add: keep_inv_def)
    consider (put) "err \<noteq> None" "w' = w\<lparr>kw_ops := kw_ops w + 1\<rparr>" | (flush) "shard_flush world i ?w2 = (err, w')"
      | (store) "err = None" "w' = ?w2"
    proof -
      have eq: "shard_put world i h val w =
          (if kp_putErr world (kw_ops w) then (Some PruneWriteFailed, w\<lparr>kw_ops := kw_ops w + 1\<rparr>)
           else if kp_ValueSize world (sh_batch ?new) \<ge> kp_IdealBatchSize world then shard_flush world i ?w2
           else (None, ?w2))"
        unfolding shard_put_def Let_def None option.case by (simp cong: if_cong)
      show thesis
      proof (cases "kp_putErr world (kw_ops w)")
        case True
        with eq pu have "err \<noteq> None" "w' = w\<lparr>kw_ops := kw_ops w + 1\<rparr>" by auto
        then show thesis by (rule put)
      next
        case False
        show thesis
        proof (cases "kp_ValueSize world (sh_batch ?new) \<ge> kp_IdealBatchSize world")
          case True
          with eq pu \<open>\<not> kp_putErr world (kw_ops w)\<close> show thesis by (intro flush) simp
        next
          case False
          with eq pu \<open>\<not> kp_putErr world (kw_ops w)\<close> show thesis by (intro store) simp_all
        qed
      qed
    qed
    then show ?thesis
    proof cases
      case put
      with inv keep_inv_cong [of w' w env src recs] show ?thesis by auto
    next
      case flush
      have "i < length (kw_shards ?w2)" using i by simp
      from flush_inv [OF inv2 this flush] show ?thesis by (auto simp: keep_inv_def)
    next
      case store
      with inv2 weak show ?thesis by simp
    qed
  qed
  then show "keep_inv env src recs w'" "kw_failure w' = kw_failure w"
    "err = None \<Longrightarrow> keep_inv env src (insert h recs) w'" by auto
qed

lemma keep_fail_simps:
  assumes "keep_fail err w = (err', w')"
  shows "err' = err" "keep_inv env src recs w' = keep_inv env src recs w" "err = None \<Longrightarrow> w' = w"
    "err \<noteq> None \<or> kw_failure w \<noteq> None \<Longrightarrow> kw_failure w' \<noteq> None"
proof -
  show "err' = err" "err = None \<Longrightarrow> w' = w" "err \<noteq> None \<or> kw_failure w \<noteq> None \<Longrightarrow> kw_failure w' \<noteq> None"
    using assms by (auto simp: keep_fail_def pruneKeepFailure_record_def split: option.splits if_splits)
  have "kw_shards w' = kw_shards w" "kw_db w' = kw_db w"
    using assms by (auto simp: keep_fail_def Let_def split: option.splits prod.splits if_splits)
  then show "keep_inv env src recs w' = keep_inv env src recs w" by (rule keep_inv_cong)
qed

lemma keep_put_inv:
  assumes inv: "keep_inv env src recs w" and src: "src key = Some val"
    and pu: "keep_put env world key val w = (err, w')"
  shows "keep_inv env src recs w'" "kw_failure w \<noteq> None \<or> err \<noteq> None \<Longrightarrow> kw_failure w' \<noteq> None"
    "err = None \<Longrightarrow> keep_inv env src (insert key recs) w'"
proof -
  let ?h = "BytesToHash key"
  have "keep_inv env src recs w' \<and> (kw_failure w \<noteq> None \<or> err \<noteq> None \<longrightarrow> kw_failure w' \<noteq> None) \<and>
      (err = None \<longrightarrow> keep_inv env src (insert key recs) w')"
  proof (cases "kw_failure w")
    case (Some e)
    with pu inv show ?thesis by (auto simp: keep_put_def pruneKeepFailure_load_def)
  next
    case None
    show ?thesis
    proof (cases "length key \<noteq> HashLength \<or> keccak256 env val \<noteq> ?h")
      case True
      with None pu have "keep_fail (Some (PruneHashMismatch key)) w = (err, w')"
        by (simp add: keep_put_def pruneKeepFailure_load_def)
      from keep_fail_simps [OF this] inv show ?thesis by auto
    next
      case False
      then have h: "?h = key" and c: "content_of env src (key, val)" using src by (auto simp: content_of_def)
      have i: "shard_index key w < length (kw_shards w)" using inv by (simp add: shard_index_def keep_inv_def)
      obtain e1 w1 where sp: "shard_put world (shard_index key w) key val w = (e1, w1)" by fastforce
      obtain e2 w2 where kf: "keep_fail e1 w1 = (e2, w2)" by fastforce
      note s = shard_put_inv [OF inv i c sp]
      have res: "err = e2" "w' = (if e2 = None then w2\<lparr>kw_progress := map_option (PruneKVCount_add key val) (kw_progress w2)\<rparr> else w2)"
        using pu None False sp kf h by (auto simp: keep_put_def pruneKeepFailure_load_def Let_def)
      have w': "keep_inv env src r w' = keep_inv env src r w2" "kw_failure w' = kw_failure w2" for r
        using res by (auto intro!: keep_inv_cong)
      from keep_fail_simps [OF kf] s res w' None show ?thesis by auto
    qed
  qed
  then show "keep_inv env src recs w'" "kw_failure w \<noteq> None \<or> err \<noteq> None \<Longrightarrow> kw_failure w' \<noteq> None"
    "err = None \<Longrightarrow> keep_inv env src (insert key recs) w'" by auto
qed

section \<open>A recorded run\<close>

definition hash_reads :: "'a reader \<Rightarrow> (bytes \<rightharpoonup> bytes) \<Rightarrow> bytes set" where
  "hash_reads r src = {k \<in> set (reads r src). length k = HashLength \<and> src k \<noteq> None}"

lemma keep_inv_insert: "k \<in> recs \<Longrightarrow> keep_inv env src (insert k recs) w = keep_inv env src recs w"
  by (simp add: insert_absorb)

lemma recording_Get_inv:
  assumes inv: "keep_inv env src recs w" and g: "recording_Get env world src key w = (a, w')"
  shows "keep_inv env src recs w'" "kw_failure w \<noteq> None \<Longrightarrow> kw_failure w' \<noteq> None"
    "kw_failure w' = None \<Longrightarrow> a = src key \<and>
       keep_inv env src (recs \<union> (if length key = HashLength \<and> src key \<noteq> None then {key} else {})) w'"
proof -
  have "keep_inv env src recs w' \<and> (kw_failure w \<noteq> None \<longrightarrow> kw_failure w' \<noteq> None) \<and>
      (kw_failure w' = None \<longrightarrow> a = src key \<and>
       keep_inv env src (recs \<union> (if length key = HashLength \<and> src key \<noteq> None then {key} else {})) w')"
  proof (cases "length key = HashLength \<and> src key \<noteq> None")
    case True
    then obtain val where v: "src key = Some val" and l: "length key = HashLength" by auto
    obtain e w1 where pu: "keep_put env world key val w = (e, w1)" by fastforce
    note k = keep_put_inv [OF inv v pu]
    have "w' = w1" "a = (if e = None then Some val else None)"
      using g v l pu by (auto simp: recording_Get_def split: option.splits)
    with k v l show ?thesis by (cases e) auto
  next
    case False
    with g have "w' = w" "a = src key" by (auto simp: recording_Get_def split: option.splits if_splits)
    with inv False show ?thesis by auto
  qed
  then show "keep_inv env src recs w'" "kw_failure w \<noteq> None \<Longrightarrow> kw_failure w' \<noteq> None"
    "kw_failure w' = None \<Longrightarrow> a = src key \<and>
       keep_inv env src (recs \<union> (if length key = HashLength \<and> src key \<noteq> None then {key} else {})) w'" by auto
qed

lemma run_reader_inv:
  assumes "keep_inv env src recs w" "run_reader r (recording_Get env world src) w = (a, w')"
  shows "keep_inv env src recs w' \<and> (kw_failure w \<noteq> None \<longrightarrow> kw_failure w' \<noteq> None) \<and>
     (kw_failure w' = None \<longrightarrow> a = answer r src \<and> keep_inv env src (recs \<union> hash_reads r src) w')"
  using assms
proof (induction r arbitrary: recs w)
  case (Finish b)
  then show ?case by (simp add: hash_reads_def)
next
  case (Lookup key cont)
  obtain ans w1 where g: "recording_Get env world src key w = (ans, w1)" by fastforce
  note s = recording_Get_inv [OF Lookup.prems(1) g]
  have run: "run_reader (cont ans) (recording_Get env world src) w1 = (a, w')" using Lookup.prems(2) g by simp
  note weak = Lookup.IH [OF rangeI s(1) run]
  show ?case
  proof (cases "kw_failure w1")
    case (Some e)
    with weak show ?thesis by auto
  next
    case None
    let ?recs = "recs \<union> (if length key = HashLength \<and> src key \<noteq> None then {key} else {})"
    from s(3) [OF None] have ans: "ans = src key" and inv1: "keep_inv env src ?recs w1" by auto
    have "recs \<union> hash_reads (Lookup key cont) src = ?recs \<union> hash_reads (cont (src key)) src"
      by (auto simp: hash_reads_def)
    with Lookup.IH [OF rangeI inv1 run] weak s(2) ans show ?thesis by auto
  qed
qed

lemma close_shards_inv:
  assumes "keep_inv env src recs w" "close_shards world is w = (None, w')" "set is \<subseteq> {..<length (kw_shards w)}"
  shows "keep_inv env src recs w' \<and> length (kw_shards w') = length (kw_shards w) \<and>
     (\<forall>i < length (kw_shards w). i \<in> set is \<or> sh_batch (kw_shards w ! i) = [] \<longrightarrow> sh_batch (kw_shards w' ! i) = [])"
  using assms
proof (induction "is" arbitrary: w)
  case (Cons i "is")
  from Cons.prems(2) obtain w1 where fl: "shard_flush world i w = (None, w1)"
    and rest: "close_shards world is w1 = (None, w')"
    by (auto simp: keep_fail_def Let_def split: if_splits prod.splits option.splits)
  have i: "i < length (kw_shards w)" using Cons.prems(3) by simp
  note f = flush_inv [OF Cons.prems(1) i fl]
  have "set is \<subseteq> {..<length (kw_shards w1)}" using Cons.prems(3) f(3) by simp
  from Cons.IH [OF f(1) rest this] f show ?case by auto
qed simp

lemma keep_close_inv:
  assumes inv: "keep_inv env src recs w" and cl: "keep_close world w = (None, w')"
  shows "recs \<subseteq> fst ` set (kw_db w') \<and> ascending (kw_db w') \<and>
     (\<forall>k v. map_of (kw_db w') k = Some v \<longrightarrow> content_of env src (k, v))"
proof -
  from cl obtain w1 where c: "close_shards world [0..<length (kw_shards w)] w = (None, w1)" and w': "w' = keep_abort w1"
    by (auto simp: keep_close_def map_prod_def split: option.splits prod.splits)
  have "set [0..<length (kw_shards w)] \<subseteq> {..<length (kw_shards w)}" by auto
  note f = close_shards_inv [OF inv c this]
  then have "batched w1 = {}" by (auto simp: batched_def in_set_conv_nth)
  with f w' show ?thesis by (auto simp: keep_inv_def keep_abort_def)
qed

lemma collect_sound:
  assumes "0 < workers" and gen: "node \<noteq> [] \<longrightarrow> src genesis = Some node"
    and col: "collectPruneState env world validate src workers progress genesis node = (Inr state, w)"
  shows "answer validate src = Inr state" "\<And>k v. map_of (kw_db w) k = Some v \<Longrightarrow> content_of env src (k, v)"
    "hash_reads validate src \<subseteq> fst ` set (kw_db w)" "node \<noteq> [] \<Longrightarrow> genesis \<in> fst ` set (kw_db w)"
    "ascending (kw_db w)"
proof -
  let ?w0 = "newPruneKeepWriter workers progress"
  have inv0: "keep_inv env src {} ?w0"
    using assms(1) by (auto simp: keep_inv_def newPruneKeepWriter_def shard_ok_def)
  obtain st w1 where run: "run_reader validate (recording_Get env world src) ?w0 = (st, w1)" by fastforce
  note r = run_reader_inv [OF inv0 run, simplified]
  from col run obtain s where st: "st = Inr s"
    by (cases st) (auto simp: collectPruneState_def Let_def split: option.splits prod.splits)
  obtain e w2 where pu: "keep_put env world genesis node w1 = (e, w2)" by fastforce
  let ?w2 = "if node \<noteq> [] then w2 else w1"
  have nf: "kw_failure ?w2 = None" and cl: "keep_close world ?w2 = (None, w)" and s: "s = state"
    and e: "node \<noteq> [] \<longrightarrow> e = None"
    using col run st pu
    by (auto simp: collectPruneState_def Let_def pruneKeepFailure_load_def split: option.splits prod.splits if_splits)
  have nf1: "kw_failure w1 = None"
    using nf gen keep_put_inv(2) [OF _ _ pu, of src "{}"] r by (cases "node = []"; cases "kw_failure w1") auto
  with r st s show "answer validate src = Inr state" by auto
  have inv1: "keep_inv env src (hash_reads validate src) w1" using r nf1 by simp
  have inv2: "keep_inv env src (hash_reads validate src \<union> (if node \<noteq> [] then {genesis} else {})) ?w2"
    using inv1 gen e keep_put_inv(3) [OF inv1 _ pu] by auto
  from keep_close_inv [OF inv2 cl]
  show "\<And>k v. map_of (kw_db w) k = Some v \<Longrightarrow> content_of env src (k, v)"
    "hash_reads validate src \<subseteq> fst ` set (kw_db w)" "node \<noteq> [] \<Longrightarrow> genesis \<in> fst ` set (kw_db w)"
    "ascending (kw_db w)" by auto
qed

section \<open>What survives a prune\<close>

lemma removed_lookup:
  assumes "ascending D" "removed_some D (candidates env keep D) db"
  shows "length k \<noteq> HashLength \<or> k \<in> keep \<or> map_of D k = None \<Longrightarrow> map_of db k = map_of D k"
proof -
  note s = survivors_apply [OF assms]
  assume k: "length k \<noteq> HashLength \<or> k \<in> keep \<or> map_of D k = None"
  show "map_of db k = map_of D k"
  proof (cases "map_of D k")
    case None
    then have "k \<notin> fst ` set db" using s(3) by (auto simp: map_of_eq_None_iff)
    then have "map_of db k = None" by (simp add: map_of_eq_None_iff)
    with None show ?thesis by simp
  next
    case (Some v)
    then have "(k, v) \<in> set D" by (rule map_of_SomeD)
    moreover have "role_of env keep (k, v) \<noteq> pruneDelete" using k Some by (auto simp: role_of_def)
    ultimately have "(k, v) \<in> set db" using s(4) by blast
    then show ?thesis using Some ascending_map_of [OF s(2), of k v] by simp
  qed
qed

lemma prune_reader_stable:
  assumes "ascending D" "removed_some D (candidates env keep D) db" "hash_reads r (map_of D) \<subseteq> keep"
  shows "answer r (map_of db) = answer r (map_of D)"
proof (rule answer_frame)
  fix k assume "k \<in> set (reads r (map_of D))"
  then have "length k \<noteq> HashLength \<or> k \<in> keep \<or> map_of D k = None" using assms(3) by (auto simp: hash_reads_def)
  then show "map_of db k = map_of D k" by (rule removed_lookup [OF assms(1,2)])
qed

section \<open>Properties\<close>

text \<open>
  Property C27. A keep set that was collected without an error is exact and complete: the
  validation saw the source's own answers, everything stored is a source record under the Keccak
  hash of its value, every record the validation found under a 32-byte key is stored, and so is
  the genesis root node. Failures the trie library swallowed cannot hide: with one of them the
  collection does not succeed.
\<close>

theorem prune_keep_complete:
  assumes "0 < workers" and "node \<noteq> [] \<longrightarrow> src genesis = Some node"
    and "collectPruneState env world validate src workers progress genesis node = (Inr state, w)"
  shows "answer validate src = Inr state \<and>
     ascending (kw_db w) \<and>
     (\<forall>k v. (k, v) \<in> set (kw_db w) \<longrightarrow> src k = Some v \<and> length k = HashLength \<and> keccak256 env v = k) \<and>
     hash_reads validate src \<subseteq> fst ` set (kw_db w) \<and> (node \<noteq> [] \<longrightarrow> genesis \<in> fst ` set (kw_db w))"
  using collect_sound [OF assms] ascending_map_of [of "kw_db w"] by (auto simp: content_of_def)

text \<open>
  Property C9. Pruning never damages the state it was asked to keep. With the keep set collected
  from the source, whatever the deletion does - complete, interrupted between batches, failing
  writes - validating the state on the database that is left gives the same result as on the
  source, the genesis root node is still there, and every key that is not 32 bytes long has its
  old value, which covers the head, the headers and all other metadata.
\<close>

theorem prune_preserves_state:
  assumes "ascending (kv_entries db)" and "0 < workers" and "0 < su_workers su"
    and "node \<noteq> [] \<longrightarrow> map_of (kv_entries db) genesis = Some node"
    and "collectPruneState env kworld validate (map_of (kv_entries db)) workers progress genesis node = (Inr state, w)"
    and "kv_entries keep = kw_db w"
    and "deletePruneDifference env lib su world db keep = (e, st)"
  shows "answer validate (map_of (d_db st)) = Inr state \<and>
     (node \<noteq> [] \<longrightarrow> map_of (d_db st) genesis = Some node) \<and>
     (\<forall>k. length k \<noteq> HashLength \<longrightarrow> map_of (d_db st) k = map_of (kv_entries db) k)"
proof -
  let ?D = "kv_entries db"
  note col = collect_sound [OF assms(2,4,5)]
  have K: "keep_keys keep = fst ` set (kw_db w)" and asc: "ascending (kv_entries keep)"
    using assms(6) col(5) by (simp_all add: keep_keys_def)
  note rm = delete_removes_candidates [OF assms(1) asc assms(3,7)]
  have "answer validate (map_of (d_db st)) = answer validate (map_of ?D)"
    by (rule prune_reader_stable [OF assms(1) rm]) (use col(3) K in simp)
  moreover have "map_of (d_db st) k = map_of ?D k" if "length k \<noteq> HashLength \<or> k \<in> keep_keys keep" for k
    using removed_lookup [OF assms(1) rm] that by blast
  ultimately show ?thesis using col(1,4) K assms(4) by auto
qed

end
