(* ===== verification/Paths.thy ===== *)
theory Paths
  imports Manifest StrictIO
begin

text \<open>
  Paths and their resolution (\<^verbatim>\<open>legacy.go\<close>, \<^verbatim>\<open>atomicdir.go\<close>, \<^verbatim>\<open>prune_db.go\<close>). A clean absolute
  path is the list of its components, the root directory the empty list; \<^verbatim>\<open>filepath.Dir\<close> and
  \<^verbatim>\<open>filepath.Base\<close> are \<open>butlast\<close> and \<open>last\<close>. The file system answers.
\<close>

section \<open>Definitions\<close>

type_synonym path = "string list"

datatype fs_error = NotExist | OtherFsError

text \<open>
  \<^verbatim>\<open>filepath.Abs\<close> (which also cleans; it fails only without a working directory),
  \<^verbatim>\<open>EvalSymlinks\<close> of a possibly relative path followed by \<^verbatim>\<open>Abs\<close>, \<^verbatim>\<open>EvalSymlinks\<close> of an
  absolute path, \<^verbatim>\<open>os.Stat\<close> and \<^verbatim>\<open>os.Lstat\<close>.
\<close>

record fs_view =
  fs_Abs :: "string \<Rightarrow> path option"
  fs_EvalAbs :: "string \<Rightarrow> (fs_error, path) result"
  fs_EvalSymlinks :: "path \<Rightarrow> (fs_error, path) result"
  fs_Stat :: "path \<Rightarrow> (fs_error, file_info) result"
  fs_Lstat :: "path \<Rightarrow> (fs_error, file_info) result"

datatype path_error =
    ResolveInput
  | ResolveOutput
  | OutputInside
  | StatInput
  | OutputAliases
  | InspectAncestor path
  | PathRequired
  | PathSymlink
  | PathNotDirectory

function resolve_loop :: "fs_view \<Rightarrow> path \<Rightarrow> path \<Rightarrow> (fs_error, path) result" where
  "resolve_loop fs probe missing =
     (case fs_EvalSymlinks fs probe of
        Inr resolved \<Rightarrow> Inr (resolved @ missing)
      | Inl OtherFsError \<Rightarrow> Inl OtherFsError
      | Inl NotExist \<Rightarrow>
          if probe = [] then Inl NotExist
          else resolve_loop fs (butlast probe) (last probe # missing))"
  by pat_completeness auto

termination resolve_loop
  by (relation "measure (\<lambda>(fs, probe, missing). length probe)") auto

declare resolve_loop.simps [simp del]

definition resolvePathWithMissing :: "fs_view \<Rightarrow> string \<Rightarrow> (fs_error, path) result" where
  "resolvePathWithMissing fs p =
     (case fs_Abs fs p of None \<Rightarrow> Inl OtherFsError | Some a \<Rightarrow> resolve_loop fs a [])"

text \<open>\<^verbatim>\<open>filepath.Rel\<close> of two clean absolute paths; the empty list is the path \<^verbatim>\<open>.\<close>.\<close>

fun path_Rel :: "path \<Rightarrow> path \<Rightarrow> path" where
  "path_Rel (b # bs) (t # ts) =
     (if b = t then path_Rel bs ts else replicate (length (b # bs)) ''..'' @ t # ts)"
| "path_Rel bs ts = replicate (length bs) ''..'' @ ts"

function alias_loop :: "fs_view \<Rightarrow> file_info \<Rightarrow> path \<Rightarrow> path_error option" where
  "alias_loop fs inputInfo probe =
     (let next = (if probe = [] then None else alias_loop fs inputInfo (butlast probe)) in
      case fs_Stat fs probe of
        Inr info \<Rightarrow> if fi_id inputInfo = fi_id info then Some OutputAliases else next
      | Inl NotExist \<Rightarrow> next
      | Inl OtherFsError \<Rightarrow> Some (InspectAncestor probe))"
  by pat_completeness auto

termination alias_loop
  by (relation "measure (\<lambda>(fs, info, probe). length probe)") auto

declare alias_loop.simps [simp del]

definition rejectOutputInsideDirectory :: "fs_view \<Rightarrow> string \<Rightarrow> string \<Rightarrow> path_error option" where
  "rejectOutputInsideDirectory fs inp out =
     (case fs_EvalAbs fs inp of
        Inl _ \<Rightarrow> Some ResolveInput
      | Inr inputAbs \<Rightarrow>
          (case resolvePathWithMissing fs out of
             Inl _ \<Rightarrow> Some ResolveOutput
           | Inr outputAbs \<Rightarrow>
               let rel = path_Rel inputAbs outputAbs in
               if rel = [] \<or> hd rel \<noteq> ''..'' then Some OutputInside
               else case fs_Stat fs inputAbs of
                 Inl _ \<Rightarrow> Some StatInput
               | Inr inputInfo \<Rightarrow> alias_loop fs inputInfo outputAbs))"

definition validatePruneDirectory :: "fs_view \<Rightarrow> string \<Rightarrow> (path_error, path) result" where
  "validatePruneDirectory fs p =
     (if p = [] then Inl PathRequired
      else case fs_Abs fs p of
        None \<Rightarrow> Inl ResolveInput
      | Some a \<Rightarrow>
          (case fs_EvalSymlinks fs a of
             Inl _ \<Rightarrow> Inl ResolveInput
           | Inr real \<Rightarrow>
               if real \<noteq> a then Inl PathSymlink
               else case fs_Lstat fs a of
                 Inl _ \<Rightarrow> Inl StatInput
               | Inr info \<Rightarrow> if fi_kind info \<noteq> KDir then Inl PathNotDirectory else Inr a))"

section \<open>Lemmas\<close>

text \<open>Paths without \<^verbatim>\<open>..\<close>, as cleaning and symlink evaluation leave them.\<close>

definition clean_path :: "path \<Rightarrow> bool" where
  "clean_path p \<longleftrightarrow> ''..'' \<notin> set p"

definition fs_clean :: "fs_view \<Rightarrow> bool" where
  "fs_clean fs \<longleftrightarrow> (\<forall>s p. fs_Abs fs s = Some p \<longrightarrow> clean_path p) \<and>
     (\<forall>p q. fs_EvalSymlinks fs p = Inr q \<longrightarrow> clean_path q)"

lemma path_Rel_prefix: "prefix base t \<Longrightarrow> path_Rel base t = drop (length base) t"
  by (induction base t rule: path_Rel.induct) auto

lemma path_Rel_outside: "\<not> prefix base t \<Longrightarrow> \<exists>r. path_Rel base t = ''..'' # r"
  by (induction base t rule: path_Rel.induct) (auto simp: Cons_prefix_Cons neq_Nil_conv)

lemma path_Rel_inside_iff:
  "clean_path t \<Longrightarrow> path_Rel base t = [] \<or> hd (path_Rel base t) \<noteq> ''..'' \<longleftrightarrow> prefix base t"
proof (cases "prefix base t")
  case True
  assume "clean_path t"
  with True have "path_Rel base t \<noteq> [] \<Longrightarrow> hd (path_Rel base t) \<in> set t"
    by (metis path_Rel_prefix hd_in_set in_set_dropD)
  with \<open>clean_path t\<close> True show ?thesis by (auto simp: clean_path_def)
next
  case False
  with path_Rel_outside [OF False] show ?thesis by auto
qed

lemma resolve_loop_clean:
  "fs_clean fs \<Longrightarrow> clean_path probe \<Longrightarrow> clean_path missing \<Longrightarrow> resolve_loop fs probe missing = Inr r \<Longrightarrow> clean_path r"
proof (induction fs probe missing rule: resolve_loop.induct)
  case (1 fs probe missing)
  show ?case
  proof (cases "fs_EvalSymlinks fs probe")
    case (Inr q)
    with 1 have "r = q @ missing" "clean_path q" by (simp_all add: resolve_loop.simps fs_clean_def)
    with 1 show ?thesis by (simp add: clean_path_def)
  next
    case (Inl e)
    with 1(5) have e: "e = NotExist" "probe \<noteq> []" "resolve_loop fs (butlast probe) (last probe # missing) = Inr r"
      by (auto simp: resolve_loop.simps [of fs probe missing] split: fs_error.splits if_splits)
    have "clean_path (butlast probe)" "clean_path (last probe # missing)"
      using 1(3,4) e(2) by (auto simp: clean_path_def dest: in_set_butlastD)
    with 1(1) Inl e 1(2) show ?thesis by simp
  qed
qed

lemma resolved_clean:
  "fs_clean fs \<Longrightarrow> resolvePathWithMissing fs out = Inr r \<Longrightarrow> clean_path r"
  using resolve_loop_clean [of fs _ "[]" r]
  by (auto simp: resolvePathWithMissing_def split: option.splits) (auto simp: fs_clean_def clean_path_def)

lemma alias_loop_None_iff:
  "alias_loop fs inputInfo p = None \<longleftrightarrow>
     (\<forall>a. prefix a p \<longrightarrow> (case fs_Stat fs a of Inr info \<Rightarrow> fi_id inputInfo \<noteq> fi_id info
                            | Inl e \<Rightarrow> e = NotExist))"
proof (induction fs inputInfo p rule: alias_loop.induct)
  case (1 fs inputInfo probe)
  have pre: "prefix a probe \<longleftrightarrow> a = probe \<or> probe \<noteq> [] \<and> prefix a (butlast probe)" for a
    by (cases probe rule: rev_cases) (auto simp: prefix_snoc)
  show ?case
  proof (cases "probe = []")
    case True
    then show ?thesis by (subst alias_loop.simps) (auto split: sum.splits fs_error.splits)
  next
    case False
    with 1 show ?thesis
      by (subst alias_loop.simps, subst (1) pre) (auto split: sum.splits fs_error.splits)
  qed
qed

section \<open>Properties\<close>

text \<open>
  Property C32. The output of an operation never lies in its input: \<^verbatim>\<open>rejectOutputInsideDirectory\<close>
  accepts exactly when both paths resolve, the resolved output is not the input and not below it,
  the input can be inspected, and no ancestor of the output that exists is the input directory
  under another name. Every ancestor up to the root is inspected; the search ends.
\<close>

theorem reject_output_inside_exact:
  assumes "fs_clean fs"
  shows "rejectOutputInsideDirectory fs inp out = None \<longleftrightarrow>
     (\<exists>i o1 info. fs_EvalAbs fs inp = Inr i \<and>
        resolvePathWithMissing fs out = Inr o1 \<and> \<not> prefix i o1 \<and> fs_Stat fs i = Inr info \<and>
        (\<forall>p. prefix p o1 \<longrightarrow> (case fs_Stat fs p of Inr pinfo \<Rightarrow> fi_id info \<noteq> fi_id pinfo | Inl e \<Rightarrow> e = NotExist)))"
  using path_Rel_inside_iff [OF resolved_clean [OF assms]]
  by (fastforce simp: rejectOutputInsideDirectory_def Let_def alias_loop_None_iff
      split: option.splits sum.splits if_splits)

end
