(* ===== verification/PruneFiles.thy ===== *)
theory PruneFiles
  imports Paths GoStd PruneScan
begin

text \<open>
  The files of the database that prune works on (\<^verbatim>\<open>prune_db.go\<close>, \<^verbatim>\<open>prune_manifest.go\<close>): the
  directory walk, the refusal of every state in which LevelDB would repair its metadata, and the
  life of the database handle, whose filesystem lock outlives the sessions opened on it.
\<close>

section \<open>Walking the directory\<close>

record prune_entry =
  pe_name :: string
  pe_isDir :: bool
  pe_info :: "file_info option"

text \<open>
  The answers of \<^verbatim>\<open>ReadDir(128)\<close>, in order: some entries, and then more to come, the end of the
  directory, or an error. An error that comes with entries is reported before they are looked at.
\<close>

datatype readdir_status = ReadMore | ReadEOF | ReadError

type_synonym readdir = "(prune_entry list \<times> readdir_status) list"

datatype prune_files_error =
    PruneOpenDirectory
  | PruneReadDirectory
  | PruneEntryInfo string
  | PruneUnexpectedEntry string
  | PruneCloseDirectory
  | PrunePendingManifest string
  | PruneFileContext
  | PruneSyncFile string
  | PruneSyncDirectory
  | PruneStrict strictio_error
  | PruneInvalidCurrent
  | PruneNoCurrent
  | PruneCurrentIrregular

text \<open>The loop over the entries of one answer; a visit may fail and changes a state.\<close>

fun walk_entries ::
  "(prune_entry \<Rightarrow> 's \<Rightarrow> prune_files_error option \<times> 's) \<Rightarrow> prune_entry list \<Rightarrow> 's \<Rightarrow> prune_files_error option \<times> 's" where
  "walk_entries visit [] s = (None, s)"
| "walk_entries visit (entry # entries) s =
     (if pe_name entry = ''ancient'' \<and> pe_isDir entry then walk_entries visit entries s
      else case pe_info entry of
        None \<Rightarrow> (Some (PruneEntryInfo (pe_name entry)), s)
      | Some info \<Rightarrow>
          if fi_kind info \<noteq> KRegular then (Some (PruneUnexpectedEntry (pe_name entry)), s)
          else case visit entry s of
            (Some e, s') \<Rightarrow> (Some e, s')
          | (None, s') \<Rightarrow> walk_entries visit entries s')"

text \<open>A directory that has given all its answers is at its end.\<close>

fun walk_answers ::
  "(prune_entry \<Rightarrow> 's \<Rightarrow> prune_files_error option \<times> 's) \<Rightarrow> readdir \<Rightarrow> 's \<Rightarrow> prune_files_error option \<times> 's" where
  "walk_answers visit [] s = (None, s)"
| "walk_answers visit ((entries, status) # answers) s =
     (if status = ReadError then (Some PruneReadDirectory, s)
      else case walk_entries visit entries s of
        (Some e, s') \<Rightarrow> (Some e, s')
      | (None, s') \<Rightarrow> if status = ReadEOF then (None, s') else walk_answers visit answers s')"

record prune_dir =
  pd_open :: bool
  pd_answers :: readdir
  pd_closeErr :: bool

definition walkPruneFiles ::
  "(prune_entry \<Rightarrow> 's \<Rightarrow> prune_files_error option \<times> 's) \<Rightarrow> prune_dir \<Rightarrow> 's \<Rightarrow> prune_files_error option \<times> 's" where
  "walkPruneFiles visit dir s =
     (if \<not> pd_open dir then (Some PruneOpenDirectory, s)
      else case walk_answers visit (pd_answers dir) s of
        (Some e, s') \<Rightarrow> (Some e, s')
      | (None, s') \<Rightarrow> (if pd_closeErr dir then Some PruneCloseDirectory else None, s'))"

text \<open>
  \<^verbatim>\<open>syncPruneFiles\<close>: the state of the visit is the list of the files synced so far; \<open>poll\<close> and
  \<open>syncErr\<close> are the answers for the file of that name.
\<close>

definition sync_visit ::
  "(string \<Rightarrow> bool) \<Rightarrow> (string \<Rightarrow> bool) \<Rightarrow> prune_entry \<Rightarrow> string list \<Rightarrow> prune_files_error option \<times> string list" where
  "sync_visit poll syncErr entry synced =
     (if poll (pe_name entry) then (Some PruneFileContext, synced)
      else if syncErr (pe_name entry) then (Some (PruneSyncFile (pe_name entry)), synced)
      else (None, synced @ [pe_name entry]))"

definition syncPruneFiles ::
  "(string \<Rightarrow> bool) \<Rightarrow> (string \<Rightarrow> bool) \<Rightarrow> bool \<Rightarrow> prune_dir \<Rightarrow> prune_files_error option \<times> string list" where
  "syncPruneFiles poll syncErr syncDirErr dir =
     (case walkPruneFiles (sync_visit poll syncErr) dir [] of
        (Some e, synced) \<Rightarrow> (Some e, synced)
      | (None, synced) \<Rightarrow> (if syncDirErr then Some PruneSyncDirectory else None, synced))"

definition validatePruneEntries ::
  "prune_dir \<Rightarrow> file_info option \<Rightarrow> prune_files_error option" where
  "validatePruneEntries dir current =
     (case walkPruneFiles (\<lambda>_ s. (None, s)) dir () of
        (Some e, _) \<Rightarrow> Some e
      | (None, _) \<Rightarrow>
          (case current of
             None \<Rightarrow> Some PruneNoCurrent
           | Some info \<Rightarrow> if fi_kind info \<noteq> KRegular then Some PruneCurrentIrregular else None))"

section \<open>The manifest without repair\<close>

definition rejectPendingPruneCurrent :: "prune_entry \<Rightarrow> prune_files_error option" where
  "rejectPendingPruneCurrent entry =
     (let (suf, ok) = strings_CutPrefix (pe_name entry) ''CURRENT.'' in
      if \<not> ok \<or> suf = ''bak'' then None
      else case ParseInt suf of
        Some _ \<Rightarrow> Some (PrunePendingManifest (pe_name entry))
      | None \<Rightarrow> None)"

text \<open>
  \<^verbatim>\<open>parsePruneCurrent\<close>; \<open>fd_String\<close> is the name LevelDB gives to the manifest of a number. When
  the number does not parse, \<^verbatim>\<open>ParseInt\<close> reports the error that refuses the file.
\<close>

definition newline :: string where
  "newline = [CHR 0x0A]"

definition parsePruneCurrent :: "(int \<Rightarrow> string) \<Rightarrow> string \<Rightarrow> (prune_files_error, int) result" where
  "parsePruneCurrent fd_String current =
     (let (name, nl) = strings_CutSuffix current newline;
          (number, pre) = strings_CutPrefix name ''MANIFEST-''
      in case ParseInt number of
           None \<Rightarrow> Inl PruneInvalidCurrent
         | Some n \<Rightarrow> if \<not> nl \<or> \<not> pre \<or> n < 0 \<or> name \<noteq> fd_String n then Inl PruneInvalidCurrent else Inr n)"

text \<open>\<^verbatim>\<open>pruneManifestStorage.GetMeta\<close> with the root directory it opens.\<close>

definition GetMeta ::
  "(int \<Rightarrow> string) \<Rightarrow> prune_dir \<Rightarrow> (strictio_error, dir_root) result \<Rightarrow> (prune_files_error, int) result" where
  "GetMeta fd_String dir root =
     (case walkPruneFiles (\<lambda>entry s. (rejectPendingPruneCurrent entry, s)) dir () of
        (Some e, _) \<Rightarrow> Inl e
      | (None, _) \<Rightarrow>
          bindR (mapErr PruneStrict root) (\<lambda>r.
          bindR (mapErr PruneStrict (ReadRegular r ''CURRENT'' 64)) (\<lambda>current.
          bindR (parsePruneCurrent fd_String (go_string current)) (\<lambda>fd.
          bindR (mapErr PruneStrict (OpenRegular r (fd_String fd))) (\<lambda>(e, _).
            if de_closeErr e then Inl (PruneStrict (CloseFile (fd_String fd)))
            else if dr_closeErr r then Inl PruneCloseDirectory
            else Inr fd)))))"

section \<open>The database handle\<close>

text \<open>
  \<^verbatim>\<open>pruneDatabase\<close>: whether the storage (and with it the lock) is held, the open session with its
  mode, and the number of sessions opened so far, which numbers the answers of LevelDB.
\<close>

record pruneDatabase =
  pdb_locked :: bool
  pdb_session :: "bool option"
  pdb_opens :: nat

record db_world =
  dbw_lockStat :: "(fs_error, file_info) result"
  dbw_storageErr :: bool
  dbw_openErr :: faults
  dbw_closeErr :: faults
  dbw_storageCloseErr :: bool

datatype prune_db_error =
    PruneNoLockFile | PruneLockIrregular | PruneLockFailed | PruneOpenSession bool | PruneCloseSession | PruneCloseStorage

definition closeDB :: "db_world \<Rightarrow> pruneDatabase \<Rightarrow> prune_db_error option \<times> pruneDatabase" where
  "closeDB world p =
     (case pdb_session p of
        None \<Rightarrow> (None, p)
      | Some _ \<Rightarrow> (if dbw_closeErr world (pdb_opens p) then Some PruneCloseSession else None, p\<lparr>pdb_session := None\<rparr>))"

definition reopen :: "db_world \<Rightarrow> bool \<Rightarrow> pruneDatabase \<Rightarrow> prune_db_error option \<times> pruneDatabase" where
  "reopen world readOnly p =
     (case closeDB world p of
        (Some e, p1) \<Rightarrow> (Some e, p1)
      | (None, p1) \<Rightarrow>
          if dbw_openErr world (pdb_opens p1) then (Some (PruneOpenSession readOnly), p1\<lparr>pdb_opens := pdb_opens p1 + 1\<rparr>)
          else (None, p1\<lparr>pdb_session := Some readOnly, pdb_opens := pdb_opens p1 + 1\<rparr>))"

definition closeDatabase :: "db_world \<Rightarrow> pruneDatabase \<Rightarrow> prune_db_error option \<times> pruneDatabase" where
  "closeDatabase world p =
     (let (e, p1) = closeDB world p
      in (case e of Some err \<Rightarrow> Some err | None \<Rightarrow> if dbw_storageCloseErr world then Some PruneCloseStorage else None,
          p1\<lparr>pdb_locked := False\<rparr>))"

definition openPruneDatabase :: "db_world \<Rightarrow> bool \<Rightarrow> (prune_db_error, pruneDatabase) result" where
  "openPruneDatabase world dryRun =
     bindR (if dryRun then
              (case dbw_lockStat world of
                 Inl _ \<Rightarrow> Inl PruneNoLockFile
               | Inr info \<Rightarrow> if fi_kind info \<noteq> KRegular then Inl PruneLockIrregular else Inr ())
            else Inr ()) (\<lambda>_.
     if dbw_storageErr world then Inl PruneLockFailed
     else case reopen world True \<lparr>pdb_locked = True, pdb_session = None, pdb_opens = 0\<rparr> of
       (Some e, _) \<Rightarrow> Inl e
     | (None, p) \<Rightarrow> Inr p)"

section \<open>Lemmas\<close>

text \<open>The entries that are looked at: all but the directory of the ancients.\<close>

definition db_entries :: "prune_entry list \<Rightarrow> prune_entry list" where
  "db_entries es = filter (\<lambda>e. \<not> (pe_name e = ''ancient'' \<and> pe_isDir e)) es"

fun answered :: "readdir \<Rightarrow> prune_entry list" where
  "answered [] = []"
| "answered ((entries, status) # answers) = entries @ (if status = ReadMore then answered answers else [])"

definition regular_entry :: "prune_entry \<Rightarrow> bool" where
  "regular_entry e \<longleftrightarrow> (\<exists>info. pe_info e = Some info \<and> fi_kind info = KRegular)"

lemma walk_entries_ok:
  "walk_entries visit es s = (None, s') \<Longrightarrow>
     list_all regular_entry (db_entries es) \<and> (\<forall>e \<in> set (db_entries es). \<exists>t t'. visit e t = (None, t'))"
  by (induction es arbitrary: s)
     (auto simp: db_entries_def regular_entry_def split: if_splits option.splits prod.splits)

lemma walk_answers_ok:
  "walk_answers visit as s = (None, s') \<Longrightarrow>
     list_all regular_entry (db_entries (answered as)) \<and>
     (\<forall>e \<in> set (db_entries (answered as)). \<exists>t t'. visit e t = (None, t'))"
proof (induction as arbitrary: s)
  case (Cons a as)
  obtain es st where a: "a = (es, st)" by (cases a)
  with Cons.prems obtain s1 where w: "walk_entries visit es s = (None, s1)" and st: "st \<noteq> ReadError"
    and rest: "st = ReadMore \<Longrightarrow> walk_answers visit as s1 = (None, s')"
    by (auto split: if_splits prod.splits option.splits)
  with walk_entries_ok [OF w] Cons.IH a show ?case by (auto simp: db_entries_def)
qed (simp add: db_entries_def)

lemma walkPruneFiles_ok:
  assumes "walkPruneFiles visit dir s = (None, s')"
  shows "list_all regular_entry (db_entries (answered (pd_answers dir)))"
    "\<forall>e \<in> set (db_entries (answered (pd_answers dir))). \<exists>t t'. visit e t = (None, t')"
  using assms walk_answers_ok [of visit "pd_answers dir" s]
  by (auto simp: walkPruneFiles_def split: if_splits option.splits prod.splits)

text \<open>The name LevelDB gives to a manifest: at least six digits.\<close>

definition manifest_names :: "(int \<Rightarrow> string) \<Rightarrow> bool" where
  "manifest_names fd_String \<longleftrightarrow> (\<forall>n. 0 \<le> n \<longrightarrow> fd_String n = ''MANIFEST-'' @ pad_decimal 6 (nat n))"

lemma ParseInt_range: "ParseInt s = Some n \<Longrightarrow> n < 2 ^ 63"
  by (auto simp: ParseInt_def Let_def split: if_splits prod.splits list.splits)

lemma parsePruneCurrent_iff:
  assumes "manifest_names fd_String"
  shows "parsePruneCurrent fd_String current = Inr n \<longleftrightarrow>
     0 \<le> n \<and> n < 2 ^ 63 \<and> current = ''MANIFEST-'' @ pad_decimal 6 (nat n) @ newline"
proof
  assume ok: "parsePruneCurrent fd_String current = Inr n"
  obtain name nl where c: "strings_CutSuffix current newline = (name, nl)" by fastforce
  obtain number pre where d: "strings_CutPrefix name ''MANIFEST-'' = (number, pre)" by fastforce
  from ok have p: "nl" "ParseInt number = Some n" "0 \<le> n" "name = fd_String n"
    by (auto simp: parsePruneCurrent_def c d split: option.splits if_splits)
  from p(1) c have "current = name @ newline" by (simp add: CutSuffix_True)
  with p assms ParseInt_range [OF p(2)] show "0 \<le> n \<and> n < 2 ^ 63 \<and> current = ''MANIFEST-'' @ pad_decimal 6 (nat n) @ newline"
    by (simp add: manifest_names_def)
next
  assume n: "0 \<le> n \<and> n < 2 ^ 63 \<and> current = ''MANIFEST-'' @ pad_decimal 6 (nat n) @ newline"
  then have c: "strings_CutSuffix current newline = (''MANIFEST-'' @ pad_decimal 6 (nat n), True)"
    using CutSuffix_append [of "''MANIFEST-'' @ pad_decimal 6 (nat n)" newline] by simp
  have d: "strings_CutPrefix (''MANIFEST-'' @ pad_decimal 6 (nat n)) ''MANIFEST-'' = (pad_decimal 6 (nat n), True)"
    by (rule CutPrefix_append)
  have "nat n < 2 ^ 63" using n by (simp add: nat_less_iff)
  then have "ParseInt (pad_decimal 6 (nat n)) = Some n" using ParseInt_pad [of "nat n" 6] n by simp
  moreover have "fd_String n = ''MANIFEST-'' @ pad_decimal 6 (nat n)" using assms n by (simp add: manifest_names_def)
  ultimately show "parsePruneCurrent fd_String current = Inr n"
    using c n by (simp only: parsePruneCurrent_def d Let_def prod.case option.case) simp
qed

lemma closeDB_lock: "closeDB world p = (e, p') \<Longrightarrow> pdb_locked p' = pdb_locked p \<and> pdb_session p' = None"
  by (auto simp: closeDB_def split: option.splits)

lemma reopen_lock:
  "reopen world ro p = (e, p') \<Longrightarrow> pdb_locked p' = pdb_locked p \<and> (e = None \<longrightarrow> pdb_session p' = Some ro) \<and>
     (e \<noteq> None \<longrightarrow> pdb_session p' = None)"
  using closeDB_lock [of world p] by (auto simp: reopen_def split: prod.splits option.splits if_splits)

section \<open>Properties\<close>

text \<open>
  Property C35. \<^verbatim>\<open>CURRENT\<close> is accepted only in the one form LevelDB writes: the parser returns a
  number exactly when the file is the manifest name of that number, which fits 63 bits, and one
  newline. Signs, shorter or longer padding, missing or further bytes are refused.
\<close>

theorem prune_current_canonical:
  assumes "manifest_names fd_String"
  shows "parsePruneCurrent fd_String current = Inr n \<longleftrightarrow>
     0 \<le> n \<and> n < 2 ^ 63 \<and> current = ''MANIFEST-'' @ pad_decimal 6 (nat n) @ newline"
  using assms by (rule parsePruneCurrent_iff)



end
