(* ===== verification/Workers.thy ===== *)
theory Workers
  imports Prelude
begin

text \<open>
  Bounds of concurrency (\<^verbatim>\<open>partition_execution.go\<close>, \<^verbatim>\<open>normalizeMigrateWorkers\<close> of
  \<^verbatim>\<open>migrate.go\<close>): a buffered channel used as a semaphore, leases that hold at most one token
  of it, and the window of pending accounts. Goroutines interleave at the operations on the
  channel; an operation that would block has no step.
\<close>

section \<open>Definitions\<close>

definition minMigrateWorkers :: int where "minMigrateWorkers = 2"
definition maxMigrateWorkers :: int where "maxMigrateWorkers = 16"

definition normalizeMigrateWorkers :: "int \<Rightarrow> int" where
  "normalizeMigrateWorkers workers = max workers minMigrateWorkers"

text \<open>Go's \<^verbatim>\<open>int\<close> has 64 bits: products wrap around, and division truncates.\<close>

definition go_int :: "int \<Rightarrow> int" where
  "go_int x = sint (word_of_int x :: 64 word)"

definition go_quot :: "int \<Rightarrow> int \<Rightarrow> int" where
  "go_quot a b = sgn a * sgn b * (\<bar>a\<bar> div \<bar>b\<bar>)"

text \<open>A buffered channel of empty values: its capacity and how many it holds.\<close>

record token_chan =
  tc_cap :: nat
  tc_len :: nat

definition newMigrateWorkLimiter :: "int \<Rightarrow> token_chan" where
  "newMigrateWorkLimiter workers = \<lparr>tc_cap = nat (normalizeMigrateWorkers workers), tc_len = 0\<rparr>"

definition newMigrateAccountWindow :: "int \<Rightarrow> token_chan" where
  "newMigrateAccountWindow workers = \<lparr>tc_cap = nat (2 * normalizeMigrateWorkers workers), tc_len = 0\<rparr>"

text \<open>
  The outcomes of \<^verbatim>\<open>select\<close> between a send and a cancelled context, as a set: empty when it
  blocks, both when both cases are ready. \<open>None\<close> is the error of the context.
\<close>

definition limiter_acquire :: "bool \<Rightarrow> token_chan \<Rightarrow> token_chan option list" where
  "limiter_acquire canceled c =
     (if tc_len c < tc_cap c then [Some (c\<lparr>tc_len := tc_len c + 1\<rparr>)] else []) @ (if canceled then [None] else [])"

text \<open>A receive blocks on an empty channel (\<open>None\<close>).\<close>

definition limiter_release :: "token_chan \<Rightarrow> token_chan option" where
  "limiter_release c = (if tc_len c = 0 then None else Some (c\<lparr>tc_len := tc_len c - 1\<rparr>))"

definition window_tryAcquire :: "token_chan \<Rightarrow> bool \<times> token_chan" where
  "window_tryAcquire c = (if tc_len c < tc_cap c then (True, c\<lparr>tc_len := tc_len c + 1\<rparr>) else (False, c))"

definition window_pending :: "token_chan \<Rightarrow> bool" where
  "window_pending c \<longleftrightarrow> tc_len c \<noteq> 0"

text \<open>
  \<^verbatim>\<open>migrateWorkLease\<close>: acquiring polls the context, is a no-op while held and otherwise takes a
  token; releasing is a no-op unless held. The outcomes are those of the channel.
\<close>

definition lease_acquire :: "bool \<Rightarrow> bool \<Rightarrow> bool \<Rightarrow> token_chan \<Rightarrow> (bool \<times> token_chan) option list" where
  "lease_acquire polled canceled held c =
     (if polled then [None]
      else if held then [Some (True, c)]
      else map (map_option (Pair True)) (limiter_acquire canceled c))"

definition lease_release :: "bool \<Rightarrow> token_chan \<Rightarrow> (bool \<times> token_chan) option" where
  "lease_release held c = (if \<not> held then Some (held, c) else map_option (Pair False) (limiter_release c))"

section \<open>Leases of concurrent goroutines\<close>

text \<open>
  Leases are owned by goroutines \<open>g\<close>; a step is one operation of one of them, at any state of the
  context. An acquisition that fails leaves everything unchanged.
\<close>

record lease_state =
  ls_chan :: token_chan
  ls_held :: "nat \<Rightarrow> bool"

inductive lease_step :: "lease_state \<Rightarrow> lease_state \<Rightarrow> bool" where
  acquired: "Some (h, c) \<in> set (lease_acquire polled canceled (ls_held s g) (ls_chan s)) \<Longrightarrow>
     lease_step s \<lparr>ls_chan = c, ls_held = (ls_held s)(g := h)\<rparr>"
| refused: "None \<in> set (lease_acquire polled canceled (ls_held s g) (ls_chan s)) \<Longrightarrow> lease_step s s"
| released: "lease_release (ls_held s g) (ls_chan s) = Some (h, c) \<Longrightarrow>
     lease_step s \<lparr>ls_chan = c, ls_held = (ls_held s)(g := h)\<rparr>"

definition leases_start :: "int \<Rightarrow> lease_state" where
  "leases_start workers = \<lparr>ls_chan = newMigrateWorkLimiter workers, ls_held = (\<lambda>g. False)\<rparr>"

definition holders :: "lease_state \<Rightarrow> nat set" where
  "holders s = {g. ls_held s g}"

definition lease_inv :: "int \<Rightarrow> lease_state \<Rightarrow> bool" where
  "lease_inv workers s \<longleftrightarrow> finite (holders s) \<and> card (holders s) = tc_len (ls_chan s) \<and>
     tc_len (ls_chan s) \<le> tc_cap (ls_chan s) \<and> tc_cap (ls_chan s) = nat (normalizeMigrateWorkers workers)"

lemma holders_upd:
  "holders \<lparr>ls_chan = c, ls_held = (ls_held s)(g := True)\<rparr> = insert g (holders s)"
  "holders \<lparr>ls_chan = c, ls_held = (ls_held s)(g := False)\<rparr> = holders s - {g}"
  "g \<in> holders s \<longleftrightarrow> ls_held s g"
  by (auto simp: holders_def)

lemma lease_inv_step:
  assumes "lease_inv w s" and "lease_step s s'"
  shows "lease_inv w s'"
  using assms(2)
proof (cases rule: lease_step.cases)
  case (acquired h c polled canceled g)
  show ?thesis
  proof (cases "ls_held s g")
    case True
    with acquired have "h" "c = ls_chan s" by (auto simp: lease_acquire_def split: if_splits)
    with True acquired(1) assms(1) show ?thesis by (simp add: lease_inv_def holders_upd insert_absorb)
  next
    case False
    then have "g \<notin> holders s" by (simp add: holders_upd)
    with False acquired assms(1) show ?thesis
      by (auto simp: lease_acquire_def limiter_acquire_def lease_inv_def holders_upd split: if_splits)
  qed
next
  case refused
  with assms(1) show ?thesis by simp
next
  case (released g h c)
  show ?thesis
  proof (cases "ls_held s g")
    case True
    then have "g \<in> holders s" by (simp add: holders_upd)
    with True released assms(1) show ?thesis
      by (auto simp: lease_release_def limiter_release_def lease_inv_def holders_upd card_Diff_singleton split: if_splits)
  next
    case False
    with released assms(1) show ?thesis by (auto simp: lease_release_def lease_inv_def holders_upd)
  qed
qed

lemma lease_inv_reachable: "lease_step\<^sup>*\<^sup>* (leases_start w) s \<Longrightarrow> lease_inv w s"
proof (induction rule: rtranclp_induct)
  case base
  then show ?case by (simp add: lease_inv_def leases_start_def newMigrateWorkLimiter_def holders_def)
next
  case (step y z)
  then show ?case by (blast intro: lease_inv_step)
qed

lemma held_release:
  assumes "lease_inv w s" and "ls_held s g"
  shows "\<exists>c. lease_release (ls_held s g) (ls_chan s) = Some (False, c) \<and> tc_len c = tc_len (ls_chan s) - 1"
proof -
  have "g \<in> holders s" using assms(2) by (simp add: holders_upd)
  then have "card (holders s) \<noteq> 0" using assms(1) by (metis card_0_eq empty_iff lease_inv_def)
  moreover have "card (holders s) = tc_len (ls_chan s)" using assms(1) by (simp add: lease_inv_def)
  ultimately show ?thesis using assms(2) by (simp add: lease_release_def limiter_release_def)
qed

section \<open>Properties\<close>

text \<open>
  Property C22. However the goroutines interleave, fail and repeat their calls, the tokens of the
  limiter are exactly the leases held: never more goroutines work at once than the normalised
  number of workers, a release never blocks, and an acquisition blocks only while that many
  leases are held elsewhere.
\<close>

theorem leases_bound_workers:
  assumes "lease_step\<^sup>*\<^sup>* (leases_start workers) s"
  shows "finite (holders s) \<and> card (holders s) \<le> nat (normalizeMigrateWorkers workers) \<and>
    card (holders s) = tc_len (ls_chan s) \<and> lease_release (ls_held s g) (ls_chan s) \<noteq> None \<and>
    (lease_acquire polled canceled (ls_held s g) (ls_chan s) = [] \<longrightarrow>
       \<not> polled \<and> \<not> canceled \<and> \<not> ls_held s g \<and> card (holders s) = nat (normalizeMigrateWorkers workers))"
proof -
  from lease_inv_reachable [OF assms] have inv: "lease_inv workers s" .
  moreover have "lease_release (ls_held s g) (ls_chan s) \<noteq> None"
    using held_release [OF inv, of g] by (cases "ls_held s g") (auto simp: lease_release_def)
  ultimately show ?thesis
    by (auto simp: lease_inv_def lease_acquire_def limiter_acquire_def split: if_splits)
qed

theorem leases_bound_workers_witness:
  "card (holders \<lparr>ls_chan = \<lparr>tc_cap = 2, tc_len = 1\<rparr>, ls_held = (\<lambda>g. False)(7 := True)\<rparr>) \<le> 2"
proof -
  let ?s = "\<lparr>ls_chan = \<lparr>tc_cap = 2, tc_len = 1\<rparr>, ls_held = (\<lambda>g. False)(7 := True)\<rparr>"
  have "lease_step (leases_start 1) \<lparr>ls_chan = \<lparr>tc_cap = 2, tc_len = 1\<rparr>, ls_held = (ls_held (leases_start 1))(7 := True)\<rparr>"
    by (rule acquired [where polled = False and canceled = False])
      (simp add: leases_start_def newMigrateWorkLimiter_def normalizeMigrateWorkers_def minMigrateWorkers_def
        lease_acquire_def limiter_acquire_def)
  then have "lease_step\<^sup>*\<^sup>* (leases_start 1) ?s" by (simp add: leases_start_def r_into_rtranclp)
  from leases_bound_workers [OF this] show ?thesis by (simp add: normalizeMigrateWorkers_def minMigrateWorkers_def)
qed

end
