(* ===== verification/PruneRun.thy ===== *)
theory PruneRun
  imports PruneKeep PruneFiles Workers
begin

text \<open>
  A whole run of prune (\<^verbatim>\<open>pruneWithHooks\<close> of \<^verbatim>\<open>prune.go\<close>, \<^verbatim>\<open>prune_execution.go\<close>): options, the
  budget of the execution, the phases in their order with every early return, and the deferred
  clean-up. The answers of the outside world are the fields of one record; which of them fail is
  arbitrary.
\<close>

section \<open>Options and budget\<close>

record PruneOptions =
  po_Chaindata :: string
  po_TempDir :: string
  po_CacheMB :: int
  po_Handles :: int
  po_Workers :: int
  po_DryRun :: bool
  po_Compact :: bool

record pruneExecution =
  pe_workers :: int
  pe_sourceCache :: int
  pe_keepCache :: int
  pe_sourceHandles :: int
  pe_keepHandles :: int
  pe_scanBytes :: int

definition newPruneExecution :: "PruneOptions \<Rightarrow> pruneExecution" where
  "newPruneExecution o1 =
     (let keepCache = max 16 (go_quot (po_CacheMB o1) 3);
          keepHandles = max 16 (go_quot (po_Handles o1) 3)
      in \<lparr>pe_workers = normalizeMigrateWorkers (po_Workers o1),
          pe_sourceCache = po_CacheMB o1 - keepCache, pe_keepCache = keepCache,
          pe_sourceHandles = po_Handles o1 - keepHandles, pe_keepHandles = keepHandles,
          pe_scanBytes = max (2 ^ 20) (min (16 * 2 ^ 20) (go_quot (go_int (po_CacheMB o1 * 2 ^ 20)) 8))\<rparr>)"

datatype prune_failure =
    FailContext
  | FailWorkers
  | FailBudget
  | FailExclusive
  | FailPath path_error
  | FailFiles prune_files_error
  | FailDb prune_db_error
  | FailHead legacy_error
  | FailGenesisMissing
  | FailGenesisHeader
  | FailGenesisDecode
  | FailGenesisInvalid
  | FailGenesisNode
  | FailGenesisHash
  | FailGenesisTrie
  | FailTemp
  | FailKeepOpen
  | FailKeepClose
  | FailKeepSync
  | FailCollect collect_error
  | FailState
  | FailStateChanged
  | FailScan prune_error
  | FailHeadChanged
  | FailSync
  | FailCompact

text \<open>The directory walk and the information on \<^verbatim>\<open>CURRENT\<close> are those of the chaindata directory.\<close>

definition validatePruneOptions ::
  "fs_view \<Rightarrow> prune_dir \<Rightarrow> file_info option \<Rightarrow> (path \<Rightarrow> string) \<Rightarrow> PruneOptions \<Rightarrow> (prune_failure, path \<times> path) result" where
  "validatePruneOptions fs dir current pathString o1 =
     (if po_Workers o1 > maxMigrateWorkers then Inl FailWorkers
      else if po_CacheMB o1 < 32 \<or> po_Handles o1 < 32 then Inl FailBudget
      else if po_DryRun o1 \<and> po_Compact o1 then Inl FailExclusive
      else
        bindR (mapErr FailPath (validatePruneDirectory fs (po_Chaindata o1))) (\<lambda>p.
        case validatePruneEntries dir current of
          Some e \<Rightarrow> Inl (FailFiles e)
        | None \<Rightarrow>
            let parent0 = (if po_TempDir o1 = [] then pathString (butlast p) else po_TempDir o1) in
            bindR (mapErr FailPath (validatePruneDirectory fs parent0)) (\<lambda>parent.
            case rejectOutputInsideDirectory fs (pathString p) (pathString parent) of
              Some e \<Rightarrow> Inl (FailPath e)
            | None \<Rightarrow> Inr (p, parent))))"

section \<open>The outside world of a run\<close>

text \<open>
  What the trie library answers for the genesis root: whether opening the trie and its iterator
  fail, whether the first step succeeds, and the errors of the iterator and of closing the
  database. \<^verbatim>\<open>validatePruneGenesisRoot\<close> looks at the root node only.
\<close>

record genesis_trie =
  gt_openErr :: bool
  gt_iteratorErr :: bool
  gt_next :: bool
  gt_err :: bool
  gt_closeErr :: bool

definition validatePruneGenesisRoot :: "genesis_trie \<Rightarrow> prune_failure option" where
  "validatePruneGenesisRoot t =
     (let err =
        (if gt_openErr t then Some FailGenesisTrie
         else if gt_iteratorErr t then Some FailGenesisTrie
         else if \<not> gt_next t then Some (if gt_err t then FailGenesisTrie else FailGenesisNode)
         else if gt_err t then Some FailGenesisTrie
         else None)
      in case err of Some e \<Rightarrow> Some e | None \<Rightarrow> if gt_closeErr t then Some FailGenesisTrie else None)"

text \<open>
  \<open>rw_view\<close> gives the readers of \<^verbatim>\<open>rawdb\<close> on a content, \<open>rw_genesisTrie\<close> the answers for the
  genesis root, \<open>rw_validate\<close> the state validation under a root. Scans and state checks
  are numbered: preflight or keep set, deletion, verification, verification after compaction.
\<close>

record prune_world =
  rw_fs :: fs_view
  rw_dir :: prune_dir
  rw_current :: "file_info option"
  rw_pathString :: "path \<Rightarrow> string"
  rw_poll :: faults
  rw_db :: db_world
  rw_view :: "kv list \<Rightarrow> rawdb_view"
  rw_genesisTrie :: "(bytes \<rightharpoonup> bytes) \<Rightarrow> hash \<Rightarrow> genesis_trie"
  rw_validate :: "hash \<Rightarrow> (unit, StateResult) result reader"
  rw_stateErr :: faults
  rw_tempErr :: bool
  rw_keepOpenErr :: faults
  rw_keepCloseErr :: faults
  rw_keepSyncErr :: faults
  rw_keep :: keep_world
  rw_scan :: "nat \<Rightarrow> scan_setup"
  rw_sourceFail :: faults
  rw_keepFail :: faults
  rw_delete :: delete_world
  rw_syncErr :: faults
  rw_compactErr :: bool
  rw_removeErr :: bool

definition readPruneGenesis ::
  "geth_env \<Rightarrow> prune_world \<Rightarrow> kv list \<Rightarrow> (prune_failure, hash \<times> bytes) result" where
  "readPruneGenesis env world db =
     (let h = rd_CanonicalHash (rw_view world db) 0 in
      if h = zero_hash then Inl FailGenesisMissing
      else
        let blob = rd_HeaderRLP (rw_view world db) h 0 in
        if keccak256 env blob \<noteq> h then Inl FailGenesisHeader
        else case rlp_dec_header env blob of
          None \<Rightarrow> Inl FailGenesisDecode
        | Some hdr \<Rightarrow>
            if h_Number hdr \<noteq> Some 0 \<or> h_Root hdr = zero_hash then Inl FailGenesisInvalid
            else if h_Root hdr = EmptyRootHash env then Inr (h_Root hdr, [])
            else case map_of db (h_Root hdr) of
              None \<Rightarrow> Inl FailGenesisNode
            | Some node \<Rightarrow>
                if keccak256 env node \<noteq> h_Root hdr then Inl FailGenesisHash
                else case validatePruneGenesisRoot (rw_genesisTrie world (map_of db) (h_Root hdr)) of
                  Some e \<Rightarrow> Inl e
                | None \<Rightarrow> Inr (h_Root hdr, node))"

definition confirmPruneHead ::
  "geth_env \<Rightarrow> prune_world \<Rightarrow> Head \<Rightarrow> bytes \<Rightarrow> kv list \<Rightarrow> prune_failure option" where
  "confirmPruneHead env world head header db =
     (case readLegacyHead env (rw_view world db) of
        Inl e \<Rightarrow> Some (FailHead e)
      | Inr (after, blob) \<Rightarrow> if head \<noteq> after \<or> header \<noteq> blob then Some FailHeadChanged else None)"

definition verifyPruneState ::
  "prune_world \<Rightarrow> nat \<Rightarrow> Head \<Rightarrow> StateResult \<Rightarrow> kv list \<Rightarrow> prune_failure option" where
  "verifyPruneState world n head want db =
     (if rw_stateErr world n then Some FailState
      else case answer (rw_validate world (StateRoot head)) (map_of db) of
        Inl _ \<Rightarrow> Some FailState
      | Inr state \<Rightarrow> if state \<noteq> want then Some FailStateChanged else None)"

section \<open>Preparing\<close>

record PruneResult =
  pr_Head :: Head
  pr_GenesisRoot :: hash
  pr_DryRun :: bool
  pr_Compacted :: bool
  pr_Verified :: bool
  pr_StateCounts :: Counts
  pr_RetainedState :: PruneKVCount
  pr_Protected :: PruneKVCount
  pr_Candidates :: PruneKVCount
  pr_Deleted :: PruneKVCount
  pr_Unknown :: PruneKVCount
  pr_ProtectedDigest :: hash

text \<open>What the phases before the deletion have established.\<close>

record prune_prepared =
  pp_head :: Head
  pp_header :: bytes
  pp_genesis :: hash
  pp_node :: bytes
  pp_state :: StateResult
  pp_keep :: "kv list"
  pp_before :: pruneInventory

definition buildPruneKeep ::
  "geth_env \<Rightarrow> prune_world \<Rightarrow> nat \<Rightarrow> kv list \<Rightarrow> Head \<Rightarrow> hash \<Rightarrow> bytes \<Rightarrow> (prune_failure, StateResult \<times> kv list) result" where
  "buildPruneKeep env world workers db head genesis node =
     (if rw_keepOpenErr world 0 then Inl FailKeepOpen
      else case collectPruneState env (rw_keep world) (rw_validate world (StateRoot head)) (map_of db) workers
                  (su_progress (rw_scan world 0)) genesis node of
        (Inl e, _) \<Rightarrow> Inl (FailCollect e)
      | (Inr state, w) \<Rightarrow>
          if rw_keepSyncErr world 0 then Inl FailKeepSync
          else if rw_keepCloseErr world 0 then Inl FailKeepClose
          else Inr (state, kw_db w))"

definition keep_view :: "prune_world \<Rightarrow> nat \<Rightarrow> kv list \<Rightarrow> kv_view" where
  "keep_view world n kvs = \<lparr>kv_entries = kvs, kv_fail = rw_keepFail world n\<rparr>"

definition source_view :: "prune_world \<Rightarrow> nat \<Rightarrow> kv list \<Rightarrow> kv_view" where
  "source_view world n kvs = \<lparr>kv_entries = kvs, kv_fail = rw_sourceFail world n\<rparr>"

text \<open>
  From reading the head to the confirmed preflight: \<^verbatim>\<open>collect\<close>, \<^verbatim>\<open>verify_keep\<close>, \<^verbatim>\<open>preflight\<close>.
\<close>

definition prune_prepare ::
  "geth_env \<Rightarrow> rawdb_keys \<Rightarrow> prune_world \<Rightarrow> nat \<Rightarrow> kv list \<Rightarrow> (prune_failure, prune_prepared) result" where
  "prune_prepare env lib world workers db =
     bindR (mapErr FailHead (readLegacyHead env (rw_view world db))) (\<lambda>(head, header).
     bindR (readPruneGenesis env world db) (\<lambda>(genesis, node).
     if rw_tempErr world then Inl FailTemp
     else
       bindR (buildPruneKeep env world workers db head genesis node) (\<lambda>(state, keep).
       if rw_keepSyncErr world 1 \<or> rw_keepSyncErr world 2 then Inl FailSync
       else if rw_keepOpenErr world 1 then Inl FailKeepOpen
       else case verifyPruneState world 0 head state keep of
         Some e \<Rightarrow> Inl e
       | None \<Rightarrow>
           bindR (mapErr FailScan (scanPruneDB env lib (rw_scan world 0) (source_view world 0 db) (keep_view world 0 keep)))
             (\<lambda>before.
             case confirmPruneHead env world head header db of
               Some e \<Rightarrow> Inl e
             | None \<Rightarrow> Inr \<lparr>pp_head = head, pp_header = header, pp_genesis = genesis, pp_node = node,
                            pp_state = state, pp_keep = keep, pp_before = before\<rparr>))))"

definition prepared_result :: "PruneOptions \<Rightarrow> prune_prepared \<Rightarrow> PruneResult" where
  "prepared_result o1 pp =
     \<lparr>pr_Head = pp_head pp, pr_GenesisRoot = pp_genesis pp, pr_DryRun = po_DryRun o1, pr_Compacted = False,
      pr_Verified = False, pr_StateCounts = st_Counts (pp_state pp), pr_RetainedState = inv_Keep (pp_before pp),
      pr_Protected = inv_Protected (pp_before pp), pr_Candidates = inv_Candidates (pp_before pp),
      pr_Deleted = zeroKV, pr_Unknown = inv_Unknown (pp_before pp), pr_ProtectedDigest = inv_Digest (pp_before pp)\<rparr>"

section \<open>Deleting and verifying\<close>

record prune_state =
  ps_result :: PruneResult
  ps_content :: "kv list"
  ps_handle :: pruneDatabase
  ps_started :: bool

definition verifyPruneDatabase ::
  "geth_env \<Rightarrow> rawdb_keys \<Rightarrow> prune_world \<Rightarrow> nat \<Rightarrow> prune_prepared \<Rightarrow> prune_state \<Rightarrow> prune_failure option \<times> prune_state" where
  "verifyPruneDatabase env lib world n pp st =
     (case closeDB (rw_db world) (ps_handle st) of
        (Some e, p) \<Rightarrow> (Some (FailDb e), st\<lparr>ps_handle := p\<rparr>)
      | (None, p) \<Rightarrow>
          if rw_syncErr world n then (Some FailSync, st\<lparr>ps_handle := p\<rparr>)
          else case reopen (rw_db world) True p of
            (Some e, p1) \<Rightarrow> (Some (FailDb e), st\<lparr>ps_handle := p1\<rparr>)
          | (None, p1) \<Rightarrow>
              let st1 = st\<lparr>ps_handle := p1\<rparr>; db = ps_content st in
              (case confirmPruneHead env world (pp_head pp) (pp_header pp) db of
                 Some e \<Rightarrow> (Some e, st1)
               | None \<Rightarrow>
                   (case verifyPruneState world n (pp_head pp) (pp_state pp) db of
                      Some e \<Rightarrow> (Some e, st1)
                    | None \<Rightarrow>
                        (case readPruneGenesis env world db of
                           Inl e \<Rightarrow> (Some e, st1)
                         | Inr _ \<Rightarrow>
                             (case scanPruneDB env lib (rw_scan world n) (source_view world n db)
                                     (keep_view world n (pp_keep pp)) of
                                Inl e \<Rightarrow> (Some (FailScan e), st1)
                              | Inr after \<Rightarrow>
                                  (map_option FailScan (comparePruneInventory (pp_before pp) after), st1))))))"

definition compactPruneDatabase :: "prune_world \<Rightarrow> prune_state \<Rightarrow> prune_failure option \<times> prune_state" where
  "compactPruneDatabase world st =
     (if rw_poll world 2 then (Some FailContext, st)
      else case reopen (rw_db world) False (ps_handle st) of
        (Some e, p) \<Rightarrow> (Some (FailDb e), st\<lparr>ps_handle := p\<rparr>)
      | (None, p) \<Rightarrow>
          let st1 = st\<lparr>ps_handle := p\<rparr> in
          if rw_compactErr world then (Some FailCompact, st1)
          else if rw_poll world 3 then (Some FailContext, st1)
          else (None, st1))"

text \<open>The phases \<^verbatim>\<open>verify\<close>, \<^verbatim>\<open>compact\<close> and \<^verbatim>\<open>verify_compacted\<close>.\<close>

definition mark_verified :: "prune_state \<Rightarrow> prune_state" where
  "mark_verified st = st\<lparr>ps_result := (ps_result st)\<lparr>pr_Verified := True\<rparr>\<rparr>"

definition prune_finish ::
  "geth_env \<Rightarrow> rawdb_keys \<Rightarrow> prune_world \<Rightarrow> PruneOptions \<Rightarrow> prune_prepared \<Rightarrow> prune_state \<Rightarrow> prune_failure option \<times> prune_state" where
  "prune_finish env lib world o1 pp st =
     (case verifyPruneDatabase env lib world 2 pp st of
        (Some e, st1) \<Rightarrow> (Some e, st1)
      | (None, st1) \<Rightarrow>
          if \<not> po_Compact o1 then (None, mark_verified st1)
          else case compactPruneDatabase world st1 of
            (Some e, st2) \<Rightarrow> (Some e, st2)
          | (None, st2) \<Rightarrow>
              (case verifyPruneDatabase env lib world 3 pp (st2\<lparr>ps_result := (ps_result st2)\<lparr>pr_Compacted := True\<rparr>\<rparr>) of
                 (Some e, st3) \<Rightarrow> (Some e, st3)
               | (None, st3) \<Rightarrow> (None, mark_verified st3)))"

definition prune_apply ::
  "geth_env \<Rightarrow> rawdb_keys \<Rightarrow> prune_world \<Rightarrow> PruneOptions \<Rightarrow> prune_prepared \<Rightarrow> prune_state \<Rightarrow> prune_failure option \<times> prune_state" where
  "prune_apply env lib world o1 pp st =
     (if po_DryRun o1 then (None, mark_verified st)
      else if rw_poll world 1 then (Some FailContext, st)
      else case reopen (rw_db world) False (ps_handle st) of
        (Some e, p) \<Rightarrow> (Some (FailDb e), st\<lparr>ps_handle := p\<rparr>)
      | (None, p) \<Rightarrow>
          (case deletePruneDifference env lib (rw_scan world 1) (rw_delete world)
                  (source_view world 1 (ps_content st)) (keep_view world 1 (pp_keep pp)) of
             (err, del) \<Rightarrow>
               let st1 = st\<lparr>ps_handle := p, ps_content := d_db del, ps_started := d_started del,
                            ps_result := (ps_result st)\<lparr>pr_Deleted := d_deleted del\<rparr>\<rparr>
               in case err of
                    Some e \<Rightarrow> (Some (FailScan e), st1)
                  | None \<Rightarrow> prune_finish env lib world o1 pp st1))"

text \<open>
  \<^verbatim>\<open>pruneWithHooks\<close>; \<open>res0\<close> is the zero value of the result, and stands also for the partly filled
  result returned beside an error of the preparation. The deferred calls close the keep database,
  remove the temporary directory and close the source; each adds its error to the result.
\<close>

definition prune_deferred :: "prune_world \<Rightarrow> prune_failure option \<times> prune_state \<Rightarrow> prune_failure option \<times> prune_state" where
  "prune_deferred world r =
     (case r of (err, st) \<Rightarrow>
        let err1 = (case err of Some e \<Rightarrow> Some e | None \<Rightarrow> if rw_keepCloseErr world 1 then Some FailKeepClose else None);
            err2 = (case err1 of Some e \<Rightarrow> Some e | None \<Rightarrow> if rw_removeErr world then Some FailTemp else None);
            (cerr, p) = closeDatabase (rw_db world) (ps_handle st)
        in (case err2 of Some e \<Rightarrow> Some e | None \<Rightarrow> map_option FailDb cerr, st\<lparr>ps_handle := p\<rparr>))"

definition pruneWithHooks ::
  "geth_env \<Rightarrow> rawdb_keys \<Rightarrow> prune_world \<Rightarrow> PruneOptions \<Rightarrow> PruneResult \<Rightarrow> kv list \<Rightarrow> prune_failure option \<times> prune_state" where
  "pruneWithHooks env lib world o1 res0 db =
     (let closed = \<lparr>ps_result = res0, ps_content = db,
                    ps_handle = \<lparr>pdb_locked = False, pdb_session = None, pdb_opens = 0\<rparr>, ps_started = False\<rparr>;
          workers = nat (pe_workers (newPruneExecution o1))
      in if rw_poll world 0 then (Some FailContext, closed)
         else case validatePruneOptions (rw_fs world) (rw_dir world) (rw_current world) (rw_pathString world) o1 of
           Inl e \<Rightarrow> (Some e, closed)
         | Inr _ \<Rightarrow>
             (case openPruneDatabase (rw_db world) (po_DryRun o1) of
                Inl e \<Rightarrow> (Some (FailDb e), closed)
              | Inr p \<Rightarrow>
                  let st = closed\<lparr>ps_handle := p\<rparr> in
                  prune_deferred world
                    (case prune_prepare env lib world workers db of
                       Inl e \<Rightarrow> (Some e, st)
                     | Inr pp \<Rightarrow> prune_apply env lib world o1 pp (st\<lparr>ps_result := prepared_result o1 pp\<rparr>))))"

section \<open>What a run establishes\<close>

text \<open>The scans run with at least one worker slot; the code gives each at least two workers.\<close>

definition scans_ok :: "prune_world \<Rightarrow> bool" where
  "scans_ok world \<longleftrightarrow> (\<forall>n. 0 < su_workers (rw_scan world n))"

lemma workers_positive: "0 < nat (pe_workers (newPruneExecution o1))"
  by (simp add: newPruneExecution_def normalizeMigrateWorkers_def minMigrateWorkers_def Let_def)

lemma genesis_node_in_db:
  "readPruneGenesis env world db = Inr (genesis, node) \<Longrightarrow> node \<noteq> [] \<longrightarrow> map_of db genesis = Some node"
  by (auto simp: readPruneGenesis_def Let_def split: if_splits option.splits)

lemma prepare_sound:
  assumes "ascending db" "0 < workers" "scans_ok world" "prune_prepare env lib world workers db = Inr pp"
  shows "readLegacyHead env (rw_view world db) = Inr (pp_head pp, pp_header pp)"
    "answer (rw_validate world (StateRoot (pp_head pp))) (map_of db) = Inr (pp_state pp)"
    "answer (rw_validate world (StateRoot (pp_head pp))) (map_of (pp_keep pp)) = Inr (pp_state pp)"
    "hash_reads (rw_validate world (StateRoot (pp_head pp))) (map_of db) \<subseteq> fst ` set (pp_keep pp)"
    "ascending (pp_keep pp)" "set (pp_keep pp) \<subseteq> set db"
    "pp_before pp = inventory_of env (fst ` set (pp_keep pp)) db"
    "pp_node pp \<noteq> [] \<longrightarrow> map_of db (pp_genesis pp) = Some (pp_node pp) \<and> pp_genesis pp \<in> fst ` set (pp_keep pp)"
proof -
  from assms(4) obtain head header genesis node state keep before where
    h: "readLegacyHead env (rw_view world db) = Inr (head, header)"
    and g: "readPruneGenesis env world db = Inr (genesis, node)"
    and b: "buildPruneKeep env world workers db head genesis node = Inr (state, keep)"
    and v: "verifyPruneState world 0 head state keep = None"
    and sc: "scanPruneDB env lib (rw_scan world 0) (source_view world 0 db) (keep_view world 0 keep) = Inr before"
    and pp: "pp = \<lparr>pp_head = head, pp_header = header, pp_genesis = genesis, pp_node = node,
                   pp_state = state, pp_keep = keep, pp_before = before\<rparr>"
    by (auto simp: prune_prepare_def result_simps split: if_splits option.splits)
  from b obtain w where col: "collectPruneState env (rw_keep world) (rw_validate world (StateRoot head)) (map_of db) workers
      (su_progress (rw_scan world 0)) genesis node = (Inr state, w)" and w: "keep = kw_db w"
    by (auto simp: buildPruneKeep_def split: if_splits sum.splits prod.splits)
  note c = collect_sound [OF assms(2) genesis_node_in_db [OF g] col]
  have scan: "ascending (kv_entries (source_view world 0 db))" "ascending (kv_entries (keep_view world 0 keep))"
    "0 < su_workers (rw_scan world 0)"
    using assms(1,3) c(5) w by (simp_all add: source_view_def keep_view_def scans_ok_def)
  note s = scanPruneDB_sound [OF scan sc]
  show "readLegacyHead env (rw_view world db) = Inr (pp_head pp, pp_header pp)" using h pp by simp
  show "answer (rw_validate world (StateRoot (pp_head pp))) (map_of db) = Inr (pp_state pp)" using c(1) pp by simp
  show "answer (rw_validate world (StateRoot (pp_head pp))) (map_of (pp_keep pp)) = Inr (pp_state pp)"
    using v pp by (auto simp: verifyPruneState_def split: if_splits sum.splits)
  show "hash_reads (rw_validate world (StateRoot (pp_head pp))) (map_of db) \<subseteq> fst ` set (pp_keep pp)"
    "ascending (pp_keep pp)" using c(3,5) pp w by simp_all
  show "set (pp_keep pp) \<subseteq> set db" "pp_before pp = inventory_of env (fst ` set (pp_keep pp)) db"
    using s(1,4) pp by (simp_all add: source_view_def keep_view_def keep_keys_def)
  show "pp_node pp \<noteq> [] \<longrightarrow> map_of db (pp_genesis pp) = Some (pp_node pp) \<and> pp_genesis pp \<in> fst ` set (pp_keep pp)"
    using genesis_node_in_db [OF g] c(4) pp w by simp
qed

lemma verify_content:
  assumes "verifyPruneDatabase env lib world n pp st = (err, st')"
  shows "ps_content st' = ps_content st" "ps_started st' = ps_started st" "ps_result st' = ps_result st"
    "pdb_locked (ps_handle st') = pdb_locked (ps_handle st)"
proof -
  obtain e1 p1 where c: "closeDB (rw_db world) (ps_handle st) = (e1, p1)" by fastforce
  obtain e2 p2 where r: "reopen (rw_db world) True p1 = (e2, p2)" by fastforce
  from assms c r have "\<exists>p. st' = st\<lparr>ps_handle := p\<rparr> \<and> (p = p1 \<or> p = p2)"
    by (auto simp: verifyPruneDatabase_def Let_def split: option.splits if_splits sum.splits)
  then show "ps_content st' = ps_content st" "ps_started st' = ps_started st" "ps_result st' = ps_result st"
    "pdb_locked (ps_handle st') = pdb_locked (ps_handle st)"
    using closeDB_lock [OF c] reopen_lock [OF r] by auto
qed

lemma compact_content:
  assumes "compactPruneDatabase world st = (err, st')"
  shows "ps_content st' = ps_content st" "ps_started st' = ps_started st" "ps_result st' = ps_result st"
  using assms by (auto simp: compactPruneDatabase_def Let_def split: option.splits if_splits prod.splits)

text \<open>The deletion a run performs, if it gets that far.\<close>

definition run_delete ::
  "geth_env \<Rightarrow> rawdb_keys \<Rightarrow> prune_world \<Rightarrow> prune_prepared \<Rightarrow> kv list \<Rightarrow> prune_error option \<times> delete_state" where
  "run_delete env lib world pp db =
     deletePruneDifference env lib (rw_scan world 1) (rw_delete world) (source_view world 1 db) (keep_view world 1 (pp_keep pp))"

lemma mark_verified_simps [simp]:
  "ps_content (mark_verified st) = ps_content st" "ps_started (mark_verified st) = ps_started st"
  "ps_result (mark_verified st) = (ps_result st)\<lparr>pr_Verified := True\<rparr>" "ps_handle (mark_verified st) = ps_handle st"
  by (simp_all add: mark_verified_def)

lemma finish_content:
  assumes "prune_finish env lib world o1 pp st = (err, st')"
  shows "ps_content st' = ps_content st" "pr_Deleted (ps_result st') = pr_Deleted (ps_result st)"
    "pr_Candidates (ps_result st') = pr_Candidates (ps_result st)" "err = None \<Longrightarrow> pr_Verified (ps_result st')"
    "ps_started st' = ps_started st"
proof -
  obtain e1 st1 where v1: "verifyPruneDatabase env lib world 2 pp st = (e1, st1)" by fastforce
  obtain e2 st2 where c: "compactPruneDatabase world st1 = (e2, st2)" by fastforce
  obtain e3 st3 where v3: "verifyPruneDatabase env lib world 3 pp (st2\<lparr>ps_result := (ps_result st2)\<lparr>pr_Compacted := True\<rparr>\<rparr>) = (e3, st3)"
    by fastforce
  note facts = verify_content [OF v1] compact_content [OF c] verify_content [OF v3]
  have "prune_finish env lib world o1 pp st =
      (case e1 of Some e \<Rightarrow> (Some e, st1) | None \<Rightarrow> if \<not> po_Compact o1 then (None, mark_verified st1)
       else case e2 of Some e \<Rightarrow> (Some e, st2) | None \<Rightarrow> (case e3 of Some e \<Rightarrow> (Some e, st3) | None \<Rightarrow> (None, mark_verified st3)))"
    by (cases e1; cases e2) (simp_all add: prune_finish_def v1 c v3)
  with assms consider "st' = st1" "err \<noteq> None" | "st' = mark_verified st1" | "st' = st2" "err \<noteq> None" |
      "st' = st3" "err \<noteq> None" | "st' = mark_verified st3"
    by (auto split: option.splits if_splits)
  then have "ps_content st' = ps_content st \<and> pr_Deleted (ps_result st') = pr_Deleted (ps_result st) \<and>
    pr_Candidates (ps_result st') = pr_Candidates (ps_result st) \<and> (err = None \<longrightarrow> pr_Verified (ps_result st')) \<and>
    ps_started st' = ps_started st"
    by cases (auto simp: facts)
  then show "ps_content st' = ps_content st" "pr_Deleted (ps_result st') = pr_Deleted (ps_result st)"
    "pr_Candidates (ps_result st') = pr_Candidates (ps_result st)" "err = None \<Longrightarrow> pr_Verified (ps_result st')"
    "ps_started st' = ps_started st" by simp_all
qed

lemma apply_cases:
  assumes "prune_apply env lib world o1 pp st = (err, st')"
  shows "(ps_content st' = ps_content st \<and> ps_started st' = ps_started st \<and> (err = None \<longrightarrow> po_DryRun o1)) \<or>
     (\<not> po_DryRun o1 \<and> (\<exists>derr del. run_delete env lib world pp (ps_content st) = (derr, del) \<and>
        ps_content st' = d_db del \<and> pr_Deleted (ps_result st') = d_deleted del \<and>
        pr_Candidates (ps_result st') = pr_Candidates (ps_result st) \<and>
        (err = None \<longrightarrow> derr = None \<and> pr_Verified (ps_result st'))))"
proof (cases "po_DryRun o1 \<or> rw_poll world 1 \<or> fst (reopen (rw_db world) False (ps_handle st)) \<noteq> None")
  case True
  with assms show ?thesis by (cases "reopen (rw_db world) False (ps_handle st)") (auto simp: prune_apply_def split: if_splits)
next
  case False
  then obtain p where r: "reopen (rw_db world) False (ps_handle st) = (None, p)"
    and o: "\<not> po_DryRun o1" "\<not> rw_poll world 1" by (cases "reopen (rw_db world) False (ps_handle st)") auto
  obtain derr del where d: "run_delete env lib world pp (ps_content st) = (derr, del)" by fastforce
  let ?st1 = "st\<lparr>ps_handle := p, ps_content := d_db del, ps_started := d_started del,
      ps_result := (ps_result st)\<lparr>pr_Deleted := d_deleted del\<rparr>\<rparr>"
  have rest: "(case derr of Some e \<Rightarrow> (Some (FailScan e), ?st1) | None \<Rightarrow> prune_finish env lib world o1 pp ?st1) = (err, st')"
    using assms unfolding prune_apply_def Let_def r d [unfolded run_delete_def] by (simp add: o del: One_nat_def)
  show ?thesis
  proof (cases derr)
    case (Some e)
    with rest have "err = Some (FailScan e)" "st' = ?st1" by auto
    with o d show ?thesis by simp
  next
    case None
    with rest have f: "prune_finish env lib world o1 pp ?st1 = (err, st')" by simp
    from finish_content [OF f] o d None show ?thesis by simp
  qed
qed

lemma deferred_cases:
  assumes "prune_deferred world (err, st) = (err', st')"
  shows "ps_content st' = ps_content st" "ps_started st' = ps_started st" "ps_result st' = ps_result st"
    "err' = None \<Longrightarrow> err = None" "\<not> pdb_locked (ps_handle st')" "pdb_session (ps_handle st') = None"
proof -
  obtain e p where c: "closeDB (rw_db world) (ps_handle st) = (e, p)" by fastforce
  have st': "st' = st\<lparr>ps_handle := p\<lparr>pdb_locked := False\<rparr>\<rparr>"
    using assms c by (auto simp: prune_deferred_def closeDatabase_def Let_def)
  then show "ps_content st' = ps_content st" "ps_started st' = ps_started st" "ps_result st' = ps_result st"
    "\<not> pdb_locked (ps_handle st')" "pdb_session (ps_handle st') = None"
    using closeDB_lock [OF c] by auto
  show "err' = None \<Longrightarrow> err = None"
    using assms by (auto simp: prune_deferred_def Let_def split: option.splits prod.splits if_splits)
qed

text \<open>
  A run either leaves the database as it was - and then succeeds only as a dry run - or it has
  prepared completely and performed the deletion.
\<close>

lemma run_cases:
  assumes "pruneWithHooks env lib world o1 res0 db = (err, st)"
  shows "(ps_content st = db \<and> \<not> ps_started st \<and> (err = None \<longrightarrow> po_DryRun o1)) \<or>
     (\<not> po_DryRun o1 \<and> (\<exists>pp derr del.
        prune_prepare env lib world (nat (pe_workers (newPruneExecution o1))) db = Inr pp \<and>
        run_delete env lib world pp db = (derr, del) \<and> ps_content st = d_db del \<and>
        pr_Deleted (ps_result st) = d_deleted del \<and> pr_Candidates (ps_result st) = inv_Candidates (pp_before pp) \<and>
        (err = None \<longrightarrow> derr = None \<and> pr_Verified (ps_result st))))"
    "\<not> pdb_locked (ps_handle st)" "pdb_session (ps_handle st) = None"
proof -
  let ?closed = "\<lparr>ps_result = res0, ps_content = db,
      ps_handle = \<lparr>pdb_locked = False, pdb_session = None, pdb_opens = 0\<rparr>, ps_started = False\<rparr>"
  let ?prep = "prune_prepare env lib world (nat (pe_workers (newPruneExecution o1))) db"
  consider (early) "st = ?closed" "err \<noteq> None"
    | (opened) p where "prune_deferred world (case ?prep of Inl e \<Rightarrow> (Some e, ?closed\<lparr>ps_handle := p\<rparr>)
         | Inr pp \<Rightarrow> prune_apply env lib world o1 pp (?closed\<lparr>ps_handle := p, ps_result := prepared_result o1 pp\<rparr>)) = (err, st)"
    using assms by (auto simp: pruneWithHooks_def Let_def split: if_splits sum.splits)
  then have "((ps_content st = db \<and> \<not> ps_started st \<and> (err = None \<longrightarrow> po_DryRun o1)) \<or>
     (\<not> po_DryRun o1 \<and> (\<exists>pp derr del. ?prep = Inr pp \<and>
        run_delete env lib world pp db = (derr, del) \<and> ps_content st = d_db del \<and>
        pr_Deleted (ps_result st) = d_deleted del \<and> pr_Candidates (ps_result st) = inv_Candidates (pp_before pp) \<and>
        (err = None \<longrightarrow> derr = None \<and> pr_Verified (ps_result st))))) \<and>
     \<not> pdb_locked (ps_handle st) \<and> pdb_session (ps_handle st) = None"
  proof cases
    case opened
    show ?thesis
    proof (cases ?prep)
      case (Inl e)
      with opened have "prune_deferred world (Some e, ?closed\<lparr>ps_handle := p\<rparr>) = (err, st)" by simp
      from deferred_cases [OF this] show ?thesis by auto
    next
      case (Inr pp)
      obtain e1 st1 where a: "prune_apply env lib world o1 pp (?closed\<lparr>ps_handle := p, ps_result := prepared_result o1 pp\<rparr>) = (e1, st1)"
        by fastforce
      with opened Inr have d: "prune_deferred world (e1, st1) = (err, st)" by simp
      note dc = deferred_cases [OF d]
      from apply_cases [OF a] show ?thesis
      proof
        assume "ps_content st1 = ps_content (?closed\<lparr>ps_handle := p, ps_result := prepared_result o1 pp\<rparr>) \<and>
          ps_started st1 = ps_started (?closed\<lparr>ps_handle := p, ps_result := prepared_result o1 pp\<rparr>) \<and> (e1 = None \<longrightarrow> po_DryRun o1)"
        with dc show ?thesis by auto
      qed (use dc Inr in \<open>auto simp: prepared_result_def\<close>)
    qed
  qed auto
  then show "(ps_content st = db \<and> \<not> ps_started st \<and> (err = None \<longrightarrow> po_DryRun o1)) \<or>
     (\<not> po_DryRun o1 \<and> (\<exists>pp derr del. ?prep = Inr pp \<and>
        run_delete env lib world pp db = (derr, del) \<and> ps_content st = d_db del \<and>
        pr_Deleted (ps_result st) = d_deleted del \<and> pr_Candidates (ps_result st) = inv_Candidates (pp_before pp) \<and>
        (err = None \<longrightarrow> derr = None \<and> pr_Verified (ps_result st))))"
    "\<not> pdb_locked (ps_handle st)" "pdb_session (ps_handle st) = None" by auto
qed

section \<open>Properties\<close>

text \<open>
  Property C2. Running prune is safe whatever happens: for every combination of failing polls,
  reads, writes, syncs, opens and closes and every schedule, the database afterwards is the old
  one without some records that are filed under the Keccak hash of their value in a 32-byte key;
  keys of any other length keep their value, validating the head's state gives the same answer as
  before, a dry run changes nothing, and the database is closed and unlocked.
\<close>

theorem prune_run_safe:
  assumes "ascending db" and "scans_ok world" and "pruneWithHooks env lib world o1 res0 db = (err, st)"
  shows "set (ps_content st) \<subseteq> set db \<and>
     (\<forall>k v. (k, v) \<in> set db \<and> (k, v) \<notin> set (ps_content st) \<longrightarrow> length k = HashLength \<and> keccak256 env v = k) \<and>
     (\<forall>k. length k \<noteq> HashLength \<longrightarrow> map_of (ps_content st) k = map_of db k) \<and>
     (\<forall>head header. readLegacyHead env (rw_view world db) = Inr (head, header) \<longrightarrow>
        answer (rw_validate world (StateRoot head)) (map_of (ps_content st)) =
        answer (rw_validate world (StateRoot head)) (map_of db)) \<and>
     (po_DryRun o1 \<longrightarrow> ps_content st = db \<and> \<not> ps_started st) \<and>
     \<not> pdb_locked (ps_handle st) \<and> pdb_session (ps_handle st) = None"
proof -
  from run_cases(1) [OF assms(3)] show ?thesis
  proof
    assume "ps_content st = db \<and> \<not> ps_started st \<and> (err = None \<longrightarrow> po_DryRun o1)"
    with run_cases(2,3) [OF assms(3)] show ?thesis by auto
  next
    assume "\<not> po_DryRun o1 \<and> (\<exists>pp derr del.
        prune_prepare env lib world (nat (pe_workers (newPruneExecution o1))) db = Inr pp \<and>
        run_delete env lib world pp db = (derr, del) \<and> ps_content st = d_db del \<and>
        pr_Deleted (ps_result st) = d_deleted del \<and> pr_Candidates (ps_result st) = inv_Candidates (pp_before pp) \<and>
        (err = None \<longrightarrow> derr = None \<and> pr_Verified (ps_result st)))"
    then obtain pp derr del where nd: "\<not> po_DryRun o1"
      and pp: "prune_prepare env lib world (nat (pe_workers (newPruneExecution o1))) db = Inr pp"
      and del: "run_delete env lib world pp db = (derr, del)" and st: "ps_content st = d_db del" by auto
    note s = prepare_sound [OF assms(1) workers_positive assms(2) pp]
    have asc: "ascending (kv_entries (source_view world 1 db))" "ascending (kv_entries (keep_view world 1 (pp_keep pp)))"
      "0 < su_workers (rw_scan world 1)"
      using assms(1,2) s(5) by (simp_all add: source_view_def keep_view_def scans_ok_def)
    have rm: "removed_some db (candidates env (fst ` set (pp_keep pp)) db) (ps_content st)"
      using delete_removes_candidates [OF asc del [unfolded run_delete_def]] st
      by (simp add: source_view_def keep_view_def keep_keys_def)
    note left = survivors_apply [OF assms(1) rm]
    have gone: "length k = HashLength \<and> keccak256 env v = k" if "(k, v) \<in> set db" "(k, v) \<notin> set (ps_content st)" for k v
      using left(4) [OF that] by (simp add: candidate_iff)
    have other: "map_of (ps_content st) k = map_of db k" if "length k \<noteq> HashLength" for k
      using removed_lookup [OF assms(1) rm] that by blast
    have "answer (rw_validate world (StateRoot (pp_head pp))) (map_of (ps_content st)) =
        answer (rw_validate world (StateRoot (pp_head pp))) (map_of db)"
      by (rule prune_reader_stable [OF assms(1) rm s(4)])
    with left(3) gone other nd s(1) run_cases(2,3) [OF assms(3)] show ?thesis by auto
  qed
qed

text \<open>
  Property C12. A run of prune that reports success and is no dry run has done its whole job:
  there is a keep set, itself part of the database and enough to validate the state of the head
  on its own, the database now holds exactly the records that are no candidates with respect to
  it, the deletion counters equal the candidates of the preflight, the state validates to the
  result it had before, and the result is marked as verified.
\<close>

theorem prune_run_complete:
  assumes "ascending db" and "scans_ok world" and "\<not> po_DryRun o1"
    and "pruneWithHooks env lib world o1 res0 db = (None, st)"
  shows "\<exists>head header state keep. readLegacyHead env (rw_view world db) = Inr (head, header) \<and>
     set keep \<subseteq> set db \<and> ascending keep \<and>
     answer (rw_validate world (StateRoot head)) (map_of db) = Inr state \<and>
     answer (rw_validate world (StateRoot head)) (map_of keep) = Inr state \<and>
     answer (rw_validate world (StateRoot head)) (map_of (ps_content st)) = Inr state \<and>
     ps_content st = survivors env (fst ` set keep) db \<and>
     pr_Deleted (ps_result st) = kv_total (candidates env (fst ` set keep) db) \<and>
     pr_Deleted (ps_result st) = pr_Candidates (ps_result st) \<and> pr_Verified (ps_result st)"
proof -
  from run_cases(1) [OF assms(4)] assms(3) obtain pp del where
    pp: "prune_prepare env lib world (nat (pe_workers (newPruneExecution o1))) db = Inr pp"
    and del: "run_delete env lib world pp db = (None, del)" and st: "ps_content st = d_db del"
    and res: "pr_Deleted (ps_result st) = d_deleted del" "pr_Candidates (ps_result st) = inv_Candidates (pp_before pp)"
      "pr_Verified (ps_result st)" by auto
  note s = prepare_sound [OF assms(1) workers_positive assms(2) pp]
  have asc: "ascending (kv_entries (source_view world 1 db))" "ascending (kv_entries (keep_view world 1 (pp_keep pp)))"
    "0 < su_workers (rw_scan world 1)"
    using assms(1,2) s(5) by (simp_all add: source_view_def keep_view_def scans_ok_def)
  note views = source_view_def keep_view_def keep_keys_def
  note d = delete_result [OF asc del [unfolded run_delete_def], unfolded views, simplified]
  have rm: "removed_some db (candidates env (fst ` set (pp_keep pp)) db) (ps_content st)"
    using delete_removes_candidates [OF asc del [unfolded run_delete_def]] st by (simp add: views)
  have "answer (rw_validate world (StateRoot (pp_head pp))) (map_of (ps_content st)) = Inr (pp_state pp)"
    using prune_reader_stable [OF assms(1) rm s(4)] s(2) by simp
  moreover have "inv_Candidates (pp_before pp) = kv_total (candidates env (fst ` set (pp_keep pp)) db)"
    using s(7) by (simp add: inventory_of_def)
  ultimately show ?thesis using s st d res by (intro exI [of _ "pp_head pp"] exI [of _ "pp_header pp"]
        exI [of _ "pp_state pp"] exI [of _ "pp_keep pp"]) simp
qed

text \<open>
  Property C37. The budget of a prune execution: with accepted options the two databases share
  the cache and the file handles exactly, each gets at least 16 of both, between 2 and 16 workers
  run, and the scan buffer is between 1 and 16 MiB - for every cache size, also when the product in
  its computation overflows a 64-bit integer.
\<close>

theorem prune_budget_bounds:
  assumes "validatePruneOptions fs dir current pathString o1 = Inr paths"
  shows "pe_sourceCache (newPruneExecution o1) + pe_keepCache (newPruneExecution o1) = po_CacheMB o1 \<and>
     pe_sourceHandles (newPruneExecution o1) + pe_keepHandles (newPruneExecution o1) = po_Handles o1 \<and>
     16 \<le> pe_sourceCache (newPruneExecution o1) \<and> 16 \<le> pe_keepCache (newPruneExecution o1) \<and>
     16 \<le> pe_sourceHandles (newPruneExecution o1) \<and> 16 \<le> pe_keepHandles (newPruneExecution o1) \<and>
     2 \<le> pe_workers (newPruneExecution o1) \<and> pe_workers (newPruneExecution o1) \<le> 16 \<and>
     2 ^ 20 \<le> pe_scanBytes (newPruneExecution o1) \<and> pe_scanBytes (newPruneExecution o1) \<le> 2 ^ 24"
proof -
  from assms have o: "po_Workers o1 \<le> 16" "32 \<le> po_CacheMB o1" "32 \<le> po_Handles o1"
    by (auto simp: validatePruneOptions_def maxMigrateWorkers_def split: if_splits)
  have third: "16 \<le> x - max 16 (go_quot x 3)" if "32 \<le> x" for x
    using that by (simp add: go_quot_def)
  show ?thesis
    using third [OF o(2)] third [OF o(3)] o(1)
    by (auto simp: newPruneExecution_def normalizeMigrateWorkers_def minMigrateWorkers_def Let_def)
qed

end
