(* ===== verification/AtomicDir.thy ===== *)
theory AtomicDir
  imports Paths
begin

text \<open>
  Atomic publication of an output directory (\<^verbatim>\<open>atomicdir.go\<close>): the output is built in a
  temporary sibling and renamed into place by a primitive that never replaces. The directory tree
  is a map from paths to what is there; rename and directory sync are hooks, as in the code.
\<close>

section \<open>Definitions\<close>

type_synonym tree = "path \<rightharpoonup> nat"

datatype rename_outcome = RenameOk | RenameExists | RenameFailed

text \<open>\<^verbatim>\<open>atomicDirOps\<close>; a nil function is \<open>None\<close>, and the sync answers whether it fails.\<close>

record atomicDirOps =
  op_rename :: "(path \<Rightarrow> path \<Rightarrow> tree \<Rightarrow> rename_outcome \<times> tree) option"
  op_syncDir :: "(path \<Rightarrow> bool) option"

record atomicDir =
  ad_final :: path
  ad_parent :: path
  ad_temp :: path
  ad_tempPrefix :: string
  ad_committed :: bool

datatype atomic_error =
    AtomicEmptyPath
  | AtomicOpsIncomplete
  | AtomicResolve
  | AtomicExists path
  | AtomicInspect path
  | AtomicMkdir
  | AtomicParent
  | AtomicPreflightSync
  | AtomicProbe
  | AtomicReplaced
  | AtomicUnavailable
  | AtomicTemp
  | AtomicAlreadyCommitted
  | AtomicSyncTemp
  | AtomicPublish
  | AtomicDurability path
  | AtomicUnexpectedTemp path
  | AtomicRemove

text \<open>
  The other answers of the operating system: faults of \<^verbatim>\<open>Lstat\<close> other than a missing path, of
  creating directories and of removing a tree, the resolution of the created parent, and the
  random suffix of each temporary directory (\<open>None\<close> when it cannot be created).
\<close>

record atomic_world =
  aw_lstatErr :: "path \<Rightarrow> bool"
  aw_mkdirErr :: bool
  aw_evalParent :: "path \<Rightarrow> path option"
  aw_suffix :: "string \<Rightarrow> string option"
  aw_removeErr :: "path \<Rightarrow> bool"

definition inspect_absent :: "atomic_world \<Rightarrow> tree \<Rightarrow> path \<Rightarrow> (atomic_error, unit) result" where
  "inspect_absent world t p =
     (if aw_lstatErr world p then Inl (AtomicInspect p)
      else if t p \<noteq> None then Inl (AtomicExists p)
      else Inr ())"

definition MkdirAll :: "path \<Rightarrow> tree \<Rightarrow> tree" where
  "MkdirAll p t = (\<lambda>q. if prefix q p \<and> t q = None then Some 0 else t q)"

definition RemoveAll :: "path \<Rightarrow> tree \<Rightarrow> tree" where
  "RemoveAll p t = (\<lambda>q. if prefix p q then None else t q)"

text \<open>\<^verbatim>\<open>os.MkdirTemp\<close> with a pattern that ends in the random part.\<close>

definition MkdirTemp :: "atomic_world \<Rightarrow> path \<Rightarrow> string \<Rightarrow> tree \<Rightarrow> (path \<times> tree) option" where
  "MkdirTemp world parent pat t =
     (case aw_suffix world pat of
        None \<Rightarrow> None
      | Some suf \<Rightarrow> let p = parent @ [pat @ suf] in Some (p, t(p \<mapsto> 0)))"

definition cleanup :: "atomic_world \<Rightarrow> path \<Rightarrow> atomic_error option \<Rightarrow> tree \<Rightarrow> atomic_error option \<times> tree" where
  "cleanup world p err t =
     (if aw_removeErr world p then (case err of Some e \<Rightarrow> Some e | None \<Rightarrow> Some AtomicRemove, t)
      else (err, RemoveAll p t))"

definition verifyRenameNoReplace ::
  "atomic_world \<Rightarrow> path \<Rightarrow> (path \<Rightarrow> path \<Rightarrow> tree \<Rightarrow> rename_outcome \<times> tree) \<Rightarrow> tree \<Rightarrow> atomic_error option \<times> tree" where
  "verifyRenameNoReplace world parent rename t =
     (case MkdirTemp world parent ''.l2state-rename-source-'' t of
        None \<Rightarrow> (Some AtomicProbe, t)
      | Some (source, t1) \<Rightarrow>
          let (err, t2) =
            (case MkdirTemp world parent ''.l2state-rename-destination-'' t1 of
               None \<Rightarrow> (Some AtomicProbe, t1)
             | Some (destination, t2) \<Rightarrow>
                 let (outcome, t3) = rename source destination t2;
                     err = (case outcome of
                        RenameOk \<Rightarrow> Some AtomicReplaced
                      | RenameFailed \<Rightarrow> Some AtomicUnavailable
                      | RenameExists \<Rightarrow> None)
                 in cleanup world destination err t3)
          in cleanup world source err t2)"

definition newAtomicDirWithOps ::
  "fs_view \<Rightarrow> atomic_world \<Rightarrow> atomicDirOps \<Rightarrow> string \<Rightarrow> tree \<Rightarrow> (atomic_error, atomicDir) result \<times> tree" where
  "newAtomicDirWithOps fs world ops final t =
     (if final = [] then (Inl AtomicEmptyPath, t)
      else case (op_rename ops, op_syncDir ops) of
        (Some rename, Some syncDir) \<Rightarrow>
          (case resolvePathWithMissing fs final of
             Inl _ \<Rightarrow> (Inl AtomicResolve, t)
           | Inr a \<Rightarrow>
               (case inspect_absent world t a of
                  Inl e \<Rightarrow> (Inl e, t)
                | Inr _ \<Rightarrow>
                    if aw_mkdirErr world then (Inl AtomicMkdir, t)
                    else
                      let t1 = MkdirAll (butlast a) t in
                      (case aw_evalParent world (butlast a) of
                         None \<Rightarrow> (Inl AtomicParent, t1)
                       | Some parent \<Rightarrow>
                           let a' = parent @ [last a] in
                           (case inspect_absent world t1 a' of
                              Inl e \<Rightarrow> (Inl e, t1)
                            | Inr _ \<Rightarrow>
                                if syncDir parent then (Inl AtomicPreflightSync, t1)
                                else case verifyRenameNoReplace world parent rename t1 of
                                  (Some e, t2) \<Rightarrow> (Inl e, t2)
                                | (None, t2) \<Rightarrow>
                                    let pre = ''.'' @ last a' @ ''.partial-'' in
                                    (case MkdirTemp world parent pre t2 of
                                       None \<Rightarrow> (Inl AtomicTemp, t2)
                                     | Some (temp, t3) \<Rightarrow>
                                         (Inr \<lparr>ad_final = a', ad_parent = parent, ad_temp = temp,
                                               ad_tempPrefix = pre, ad_committed = False\<rparr>, t3))))))
      | _ \<Rightarrow> (Inl AtomicOpsIncomplete, t))"

definition Commit ::
  "atomic_world \<Rightarrow> (path \<Rightarrow> path \<Rightarrow> tree \<Rightarrow> rename_outcome \<times> tree) \<Rightarrow> (path \<Rightarrow> bool) \<Rightarrow> atomicDir \<Rightarrow> tree \<Rightarrow>
   atomic_error option \<times> atomicDir \<times> tree" where
  "Commit world rename syncDir d t =
     (if ad_committed d then (Some AtomicAlreadyCommitted, d, t)
      else case inspect_absent world t (ad_final d) of
        Inl e \<Rightarrow> (Some e, d, t)
      | Inr _ \<Rightarrow>
          if syncDir (ad_temp d) then (Some AtomicSyncTemp, d, t)
          else
            let (outcome, t1) = rename (ad_temp d) (ad_final d) t in
            if outcome \<noteq> RenameOk then (Some AtomicPublish, d, t1)
            else
              let d1 = d\<lparr>ad_committed := True\<rparr> in
              (if syncDir (ad_parent d) then Some (AtomicDurability (ad_final d)) else None, d1, t1))"

definition Abort :: "atomic_world \<Rightarrow> atomicDir \<Rightarrow> tree \<Rightarrow> atomic_error option \<times> tree" where
  "Abort world d t =
     (if ad_committed d \<or> ad_temp d = [] then (None, t)
      else if butlast (ad_temp d) \<noteq> ad_parent d \<or> \<not> prefix (ad_tempPrefix d) (last (ad_temp d))
      then (Some (AtomicUnexpectedTemp (ad_temp d)), t)
      else if aw_removeErr world (ad_temp d) then (Some AtomicRemove, t)
      else (None, RemoveAll (ad_temp d) t))"

section \<open>Lemmas\<close>

text \<open>
  A rename that never replaces: it succeeds only when nothing is at the destination, then it moves
  the source, and it changes nothing when it does not succeed.
\<close>

definition moved :: "path \<Rightarrow> path \<Rightarrow> tree \<Rightarrow> tree" where
  "moved src dst t = (\<lambda>q. if prefix dst q then t (src @ drop (length dst) q)
     else if prefix src q then None else t q)"

definition no_replace :: "(path \<Rightarrow> path \<Rightarrow> tree \<Rightarrow> rename_outcome \<times> tree) \<Rightarrow> bool" where
  "no_replace rename \<longleftrightarrow> (\<forall>src dst t outcome t'. rename src dst t = (outcome, t') \<longrightarrow>
     (if outcome = RenameOk then t dst = None \<and> t' = moved src dst t else t' = t))"

lemma no_replaceD:
  assumes "no_replace rename" "rename src dst t = (outcome, t')"
  shows "outcome = RenameOk \<Longrightarrow> t dst = None \<and> t' = moved src dst t" "outcome \<noteq> RenameOk \<Longrightarrow> t' = t"
  using assms unfolding no_replace_def by metis+

lemma Commit_cases:
  assumes "no_replace rename" "Commit world rename syncDir d t = (err, d', t')"
  shows "(ad_committed d' = ad_committed d \<and> d' = d \<and> t' = t \<and> err \<noteq> None \<and> (\<forall>p. err \<noteq> Some (AtomicDurability p))) \<or>
     (\<not> ad_committed d \<and> d' = d\<lparr>ad_committed := True\<rparr> \<and> t (ad_final d) = None \<and>
        t' = moved (ad_temp d) (ad_final d) t \<and> (err = None \<or> err = Some (AtomicDurability (ad_final d))))"
proof -
  obtain outcome t1 where r: "rename (ad_temp d) (ad_final d) t = (outcome, t1)" by fastforce
  note nr = no_replaceD [OF assms(1) r]
  show ?thesis
    using assms(2) nr
    by (cases "outcome = RenameOk")
       (auto simp: Commit_def r inspect_absent_def Let_def split: if_splits sum.splits)
qed

lemma new_atomic_shape:
  assumes "newAtomicDirWithOps fs world ops final t = (Inr d, t')"
  shows "\<not> ad_committed d" "butlast (ad_temp d) = ad_parent d" "prefix (ad_tempPrefix d) (last (ad_temp d))"
    "ad_temp d \<noteq> []" "\<exists>name. ad_final d = ad_parent d @ [name] \<and> ad_tempPrefix d = ''.'' @ name @ ''.partial-''"
    "\<not> prefix (ad_temp d) (ad_final d)"
proof -
  from assms obtain a parent suf where
    d: "d = \<lparr>ad_final = parent @ [last a], ad_parent = parent, ad_temp = parent @ [(''.'' @ last a @ ''.partial-'') @ suf],
          ad_tempPrefix = ''.'' @ last a @ ''.partial-'', ad_committed = False\<rparr>"
    by (auto simp: newAtomicDirWithOps_def MkdirTemp_def Let_def split: if_splits option.splits sum.splits prod.splits)
  show "\<not> ad_committed d" "butlast (ad_temp d) = ad_parent d" "prefix (ad_tempPrefix d) (last (ad_temp d))"
    "ad_temp d \<noteq> []" "\<exists>name. ad_final d = ad_parent d @ [name] \<and> ad_tempPrefix d = ''.'' @ name @ ''.partial-''"
    using d by auto
  have "length (''.'' @ last a @ ''.partial-'' @ suf) \<noteq> length (last a)" by simp
  then have "''.'' @ last a @ ''.partial-'' @ suf \<noteq> last a" by metis
  then show "\<not> prefix (ad_temp d) (ad_final d)" using d by (auto simp: prefix_def)
qed

section \<open>Properties\<close>

text \<open>
  Property C31. Publication is atomic and never overwrites. With a rename that does not replace,
  \<^verbatim>\<open>Commit\<close> has two outcomes: it reports an error, the directory tree is untouched and the output
  stays uncommitted; or nothing was at the final path, the whole temporary directory is now
  there, and the only error it may still report is that the durability of the published output is
  unknown. In particular an output that appeared meanwhile is never replaced.
\<close>

theorem commit_atomic:
  assumes "no_replace rename" and "Commit world rename syncDir d t = (err, d', t')"
  shows "(t' = t \<and> d' = d \<and> err \<noteq> None \<and> err \<noteq> Some (AtomicDurability (ad_final d))) \<or>
     (t (ad_final d) = None \<and> ad_committed d' \<and> (err = None \<or> err = Some (AtomicDurability (ad_final d))) \<and>
      (\<forall>q. t' (ad_final d @ q) = t (ad_temp d @ q)))"
  using Commit_cases [OF assms] by (auto simp: moved_def)

text \<open>
  Property C33. Cleaning up is confined: whatever happens between the creation of an atomic
  directory and its end, a final \<^verbatim>\<open>Abort\<close> never removes a published output, and otherwise removes
  the temporary directory and nothing else; the final path is never touched by it.
\<close>

theorem abort_confined:
  assumes "no_replace rename" and "newAtomicDirWithOps fs world ops final t0 = (Inr d, t1)"
    and "Commit world' rename syncDir d t = (err, d', t')" and "Abort world'' d' t' = (aerr, t'')"
  shows "(ad_committed d' \<longrightarrow> aerr = None \<and> t'' = t') \<and>
     (\<forall>q. \<not> prefix (ad_temp d) q \<longrightarrow> t'' q = t' q) \<and>
     t'' (ad_final d) = t' (ad_final d) \<and>
     (\<not> ad_committed d' \<and> aerr = None \<longrightarrow> (\<forall>q. prefix (ad_temp d) q \<longrightarrow> t'' q = None))"
proof -
  note sh = new_atomic_shape [OF assms(2)]
  have same: "ad_temp d' = ad_temp d" "ad_parent d' = ad_parent d" "ad_tempPrefix d' = ad_tempPrefix d"
    using Commit_cases [OF assms(1,3)] by auto
  show ?thesis
    using assms(4) sh same by (auto simp: Abort_def RemoveAll_def split: if_splits)
qed

end
