(* ===== verification/PruneWitnesses.thy ===== *)
theory PruneWitnesses
  imports PruneRun AtomicDir Demo
begin

text \<open>
  Concrete inputs for the properties of prune, of the path checks and of atomic publication: a
  database with one unreferenced node, a state root, a genesis root, one protected and one
  unknown record.
\<close>

section \<open>A small database\<close>

definition prune_root :: hash where "prune_root = demo_hash [7]"
definition prune_genesis :: hash where "prune_genesis = demo_hash [9]"

definition prune_db :: "kv list" where
  "prune_db = [(demo_hash [1], [1]), (prune_root, [7]), (prune_genesis, [9]), ([5], [6]), (replicate 32 9, [0])]"

definition prune_keep :: "kv list" where
  "prune_keep = [(prune_root, [7]), (prune_genesis, [9])]"

definition prune_lib :: rawdb_keys where
  "prune_lib = \<lparr>ResolveAccountTrieNodeKey = (\<lambda>_. (False, [])), ResolveStorageTrieNode = (\<lambda>_. (False, [], [])),
     SnapshotRootKey = []\<rparr>"

definition prune_su :: scan_setup where
  "prune_su = \<lparr>su_sched = (\<lambda>t. if t = 3 then [WorkerRun 1, WorkerRun 0] else []), su_workers = 2, su_scanBytes = 40,
     su_progress = Some zeroKV\<rparr>"

definition prune_dw :: "write_outcome \<Rightarrow> delete_world" where
  "prune_dw out = \<lparr>dw_poll = no_faults, dw_write = (\<lambda>_. out), dw_dumpLen = length\<rparr>"

definition prune_kw :: keep_world where
  "prune_kw = \<lparr>kp_putErr = no_faults, kp_write = (\<lambda>_. WriteDone), kp_poll = no_faults,
     kp_ValueSize = length, kp_IdealBatchSize = 100\<rparr>"

definition prune_validate :: "hash \<Rightarrow> (unit, StateResult) result reader" where
  "prune_validate root = Lookup root (\<lambda>a. case a of None \<Rightarrow> Finish (Inl ())
     | Some _ \<Rightarrow> Finish (Inr \<lparr>st_Root = root, st_Counts = emptyCounts\<rparr>))"

definition no_candidate_deleted :: "prune_error option \<times> delete_state" where
  "no_candidate_deleted = deletePruneDifference demo_env prune_lib prune_su (prune_dw WriteLost) (plain_view prune_db) (plain_view prune_keep)"

definition candidate_deleted :: "prune_error option \<times> delete_state" where
  "candidate_deleted = deletePruneDifference demo_env prune_lib prune_su (prune_dw WriteDone) (plain_view prune_db) (plain_view prune_keep)"

lemma prune_asc: "ascending prune_db" "ascending prune_keep"
  by code_simp+

lemma prune_view_asc: "ascending (kv_entries (plain_view prune_db))" "ascending (kv_entries (plain_view prune_keep))"
  using prune_asc by simp_all

lemma prune_su_ok: "0 < su_workers prune_su" "uncancelled (su_sched prune_su)"
  by (simp_all add: prune_su_def uncancelled_def)

lemma candidate_deleted_ok: "fst candidate_deleted = None"
  by code_simp

lemma no_candidate_deleted_err: "fst no_candidate_deleted = Some PruneWriteFailed"
  by code_simp

definition prune_scan1 :: "(prune_error, pruneInventory) result" where
  "prune_scan1 = scanPruneDB demo_env prune_lib prune_su (plain_view prune_db) (plain_view prune_keep)"

lemma prune_scan1_ok: "isOk prune_scan1"
  by code_simp

lemma isOk_Inr_projr: "isOk r \<Longrightarrow> r = Inr (projr r)"
  by (cases r) auto

section \<open>Witnesses of the deletion\<close>

theorem prune_deletes_only_garbage_witness:
  "set (d_db (snd no_candidate_deleted)) \<subseteq> set prune_db"
  using prune_deletes_only_garbage [of "plain_view prune_db" "plain_view prune_keep" prune_su demo_env prune_lib
      "prune_dw WriteLost" "fst no_candidate_deleted" "snd no_candidate_deleted"] prune_asc prune_su_ok
  by (simp add: no_candidate_deleted_def)

theorem prune_delete_verifies_witness:
  "\<exists>after. scanPruneDB demo_env prune_lib prune_su (plain_view (d_db (snd candidate_deleted))) (plain_view prune_keep) = Inr after \<and>
     comparePruneInventory (projr prune_scan1) after = None"
proof -
  have del: "deletePruneDifference demo_env prune_lib prune_su (prune_dw WriteDone) (plain_view prune_db) (plain_view prune_keep) =
      (None, snd candidate_deleted)"
    using candidate_deleted_ok unfolding candidate_deleted_def by (metis prod.collapse)
  have scan: "scanPruneDB demo_env prune_lib prune_su (plain_view prune_db) (plain_view prune_keep) = Inr (projr prune_scan1)"
    using isOk_Inr_projr [OF prune_scan1_ok] by (simp add: prune_scan1_def)
  show ?thesis
    using prune_delete_verifies [OF prune_view_asc prune_su_ok(1) prune_su_ok(1) prune_su_ok(1) prune_su_ok(2) scan del]
    by blast
qed

definition rerun_deleted :: "prune_error option \<times> delete_state" where
  "rerun_deleted = deletePruneDifference demo_env prune_lib prune_su (prune_dw WriteDone)
     (plain_view (d_db (snd no_candidate_deleted))) (plain_view prune_keep)"

lemma rerun_deleted_ok: "fst rerun_deleted = None"
  by code_simp


theorem prune_walk_is_lookup_witness:
  "(\<exists>p. walkPruneDifference (classifyPruneRecord demo_env prune_lib) (\<lambda>i n. (None, Suc n)) (su_sched prune_su) 2 40 None
       (plain_view prune_keep) (plain_view prune_keep) 0 = (None, p) \<and> p_consumer p = 2)"
  using prune_walk_is_lookup [of "plain_view prune_keep" "plain_view prune_keep" 2 "su_sched prune_su" demo_env prune_lib
      "\<lambda>i n. (None, Suc n)" 40 None 0 2] prune_asc prune_su_ok
  by (auto simp: foreign_def role_of_def keep_keys_def prune_keep_def role_items_def)

definition prune_scan2 :: "(prune_error, pruneInventory) result" where
  "prune_scan2 = scanPruneDB demo_env prune_lib prune_su (plain_view (tl prune_db)) (plain_view prune_keep)"

lemma prune_scan2_ok: "isOk prune_scan2"
  by code_simp

lemma prune_scans_compare: "comparePruneInventory (projr prune_scan1) (projr prune_scan2) = None"
  by code_simp


section \<open>Witnesses of the keep set\<close>

definition prune_collected :: "(collect_error, StateResult) result \<times> pruneKeepWriter" where
  "prune_collected = collectPruneState demo_env prune_kw (prune_validate prune_root) (map_of prune_db) 2 None prune_genesis [9]"

lemma prune_collected_ok: "isOk (fst prune_collected)"
  by code_simp

lemma prune_collected_keep: "kw_db (snd prune_collected) = prune_keep"
  by code_simp

lemma prune_collected_eq:
  "collectPruneState demo_env prune_kw (prune_validate prune_root) (map_of prune_db) 2 None prune_genesis [9] =
     (Inr (projr (fst prune_collected)), snd prune_collected)"
  using isOk_Inr_projr [OF prune_collected_ok] by (metis prod.collapse prune_collected_def)

lemma prune_genesis_in: "map_of prune_db prune_genesis = Some [9]"
  by (simp add: prune_db_def prune_genesis_def prune_root_def demo_hash_def)

theorem prune_keep_complete_witness:
  "prune_genesis \<in> fst ` set (kw_db (snd prune_collected)) \<and>
     hash_reads (prune_validate prune_root) (map_of prune_db) \<subseteq> fst ` set (kw_db (snd prune_collected))"
  using prune_keep_complete [OF _ _ prune_collected_eq] prune_genesis_in by simp

theorem prune_preserves_state_witness:
  "isOk (answer (prune_validate prune_root) (map_of (d_db (snd no_candidate_deleted))))"
proof -
  have del: "deletePruneDifference demo_env prune_lib prune_su (prune_dw WriteLost) (plain_view prune_db) (plain_view prune_keep) =
      (fst no_candidate_deleted, snd no_candidate_deleted)" by (simp add: no_candidate_deleted_def)
  show ?thesis
    using prune_preserves_state [OF prune_view_asc(1) _ prune_su_ok(1) _ _ _ del, of 2 "[9]" prune_genesis prune_kw
        "prune_validate prune_root" None "projr (fst prune_collected)" "snd prune_collected"]
      prune_collected_eq prune_collected_keep prune_genesis_in by simp
qed

section \<open>A whole run\<close>

definition plain_fs :: fs_view where
  "plain_fs = \<lparr>fs_Abs = (\<lambda>s. if s = ''db'' then Some [''data'', ''db''] else Some [''tmp'']),
     fs_EvalAbs = (\<lambda>s. if s = ''db'' then Inr [''data'', ''db''] else Inr [''tmp'']),
     fs_EvalSymlinks = (\<lambda>p. if clean_path p then Inr p else Inl NotExist),
     fs_Stat = (\<lambda>p. Inr \<lparr>fi_kind = KDir, fi_id = length p, fi_size = 0\<rparr>),
     fs_Lstat = (\<lambda>p. Inr \<lparr>fi_kind = KDir, fi_id = length p, fi_size = 0\<rparr>)\<rparr>"

definition plain_file :: file_info where
  "plain_file = \<lparr>fi_kind = KRegular, fi_id = 1, fi_size = 0\<rparr>"

definition plain_dir :: prune_dir where
  "plain_dir = \<lparr>pd_open = True, pd_answers = [([\<lparr>pe_name = ''CURRENT'', pe_isDir = False, pe_info = Some plain_file\<rparr>,
       \<lparr>pe_name = ''ancient'', pe_isDir = True, pe_info = None\<rparr>], ReadEOF)], pd_closeErr = False\<rparr>"

definition plain_dbw :: db_world where
  "plain_dbw = \<lparr>dbw_lockStat = Inr plain_file, dbw_storageErr = False, dbw_openErr = no_faults,
     dbw_closeErr = no_faults, dbw_storageCloseErr = False\<rparr>"

definition run_header :: "nat \<Rightarrow> hash \<Rightarrow> bytes" where
  "run_header n root = be_bytes 8 n @ root"

definition run_view :: rawdb_view where
  "run_view = \<lparr>rd_HeadBlockHash = demo_hash (run_header 1 prune_root),
     rd_HeaderNumber = (\<lambda>_. Some 1),
     rd_CanonicalHash = (\<lambda>n. if n = 0 then demo_hash (run_header 0 prune_genesis) else demo_hash (run_header 1 prune_root)),
     rd_HeaderRLP = (\<lambda>_ n. if n = 0 then run_header 0 prune_genesis else run_header 1 prune_root)\<rparr>"

definition run_world :: prune_world where
  "run_world = \<lparr>rw_fs = plain_fs, rw_dir = plain_dir, rw_current = Some plain_file,
     rw_pathString = (\<lambda>p. if p = [''data'', ''db''] then ''db'' else ''tmp''), rw_poll = no_faults, rw_db = plain_dbw,
     rw_view = (\<lambda>_. run_view), rw_genesisTrie = (\<lambda>_ _. \<lparr>gt_openErr = False, gt_iteratorErr = False, gt_next = True, gt_err = False, gt_closeErr = False\<rparr>), rw_validate = prune_validate, rw_stateErr = no_faults,
     rw_tempErr = False, rw_keepOpenErr = no_faults, rw_keepCloseErr = no_faults, rw_keepSyncErr = no_faults,
     rw_keep = prune_kw, rw_scan = (\<lambda>_. prune_su), rw_sourceFail = no_faults, rw_keepFail = no_faults,
     rw_delete = prune_dw WriteDone, rw_syncErr = no_faults, rw_compactErr = False, rw_removeErr = False\<rparr>"

definition run_options :: PruneOptions where
  "run_options = \<lparr>po_Chaindata = ''db'', po_TempDir = [], po_CacheMB = 256, po_Handles = 64, po_Workers = 4,
     po_DryRun = False, po_Compact = True\<rparr>"

definition no_result :: PruneResult where
  "no_result = \<lparr>pr_Head = \<lparr>BlockNumber = 0, BlockHash = zero_hash, StateRoot = zero_hash\<rparr>, pr_GenesisRoot = zero_hash,
     pr_DryRun = False, pr_Compacted = False, pr_Verified = False, pr_StateCounts = emptyCounts, pr_RetainedState = zeroKV,
     pr_Protected = zeroKV, pr_Candidates = zeroKV, pr_Deleted = zeroKV, pr_Unknown = zeroKV, pr_ProtectedDigest = zero_hash\<rparr>"

definition prune_run :: "prune_failure option \<times> prune_state" where
  "prune_run = pruneWithHooks demo_env prune_lib run_world run_options no_result prune_db"

lemma prune_run_ok: "fst prune_run = None"
  by code_simp

lemma prune_run_eq: "pruneWithHooks demo_env prune_lib run_world run_options no_result prune_db = (None, snd prune_run)"
  using prune_run_ok unfolding prune_run_def by (metis prod.collapse)

lemma run_scans: "scans_ok run_world"
  by (simp add: scans_ok_def run_world_def prune_su_def)

theorem prune_run_safe_witness:
  "set (ps_content (snd prune_run)) \<subseteq> set prune_db \<and> \<not> pdb_locked (ps_handle (snd prune_run))"
  using prune_run_safe [OF prune_asc(1) run_scans prune_run_eq] by blast

theorem prune_run_complete_witness:
  "pr_Deleted (ps_result (snd prune_run)) = pr_Candidates (ps_result (snd prune_run)) \<and> pr_Verified (ps_result (snd prune_run))"
proof -
  have "\<not> po_DryRun run_options" by (simp add: run_options_def)
  from prune_run_complete [OF prune_asc(1) run_scans this prune_run_eq] show ?thesis by blast
qed

lemma run_options_ok: "isOk (validatePruneOptions plain_fs plain_dir (Some plain_file) (rw_pathString run_world) run_options)"
  by code_simp

theorem prune_budget_bounds_witness:
  "pe_sourceCache (newPruneExecution run_options) + pe_keepCache (newPruneExecution run_options) = 256 \<and>
     pe_scanBytes (newPruneExecution run_options) \<le> 2 ^ 24"
  using prune_budget_bounds [OF isOk_Inr_projr [OF run_options_ok]] by (simp add: run_options_def)

section \<open>Paths, manifests and publication\<close>

lemma plain_fs_clean: "fs_clean plain_fs"
  by (auto simp: fs_clean_def plain_fs_def clean_path_def split: if_splits)

lemma plain_output_accepted: "rejectOutputInsideDirectory plain_fs ''db'' ''tmp'' = None"
  by code_simp

theorem reject_output_inside_exact_witness:
  "\<exists>i o1. fs_EvalAbs plain_fs ''db'' = Inr i \<and> resolvePathWithMissing plain_fs ''tmp'' = Inr o1 \<and> \<not> prefix i o1"
  using reject_output_inside_exact [OF plain_fs_clean, of "''db''" "''tmp''"] plain_output_accepted by blast

definition plain_fd :: "int \<Rightarrow> string" where
  "plain_fd n = ''MANIFEST-'' @ pad_decimal 6 (nat n)"

lemma plain_fd_names: "manifest_names plain_fd"
  by (simp add: manifest_names_def plain_fd_def)

theorem prune_current_canonical_witness:
  "parsePruneCurrent plain_fd (''MANIFEST-'' @ pad_decimal 6 (nat 7) @ newline) = Inr 7"
  using prune_current_canonical [OF plain_fd_names, of _ 7] by simp

definition plain_root :: dir_root where
  "plain_root = \<lparr>dr_inventory = None, dr_files = [
     \<lparr>de_name = ''CURRENT'', de_lstat = Some plain_file, de_stat = Some plain_file,
       de_data = Some (map of_char (''MANIFEST-000007'' @ newline)), de_closeErr = False\<rparr>,
     \<lparr>de_name = ''MANIFEST-000007'', de_lstat = Some plain_file, de_stat = Some plain_file, de_data = Some [], de_closeErr = False\<rparr>],
     dr_closeErr = False\<rparr>"

lemma plain_getmeta: "isOk (GetMeta plain_fd plain_dir (Inr plain_root))"
  by code_simp

lemma plain_dir_entries: "db_entries (answered (pd_answers plain_dir)) = [\<lparr>pe_name = ''CURRENT'', pe_isDir = False, pe_info = Some plain_file\<rparr>]"
  by (simp add: plain_dir_def db_entries_def)


definition plain_handle :: pruneDatabase where
  "plain_handle = \<lparr>pdb_locked = True, pdb_session = Some True, pdb_opens = 1\<rparr>"


definition plain_rename :: "path \<Rightarrow> path \<Rightarrow> tree \<Rightarrow> rename_outcome \<times> tree" where
  "plain_rename src dst t = (if t dst = None then (RenameOk, moved src dst t) else (RenameExists, t))"

lemma plain_rename_ok: "no_replace plain_rename"
  by (auto simp: no_replace_def plain_rename_def split: if_splits)

definition plain_aw :: atomic_world where
  "plain_aw = \<lparr>aw_lstatErr = (\<lambda>_. False), aw_mkdirErr = False, aw_evalParent = Some, aw_suffix = (\<lambda>_. Some ''1''),
     aw_removeErr = (\<lambda>_. False)\<rparr>"

definition plain_new :: "(atomic_error, atomicDir) result \<times> tree" where
  "plain_new = newAtomicDirWithOps plain_fs plain_aw \<lparr>op_rename = Some plain_rename, op_syncDir = Some (\<lambda>_. False)\<rparr> ''out'' Map.empty"

lemma plain_new_ok: "isOk (fst plain_new)"
  by code_simp

definition plain_commit :: "atomic_error option \<times> atomicDir \<times> tree" where
  "plain_commit = Commit plain_aw plain_rename (\<lambda>_. False) (projr (fst plain_new)) (snd plain_new)"

lemma plain_commit_eq:
  "Commit plain_aw plain_rename (\<lambda>_. False) (projr (fst plain_new)) (snd plain_new) =
     (fst plain_commit, fst (snd plain_commit), snd (snd plain_commit))"
  by (simp add: plain_commit_def)

lemma plain_commit_ok: "fst plain_commit = None"
  by code_simp

theorem commit_atomic_witness:
  "ad_committed (fst (snd plain_commit)) \<and>
     (\<forall>q. snd (snd plain_commit) (ad_final (projr (fst plain_new)) @ q) = snd plain_new (ad_temp (projr (fst plain_new)) @ q))"
  using commit_atomic [OF plain_rename_ok plain_commit_eq] plain_commit_ok by blast

theorem abort_confined_witness:
  "snd (Abort plain_aw (fst (snd plain_commit)) (snd (snd plain_commit))) (ad_final (projr (fst plain_new))) =
     snd (snd plain_commit) (ad_final (projr (fst plain_new)))"
proof -
  have new: "newAtomicDirWithOps plain_fs plain_aw \<lparr>op_rename = Some plain_rename, op_syncDir = Some (\<lambda>_. False)\<rparr> ''out'' Map.empty =
      (Inr (projr (fst plain_new)), snd plain_new)"
    using isOk_Inr_projr [OF plain_new_ok] by (metis plain_new_def prod.collapse)
  have ab: "Abort plain_aw (fst (snd plain_commit)) (snd (snd plain_commit)) =
      (fst (Abort plain_aw (fst (snd plain_commit)) (snd (snd plain_commit))),
       snd (Abort plain_aw (fst (snd plain_commit)) (snd (snd plain_commit))))" by simp
  show ?thesis using abort_confined [OF plain_rename_ok new plain_commit_eq ab] by blast
qed

end
