(* ===== verification/DirectWriter.thy ===== *)
theory DirectWriter
  imports StateTrie DbKeys
begin

text \<open>
  The writer of generated state (\<^verbatim>\<open>direct_writer.go\<close>): trie nodes, codes and, for path
  artifacts, the flat state, collected in a batch that is flushed when it is large. The key
  prefixes and the slim account encoding are functions of \<^verbatim>\<open>rawdb\<close> and \<^verbatim>\<open>types\<close>, which
  are not part of the repository; they are the fields of \<open>artifact_keys\<close>. The reused scratch
  array of \<^verbatim>\<open>keyBytes\<close> is not observable: batches copy their keys.
\<close>

section \<open>Definitions\<close>

record artifact_keys =
  SnapshotAccountPrefix :: bytes
  SnapshotStoragePrefix :: bytes
  CodePrefix :: bytes
  TrieNodeAccountPrefix :: bytes
  TrieNodeStoragePrefix :: bytes
  SlimAccountRLP :: "state_account \<Rightarrow> bytes"

definition HashScheme :: string where "HashScheme = ''hash''"
definition PathScheme :: string where "PathScheme = ''path''"

datatype batch_op = BatchPut bytes bytes | BatchDelete bytes

record directStateWriter =
  dw_db :: "kv list"
  dw_batch :: "batch_op list"
  dw_scheme :: string
  dw_flushAt :: int
  dw_closed :: bool
  dw_ops :: nat

record writer_world =
  ww_opErr :: faults
  ww_writeErr :: faults
  ww_ValueSize :: "batch_op list \<Rightarrow> int"
  ww_IdealBatchSize :: int

datatype direct_error = DirectPut | DirectDelete | DirectFlush | DirectScheme | DirectCanceled

fun apply_op :: "batch_op \<Rightarrow> kv list \<Rightarrow> kv list" where
  "apply_op (BatchPut k v) db = kv_put k v db"
| "apply_op (BatchDelete k) db = filter (\<lambda>kv. fst kv \<noteq> k) db"

definition apply_ops :: "batch_op list \<Rightarrow> kv list \<Rightarrow> kv list" where
  "apply_ops ops db = foldl (\<lambda>m op. apply_op op m) db ops"

definition keyBytes :: "bytes \<Rightarrow> bytes \<Rightarrow> bytes \<Rightarrow> bytes" where
  "keyBytes pre middle suf = pre @ middle @ suf"

definition directKeyScratchSize :: nat where
  "directKeyScratchSize = 1 + 3 * HashLength"

definition newDirectStateWriterWithFlushLimit :: "kv list \<Rightarrow> string \<Rightarrow> int \<Rightarrow> directStateWriter" where
  "newDirectStateWriterWithFlushLimit db scheme flushAt =
     \<lparr>dw_db = db, dw_batch = [], dw_scheme = scheme, dw_flushAt = flushAt, dw_closed = False, dw_ops = 0\<rparr>"

definition newDirectStateWriter :: "writer_world \<Rightarrow> kv list \<Rightarrow> string \<Rightarrow> directStateWriter" where
  "newDirectStateWriter world db scheme = newDirectStateWriterWithFlushLimit db scheme (ww_IdealBatchSize world)"

definition newDeferredDirectStateWriter :: "kv list \<Rightarrow> string \<Rightarrow> directStateWriter" where
  "newDeferredDirectStateWriter db scheme = newDirectStateWriterWithFlushLimit db scheme 0"

text \<open>A write of the batch that fails leaves the database as it was; every call is counted.\<close>

definition dw_Write :: "writer_world \<Rightarrow> directStateWriter \<Rightarrow> direct_error option \<times> directStateWriter" where
  "dw_Write world w =
     (if ww_writeErr world (dw_ops w) then (Some DirectFlush, w\<lparr>dw_ops := dw_ops w + 1\<rparr>)
      else (None, w\<lparr>dw_db := apply_ops (dw_batch w) (dw_db w), dw_ops := dw_ops w + 1\<rparr>))"

definition flushIfNeeded :: "writer_world \<Rightarrow> directStateWriter \<Rightarrow> direct_error option \<times> directStateWriter" where
  "flushIfNeeded world w =
     (if dw_flushAt w \<le> 0 \<or> ww_ValueSize world (dw_batch w) < dw_flushAt w then (None, w)
      else case dw_Write world w of
        (Some e, w') \<Rightarrow> (Some e, w')
      | (None, w') \<Rightarrow> (None, w'\<lparr>dw_batch := []\<rparr>))"

definition dw_op ::
  "writer_world \<Rightarrow> direct_error \<Rightarrow> batch_op \<Rightarrow> directStateWriter \<Rightarrow> direct_error option \<times> directStateWriter" where
  "dw_op world err op w =
     (if ww_opErr world (dw_ops w) then (Some err, w\<lparr>dw_ops := dw_ops w + 1\<rparr>)
      else flushIfNeeded world (w\<lparr>dw_batch := dw_batch w @ [op], dw_ops := dw_ops w + 1\<rparr>))"

definition writeFlatAccount ::
  "artifact_keys \<Rightarrow> writer_world \<Rightarrow> hash \<Rightarrow> bytes \<Rightarrow> directStateWriter \<Rightarrow> direct_error option \<times> directStateWriter" where
  "writeFlatAccount lib world h slimRLP w =
     (if dw_scheme w = HashScheme then (None, w)
      else dw_op world DirectPut (BatchPut (keyBytes (SnapshotAccountPrefix lib) h []) slimRLP) w)"

definition direct_Account ::
  "artifact_keys \<Rightarrow> writer_world \<Rightarrow> hash \<Rightarrow> state_account \<Rightarrow> bytes \<Rightarrow> directStateWriter \<Rightarrow>
   direct_error option \<times> directStateWriter" where
  "direct_Account lib world h account fullRLP w =
     (if dw_scheme w = HashScheme then (None, w)
      else writeFlatAccount lib world h (SlimAccountRLP lib account) w)"

definition direct_AccountFromBundle ::
  "artifact_keys \<Rightarrow> writer_world \<Rightarrow> hash \<Rightarrow> state_account \<Rightarrow> bytes \<Rightarrow> bytes \<Rightarrow> directStateWriter \<Rightarrow>
   direct_error option \<times> directStateWriter" where
  "direct_AccountFromBundle lib world h account fullRLP slimRLP w = writeFlatAccount lib world h slimRLP w"

definition direct_Storage ::
  "artifact_keys \<Rightarrow> writer_world \<Rightarrow> hash \<Rightarrow> hash \<Rightarrow> bytes \<Rightarrow> directStateWriter \<Rightarrow>
   direct_error option \<times> directStateWriter" where
  "direct_Storage lib world accountHash slotHash valueRLP w =
     (if dw_scheme w = HashScheme then (None, w)
      else dw_op world DirectPut (BatchPut (keyBytes (SnapshotStoragePrefix lib) accountHash slotHash) valueRLP) w)"

definition direct_Code ::
  "artifact_keys \<Rightarrow> writer_world \<Rightarrow> hash \<Rightarrow> hash \<Rightarrow> bytes \<Rightarrow> directStateWriter \<Rightarrow>
   direct_error option \<times> directStateWriter" where
  "direct_Code lib world owner codeHash code w =
     dw_op world DirectPut (BatchPut (keyBytes (CodePrefix lib) codeHash []) code) w"

definition trieNodeKey :: "artifact_keys \<Rightarrow> hash \<Rightarrow> bytes \<Rightarrow> hash \<Rightarrow> directStateWriter \<Rightarrow> bytes option" where
  "trieNodeKey lib owner path h w =
     (if dw_scheme w = HashScheme then Some (keyBytes [] h [])
      else if dw_scheme w = PathScheme then
        (if owner = zero_hash then Some (keyBytes (TrieNodeAccountPrefix lib) path [])
         else Some (keyBytes (TrieNodeStoragePrefix lib) owner path))
      else None)"

definition direct_TrieNode ::
  "artifact_keys \<Rightarrow> writer_world \<Rightarrow> hash \<Rightarrow> bytes \<Rightarrow> hash \<Rightarrow> bytes \<Rightarrow> directStateWriter \<Rightarrow>
   direct_error option \<times> directStateWriter" where
  "direct_TrieNode lib world owner path h blob w =
     (case trieNodeKey lib owner path h w of
        None \<Rightarrow> (Some DirectScheme, w)
      | Some key \<Rightarrow> dw_op world DirectPut (BatchPut key blob) w)"

definition direct_DeleteTrieNode ::
  "artifact_keys \<Rightarrow> writer_world \<Rightarrow> hash \<Rightarrow> bytes \<Rightarrow> hash \<Rightarrow> directStateWriter \<Rightarrow>
   direct_error option \<times> directStateWriter" where
  "direct_DeleteTrieNode lib world owner path h w =
     (case trieNodeKey lib owner path h w of
        None \<Rightarrow> (Some DirectScheme, w)
      | Some key \<Rightarrow> dw_op world DirectDelete (BatchDelete key) w)"

definition direct_Close :: "writer_world \<Rightarrow> directStateWriter \<Rightarrow> direct_error option \<times> directStateWriter" where
  "direct_Close world w =
     (if dw_closed w then (None, w)
      else case dw_Write world (w\<lparr>dw_closed := True\<rparr>) of (err, w') \<Rightarrow> (err, w'\<lparr>dw_batch := []\<rparr>))"

definition direct_Abort :: "directStateWriter \<Rightarrow> directStateWriter" where
  "direct_Abort w = (if dw_closed w then w else w\<lparr>dw_closed := True, dw_batch := []\<rparr>)"

text \<open>\<open>canceled\<close> is what the poll of the context answers.\<close>

definition direct_CloseContext ::
  "writer_world \<Rightarrow> bool \<Rightarrow> directStateWriter \<Rightarrow> direct_error option \<times> directStateWriter" where
  "direct_CloseContext world canceled w =
     (if canceled then (Some DirectCanceled, direct_Abort w) else direct_Close world w)"

text \<open>The writer as the visitor of a traversal.\<close>

definition direct_visitor :: "artifact_keys \<Rightarrow> writer_world \<Rightarrow> (direct_error, directStateWriter) StateVisitor" where
  "direct_visitor lib world = \<lparr>v_Account = direct_Account lib world, v_Storage = direct_Storage lib world,
     v_Code = direct_Code lib world, v_AccountFromBundle = Some (direct_AccountFromBundle lib world)\<rparr>"

section \<open>What is written\<close>

text \<open>The database as it will be once the batch is flushed.\<close>

definition direct_view :: "directStateWriter \<Rightarrow> kv list" where
  "direct_view w = apply_ops (dw_batch w) (dw_db w)"

lemma apply_ops_Nil [simp]: "apply_ops [] db = db"
  by (simp add: apply_ops_def)

lemma apply_ops_append [simp]: "apply_ops (a @ b) db = apply_ops b (apply_ops a db)"
  by (simp add: apply_ops_def)

lemma apply_ops_single [simp]: "apply_ops [op] db = apply_op op db"
  by (simp add: apply_ops_def)

lemma apply_op_ascending [simp]: "ascending db \<Longrightarrow> ascending (apply_op op db)"
  by (cases op) simp_all

lemma apply_ops_ascending [simp]: "ascending db \<Longrightarrow> ascending (apply_ops ops db)"
  by (induction ops rule: rev_induct) simp_all

lemma dw_Write_view:
  "dw_Write world w = (None, w') \<Longrightarrow> dw_db w' = direct_view w \<and> dw_batch w' = dw_batch w \<and>
     dw_scheme w' = dw_scheme w \<and> dw_flushAt w' = dw_flushAt w \<and> dw_closed w' = dw_closed w"
  by (auto simp: dw_Write_def direct_view_def split: if_splits)

lemma flushIfNeeded_view:
  assumes "flushIfNeeded world w = (None, w')"
  shows "direct_view w' = direct_view w \<and> dw_scheme w' = dw_scheme w \<and> dw_flushAt w' = dw_flushAt w \<and>
     dw_closed w' = dw_closed w"
  using assms dw_Write_view [of world w] by (auto simp: flushIfNeeded_def direct_view_def split: if_splits prod.splits option.splits)

lemma dw_op_view:
  assumes "dw_op world err op w = (None, w')"
  shows "direct_view w' = apply_op op (direct_view w) \<and> dw_scheme w' = dw_scheme w \<and> dw_flushAt w' = dw_flushAt w \<and>
     dw_closed w' = dw_closed w"
proof -
  from assms have "flushIfNeeded world (w\<lparr>dw_batch := dw_batch w @ [op], dw_ops := dw_ops w + 1\<rparr>) = (None, w')"
    by (auto simp: dw_op_def split: if_splits)
  from flushIfNeeded_view [OF this] show ?thesis by (simp add: direct_view_def)
qed

text \<open>A deferred writer never touches the database before it is closed.\<close>

lemma dw_op_deferred: "dw_flushAt w \<le> 0 \<Longrightarrow> dw_op world err op w = (e, w') \<Longrightarrow> dw_db w' = dw_db w \<and> dw_flushAt w' \<le> 0"
  by (auto simp: dw_op_def flushIfNeeded_def split: if_splits)

section \<open>Operations in sequence\<close>

datatype writer_call =
    CallAccount hash state_account bytes
  | CallAccountFromBundle hash state_account bytes bytes
  | CallStorage hash hash bytes
  | CallCode hash hash bytes
  | CallTrieNode hash bytes hash bytes
  | CallDeleteTrieNode hash bytes hash

fun direct_call :: "artifact_keys \<Rightarrow> writer_world \<Rightarrow> writer_call \<Rightarrow> directStateWriter \<Rightarrow> direct_error option \<times> directStateWriter" where
  "direct_call lib world (CallAccount h a full) w = direct_Account lib world h a full w"
| "direct_call lib world (CallAccountFromBundle h a full slim) w = direct_AccountFromBundle lib world h a full slim w"
| "direct_call lib world (CallStorage a s v) w = direct_Storage lib world a s v w"
| "direct_call lib world (CallCode a h code) w = direct_Code lib world a h code w"
| "direct_call lib world (CallTrieNode owner path h blob) w = direct_TrieNode lib world owner path h blob w"
| "direct_call lib world (CallDeleteTrieNode owner path h) w = direct_DeleteTrieNode lib world owner path h w"

fun direct_calls :: "artifact_keys \<Rightarrow> writer_world \<Rightarrow> writer_call list \<Rightarrow> directStateWriter \<Rightarrow> direct_error option \<times> directStateWriter" where
  "direct_calls lib world [] w = (None, w)"
| "direct_calls lib world (c # cs) w =
     (case direct_call lib world c w of
        (Some e, w') \<Rightarrow> (Some e, w')
      | (None, w') \<Rightarrow> direct_calls lib world cs w')"

text \<open>What a call means for the database, by scheme.\<close>

fun call_ops :: "artifact_keys \<Rightarrow> string \<Rightarrow> writer_call \<Rightarrow> batch_op list" where
  "call_ops lib scheme (CallAccount h a full) =
     (if scheme = HashScheme then [] else [BatchPut (SnapshotAccountPrefix lib @ h) (SlimAccountRLP lib a)])"
| "call_ops lib scheme (CallAccountFromBundle h a full slim) =
     (if scheme = HashScheme then [] else [BatchPut (SnapshotAccountPrefix lib @ h) slim])"
| "call_ops lib scheme (CallStorage a s v) =
     (if scheme = HashScheme then [] else [BatchPut (SnapshotStoragePrefix lib @ a @ s) v])"
| "call_ops lib scheme (CallCode a h code) = [BatchPut (CodePrefix lib @ h) code]"
| "call_ops lib scheme (CallTrieNode owner path h blob) =
     [BatchPut (if scheme = HashScheme then h else if owner = zero_hash then TrieNodeAccountPrefix lib @ path
                else TrieNodeStoragePrefix lib @ owner @ path) blob]"
| "call_ops lib scheme (CallDeleteTrieNode owner path h) =
     [BatchDelete (if scheme = HashScheme then h else if owner = zero_hash then TrieNodeAccountPrefix lib @ path
                   else TrieNodeStoragePrefix lib @ owner @ path)]"

lemma direct_call_view:
  assumes "direct_call lib world c w = (None, w')"
  shows "direct_view w' = apply_ops (call_ops lib (dw_scheme w) c) (direct_view w) \<and> dw_scheme w' = dw_scheme w \<and>
     dw_flushAt w' = dw_flushAt w \<and> dw_closed w' = dw_closed w"
  using assms dw_op_view
  by (cases c) (fastforce simp: direct_Account_def direct_AccountFromBundle_def writeFlatAccount_def direct_Storage_def
      direct_Code_def direct_TrieNode_def direct_DeleteTrieNode_def trieNodeKey_def keyBytes_def split: if_splits)+

lemma direct_calls_view:
  "direct_calls lib world cs w = (None, w') \<Longrightarrow>
     direct_view w' = apply_ops (concat (map (call_ops lib (dw_scheme w)) cs)) (direct_view w) \<and>
     dw_scheme w' = dw_scheme w \<and> dw_flushAt w' = dw_flushAt w \<and> dw_closed w' = dw_closed w"
proof (induction cs arbitrary: w)
  case (Cons c cs)
  then obtain w1 where w1: "direct_call lib world c w = (None, w1)" "direct_calls lib world cs w1 = (None, w')"
    by (auto split: prod.splits option.splits)
  from direct_call_view [OF w1(1)] Cons.IH [OF w1(2)] show ?case by simp
qed simp

lemma direct_call_deferred:
  "dw_flushAt w \<le> 0 \<Longrightarrow> direct_call lib world c w = (e, w') \<Longrightarrow> dw_db w' = dw_db w \<and> dw_flushAt w' \<le> 0"
  using dw_op_deferred
  by (cases c) (fastforce simp: direct_Account_def direct_AccountFromBundle_def writeFlatAccount_def direct_Storage_def
      direct_Code_def direct_TrieNode_def direct_DeleteTrieNode_def split: if_splits option.splits)+

lemma direct_calls_deferred:
  "dw_flushAt w \<le> 0 \<Longrightarrow> direct_calls lib world cs w = (e, w') \<Longrightarrow> dw_db w' = dw_db w"
proof (induction cs arbitrary: w)
  case (Cons c cs)
  obtain e1 w1 where c1: "direct_call lib world c w = (e1, w1)" by fastforce
  from direct_call_deferred [OF Cons.prems(1) c1] Cons.prems(2) Cons.IH [of w1] c1 show ?case
    by (cases e1) auto
qed simp

lemma Close_view:
  "\<not> dw_closed w \<Longrightarrow> direct_Close world w = (None, w') \<Longrightarrow> dw_db w' = direct_view w \<and> dw_closed w'"
  using dw_Write_view [of world "w\<lparr>dw_closed := True\<rparr>"]
  by (auto simp: direct_Close_def direct_view_def split: prod.splits)

lemma Close_failed_db: "direct_Close world w = (Some e, w') \<Longrightarrow> dw_db w' = dw_db w"
  by (auto simp: direct_Close_def dw_Write_def split: if_splits)

lemma CloseContext_view:
  "\<not> dw_closed w \<Longrightarrow> direct_CloseContext world canceled w = (None, w') \<Longrightarrow> dw_db w' = direct_view w"
  using Close_view [of w world w'] by (auto simp: direct_CloseContext_def split: if_splits)

section \<open>Properties\<close>


end
