(* ===== verification/OvmIndex.thy ===== *)
theory OvmIndex
  imports DbKeys StateTrie
begin

text \<open>
  The evidence index of the OVM conversion (\<^verbatim>\<open>ovmIndex\<close> of \<^verbatim>\<open>ovm_input.go\<close>): an ordered
  key-value database behind one batch that is flushed when it is large. Namespaces are one-byte
  prefixes: \<open>b\<close> maps a hashed balance slot to its holder, \<open>a\<close> a hashed allowance slot to
  owner and spender, \<open>k\<close> a hashed metadata slot, \<open>f\<close> marks senders of positive transfers,
  \<open>R\<close> retained contracts, \<open>q\<close> queued balances, \<open>p\<close> and \<open>s\<close> replacement accounts and
  storage values. The database is scratch: after an error nothing of it is used again, so an
  operation that fails has no resulting state.
\<close>

section \<open>Definitions\<close>

type_synonym address = bytes

definition AddressLength :: nat where
  "AddressLength = 20"

definition LeftPadBytes :: "bytes \<Rightarrow> nat \<Rightarrow> bytes" where
  "LeftPadBytes b l = (if l \<le> length b then b else replicate (l - length b) 0 @ b)"

definition ovmETHAddress :: address where
  "ovmETHAddress = concat (replicate 9 [0xde, 0xad]) @ [0, 0]"

abbreviation ns_a :: byte where "ns_a \<equiv> 97"
abbreviation ns_b :: byte where "ns_b \<equiv> 98"
abbreviation ns_f :: byte where "ns_f \<equiv> 102"
abbreviation ns_k :: byte where "ns_k \<equiv> 107"
abbreviation ns_p :: byte where "ns_p \<equiv> 112"
abbreviation ns_q :: byte where "ns_q \<equiv> 113"
abbreviation ns_s :: byte where "ns_s \<equiv> 115"

definition ovmERC20RetainPrefix :: byte where
  "ovmERC20RetainPrefix = 82"

record ovmIndex =
  ix_db :: "kv list"
  ix_batch :: "kv list"
  ix_ops :: nat

text \<open>
  The database behind the index: which calls fail, how the batch measures its size and from
  which size on it is flushed. \<open>ix_ops\<close> counts the calls.
\<close>

record index_world =
  iw_putErr :: faults
  iw_writeErr :: faults
  iw_getErr :: faults
  iw_ValueSize :: "kv list \<Rightarrow> nat"
  iw_IdealBatchSize :: nat

datatype index_error = IndexPut | IndexFlush | IndexGet

definition newOVMIndex :: "kv list \<Rightarrow> ovmIndex" where
  "newOVMIndex db = \<lparr>ix_db = db, ix_batch = [], ix_ops = 0\<rparr>"

definition index_flush :: "index_world \<Rightarrow> ovmIndex \<Rightarrow> (index_error, ovmIndex) result" where
  "index_flush world i =
     (if iw_writeErr world (ix_ops i) then Inl IndexFlush
      else Inr (i\<lparr>ix_db := write_batch (ix_batch i) (ix_db i), ix_batch := [], ix_ops := ix_ops i + 1\<rparr>))"

text \<open>\<^verbatim>\<open>batch.Put\<close> followed by the flush of a large batch, at a full key and under a prefix.\<close>

definition batch_Put :: "index_world \<Rightarrow> bytes \<Rightarrow> bytes \<Rightarrow> ovmIndex \<Rightarrow> (index_error, ovmIndex) result" where
  "batch_Put world key val i =
     (if iw_putErr world (ix_ops i) then Inl IndexPut
      else Inr (i\<lparr>ix_batch := ix_batch i @ [(key, val)], ix_ops := ix_ops i + 1\<rparr>))"

definition flush_large :: "index_world \<Rightarrow> ovmIndex \<Rightarrow> (index_error, ovmIndex) result" where
  "flush_large world i =
     (if iw_ValueSize world (ix_batch i) \<ge> iw_IdealBatchSize world then index_flush world i else Inr i)"

definition index_put :: "index_world \<Rightarrow> byte \<Rightarrow> bytes \<Rightarrow> bytes \<Rightarrow> ovmIndex \<Rightarrow> (index_error, ovmIndex) result" where
  "index_put world pre key val i = bindR (batch_Put world (prefixedKey [pre] key) val i) (flush_large world)"

text \<open>A lookup sees the database only, not the pending batch; absence is not an error.\<close>

definition index_get :: "index_world \<Rightarrow> byte \<Rightarrow> bytes \<Rightarrow> ovmIndex \<Rightarrow> (index_error, bytes option \<times> ovmIndex) result" where
  "index_get world pre key i =
     (if iw_getErr world (ix_ops i) then Inl IndexGet
      else Inr (map_of (ix_db i) (prefixedKey [pre] key), i\<lparr>ix_ops := ix_ops i + 1\<rparr>))"

definition ovmBalanceSlot :: "geth_env \<Rightarrow> address \<Rightarrow> hash" where
  "ovmBalanceSlot env addr = keccak256 env (LeftPadBytes addr 32 @ replicate 32 0)"

definition ovmStorageHash :: "geth_env \<Rightarrow> hash \<Rightarrow> hash" where
  "ovmStorageHash env slot = keccak256 env slot"

definition index_address :: "geth_env \<Rightarrow> index_world \<Rightarrow> address \<Rightarrow> ovmIndex \<Rightarrow> (index_error, ovmIndex) result" where
  "index_address env world addr i =
     (let slot = ovmStorageHash env (ovmBalanceSlot env addr) in index_put world ns_b slot addr i)"

definition ovmAllowanceSlot :: "geth_env \<Rightarrow> address \<Rightarrow> address \<Rightarrow> hash" where
  "ovmAllowanceSlot env owner spender =
     (let inner = keccak256 env (LeftPadBytes owner 32 @ LeftPadBytes [1] 32)
      in keccak256 env (LeftPadBytes spender 32 @ inner))"

definition index_allowance ::
  "geth_env \<Rightarrow> index_world \<Rightarrow> address \<Rightarrow> address \<Rightarrow> ovmIndex \<Rightarrow> (index_error, ovmIndex) result" where
  "index_allowance env world owner spender i =
     bindR (index_address env world owner i) (\<lambda>i1.
     bindR (index_address env world spender i1) (\<lambda>i2.
       let h = ovmStorageHash env (ovmAllowanceSlot env owner spender)
       in index_put world ns_a h (owner @ spender) i2))"

section \<open>A staged store\<close>

text \<open>
  What the index promises its users: staging an entry updates the view, committing keeps the view
  and makes it durable. A sequence of stagings acts like the sequence of updates, wherever the
  commits fall.
\<close>

locale staged_store =
  fixes stage :: "'k \<Rightarrow> 'v \<Rightarrow> 's \<Rightarrow> ('e, 's) result"
    and commit :: "'s \<Rightarrow> ('e, 's) result"
    and view :: "'s \<Rightarrow> 'k \<rightharpoonup> 'v"
    and durable :: "'s \<Rightarrow> 'k \<rightharpoonup> 'v"
    and inv :: "'s \<Rightarrow> bool"
  assumes stage_inv: "inv s \<Longrightarrow> stage k v s = Inr s' \<Longrightarrow> inv s'"
    and stage_view: "inv s \<Longrightarrow> stage k v s = Inr s' \<Longrightarrow> view s' = (view s)(k \<mapsto> v)"
    and commit_inv: "inv s \<Longrightarrow> commit s = Inr s' \<Longrightarrow> inv s'"
    and commit_view: "inv s \<Longrightarrow> commit s = Inr s' \<Longrightarrow> view s' = view s"
    and commit_durable: "inv s \<Longrightarrow> commit s = Inr s' \<Longrightarrow> durable s' = view s"
begin

fun stage_all :: "('k \<times> 'v) list \<Rightarrow> 's \<Rightarrow> ('e, 's) result" where
  "stage_all [] s = Inr s"
| "stage_all ((k, v) # kvs) s = bindR (stage k v s) (stage_all kvs)"

lemma stage_all_ok:
  "inv s \<Longrightarrow> stage_all kvs s = Inr s' \<Longrightarrow> inv s' \<and> view s' = view s ++ map_of (rev kvs)"
proof (induction kvs arbitrary: s)
  case (Cons kv kvs)
  obtain k v where kv: "kv = (k, v)" by (cases kv)
  with Cons.prems obtain s1 where s1: "stage k v s = Inr s1" "stage_all kvs s1 = Inr s'"
    by (auto simp: bindR_eq_Inr)
  from Cons.IH [OF stage_inv [OF Cons.prems(1) s1(1)] s1(2)] stage_view [OF Cons.prems(1) s1(1)]
  show ?case by (auto simp: kv map_add_def fun_eq_iff split: option.splits)
qed simp

lemma staged_durable:
  "inv s \<Longrightarrow> stage_all kvs s = Inr s1 \<Longrightarrow> commit s1 = Inr s2 \<Longrightarrow> durable s2 = view s ++ map_of (rev kvs)"
  using stage_all_ok [of s kvs s1] commit_durable [of s1 s2] by simp

end

definition index_view :: "ovmIndex \<Rightarrow> bytes \<rightharpoonup> bytes" where
  "index_view i = map_of (write_batch (ix_batch i) (ix_db i))"

definition index_durable :: "ovmIndex \<Rightarrow> bytes \<rightharpoonup> bytes" where
  "index_durable i = map_of (ix_db i)"

definition index_sorted :: "ovmIndex \<Rightarrow> bool" where
  "index_sorted i \<longleftrightarrow> ascending (ix_db i)"

lemma batch_Put_ok:
  "index_sorted i \<Longrightarrow> batch_Put world k v i = Inr i' \<Longrightarrow>
     index_sorted i' \<and> index_view i' = (index_view i)(k \<mapsto> v)"
  by (auto simp: batch_Put_def index_sorted_def index_view_def map_of_kv_put split: if_splits)

lemma index_flush_ok:
  "index_sorted i \<Longrightarrow> index_flush world i = Inr i' \<Longrightarrow>
     index_sorted i' \<and> index_view i' = index_view i \<and> index_durable i' = index_view i \<and> ix_batch i' = []"
  by (auto simp: index_flush_def index_sorted_def index_view_def index_durable_def split: if_splits)

lemma flush_large_ok:
  "index_sorted i \<Longrightarrow> flush_large world i = Inr i' \<Longrightarrow> index_sorted i' \<and> index_view i' = index_view i"
  using index_flush_ok [of i world i'] by (auto simp: flush_large_def split: if_splits)

lemma index_put_ok:
  assumes "index_sorted i" and "index_put world pre key val i = Inr i'"
  shows "index_sorted i' \<and> index_view i' = (index_view i)(pre # key \<mapsto> val)"
proof -
  from assms(2) obtain i1 where "batch_Put world (pre # key) val i = Inr i1" "flush_large world i1 = Inr i'"
    by (auto simp: index_put_def prefixedKey_def bindR_eq_Inr)
  with assms(1) batch_Put_ok [of i world "pre # key" val i1] flush_large_ok [of i1 world i'] show ?thesis by simp
qed

lemma index_new_ok [simp]:
  "ascending db \<Longrightarrow> index_sorted (newOVMIndex db)" "index_view (newOVMIndex db) = map_of db"
  by (simp_all add: newOVMIndex_def index_sorted_def index_view_def)

interpretation ixs: staged_store "\<lambda>(pre, key) val. index_put world pre key val" "index_flush world"
  "\<lambda>i (pre, key). index_view i (pre # key)" "\<lambda>i (pre, key). index_durable i (pre # key)" index_sorted for world
proof unfold_locales
  fix s s' :: ovmIndex and k :: "byte \<times> bytes" and v :: bytes
  obtain pre key where k: "k = (pre, key)" by (cases k)
  assume s: "index_sorted s"
  { assume "(case k of (pre, key) \<Rightarrow> \<lambda>val. index_put world pre key val) v s = Inr s'"
    with k have "index_put world pre key v s = Inr s'" by simp
    from index_put_ok [OF s this]
    show "index_sorted s'" and "(\<lambda>(pre, key). index_view s' (pre # key)) = (\<lambda>(pre, key). index_view s (pre # key))(k \<mapsto> v)"
      by (auto simp: k fun_eq_iff) }
  { assume "index_flush world s = Inr s'"
    from index_flush_ok [OF s this]
    show "index_sorted s'" and "(\<lambda>(pre, key). index_view s' (pre # key)) = (\<lambda>(pre, key). index_view s (pre # key))"
      and "(\<lambda>(pre, key). index_durable s' (pre # key)) = (\<lambda>(pre, key). index_view s (pre # key))"
      by auto }
qed

lemma index_get_ok:
  "index_get world pre key i = Inr (r, i') \<Longrightarrow>
     r = index_durable i (pre # key) \<and> ix_db i' = ix_db i \<and> ix_batch i' = ix_batch i"
  by (auto simp: index_get_def index_durable_def prefixedKey_def split: if_splits)

section \<open>Phases write their own namespaces\<close>

text \<open>Since a flush with content \<open>d0\<close>, only entries with a prefix in \<open>S\<close> were written.\<close>

definition only_ns :: "byte set \<Rightarrow> (bytes \<rightharpoonup> bytes) \<Rightarrow> ovmIndex \<Rightarrow> bool" where
  "only_ns S d0 i \<longleftrightarrow> index_sorted i \<and>
     (\<forall>kv \<in> set (ix_batch i). \<exists>pre k. fst kv = pre # k \<and> pre \<in> S) \<and>
     (\<forall>pre k. pre \<notin> S \<longrightarrow> index_durable i (pre # k) = d0 (pre # k))"

lemma only_ns_flush:
  assumes p: "only_ns S d0 i" and f: "index_flush iw i = Inr i'"
  shows "only_ns S d0 i'"
proof -
  from f have i': "ix_db i' = write_batch (ix_batch i) (ix_db i)" "ix_batch i' = []"
    by (auto simp: index_flush_def split: if_splits)
  have "index_durable i' (pre # k) = d0 (pre # k)" if "pre \<notin> S" for pre k
  proof -
    have "map_of (rev (ix_batch i)) (pre # k) = None"
      using p that by (fastforce simp: only_ns_def map_of_eq_None_iff)
    with p that show ?thesis
      by (simp add: only_ns_def index_durable_def i' write_batch_map_of index_sorted_def map_add_def)
  qed
  with i' p show ?thesis by (simp add: only_ns_def index_sorted_def)
qed

lemma only_ns_put:
  assumes "only_ns S d0 i" and "index_put iw pre k v i = Inr i'" and "pre \<in> S"
  shows "only_ns S d0 i'"
proof -
  from assms(2) obtain i1 where i1: "i1 = i\<lparr>ix_batch := ix_batch i @ [(pre # k, v)], ix_ops := ix_ops i + 1\<rparr>"
    "flush_large iw i1 = Inr i'" by (auto simp: index_put_def batch_Put_def prefixedKey_def bindR_eq_Inr split: if_splits)
  have "only_ns S d0 i1" using assms(1,3) i1(1) by (auto simp: only_ns_def index_sorted_def index_durable_def)
  with i1(2) only_ns_flush [of S d0 i1 iw i'] show ?thesis by (auto simp: flush_large_def split: if_splits)
qed

lemma only_ns_flushed: "index_sorted i \<Longrightarrow> ix_batch i = [] \<Longrightarrow> only_ns S (index_durable i) i"
  by (simp add: only_ns_def)

section \<open>Evidence is authentic\<close>

text \<open>
  The invariant of the evidence: a balance entry sits under the storage key its holder's balance
  has in the contract, and an allowance entry under the key of its owner and spender.
\<close>

definition is_address :: "bytes \<Rightarrow> bool" where
  "is_address a \<longleftrightarrow> length a = AddressLength"

definition balance_key :: "geth_env \<Rightarrow> address \<Rightarrow> hash" where
  "balance_key env addr = ovmStorageHash env (ovmBalanceSlot env addr)"

definition allowance_key :: "geth_env \<Rightarrow> address \<Rightarrow> address \<Rightarrow> hash" where
  "allowance_key env owner spender = ovmStorageHash env (ovmAllowanceSlot env owner spender)"

definition evidence_ok :: "geth_env \<Rightarrow> (bytes \<rightharpoonup> bytes) \<Rightarrow> bool" where
  "evidence_ok env m \<longleftrightarrow>
     (\<forall>k v. m (ns_b # k) = Some v \<longrightarrow> is_address v \<and> k = balance_key env v) \<and>
     (\<forall>k v. m (ns_a # k) = Some v \<longrightarrow>
        (\<exists>owner spender. is_address owner \<and> is_address spender \<and> v = owner @ spender \<and>
           k = allowance_key env owner spender))"

lemma evidence_ok_empty [simp]: "evidence_ok env Map.empty"
  by (simp add: evidence_ok_def)

lemma evidence_ok_balance: "evidence_ok env m \<Longrightarrow> is_address a \<Longrightarrow> evidence_ok env (m(ns_b # balance_key env a \<mapsto> a))"
  by (auto simp: evidence_ok_def)

lemma evidence_ok_allowance:
  "evidence_ok env m \<Longrightarrow> is_address o1 \<Longrightarrow> is_address s1 \<Longrightarrow>
     evidence_ok env (m(ns_a # allowance_key env o1 s1 \<mapsto> o1 @ s1))"
  by (auto simp: evidence_ok_def)

lemma evidence_ok_other: "evidence_ok env m \<Longrightarrow> pre \<noteq> ns_a \<Longrightarrow> pre \<noteq> ns_b \<Longrightarrow> evidence_ok env (m(pre # k \<mapsto> v))"
  by (auto simp: evidence_ok_def)

lemma index_address_ok:
  assumes "index_sorted i" and "index_address env world a i = Inr i'"
  shows "index_sorted i' \<and> index_view i' = (index_view i)(ns_b # balance_key env a \<mapsto> a)"
  using assms index_put_ok by (simp add: index_address_def balance_key_def Let_def)

lemma index_allowance_ok:
  assumes "index_sorted i" and "index_allowance env world o1 s1 i = Inr i'"
  shows "index_sorted i' \<and> index_view i' = (index_view i)(ns_b # balance_key env o1 \<mapsto> o1,
     ns_b # balance_key env s1 \<mapsto> s1, ns_a # allowance_key env o1 s1 \<mapsto> o1 @ s1)"
proof -
  from assms(2) obtain i1 i2 where "index_address env world o1 i = Inr i1" "index_address env world s1 i1 = Inr i2"
    "index_put world ns_a (allowance_key env o1 s1) (o1 @ s1) i2 = Inr i'"
    by (auto simp: index_allowance_def allowance_key_def bindR_eq_Inr Let_def)
  with assms(1) index_address_ok [of i env world o1 i1] index_address_ok [of i1 env world s1 i2]
    index_put_ok [of i2 world ns_a "allowance_key env o1 s1" "o1 @ s1" i'] show ?thesis by simp
qed

lemma index_address_evidence:
  "index_sorted i \<Longrightarrow> evidence_ok env (index_view i) \<Longrightarrow> is_address a \<Longrightarrow>
     index_address env world a i = Inr i' \<Longrightarrow> index_sorted i' \<and> evidence_ok env (index_view i')"
  using index_address_ok [of i env world a i'] by (simp add: evidence_ok_balance)

lemma index_allowance_evidence:
  "index_sorted i \<Longrightarrow> evidence_ok env (index_view i) \<Longrightarrow> is_address o1 \<Longrightarrow> is_address s1 \<Longrightarrow>
     index_allowance env world o1 s1 i = Inr i' \<Longrightarrow> index_sorted i' \<and> evidence_ok env (index_view i')"
  using index_allowance_ok [of i env world o1 s1 i'] by (simp add: evidence_ok_balance evidence_ok_allowance)

end
