(* ===== verification/OvmCursor.thy ===== *)
theory OvmCursor
  imports OvmIndex
begin

text \<open>
  The evidence cursor of \<^verbatim>\<open>ovm_storage_cursor.go\<close>: lookups with increasing keys share one
  iterator, which is stepped at most \<open>ovmEvidenceCursorSteps\<close> times before it is reopened at
  the key. An iterator is the list of entries it still returns, its current one first, and whether
  it breaks off with an error after them.
\<close>

section \<open>Definitions\<close>

definition ovmEvidenceCursorSteps :: nat where
  "ovmEvidenceCursorSteps = 8"

record ovmStorageCursor =
  cu_prefix :: byte
  cu_it :: "(kv list \<times> bool) option"
  cu_valid :: bool
  cu_polls :: nat
  cu_opens :: nat

text \<open>
  The outside of a cursor: the \<open>n\<close>-th poll of the context fails, the \<open>n\<close>-th iterator breaks off
  after that many entries.
\<close>

record cursor_world =
  cw_poll :: faults
  cw_break :: "nat \<Rightarrow> nat option"

datatype cursor_error = CursorCanceled | CursorIterate

definition newCursor :: "byte \<Rightarrow> ovmStorageCursor" where
  "newCursor pre = \<lparr>cu_prefix = pre, cu_it = None, cu_valid = False, cu_polls = 0, cu_opens = 0\<rparr>"

definition cursor_close :: "ovmStorageCursor \<Rightarrow> ovmStorageCursor" where
  "cursor_close c = c\<lparr>cu_it := None\<rparr>"

text \<open>\<^verbatim>\<open>db.NewIterator(prefix, start)\<close>: the keys with the prefix, from \<open>prefix @ start\<close> on.\<close>

definition NewIterator :: "kv list \<Rightarrow> bytes \<Rightarrow> bytes \<Rightarrow> kv list" where
  "NewIterator db pre start = filter (\<lambda>(k, v). prefix pre k \<and> pre @ start \<le> k) db"

definition cursor_seek :: "cursor_world \<Rightarrow> kv list \<Rightarrow> bytes \<Rightarrow> ovmStorageCursor \<Rightarrow> ovmStorageCursor" where
  "cursor_seek world db key c =
     (let entries = NewIterator db [cu_prefix c] key;
          it = (case cw_break world (cu_opens c) of
                  None \<Rightarrow> (entries, False)
                | Some n \<Rightarrow> if n < length entries then (take n entries, True) else (entries, False))
      in c\<lparr>cu_it := Some it, cu_valid := fst it \<noteq> [], cu_opens := cu_opens c + 1\<rparr>)"

text \<open>
  The loop of \<^verbatim>\<open>get\<close>; the argument counts the steps that are left. \<open>Inl\<close> is a cancelled
  context.
\<close>

definition cu_entries :: "ovmStorageCursor \<Rightarrow> kv list" where
  "cu_entries c = (case cu_it c of None \<Rightarrow> [] | Some (es, _) \<Rightarrow> es)"

definition cursor_Next :: "ovmStorageCursor \<Rightarrow> ovmStorageCursor" where
  "cursor_Next c =
     (case cu_it c of
        None \<Rightarrow> c
      | Some (es, brk) \<Rightarrow> c\<lparr>cu_it := Some (tl es, brk), cu_valid := tl es \<noteq> []\<rparr>)"

fun cursor_loop ::
  "cursor_world \<Rightarrow> kv list \<Rightarrow> bytes \<Rightarrow> nat \<Rightarrow> ovmStorageCursor \<Rightarrow> (cursor_error, ovmStorageCursor) result" where
  "cursor_loop world db key left c =
     (if cu_valid c \<and> bytes_Compare (drop 1 (fst (hd (cu_entries c)))) key < 0 then
        if cw_poll world (cu_polls c) then Inl CursorCanceled
        else
          let c1 = c\<lparr>cu_polls := cu_polls c + 1\<rparr> in
          (case left of
             0 \<Rightarrow> Inr (cursor_seek world db key (cursor_close c1))
           | Suc left' \<Rightarrow> cursor_loop world db key left' (cursor_Next c1))
      else Inr c)"

declare cursor_loop.simps [simp del]

definition cursor_failed :: "ovmStorageCursor \<Rightarrow> bool" where
  "cursor_failed c = (case cu_it c of None \<Rightarrow> False | Some (es, brk) \<Rightarrow> es = [] \<and> brk)"

definition cursor_get ::
  "cursor_world \<Rightarrow> kv list \<Rightarrow> bytes \<Rightarrow> ovmStorageCursor \<Rightarrow>
   (cursor_error, bytes option \<times> ovmStorageCursor) result" where
  "cursor_get world db key c =
     (if cw_poll world (cu_polls c) then Inl CursorCanceled
      else
        let c1 = c\<lparr>cu_polls := cu_polls c + 1\<rparr>;
            c2 = (if cu_it c1 = None then cursor_seek world db key c1 else c1)
        in bindR (cursor_loop world db key ovmEvidenceCursorSteps c2) (\<lambda>c3.
             if cursor_failed c3 then Inl CursorIterate
             else if cu_valid c3 \<and> drop 1 (fst (hd (cu_entries c3))) = key
             then Inr (Some (snd (hd (cu_entries c3))), c3)
             else Inr (None, c3)))"

text \<open>A sequence of lookups.\<close>

fun cursor_gets ::
  "cursor_world \<Rightarrow> kv list \<Rightarrow> bytes list \<Rightarrow> ovmStorageCursor \<Rightarrow>
   (cursor_error, bytes option list \<times> ovmStorageCursor) result" where
  "cursor_gets world db [] c = Inr ([], c)"
| "cursor_gets world db (k # ks) c =
     bindR (cursor_get world db k c) (\<lambda>(v, c').
     bindR (cursor_gets world db ks c') (\<lambda>(vs, c''). Inr (v # vs, c'')))"

section \<open>The cursor's window\<close>

text \<open>
  The entries of an open cursor are a contiguous part of the namespace, without the break up to
  its end, and hold every entry at or above \<open>bound\<close> that lies before the break.
\<close>

definition namespace :: "kv list \<Rightarrow> byte \<Rightarrow> kv list" where
  "namespace db pre = filter (\<lambda>(k, v). prefix [pre] k) db"

definition covers :: "kv list \<Rightarrow> bytes \<Rightarrow> kv list \<Rightarrow> bool \<Rightarrow> bool" where
  "covers ns bound es brk \<longleftrightarrow>
     (\<exists>before after. ns = before @ es @ after \<and> (\<forall>kv \<in> set before. drop 1 (fst kv) < bound) \<and> (after \<noteq> [] \<longrightarrow> brk))"

lemma coversI:
  "ns = before @ es @ after \<Longrightarrow> (\<And>kv. kv \<in> set before \<Longrightarrow> drop 1 (fst kv) < bound) \<Longrightarrow> (after \<noteq> [] \<Longrightarrow> brk) \<Longrightarrow>
     covers ns bound es brk"
  unfolding covers_def by blast

lemma coversE:
  assumes "covers ns bound es brk"
  obtains before after where "ns = before @ es @ after" "\<forall>kv \<in> set before. drop 1 (fst kv) < bound" "after \<noteq> [] \<longrightarrow> brk"
  using assms unfolding covers_def by blast

lemma covers_mono: "covers ns bound es brk \<Longrightarrow> bound \<le> key \<Longrightarrow> covers ns key es brk"
  by (erule coversE, rule coversI) (auto intro: less_le_trans)

definition window_ok :: "kv list \<Rightarrow> bytes \<Rightarrow> ovmStorageCursor \<Rightarrow> bool" where
  "window_ok db bound c \<longleftrightarrow>
     (case cu_it c of
        None \<Rightarrow> True
      | Some (es, brk) \<Rightarrow> (cu_valid c \<longleftrightarrow> es \<noteq> []) \<and> covers (namespace db (cu_prefix c)) bound es brk)"

lemma window_ok_mono: "window_ok db bound c \<Longrightarrow> bound \<le> key \<Longrightarrow> window_ok db key c"
  by (auto simp: window_ok_def intro: covers_mono split: option.splits)

lemma namespace_key: "kv \<in> set (namespace db pre) \<Longrightarrow> fst kv = pre # drop 1 (fst kv)"
  by (auto simp: namespace_def prefix_def)

lemma namespace_ascending [simp]: "ascending db \<Longrightarrow> ascending (namespace db pre)"
  by (simp add: namespace_def)

lemma namespace_map_of: "ascending db \<Longrightarrow> map_of (namespace db pre) (pre # k) = map_of db (pre # k)"
proof -
  assume asc: "ascending db"
  have "map_of (namespace db pre) (pre # k) = Some v \<longleftrightarrow> map_of db (pre # k) = Some v" for v
    using asc by (simp add: ascending_map_of) (auto simp: namespace_def)
  then show ?thesis by (metis not_Some_eq)
qed

lemma NewIterator_split:
  assumes "ascending db"
  shows "\<exists>before. namespace db pre = before @ NewIterator db [pre] key \<and> (\<forall>kv \<in> set before. drop 1 (fst kv) < key)"
  using assms
proof (induction db)
  case (Cons kv db)
  then obtain before where b: "namespace db pre = before @ NewIterator db [pre] key"
    "\<forall>kv \<in> set before. drop 1 (fst kv) < key" by auto
  obtain k v where kv: "kv = (k, v)" by (cases kv)
  show ?case
  proof (cases "prefix [pre] k")
    case True
    then obtain k' where k: "k = pre # k'" by (auto simp: prefix_def)
    show ?thesis
    proof (cases "key \<le> k'")
      case True
      have "before = []"
      proof (rule ccontr)
        assume "before \<noteq> []"
        then obtain e where e: "e \<in> set before" by (cases before) auto
        with b(1) have "e \<in> set (namespace db pre)" by simp
        with Cons.prems have "k < fst e" by (auto simp: namespace_def kv)
        moreover from \<open>e \<in> set (namespace db pre)\<close> have "fst e = pre # drop 1 (fst e)" by (rule namespace_key)
        ultimately have "k' < drop 1 (fst e)" using k by (metis Cons_less_Cons less_irrefl)
        with b(2) e True show False by fastforce
      qed
      with b(1) True k kv have "namespace (kv # db) pre = NewIterator (kv # db) [pre] key"
        by (simp add: namespace_def NewIterator_def)
      then show ?thesis by (intro exI [of _ "[]"]) simp
    next
      case False
      with b k kv have "namespace (kv # db) pre = (kv # before) @ NewIterator (kv # db) [pre] key"
        by (simp add: namespace_def NewIterator_def)
      moreover have "\<forall>e \<in> set (kv # before). drop 1 (fst e) < key"
        using b(2) False k kv by auto
      ultimately show ?thesis by blast
    qed
  next
    case False
    with b kv have "namespace (kv # db) pre = before @ NewIterator (kv # db) [pre] key"
      by (simp add: namespace_def NewIterator_def)
    with b(2) show ?thesis by blast
  qed
qed (simp add: namespace_def NewIterator_def)

lemma seek_window:
  assumes "ascending db"
  shows "window_ok db key (cursor_seek world db key c)" "cu_it (cursor_seek world db key c) \<noteq> None"
    "cu_prefix (cursor_seek world db key c) = cu_prefix c"
proof -
  from NewIterator_split [OF assms, of "cu_prefix c" key] obtain before where
    b: "namespace db (cu_prefix c) = before @ NewIterator db [cu_prefix c] key"
    "\<forall>kv \<in> set before. drop 1 (fst kv) < key" by blast
  let ?es = "NewIterator db [cu_prefix c] key"
  have whole: "covers (namespace db (cu_prefix c)) key ?es False"
    using b by (intro coversI [of _ before _ "[]"]) auto
  have part: "covers (namespace db (cu_prefix c)) key (take n ?es) True" for n
    using b by (intro coversI [of _ before _ "drop n ?es"]) auto
  show "window_ok db key (cursor_seek world db key c)"
    using whole part by (auto simp: window_ok_def cursor_seek_def Let_def split: option.splits)
qed (simp_all add: cursor_seek_def Let_def)

text \<open>Where a lookup stops, the current entry is the first one at or above the key.\<close>

definition positioned :: "bytes \<Rightarrow> ovmStorageCursor \<Rightarrow> bool" where
  "positioned key c \<longleftrightarrow> cu_it c \<noteq> None \<and> (cu_valid c \<longrightarrow> \<not> drop 1 (fst (hd (cu_entries c))) < key)"

lemma seek_positioned:
  assumes "ascending db"
  shows "positioned key (cursor_seek world db key c)"
proof -
  have "\<not> drop 1 (fst kv) < key" if "kv \<in> set (NewIterator db [cu_prefix c] key)" for kv
    using that by (auto simp: NewIterator_def prefix_def)
  then show ?thesis
    by (auto simp: positioned_def cursor_seek_def cu_entries_def Let_def hd_conv_nth split: option.splits)
qed

definition behind :: "bytes \<Rightarrow> ovmStorageCursor \<Rightarrow> bool" where
  "behind key c \<longleftrightarrow> cu_valid c \<and> drop 1 (fst (hd (cu_entries c))) < key"

lemma cursor_loop_eqs:
  "\<not> behind key c \<Longrightarrow> cursor_loop world db key left c = Inr c"
  "behind key c \<Longrightarrow> cursor_loop world db key 0 c =
     (if cw_poll world (cu_polls c) then Inl CursorCanceled
      else Inr (cursor_seek world db key (cursor_close (c\<lparr>cu_polls := cu_polls c + 1\<rparr>))))"
  "behind key c \<Longrightarrow> cursor_loop world db key (Suc l) c =
     (if cw_poll world (cu_polls c) then Inl CursorCanceled
      else cursor_loop world db key l (cursor_Next (c\<lparr>cu_polls := cu_polls c + 1\<rparr>)))"
  unfolding behind_def by (subst cursor_loop.simps, force simp: Let_def)+

lemma loop_window:
  assumes "ascending db" and "window_ok db bound c" and "bound \<le> key" and "cu_it c \<noteq> None"
    and "cursor_loop world db key left c = Inr c'"
  shows "window_ok db key c' \<and> positioned key c' \<and> cu_prefix c' = cu_prefix c"
  using assms(2-5)
proof (induction left arbitrary: c bound)
  case 0
  show ?case
  proof (cases "behind key c")
    case True
    with 0 have "c' = cursor_seek world db key (cursor_close (c\<lparr>cu_polls := cu_polls c + 1\<rparr>))"
      by (simp add: cursor_loop_eqs split: if_splits)
    then show ?thesis using seek_window [OF assms(1)] seek_positioned [OF assms(1)] by (simp add: cursor_close_def)
  next
    case False
    with 0 have "c' = c" by (simp add: cursor_loop_eqs)
    with 0 False window_ok_mono show ?thesis by (auto simp: positioned_def behind_def)
  qed
next
  case (Suc left)
  show ?case
  proof (cases "behind key c")
    case True
    let ?n = "cursor_Next (c\<lparr>cu_polls := cu_polls c + 1\<rparr>)"
    from True Suc.prems have run: "cursor_loop world db key left ?n = Inr c'"
      by (simp add: cursor_loop_eqs split: if_splits)
    obtain e es brk where it: "cu_it c = Some (e # es, brk)"
      using Suc.prems(1,3) True by (auto simp: window_ok_def behind_def neq_Nil_conv)
    have win: "window_ok db key ?n"
    proof -
      from Suc.prems(1) it have "covers (namespace db (cu_prefix c)) bound (e # es) brk" by (simp add: window_ok_def)
      then obtain before after where w0: "namespace db (cu_prefix c) = before @ (e # es) @ after"
        "\<forall>kv \<in> set before. drop 1 (fst kv) < bound" "after \<noteq> [] \<longrightarrow> brk" by (rule coversE)
      then have w: "namespace db (cu_prefix c) = (before @ [e]) @ es @ after" "\<forall>kv \<in> set before. drop 1 (fst kv) < bound"
        "after \<noteq> [] \<longrightarrow> brk" by simp_all
      moreover have "drop 1 (fst e) < key" using True it by (simp add: cu_entries_def behind_def)
      ultimately have "\<forall>kv \<in> set (before @ [e]). drop 1 (fst kv) < key"
        using Suc.prems(2) by (auto intro: less_le_trans)
      with w have "covers (namespace db (cu_prefix c)) key es brk" by (intro coversI [OF w(1)]) auto
      with it show ?thesis by (simp add: window_ok_def cursor_Next_def)
    qed
    from Suc.IH [OF win order_refl _ run] it show ?thesis by (simp add: cursor_Next_def)
  next
    case False
    with Suc.prems(4) have "c' = c" by (simp add: cursor_loop_eqs)
    with Suc.prems False window_ok_mono show ?thesis by (auto simp: positioned_def behind_def)
  qed
qed

section \<open>A lookup by cursor is a lookup\<close>

lemma positioned_lookup:
  assumes asc: "ascending db" and win: "window_ok db key c" and pos: "positioned key c" and nf: "\<not> cursor_failed c"
  shows "map_of db (cu_prefix c # key) =
     (if cu_valid c \<and> drop 1 (fst (hd (cu_entries c))) = key then Some (snd (hd (cu_entries c))) else None)"
proof -
  let ?p = "cu_prefix c"
  from pos obtain es brk where it: "cu_it c = Some (es, brk)" by (auto simp: positioned_def)
  from win it have valid: "cu_valid c \<longleftrightarrow> es \<noteq> []" and "covers (namespace db ?p) key es brk"
    by (simp_all add: window_ok_def)
  from this(2) obtain before after where ns: "namespace db ?p = before @ es @ after"
    and before: "\<forall>kv \<in> set before. drop 1 (fst kv) < key" and after: "after \<noteq> [] \<longrightarrow> brk" by (rule coversE)
  have sorted: "ascending (before @ es @ after)" using namespace_ascending [OF asc, of ?p] ns by simp
  have keys: "fst kv = ?p # drop 1 (fst kv)" if "kv \<in> set before \<union> set es \<union> set after" for kv
    using that ns namespace_key [of kv db ?p] by auto
  have lookup: "map_of db (?p # key) = Some v \<longleftrightarrow> (?p # key, v) \<in> set (before @ es @ after)" for v
    using asc sorted ns namespace_map_of [of db ?p key] by (metis ascending_map_of)
  have out_before: "(?p # key, v) \<notin> set before" for v using before by fastforce
  show ?thesis
  proof (cases es)
    case Nil
    with nf it after have "after = []" by (auto simp: cursor_failed_def)
    with Nil valid lookup out_before show ?thesis by (metis append_Nil2 not_Some_eq)
  next
    case (Cons e rest)
    have hd: "hd (cu_entries c) = e" using it Cons by (simp add: cu_entries_def)
    have above: "fst e < fst kv" if "kv \<in> set rest \<union> set after" for kv using sorted Cons that by auto
    show ?thesis
    proof (cases "drop 1 (fst e) = key")
      case True
      then have "(?p # key, snd e) \<in> set (before @ es @ after)" using keys [of e] Cons by (cases e) auto
      with lookup True hd valid Cons show ?thesis by simp
    next
      case False
      with pos hd valid Cons have gt: "key < drop 1 (fst e)" by (auto simp: positioned_def)
      have "(?p # key, v) \<notin> set (before @ es @ after)" for v
      proof
        assume "(?p # key, v) \<in> set (before @ es @ after)"
        with out_before Cons have "(?p # key, v) = e \<or> (?p # key, v) \<in> set rest \<union> set after" by auto
        with above have "fst e \<le> ?p # key" by fastforce
        moreover have "fst e = ?p # drop 1 (fst e)" using keys [of e] Cons by simp
        moreover have "?p # key < ?p # drop 1 (fst e)" using gt by simp
        ultimately show False by simp
      qed
      with lookup False hd show ?thesis by (metis not_Some_eq)
    qed
  qed
qed

lemma cursor_get_ok:
  assumes "ascending db" and "window_ok db bound c" and "bound \<le> key" and "cursor_get world db key c = Inr (v, c')"
  shows "v = map_of db (cu_prefix c # key) \<and> window_ok db key c' \<and> cu_prefix c' = cu_prefix c"
proof -
  let ?c1 = "c\<lparr>cu_polls := cu_polls c + 1\<rparr>"
  define c2 where "c2 = (if cu_it ?c1 = None then cursor_seek world db key ?c1 else ?c1)"
  from assms(4) obtain c3 where c3: "cursor_loop world db key ovmEvidenceCursorSteps c2 = Inr c3" "\<not> cursor_failed c3"
    "c' = c3" "v = (if cu_valid c3 \<and> drop 1 (fst (hd (cu_entries c3))) = key then Some (snd (hd (cu_entries c3))) else None)"
    by (auto simp: cursor_get_def c2_def bindR_eq_Inr Let_def split: if_splits)
  have open2: "cu_it c2 \<noteq> None" "cu_prefix c2 = cu_prefix c" using seek_window [OF assms(1)] by (auto simp: c2_def)
  have "\<exists>b. window_ok db b c2 \<and> b \<le> key"
  proof (cases "cu_it c = None")
    case True
    then show ?thesis using seek_window(1) [OF assms(1), of key world ?c1] by (auto simp: c2_def)
  next
    case False
    then have "c2 = ?c1" unfolding c2_def by auto
    then have "window_ok db bound c2" using assms(2) by (cases "cu_it c") (auto simp: window_ok_def)
    with assms(3) show ?thesis by blast
  qed
  with loop_window [OF assms(1) _ _ open2(1) c3(1)]
  have "window_ok db key c3" "positioned key c3" "cu_prefix c3 = cu_prefix c" using open2 by auto
  with positioned_lookup [OF assms(1) this(1,2) c3(2)] c3 show ?thesis by simp
qed

lemma cursor_loop_quiet:
  "(\<And>n. \<not> cw_poll world n) \<Longrightarrow> \<exists>c'. cursor_loop world db key left c = Inr c'"
proof (induction left arbitrary: c)
  case 0
  then show ?case by (cases "behind key c") (simp_all add: cursor_loop_eqs)
next
  case (Suc left)
  then show ?case by (cases "behind key c") (simp_all add: cursor_loop_eqs)
qed

lemma seek_unbroken:
  "(\<And>n. cw_break world n = None) \<Longrightarrow> \<exists>es. cu_it (cursor_seek world db key c) = Some (es, False)"
  by (simp add: cursor_seek_def Let_def)

lemma cursor_loop_unbroken:
  assumes "\<And>n. cw_break world n = None" and "\<exists>es. cu_it c = Some (es, False)"
    and "cursor_loop world db key left c = Inr c'"
  shows "\<exists>es. cu_it c' = Some (es, False)"
  using assms(2,3)
proof (induction left arbitrary: c)
  case 0
  then show ?case using seek_unbroken [OF assms(1)]
    by (cases "behind key c") (auto simp: cursor_loop_eqs split: if_splits)
next
  case (Suc left)
  from Suc.prems(1) have "\<exists>es. cu_it (cursor_Next (c\<lparr>cu_polls := cu_polls c + 1\<rparr>)) = Some (es, False)"
    by (auto simp: cursor_Next_def)
  with Suc show ?case by (cases "behind key c") (auto simp: cursor_loop_eqs split: if_splits)
qed

lemma cursor_get_quiet:
  assumes "\<And>n. \<not> cw_poll world n" and "\<And>n. cw_break world n = None"
    and "cu_it c = None \<or> (\<exists>es. cu_it c = Some (es, False))"
  shows "\<exists>v c'. cursor_get world db key c = Inr (v, c') \<and> (\<exists>es. cu_it c' = Some (es, False))"
proof -
  let ?c1 = "c\<lparr>cu_polls := cu_polls c + 1\<rparr>"
  define c2 where "c2 = (if cu_it ?c1 = None then cursor_seek world db key ?c1 else ?c1)"
  have c2: "\<exists>es. cu_it c2 = Some (es, False)"
    using assms(3) seek_unbroken [OF assms(2), of db key ?c1] by (auto simp: c2_def)
  obtain c3 where c3: "cursor_loop world db key ovmEvidenceCursorSteps c2 = Inr c3"
    using cursor_loop_quiet [OF assms(1)] by blast
  from cursor_loop_unbroken [OF assms(2) c2 c3] obtain es where es: "cu_it c3 = Some (es, False)" by blast
  with c3 assms(1) show ?thesis by (auto simp: cursor_get_def c2_def cursor_failed_def Let_def)
qed

lemma cursor_gets_quiet:
  assumes "\<And>n. \<not> cw_poll world n" and "\<And>n. cw_break world n = None"
  shows "cu_it c = None \<or> (\<exists>es. cu_it c = Some (es, False)) \<Longrightarrow> isOk (cursor_gets world db keys c)"
proof (induction keys arbitrary: c)
  case (Cons k ks)
  from cursor_get_quiet [OF assms Cons.prems, of db k] obtain v c' where
    "cursor_get world db k c = Inr (v, c')" "\<exists>es. cu_it c' = Some (es, False)" by blast
  with Cons.IH [of c'] show ?case by (auto simp: isOk_iff)
qed simp

lemma cursor_gets_ok:
  "ascending db \<Longrightarrow> window_ok db bound c \<Longrightarrow> sorted_wrt (\<le>) (bound # keys) \<Longrightarrow>
     cursor_gets world db keys c = Inr (vs, c') \<Longrightarrow> vs = map (\<lambda>k. map_of db (cu_prefix c # k)) keys"
proof (induction keys arbitrary: bound c vs)
  case (Cons k ks)
  from Cons.prems(4) obtain v c1 where g: "cursor_get world db k c = Inr (v, c1)"
    and "\<exists>vs'. cursor_gets world db ks c1 = Inr (vs', c') \<and> vs = v # vs'"
    by (auto simp: bindR_eq_Inr)
  then obtain vs' where r: "cursor_gets world db ks c1 = Inr (vs', c')" "vs = v # vs'" by blast
  from Cons.prems(3) have "bound \<le> k" "sorted_wrt (\<le>) (k # ks)" by auto
  with cursor_get_ok [OF Cons.prems(1,2) this(1) g] Cons.IH [OF Cons.prems(1), of k c1 vs'] r show ?case by simp
qed simp

text \<open>
  Property C17. The evidence cursor is a lookup: whatever a sequence of increasing storage keys
  asks, reusing, stepping and reopening one iterator returns for every key exactly what the
  database holds under the prefix, absence included, or fails; an iterator that breaks off early
  is never taken for absence. Without cancellation and database failures it never fails.
\<close>

theorem cursor_is_lookup:
  assumes "ascending db" and "sorted_wrt (<) keys"
  shows "(\<forall>vs c. cursor_gets world db keys (newCursor pre) = Inr (vs, c) \<longrightarrow>
            vs = map (\<lambda>k. map_of db (prefixedKey [pre] k)) keys) \<and>
         ((\<forall>n. \<not> cw_poll world n) \<and> (\<forall>n. cw_break world n = None) \<longrightarrow>
            isOk (cursor_gets world db keys (newCursor pre)))"
proof -
  have new: "window_ok db [] (newCursor pre)" "cu_it (newCursor pre) = None" "cu_prefix (newCursor pre) = pre"
    by (simp_all add: window_ok_def newCursor_def)
  have keys: "sorted_wrt (\<le>) ([] # keys)"
    using assms(2) by (auto simp: strict_sorted_iff)
  have "\<forall>vs c. cursor_gets world db keys (newCursor pre) = Inr (vs, c) \<longrightarrow>
      vs = map (\<lambda>k. map_of db (prefixedKey [pre] k)) keys"
    using cursor_gets_ok [OF assms(1) new(1) keys] new(3) by (auto simp: prefixedKey_def)
  moreover have "(\<forall>n. \<not> cw_poll world n) \<and> (\<forall>n. cw_break world n = None) \<longrightarrow>
      isOk (cursor_gets world db keys (newCursor pre))"
    using cursor_gets_quiet [of world "newCursor pre" db keys] new(2) by auto
  ultimately show ?thesis by blast
qed

end
