(* ===== verification/OvmMerge.thy ===== *)
theory OvmMerge
  imports DirectWriter OvmCursor
begin

text \<open>
  Rebuilding a trie under patches (\<^verbatim>\<open>rebuildPatchedTriePrefix\<close> of \<^verbatim>\<open>ovm_transform.go\<close>): the
  ordered leaves of a trie are merged with the ordered patches of an index namespace into a stack
  trie whose nodes go to a writer. The reference is an ordered store into which the patches are
  put one by one.
\<close>

section \<open>Definitions\<close>

datatype rebuild_error =
    RebuildCanceled
  | RebuildUpdate
  | RebuildWrite direct_error
  | RebuildIterate
  | RebuildOpen

definition usePatch :: "nat \<Rightarrow> kv list \<Rightarrow> kv list \<Rightarrow> bool" where
  "usePatch n a b = (b \<noteq> [] \<and> (a = [] \<or> bytes_Compare (drop n (fst (hd b))) (fst (hd a)) \<le> 0))"

text \<open>One \<^verbatim>\<open>Update\<close> with the check of the error its callback may have latched.\<close>

definition checked_Update ::
  "geth_env \<Rightarrow> artifact_keys \<Rightarrow> writer_world \<Rightarrow> hash \<Rightarrow> kv \<Rightarrow> kv list \<times> directStateWriter \<Rightarrow>
   (rebuild_error, kv list \<times> directStateWriter) result" where
  "checked_Update env lib ww owner kv st =
     (case stack_Update env owner (Some (direct_TrieNode lib ww)) (fst st) kv (None, snd st) of
        Inl _ \<Rightarrow> Inl RebuildUpdate
      | Inr (stack, Some e, w) \<Rightarrow> Inl (RebuildWrite e)
      | Inr (stack, None, w) \<Rightarrow> Inr (stack, w))"

text \<open>The leaf of a round and what the two iterators return after it; \<open>n\<close> is the length of the patch prefix.\<close>

definition merge_choice :: "nat \<Rightarrow> kv list \<Rightarrow> kv list \<Rightarrow> kv \<times> kv list \<times> kv list" where
  "merge_choice n a b =
     (if usePatch n a b then
        let key = drop n (fst (hd b))
        in ((key, snd (hd b)), (if a \<noteq> [] \<and> key = fst (hd a) then tl a else a), tl b)
      else (hd a, tl a, b))"

text \<open>The merge loop: \<open>a\<close> and \<open>b\<close> are what the iterators still return, \<open>i\<close> numbers the rounds.\<close>

function merge_loop ::
  "geth_env \<Rightarrow> artifact_keys \<Rightarrow> writer_world \<Rightarrow> faults \<Rightarrow> hash \<Rightarrow> nat \<Rightarrow> nat \<Rightarrow> kv list \<Rightarrow> kv list \<Rightarrow>
   kv list \<times> directStateWriter \<Rightarrow> (rebuild_error, kv list \<times> directStateWriter) result" where
  "merge_loop env lib ww ctx owner n i a b st =
     (if a = [] \<and> b = [] then Inr st
      else if ctx i then Inl RebuildCanceled
      else
        (case merge_choice n a b of
           (kv, a', b') \<Rightarrow>
             bindR (if length (snd kv) \<noteq> 0 then checked_Update env lib ww owner kv st else Inr st)
               (\<lambda>st'. merge_loop env lib ww ctx owner n (i + 1) a' b' st')))"
  by pat_completeness auto
termination
proof (relation "measure (\<lambda>(env, lib, ww, ctx, owner, n, i, a, b, st). length a + length b)", goal_cases)
  case (2 env lib ww ctx owner n i a b st kv y a' b' st')
  then show ?case
    by (cases a; cases b) (auto simp: merge_choice_def usePatch_def Let_def split: if_splits)
qed simp

declare merge_loop.simps [simp del]

definition rebuildPatchedTriePrefix ::
  "geth_env \<Rightarrow> artifact_keys \<Rightarrow> writer_world \<Rightarrow> faults \<Rightarrow> kv list \<Rightarrow> hash \<Rightarrow> kv list \<times> bool \<Rightarrow>
   kv list \<times> bool \<Rightarrow> bytes \<Rightarrow> (rebuild_error, hash \<times> kv list) result" where
  "rebuildPatchedTriePrefix env lib ww ctx db owner original patches pre =
     (let rounds = length (fst original) + length (fst patches);
          writer = newDirectStateWriter ww db HashScheme
      in bindR (merge_loop env lib ww ctx owner (length pre) 0 (fst original) (fst patches) ([], writer)) (\<lambda>(stack, w).
           if snd original \<or> snd patches then Inl RebuildIterate
           else
             case stack_Hash env owner (Some (direct_TrieNode lib ww)) stack (None, w) of
               (root, Some e, w1) \<Rightarrow> Inl (RebuildWrite e)
             | (root, None, w1) \<Rightarrow>
                 (case direct_CloseContext ww (ctx rounds) w1 of
                    (Some e, w2) \<Rightarrow> Inl (RebuildWrite e)
                  | (None, w2) \<Rightarrow> Inr (root, dw_db w2))))"

definition rebuildPatchedTrie ::
  "geth_env \<Rightarrow> artifact_keys \<Rightarrow> writer_world \<Rightarrow> faults \<Rightarrow> kv list \<Rightarrow> hash \<Rightarrow> kv list \<times> bool \<Rightarrow>
   kv list \<times> bool \<Rightarrow> byte \<Rightarrow> (rebuild_error, hash \<times> kv list) result" where
  "rebuildPatchedTrie env lib ww ctx db owner original patches pre =
     rebuildPatchedTriePrefix env lib ww ctx db owner original patches [pre]"

section \<open>The reference\<close>

text \<open>Put every patch into the ordered store of the leaves; an empty value is a deletion.\<close>

definition patched :: "kv list \<Rightarrow> kv list \<Rightarrow> kv list" where
  "patched orig patches = filter (\<lambda>kv. snd kv \<noteq> []) (write_batch patches orig)"

text \<open>The leaves the merge visits, without the outside world.\<close>

fun merged :: "kv list \<Rightarrow> kv list \<Rightarrow> kv list" where
  "merged [] b = b"
| "merged a [] = a"
| "merged ((k, v) # a) ((k', v') # b) =
     (if k' < k then (k', v') # merged ((k, v) # a) b
      else if k' = k then (k', v') # merged a b
      else (k, v) # merged a ((k', v') # b))"

lemma merged_Nil2 [simp]: "merged a [] = a"
  by (cases a) auto

lemma merged_keys: "fst ` set (merged a b) = fst ` set a \<union> fst ` set b"
  by (induction a b rule: merged.induct) (auto split: if_splits)

lemma merged_ascending: "ascending a \<Longrightarrow> ascending b \<Longrightarrow> ascending (merged a b)"
proof (induction a b rule: merged.induct)
  case (3 k v a k' v' b)
  consider "k' < k" | "k' = k" | "k < k'" by fastforce
  then show ?case using 3 by cases (auto simp: merged_keys dest: less_trans)
qed auto

lemma merged_map_of: "ascending a \<Longrightarrow> ascending b \<Longrightarrow> map_of (merged a b) = map_of a ++ map_of b"
proof (induction a b rule: merged.induct)
  case (3 k v a k' v' b)
  have nok: "map_of b k = None" if "k < k'"
    using 3(5) that by (fastforce simp: map_of_eq_None_iff)
  have nok': "map_of b k' = None" using 3(5) by (fastforce simp: map_of_eq_None_iff)
  consider "k' < k" | "k' = k" | "k < k'" by fastforce
  then show ?case
  proof cases
    case 1
    with 3 nok' show ?thesis by (auto simp: map_add_def fun_eq_iff split: option.splits)
  next
    case 2
    with 3 nok' show ?thesis by (auto simp: map_add_def fun_eq_iff split: option.splits)
  next
    case gt: 3
    with 3 nok show ?thesis by (auto simp: map_add_def fun_eq_iff split: option.splits)
  qed
qed (auto simp: map_add_def fun_eq_iff split: option.splits)

lemma ascending_rev_map_of: "ascending b \<Longrightarrow> map_of (rev b) = map_of b"
  by (rule map_of_inject_set [THEN iffD2]) (auto simp: ascending_distinct simp flip: rev_map)

lemma ascending_eqI: "ascending xs \<Longrightarrow> ascending ys \<Longrightarrow> map_of xs = map_of ys \<Longrightarrow> xs = ys"
  by (rule ascending_ext) (auto simp: fun_eq_iff simp flip: ascending_map_of)

lemma merged_eq_write_batch: "ascending a \<Longrightarrow> ascending b \<Longrightarrow> merged a b = write_batch b a"
  by (rule ascending_eqI) (simp_all add: merged_ascending merged_map_of write_batch_map_of ascending_rev_map_of)

lemma patched_merged: "ascending a \<Longrightarrow> ascending b \<Longrightarrow> patched a b = filter (\<lambda>kv. snd kv \<noteq> []) (merged a b)"
  by (simp add: patched_def merged_eq_write_batch)

lemma patched_ascending: "ascending a \<Longrightarrow> ascending (patched a b)"
  by (simp add: patched_def)

lemma map_of_patched:
  assumes "ascending a" and "ascending b"
  shows "map_of (patched a b) k =
     (case map_of b k of Some v \<Rightarrow> (if v = [] then None else Some v)
      | None \<Rightarrow> (case map_of a k of Some v \<Rightarrow> (if v = [] then None else Some v) | None \<Rightarrow> None))"
proof -
  let ?m = "merged a b"
  have asc: "ascending ?m" using assms by (rule merged_ascending)
  have m: "map_of ?m k = (map_of a ++ map_of b) k" using merged_map_of [OF assms] by simp
  have iff: "map_of (patched a b) k = Some v \<longleftrightarrow> map_of ?m k = Some v \<and> v \<noteq> []" for v
    using asc by (simp add: patched_merged [OF assms] ascending_map_of)
  have "map_of (patched a b) k = (case map_of ?m k of None \<Rightarrow> None | Some v \<Rightarrow> if v = [] then None else Some v)"
  proof (cases "map_of ?m k")
    case None
    then have "map_of (patched a b) k \<noteq> Some v" for v by (simp add: iff)
    with None show ?thesis by (metis not_Some_eq option.case(1))
  next
    case (Some v)
    show ?thesis
    proof (cases "v = []")
      case True
      with Some have "map_of (patched a b) k \<noteq> Some u" for u by (simp add: iff)
      then have "map_of (patched a b) k = None" by (cases "map_of (patched a b) k") blast+
      with Some True show ?thesis by simp
    next
      case False
      with Some have "map_of (patched a b) k = Some v" by (simp add: iff)
      with Some False show ?thesis by simp
    qed
  qed
  with m show ?thesis by (cases "map_of b k") (simp_all add: map_add_def)
qed

section \<open>The loop computes the reference\<close>

definition strip :: "nat \<Rightarrow> kv list \<Rightarrow> kv list" where
  "strip n b = map (\<lambda>(k, v). (drop n k, v)) b"

lemma checked_Update_stack: "checked_Update env lib ww owner kv (t, w) = Inr (t', w') \<Longrightarrow> t' = t @ [kv]"
  by (auto simp: checked_Update_def stack_Update_def split: if_splits prod.splits option.splits)

lemma merge_choice_spec:
  assumes "\<not> (a = [] \<and> b = [])" and "merge_choice n a b = (kv, a', b')"
  shows "length a' + length b' < length a + length b" "merged a (strip n b) = kv # merged a' (strip n b')"
    "set a' \<subseteq> set a" "set (strip n b') \<subseteq> set (strip n b)" "kv \<in> set a \<union> set (strip n b)"
  using assms
  by (cases a; cases b; auto simp: merge_choice_def usePatch_def strip_def Let_def split: if_splits prod.splits)+

lemma merge_loop_round:
  assumes "\<not> (a = [] \<and> b = [])" and "merge_choice n a b = (kv, a', b')"
    and "merge_loop env lib ww ctx owner n i a b st = Inr r"
  obtains st1 where "(if snd kv \<noteq> [] then checked_Update env lib ww owner kv st else Inr st) = Inr st1"
    "merge_loop env lib ww ctx owner n (i + 1) a' b' st1 = Inr r"
proof -
  from assms(3) have "bindR (if length (snd kv) \<noteq> 0 then checked_Update env lib ww owner kv st else Inr st)
      (\<lambda>st'. merge_loop env lib ww ctx owner n (i + 1) a' b' st') = Inr r"
    using assms(1,2) by (subst (asm) merge_loop.simps) (auto split: if_splits)
  then show thesis using that by (auto simp: bindR_eq_Inr split: if_splits)
qed

lemma merge_loop_stack:
  "merge_loop env lib ww ctx owner n i a b (t, w) = Inr (t', w') \<Longrightarrow>
     t' = t @ filter (\<lambda>kv. snd kv \<noteq> []) (merged a (strip n b))"
proof (induction "length a + length b" arbitrary: a b i t w rule: less_induct)
  case less
  show ?case
  proof (cases "a = [] \<and> b = []")
    case True
    with less.prems show ?thesis by (simp add: merge_loop.simps strip_def)
  next
    case False
    obtain kv a' b' where c: "merge_choice n a b = (kv, a', b')" by (metis prod_cases3)
    from False c less.prems obtain st1 where
      up: "(if snd kv \<noteq> [] then checked_Update env lib ww owner kv (t, w) else Inr (t, w)) = Inr st1"
      and rest: "merge_loop env lib ww ctx owner n (i + 1) a' b' st1 = Inr (t', w')" by (rule merge_loop_round)
    obtain t1 w1 where st1: "st1 = (t1, w1)" by (cases st1)
    have "t1 = t @ (if snd kv \<noteq> [] then [kv] else [])"
      using up st1 checked_Update_stack [of env lib ww owner kv t w t1 w1] by (auto split: if_splits)
    with less.hyps [OF merge_choice_spec(1) [OF False c] rest [unfolded st1]] merge_choice_spec(2) [OF False c]
    show ?thesis by simp
  qed
qed

section \<open>The nodes that are written\<close>

definition trie_nodes :: "geth_env \<Rightarrow> kv list \<Rightarrow> trie_node list" where
  "trie_nodes env kvs = concat (map (\<lambda>i. stack_emits env (take i kvs) (kvs ! i)) [0..<length kvs]) @ stack_final env kvs"

definition node_records :: "trie_node list \<Rightarrow> kv list" where
  "node_records nodes = map snd nodes"

definition hash_writer :: "directStateWriter \<Rightarrow> bool" where
  "hash_writer w \<longleftrightarrow> dw_scheme w = HashScheme \<and> \<not> dw_closed w"

lemma feed_nodes_view:
  "hash_writer w \<Longrightarrow> feed_nodes owner (Some (direct_TrieNode lib ww)) nodes (None, w) = (None, w') \<Longrightarrow>
     hash_writer w' \<and> direct_view w' = write_batch (node_records nodes) (direct_view w)"
proof (induction nodes arbitrary: w)
  case (Cons node nodes)
  obtain path h blob where node: "node = (path, h, blob)" by (cases node)
  obtain e w1 where n1: "direct_TrieNode lib ww owner path h blob w = (e, w1)" by fastforce
  with Cons.prems(2) node have "feed_nodes owner (Some (direct_TrieNode lib ww)) nodes (e, w1) = (None, w')" by simp
  then have "e = None" by (cases e) (simp_all add: feed_nodes_latched)
  with n1 Cons.prems(1) have "dw_op ww DirectPut (BatchPut h blob) w = (None, w1)"
    by (simp add: direct_TrieNode_def trieNodeKey_def hash_writer_def keyBytes_def)
  from dw_op_view [OF this] Cons.prems(1) have w1: "hash_writer w1" "direct_view w1 = kv_put h blob (direct_view w)"
    by (auto simp: hash_writer_def)
  with Cons.IH [OF w1(1)] Cons.prems(2) node n1 \<open>e = None\<close> show ?case
    by (simp add: node_records_def write_batch_def)
qed (simp add: node_records_def)

lemma checked_Update_view:
  assumes "hash_writer w" and "checked_Update env lib ww owner kv (t, w) = Inr (t', w')"
  shows "hash_writer w' \<and> direct_view w' = write_batch (node_records (stack_emits env t kv)) (direct_view w)"
  using assms feed_nodes_view [OF assms(1)]
  by (auto simp: checked_Update_def stack_Update_def split: if_splits prod.splits option.splits)

definition emitted :: "geth_env \<Rightarrow> kv list \<Rightarrow> trie_node list" where
  "emitted env kvs = concat (map (\<lambda>i. stack_emits env (take i kvs) (kvs ! i)) [0..<length kvs])"

lemma emitted_snoc: "emitted env (kvs @ [kv]) = emitted env kvs @ stack_emits env kvs kv"
proof -
  have "map (\<lambda>i. stack_emits env (take i (kvs @ [kv])) ((kvs @ [kv]) ! i)) [0..<length kvs] =
      map (\<lambda>i. stack_emits env (take i kvs) (kvs ! i)) [0..<length kvs]"
    by (rule map_cong) (simp_all add: nth_append)
  then show ?thesis unfolding emitted_def length_append_singleton upt_Suc_append [OF le0] map_append concat_append
    by (simp only:) simp
qed

lemma node_records_append [simp]: "node_records (a @ b) = node_records a @ node_records b"
  by (simp add: node_records_def)

lemma merge_loop_view:
  "hash_writer w \<Longrightarrow> direct_view w = write_batch (node_records (emitted env t)) db \<Longrightarrow>
   merge_loop env lib ww ctx owner n i a b (t, w) = Inr (t', w') \<Longrightarrow>
     hash_writer w' \<and> direct_view w' = write_batch (node_records (emitted env t')) db"
proof (induction "length a + length b" arbitrary: a b i t w rule: less_induct)
  case less
  show ?case
  proof (cases "a = [] \<and> b = []")
    case True
    with less.prems show ?thesis by (simp add: merge_loop.simps)
  next
    case False
    obtain kv a' b' where c: "merge_choice n a b = (kv, a', b')" by (metis prod_cases3)
    from False c less.prems(3) obtain st1 where
      up: "(if snd kv \<noteq> [] then checked_Update env lib ww owner kv (t, w) else Inr (t, w)) = Inr st1"
      and rest: "merge_loop env lib ww ctx owner n (i + 1) a' b' st1 = Inr (t', w')" by (rule merge_loop_round)
    obtain t1 w1 where st1: "st1 = (t1, w1)" by (cases st1)
    have "hash_writer w1 \<and> direct_view w1 = write_batch (node_records (emitted env t1)) db"
    proof (cases "snd kv = []")
      case True
      with up st1 less.prems(1,2) show ?thesis by simp
    next
      case nz: False
      with up st1 have u: "checked_Update env lib ww owner kv (t, w) = Inr (t1, w1)" by simp
      from checked_Update_stack [OF u] checked_Update_view [OF less.prems(1) u] less.prems(2) show ?thesis
        by (simp add: emitted_snoc write_batch_append)
    qed
    with less.hyps [OF merge_choice_spec(1) [OF False c] _ _ rest [unfolded st1]] show ?thesis by blast
  qed
qed

lemma rebuild_ok:
  assumes "rebuildPatchedTriePrefix env lib ww ctx db owner (a, ea) (b, eb) pre = Inr (root, db')"
    and "ascending a" and "ascending (strip (length pre) b)"
  shows "\<not> ea \<and> \<not> eb \<and> root = stack_root env (patched a (strip (length pre) b)) \<and>
    db' = write_batch (node_records (trie_nodes env (patched a (strip (length pre) b)))) db"
proof -
  let ?new = "newDirectStateWriter ww db HashScheme" and ?l = "patched a (strip (length pre) b)"
  from assms(1) obtain stack w w1 w2 where
    loop: "merge_loop env lib ww ctx owner (length pre) 0 a b ([], ?new) = Inr (stack, w)"
    and fin: "\<not> ea" "\<not> eb" "root = stack_root env stack"
      "feed_nodes owner (Some (direct_TrieNode lib ww)) (stack_final env stack) (None, w) = (None, w1)"
    and close: "direct_CloseContext ww (ctx (length a + length b)) w1 = (None, w2)" "db' = dw_db w2"
    by (auto simp: rebuildPatchedTriePrefix_def bindR_eq_Inr stack_Hash_def Let_def
          split: if_splits prod.splits option.splits)
  from merge_loop_stack [OF loop] have stack: "stack = ?l" using assms(2,3) by (simp add: patched_merged)
  have new: "hash_writer ?new" "direct_view ?new = write_batch (node_records (emitted env [])) db"
    by (simp_all add: hash_writer_def newDirectStateWriter_def newDirectStateWriterWithFlushLimit_def
        direct_view_def emitted_def node_records_def)
  from merge_loop_view [OF new loop] have w: "hash_writer w" "direct_view w = write_batch (node_records (emitted env ?l)) db"
    by (simp_all add: stack)
  from feed_nodes_view [OF w(1) fin(4)] w(2) have w1: "hash_writer w1"
    "direct_view w1 = write_batch (node_records (trie_nodes env ?l)) db"
    by (simp_all add: stack trie_nodes_def emitted_def write_batch_append)
  from close w1 CloseContext_view [of w1 ww] have "db' = direct_view w1" by (auto simp: hash_writer_def)
  with w1 fin stack show ?thesis by simp
qed

section \<open>Success\<close>

text \<open>A writer no call of which fails.\<close>

definition quiet_writer :: "writer_world \<Rightarrow> bool" where
  "quiet_writer ww \<longleftrightarrow> (\<forall>n. \<not> ww_opErr ww n) \<and> (\<forall>n. \<not> ww_writeErr ww n)"

lemma quiet_op: "quiet_writer ww \<Longrightarrow> \<exists>w'. dw_op ww e op w = (None, w')"
  by (auto simp: quiet_writer_def dw_op_def flushIfNeeded_def dw_Write_def)

lemma quiet_feed:
  "quiet_writer ww \<Longrightarrow> hash_writer w \<Longrightarrow> \<exists>w'. feed_nodes owner (Some (direct_TrieNode lib ww)) nodes (None, w) = (None, w')"
proof (induction nodes arbitrary: w)
  case (Cons node nodes)
  obtain path h blob where node: "node = (path, h, blob)" by (cases node)
  obtain w1 where op: "dw_op ww DirectPut (BatchPut h blob) w = (None, w1)" using quiet_op [OF Cons.prems(1)] by blast
  from dw_op_view [OF op] Cons.prems(2) have "hash_writer w1" by (simp add: hash_writer_def)
  moreover from op Cons.prems(2) have "direct_TrieNode lib ww owner path h blob w = (None, w1)"
    by (simp add: direct_TrieNode_def trieNodeKey_def hash_writer_def keyBytes_def)
  ultimately show ?case using Cons.IH [OF Cons.prems(1), of w1] node by simp
qed simp

lemma quiet_Update:
  assumes "quiet_writer ww" and "hash_writer w" and "stack_accepts env t kv"
  shows "\<exists>w'. checked_Update env lib ww owner kv (t, w) = Inr (t @ [kv], w') \<and> hash_writer w'"
proof -
  from quiet_feed [OF assms(1,2), of owner lib "stack_emits env t kv"] obtain w' where
    f: "feed_nodes owner (Some (direct_TrieNode lib ww)) (stack_emits env t kv) (None, w) = (None, w')" by blast
  with feed_nodes_view [OF assms(2) f] assms(3) show ?thesis
    by (auto simp: checked_Update_def stack_Update_def)
qed

lemma merge_loop_quiet:
  assumes "quiet_writer ww" and "\<And>i. \<not> ctx i" and "stack_ok env"
  shows "hash_writer w \<Longrightarrow> ascending (t @ filter (\<lambda>kv. snd kv \<noteq> []) (merged a (strip n b))) \<Longrightarrow>
    (\<forall>kv \<in> set t \<union> set a \<union> set (strip n b). is_hash (fst kv)) \<Longrightarrow>
    \<exists>t' w'. merge_loop env lib ww ctx owner n i a b (t, w) = Inr (t', w') \<and> hash_writer w'"
proof (induction "length a + length b" arbitrary: a b i t w rule: less_induct)
  case less
  show ?case
  proof (cases "a = [] \<and> b = []")
    case True
    with less.prems show ?thesis by (simp add: merge_loop.simps)
  next
    case False
    obtain kv a' b' where c: "merge_choice n a b = (kv, a', b')" by (metis prod_cases3)
    note spec = merge_choice_spec [OF False c]
    have unfold: "merge_loop env lib ww ctx owner n i a b (t, w) =
      bindR (if snd kv \<noteq> [] then checked_Update env lib ww owner kv (t, w) else Inr (t, w))
        (\<lambda>st'. merge_loop env lib ww ctx owner n (i + 1) a' b' st')"
      using False assms(2) c by (subst merge_loop.simps) auto
    have keys: "is_hash (fst kv)" "\<forall>kv \<in> set t \<union> set a' \<union> set (strip n b'). is_hash (fst kv)"
      using less.prems(3) spec(3-5) by blast+
    show ?thesis
    proof (cases "snd kv = []")
      case True
      with less.hyps [OF spec(1) less.prems(1) _ keys(2)] less.prems(2) spec(2) unfold show ?thesis by simp
    next
      case nz: False
      from less.prems(2) spec(2) nz have asc: "ascending ((t @ [kv]) @ filter (\<lambda>kv. snd kv \<noteq> []) (merged a' (strip n b')))"
        by simp
      then have "\<forall>l \<in> fst ` set t. is_hash l \<and> l < fst kv" using less.prems(3) by auto
      with assms(3) keys(1) nz have "stack_accepts env t kv" by (cases kv) (auto simp: stack_ok_def)
      from quiet_Update [OF assms(1) less.prems(1) this] obtain w1 where
        u: "checked_Update env lib ww owner kv (t, w) = Inr (t @ [kv], w1)" "hash_writer w1" by blast
      from less.hyps [OF spec(1) u(2) asc] keys u(1) nz unfold show ?thesis by auto
    qed
  qed
qed

lemma rebuild_succeeds:
  assumes q: "quiet_writer ww" "\<And>i. \<not> ctx i" and "stack_ok env" and asc: "ascending a" "ascending (strip (length pre) b)"
    and keys: "\<forall>kv \<in> set a \<union> set (strip (length pre) b). is_hash (fst kv)"
  shows "\<exists>root db'. rebuildPatchedTriePrefix env lib ww ctx db owner (a, False) (b, False) pre = Inr (root, db')"
proof -
  let ?new = "newDirectStateWriter ww db HashScheme"
  have new: "hash_writer ?new"
    by (simp add: hash_writer_def newDirectStateWriter_def newDirectStateWriterWithFlushLimit_def)
  have "ascending ([] @ filter (\<lambda>kv. snd kv \<noteq> []) (merged a (strip (length pre) b)))"
    using asc by (simp add: merged_ascending)
  from merge_loop_quiet [where ctx = ctx, OF q assms(3) new this] keys obtain t w where
    loop: "merge_loop env lib ww ctx owner (length pre) 0 a b ([], ?new) = Inr (t, w)" "hash_writer w" by fastforce
  from quiet_feed [OF q(1) loop(2), of owner lib "stack_final env t"] obtain w1 where
    f: "feed_nodes owner (Some (direct_TrieNode lib ww)) (stack_final env t) (None, w) = (None, w1)" by blast
  from feed_nodes_view [OF loop(2) f] q(1) have "\<exists>w2. direct_CloseContext ww False w1 = (None, w2)"
    by (auto simp: direct_CloseContext_def direct_Close_def hash_writer_def dw_Write_def quiet_writer_def)
  with loop f q(2) show ?thesis
    by (auto simp: rebuildPatchedTriePrefix_def stack_Hash_def Let_def)
qed

section \<open>Properties\<close>

text \<open>
  Property C10. Rebuilding a trie under patches is exact. The merge ends for all inputs. When it
  succeeds, the new root is the root of the original leaves with every patch applied, where an
  empty patch deletes and every other patch replaces or adds its leaf, and the database gains
  exactly the nodes of that trie; iterators that broke off are never accepted. When nothing fails
  from outside, rebuilding leaves and patches under 32-byte keys does succeed.
\<close>

theorem rebuild_is_patch:
  assumes "stack_ok env" and "ascending a" and "ascending patches" and "\<forall>kv \<in> set a \<union> set patches. is_hash (fst kv)"
  shows "(\<forall>root db'. rebuildPatchedTriePrefix env lib ww ctx db owner (a, ea) (map (\<lambda>(k, v). (pre @ k, v)) patches, eb) pre =
            Inr (root, db') \<longrightarrow>
            \<not> ea \<and> \<not> eb \<and> root = stack_root env (patched a patches) \<and>
            db' = write_batch (node_records (trie_nodes env (patched a patches))) db) \<and>
         (quiet_writer ww \<and> (\<forall>i. \<not> ctx i) \<and> \<not> ea \<and> \<not> eb \<longrightarrow>
            isOk (rebuildPatchedTriePrefix env lib ww ctx db owner (a, ea) (map (\<lambda>(k, v). (pre @ k, v)) patches, eb) pre))"
proof -
  let ?b = "map (\<lambda>(k, v). (pre @ k, v)) patches"
  have strip: "strip (length pre) ?b = patches" by (simp add: strip_def case_prod_unfold o_def)
  have "isOk (rebuildPatchedTriePrefix env lib ww ctx db owner (a, False) (?b, False) pre)"
    if q: "quiet_writer ww" "\<And>i. \<not> ctx i"
    using rebuild_succeeds [where ctx = ctx and b = ?b and pre = pre, OF q assms(1,2)] assms(3,4) strip
    by (auto simp: isOk_iff)
  with rebuild_ok [OF _ assms(2), of env lib ww ctx db owner ea ?b eb pre] strip assms(3) show ?thesis by auto
qed

end
