(* ===== verification/OvmBalances.thy ===== *)
theory OvmBalances
  imports OvmMerge Workers
begin

text \<open>
  Applying balances (\<^verbatim>\<open>ovm_balance_order.go\<close>, \<^verbatim>\<open>ovm_balance_pipeline.go\<close>, \<^verbatim>\<open>applyBalance\<close>
  and the account reader of \<^verbatim>\<open>ovm_transform.go\<close>): queued balances are read back in account
  order, inspected against the source state in bounded batches and applied in order. An inspection
  only reads the source state and the namespaces \<open>R\<close> and \<open>f\<close>, which nothing writes meanwhile,
  so its outcome does not depend on when its goroutine runs; which of several failures is latched
  first does, and the model latches them in submission order. The tries of the source state are
  go-ethereum's: \<open>state_view\<close> holds what they answer.
\<close>

section \<open>Reading accounts and values\<close>

record state_view =
  sv_accountOpen :: faults
  sv_accountGet :: "hash \<Rightarrow> bytes option"
  sv_accountIter :: "(kv list \<times> bool) option"
  sv_storageOpen :: bool
  sv_storageGet :: "hash \<Rightarrow> bytes option"
  sv_storageIter :: "(kv list \<times> bool) option"

datatype ovm_error =
    OvmCanceled
  | OvmOpenTrie
  | OvmReadTrie
  | OvmIterate
  | OvmValue value_error
  | OvmDecodeValue
  | OvmEncode
  | OvmIndex index_error
  | OvmCursor cursor_error
  | OvmRebuild rebuild_error
  | OvmWriter direct_error
  | OvmNoCode
  | OvmMappingBase
  | OvmShortLength
  | OvmShortPadding
  | OvmLongLength
  | OvmStorageKeyLength
  | OvmOwnership
  | OvmIndexedAddress
  | OvmBadJob
  | OvmJobHash
  | OvmNonzeroNative
  | OvmNilAccount
  | OvmSumOverflow
  | OvmSupplyMismatch
  | OvmUnderflow
  | OvmConservation
  | OvmAudit
  | OvmRetainRecord
  | OvmRetainNotContract

definition ovmAccountReadWindow :: nat where
  "ovmAccountReadWindow = 32"

record ovmAccountReader =
  ar_trie :: bool
  ar_reads :: nat
  ar_opens :: nat

definition newReader :: ovmAccountReader where
  "newReader = \<lparr>ar_trie = False, ar_reads = 0, ar_opens = 0\<rparr>"

definition emptyAccount :: "geth_env \<Rightarrow> state_account" where
  "emptyAccount env = \<lparr>Nonce = 0, Balance = Some 0, Root = EmptyRootHash env, CodeHash = EmptyCodeHash env\<rparr>"

definition reader_read ::
  "geth_env \<Rightarrow> state_view \<Rightarrow> hash \<Rightarrow> ovmAccountReader \<Rightarrow> (ovm_error, state_account) result \<times> ovmAccountReader" where
  "reader_read env sv h r =
     (if \<not> ar_trie r \<and> sv_accountOpen sv (ar_opens r) then (Inl OvmOpenTrie, r\<lparr>ar_opens := ar_opens r + 1\<rparr>)
      else
        let r1 = (if ar_trie r then r else r\<lparr>ar_trie := True, ar_opens := ar_opens r + 1\<rparr>);
            blob = sv_accountGet sv h;
            r2 = r1\<lparr>ar_reads := ar_reads r1 + 1\<rparr>;
            r3 = (if ar_reads r2 = ovmAccountReadWindow \<or> blob = None then r2\<lparr>ar_trie := False, ar_reads := 0\<rparr> else r2)
        in case blob of
             None \<Rightarrow> (Inl OvmReadTrie, r3)
           | Some b \<Rightarrow>
               if length b = 0 then (Inr (emptyAccount env), r3)
               else (mapErr OvmValue (decodeFullAccount env b), r3))"

definition readOVMAccount :: "geth_env \<Rightarrow> state_view \<Rightarrow> hash \<Rightarrow> (ovm_error, state_account) result" where
  "readOVMAccount env sv h = fst (reader_read env sv h newReader)"

definition decodeOVMValue :: "geth_env \<Rightarrow> bytes \<Rightarrow> (ovm_error, u256) result" where
  "decodeOVMValue env blob =
     (if length blob = 0 then Inr 0
      else
        bindR (mapErr OvmValue (validateStorageRLP env blob)) (\<lambda>_.
        case rlp_dec_bytes env blob of
          None \<Rightarrow> Inl OvmDecodeValue
        | Some val \<Rightarrow> Inr (of_nat (be_nat val))))"

text \<open>\<^verbatim>\<open>uint256.Int.Bytes32\<close>.\<close>

definition Bytes32 :: "u256 \<Rightarrow> bytes" where
  "Bytes32 v = be_bytes 32 (unat v)"

definition AddOverflow :: "u256 \<Rightarrow> u256 \<Rightarrow> u256 \<times> bool" where
  "AddOverflow x y = (x + y, x + y < x)"

definition SubOverflow :: "u256 \<Rightarrow> u256 \<Rightarrow> u256 \<times> bool" where
  "SubOverflow x y = (x - y, x < y)"

section \<open>Applying one balance\<close>

text \<open>
  The amounts are pointers in Go: the transformer always sets them (\<open>'a\<close> is \<^typ>\<open>u256\<close>), a
  decoded report may lack them (\<open>'a\<close> is an option).
\<close>

record 'a OVMBalanceEvidence =
  OriginalSupply :: 'a
  MigratedNative :: 'a
  RemainingSupply :: 'a
  EOAs :: u64
  ConvertedContracts :: u64
  RetainedContracts :: u64
  SelfBalance :: 'a

record ovmTransformer =
  tr_index :: ovmIndex
  tr_evidence :: "u256 OVMBalanceEvidence"
  tr_total :: u256
  tr_balanceSlots :: u64

record ovmBalanceJob =
  bj_address :: address
  bj_slot :: hash
  bj_hash :: hash
  bj_value :: u256
  bj_account :: "state_account option"
  bj_contract :: bool
  bj_retain :: bool

definition tr_put ::
  "index_world \<Rightarrow> byte \<Rightarrow> bytes \<Rightarrow> bytes \<Rightarrow> ovmTransformer \<Rightarrow> (ovm_error, ovmTransformer) result" where
  "tr_put iw pre key val t =
     bindR (mapErr OvmIndex (index_put iw pre key val (tr_index t))) (\<lambda>i. Inr (t\<lparr>tr_index := i\<rparr>))"

definition tr_flush :: "index_world \<Rightarrow> ovmTransformer \<Rightarrow> (ovm_error, ovmTransformer) result" where
  "tr_flush iw t = bindR (mapErr OvmIndex (index_flush iw (tr_index t))) (\<lambda>i. Inr (t\<lparr>tr_index := i\<rparr>))"

definition patchAccount ::
  "geth_env \<Rightarrow> index_world \<Rightarrow> hash \<Rightarrow> state_account \<Rightarrow> ovmTransformer \<Rightarrow> (ovm_error, ovmTransformer) result" where
  "patchAccount env iw h account t =
     (case rlp_enc_account env account of
        None \<Rightarrow> Inl OvmEncode
      | Some blob \<Rightarrow> tr_put iw ns_p h blob t)"

definition applyBalance ::
  "geth_env \<Rightarrow> index_world \<Rightarrow> ovmBalanceJob \<Rightarrow> ovmTransformer \<Rightarrow> (ovm_error, ovmTransformer) result" where
  "applyBalance env iw b t =
     (let val = bj_value b; (sum, overflow) = AddOverflow (tr_total t) val; t0 = t\<lparr>tr_total := sum\<rparr> in
      if overflow then Inl OvmSumOverflow
      else if val = 0 then Inr t0
      else
        let t1 = t0\<lparr>tr_balanceSlots := tr_balanceSlots t0 + 1\<rparr>; ev = tr_evidence t1 in
        if bj_address b = ovmETHAddress then
          Inr (t1\<lparr>tr_evidence := ev\<lparr>SelfBalance := val, RemainingSupply := RemainingSupply ev + val\<rparr>\<rparr>)
        else if bj_contract b \<and> bj_retain b then
          Inr (t1\<lparr>tr_evidence := ev\<lparr>RetainedContracts := RetainedContracts ev + 1,
                 RemainingSupply := RemainingSupply ev + val\<rparr>\<rparr>)
        else
          let ev1 = (if bj_contract b then ev\<lparr>ConvertedContracts := ConvertedContracts ev + 1\<rparr>
                     else ev\<lparr>EOAs := EOAs ev + 1\<rparr>);
              t2 = t1\<lparr>tr_evidence := ev1\<lparr>MigratedNative := MigratedNative ev1 + val\<rparr>\<rparr>
          in case bj_account b of
               None \<Rightarrow> Inl OvmNilAccount
             | Some account \<Rightarrow>
                 bindR (patchAccount env iw (bj_hash b) (account\<lparr>Balance := Some val\<rparr>) t2)
                   (tr_put iw ns_s (bj_slot b) []))"

section \<open>Batches of inspections\<close>

text \<open>
  The outside of a batch: a job whose lease is refused, lookups that fail, polls before a
  submission and before each application.
\<close>

record batch_world =
  bw_lease :: "hash \<Rightarrow> bool"
  bw_getErr :: "byte \<Rightarrow> address \<Rightarrow> bool"
  bw_submitPoll :: "hash \<Rightarrow> bool"
  bw_applyPoll :: "hash \<Rightarrow> bool"

record ovmBalanceBatch =
  bb_transformer :: ovmTransformer
  bb_queue :: "ovmBalanceJob list"
  bb_failure :: "ovm_error latch"
  bb_readers :: "ovmAccountReader list"

text \<open>\<^verbatim>\<open>index.get\<close> during an inspection.\<close>

definition inspect_get ::
  "batch_world \<Rightarrow> byte \<Rightarrow> address \<Rightarrow> ovmIndex \<Rightarrow> (ovm_error, bool) result" where
  "inspect_get bw pre addr i =
     (if bw_getErr bw pre addr then Inl (OvmIndex IndexGet) else Inr (index_durable i (prefixedKey [pre] addr) \<noteq> None))"

definition inspect ::
  "geth_env \<Rightarrow> state_view \<Rightarrow> batch_world \<Rightarrow> bool \<Rightarrow> ovmIndex \<Rightarrow> ovmBalanceJob \<Rightarrow> ovmAccountReader \<Rightarrow>
   (ovm_error, ovmBalanceJob) result \<times> ovmAccountReader" where
  "inspect env sv bw retention i job r =
     (if bw_lease bw (bj_hash job) then (Inl OvmCanceled, r)
      else if bj_address job = ovmETHAddress \<or> bj_value job = 0 then (Inr job, r)
      else
        (case reader_read env sv (bj_hash job) r of
           (Inl e, r') \<Rightarrow> (Inl e, r')
         | (Inr account, r') \<Rightarrow>
             (if Balance account \<noteq> Some 0 then Inl OvmNonzeroNative
              else
                let job1 = job\<lparr>bj_account := Some account, bj_contract := (CodeHash account \<noteq> EmptyCodeHash env)\<rparr> in
                if \<not> bj_contract job1 then Inr job1
                else
                  bindR (if retention then inspect_get bw ovmERC20RetainPrefix (bj_address job1) i else Inr False)
                    (\<lambda>listed.
                      if listed then Inr (job1\<lparr>bj_retain := True\<rparr>)
                      else bindR (inspect_get bw ns_f (bj_address job1) i) (\<lambda>sent. Inr (job1\<lparr>bj_retain := sent\<rparr>))),
              r')))"

text \<open>The bounded pool of readers; a reader that does not fit is dropped.\<close>

definition borrowReader :: "ovmBalanceBatch \<Rightarrow> ovmAccountReader \<times> ovmBalanceBatch" where
  "borrowReader b = (case bb_readers b of [] \<Rightarrow> (newReader, b) | r # rs \<Rightarrow> (r, b\<lparr>bb_readers := rs\<rparr>))"

definition returnReader :: "int \<Rightarrow> ovmAccountReader \<Rightarrow> ovmBalanceBatch \<Rightarrow> ovmBalanceBatch" where
  "returnReader workers r b =
     (if int (length (bb_readers b)) < normalizeMigrateWorkers workers then b\<lparr>bb_readers := bb_readers b @ [r]\<rparr> else b)"

fun apply_jobs ::
  "geth_env \<Rightarrow> index_world \<Rightarrow> batch_world \<Rightarrow> ovmBalanceJob list \<Rightarrow> ovmTransformer \<Rightarrow> (ovm_error, ovmTransformer) result" where
  "apply_jobs env iw bw [] t = Inr t"
| "apply_jobs env iw bw (job # jobs) t =
     (if bw_applyPoll bw (bj_hash job) then Inl OvmCanceled
      else bindR (applyBalance env iw job t) (apply_jobs env iw bw jobs))"

definition batch_drain ::
  "geth_env \<Rightarrow> index_world \<Rightarrow> batch_world \<Rightarrow> ovmBalanceBatch \<Rightarrow> (ovm_error, ovmBalanceBatch) result" where
  "batch_drain env iw bw b =
     (case migrateRunFailure_load (bb_failure b) of
        Some e \<Rightarrow> Inl e
      | None \<Rightarrow>
          bindR (apply_jobs env iw bw (bb_queue b) (bb_transformer b)) (\<lambda>t.
            Inr (b\<lparr>bb_transformer := t, bb_queue := []\<rparr>)))"

definition batch_submit ::
  "geth_env \<Rightarrow> state_view \<Rightarrow> index_world \<Rightarrow> batch_world \<Rightarrow> int \<Rightarrow> bool \<Rightarrow> address \<Rightarrow> hash \<Rightarrow> u256 \<Rightarrow>
   ovmBalanceBatch \<Rightarrow> (ovm_error, ovmBalanceBatch) result" where
  "batch_submit env sv iw bw workers retention addr slot val b =
     (if bw_submitPoll bw (keccak256 env addr) then Inl OvmCanceled
      else
        bindR (if int (length (bb_queue b)) = 2 * normalizeMigrateWorkers workers then batch_drain env iw bw b else Inr b)
          (\<lambda>b1.
            let job = \<lparr>bj_address = addr, bj_slot = slot, bj_hash = keccak256 env addr, bj_value = val,
                       bj_account = None, bj_contract = False, bj_retain = False\<rparr>;
                (r, b2) = borrowReader b1;
                (res, r') = inspect env sv bw retention (tr_index (bb_transformer b1)) job r;
                b3 = returnReader workers r' b2
            in case res of
                 Inl e \<Rightarrow> Inr (b3\<lparr>bb_queue := bb_queue b3 @ [job],
                              bb_failure := snd (migrateRunFailure_record (bb_failure b3) e)\<rparr>)
               | Inr job' \<Rightarrow> Inr (b3\<lparr>bb_queue := bb_queue b3 @ [job']\<rparr>)))"

section \<open>Balances in account order\<close>

definition queueBalance ::
  "geth_env \<Rightarrow> index_world \<Rightarrow> address \<Rightarrow> hash \<Rightarrow> u256 \<Rightarrow> ovmTransformer \<Rightarrow> (ovm_error, ovmTransformer) result" where
  "queueBalance env iw addr key val t = tr_put iw ns_q (keccak256 env addr) (addr @ key @ Bytes32 val) t"

definition decode_job :: "geth_env \<Rightarrow> kv \<Rightarrow> (ovm_error, address \<times> hash \<times> u256) result" where
  "decode_job env kv =
     (let rec = snd kv in
      if length (fst kv) \<noteq> 1 + HashLength \<or> length rec \<noteq> AddressLength + 2 * HashLength then Inl OvmBadJob
      else
        let addr = take AddressLength rec in
        if drop 1 (fst kv) \<noteq> keccak256 env addr then Inl OvmJobHash
        else Inr (addr, take HashLength (drop AddressLength rec), of_nat (be_nat (drop (AddressLength + HashLength) rec))))"

text \<open>The loop over the iterator of namespace \<open>q\<close>; the \<open>n\<close>-th lease or poll fails.\<close>

fun ordered_loop ::
  "geth_env \<Rightarrow> state_view \<Rightarrow> index_world \<Rightarrow> batch_world \<Rightarrow> int \<Rightarrow> bool \<Rightarrow> faults \<Rightarrow> nat \<Rightarrow> kv list \<Rightarrow>
   ovmBalanceBatch \<Rightarrow> (ovm_error, ovmBalanceBatch) result" where
  "ordered_loop env sv iw bw workers retention poll n [] b = (if poll n then Inl OvmCanceled else Inr b)"
| "ordered_loop env sv iw bw workers retention poll n (kv # kvs) b =
     (if poll n then Inl OvmCanceled
      else
        bindR (decode_job env kv) (\<lambda>(addr, slot, val).
        bindR (batch_submit env sv iw bw workers retention addr slot val b)
          (ordered_loop env sv iw bw workers retention poll (n + 1) kvs)))"

definition inspectOrderedBalances ::
  "geth_env \<Rightarrow> state_view \<Rightarrow> index_world \<Rightarrow> batch_world \<Rightarrow> int \<Rightarrow> bool \<Rightarrow> faults \<Rightarrow> nat option \<Rightarrow>
   ovmTransformer \<Rightarrow> (ovm_error, ovmTransformer) result" where
  "inspectOrderedBalances env sv iw bw workers retention poll brk t =
     bindR (tr_flush iw t) (\<lambda>t1.
       let entries = NewIterator (ix_db (tr_index t1)) [ns_q] [];
           b = \<lparr>bb_transformer = t1, bb_queue = [], bb_failure = None, bb_readers = []\<rparr>
       in bindR (ordered_loop env sv iw bw workers retention poll 0
                  (case brk of None \<Rightarrow> entries | Some n \<Rightarrow> take n entries) b) (\<lambda>b1.
            if brk \<noteq> None then Inl OvmIterate
            else bindR (batch_drain env iw bw b1) (\<lambda>b2. Inr (bb_transformer b2))))"

section \<open>The reader is a lookup\<close>

definition account_at :: "geth_env \<Rightarrow> state_view \<Rightarrow> hash \<Rightarrow> (ovm_error, state_account) result" where
  "account_at env sv h =
     (case sv_accountGet sv h of
        None \<Rightarrow> Inl OvmReadTrie
      | Some b \<Rightarrow> if b = [] then Inr (emptyAccount env) else mapErr OvmValue (decodeFullAccount env b))"

definition reader_inv :: "ovmAccountReader \<Rightarrow> bool" where
  "reader_inv r \<longleftrightarrow> ar_reads r < ovmAccountReadWindow \<and> (\<not> ar_trie r \<longrightarrow> ar_reads r = 0)"

lemma reader_inv_new [simp]: "reader_inv newReader"
  by (simp add: reader_inv_def newReader_def ovmAccountReadWindow_def)

lemma reader_read_inv: "reader_inv r \<Longrightarrow> reader_read env sv h r = (res, r') \<Longrightarrow> reader_inv r'"
  by (auto simp: reader_read_def reader_inv_def ovmAccountReadWindow_def Let_def split: if_splits option.splits)

lemma reader_read_result: "reader_read env sv h r = (Inr a, r') \<Longrightarrow> account_at env sv h = Inr a"
  by (auto simp: reader_read_def account_at_def Let_def split: if_splits option.splits)

lemma reader_read_total:
  "\<not> sv_accountOpen sv (ar_opens r) \<Longrightarrow> fst (reader_read env sv h r) = account_at env sv h"
  by (auto simp: reader_read_def account_at_def Let_def split: option.splits)

section \<open>What applying a balance does\<close>

text \<open>A nonzero balance moves to its holder's account unless the contract itself or a retained contract holds it.\<close>

definition moved :: "ovmBalanceJob \<Rightarrow> bool" where
  "moved j \<longleftrightarrow> bj_value j \<noteq> 0 \<and> bj_address j \<noteq> ovmETHAddress \<and> \<not> (bj_contract j \<and> bj_retain j)"

definition job_sum :: "ovmBalanceJob list \<Rightarrow> nat" where
  "job_sum js = (\<Sum>j\<leftarrow>js. unat (bj_value j))"

definition job_account :: "ovmBalanceJob \<Rightarrow> state_account" where
  "job_account j = (the (bj_account j))\<lparr>Balance := Some (bj_value j)\<rparr>"

definition job_patches :: "geth_env \<Rightarrow> ovmBalanceJob \<Rightarrow> kv list" where
  "job_patches env j =
     (if moved j then [(ns_p # bj_hash j, the (rlp_enc_account env (job_account j))), (ns_s # bj_slot j, [])] else [])"

text \<open>The effect of applying \<open>js\<close>, given the original supply and the view of the index before.\<close>

definition applied :: "geth_env \<Rightarrow> u256 \<times> (bytes \<rightharpoonup> bytes) \<Rightarrow> ovmBalanceJob list \<Rightarrow> ovmTransformer \<Rightarrow> bool" where
  "applied env v0 js t \<longleftrightarrow> OriginalSupply (tr_evidence t) = fst v0 \<and>
     index_sorted (tr_index t) \<and> index_view (tr_index t) = snd v0 ++ map_of (rev (concat (map (job_patches env) js))) \<and>
     unat (tr_total t) = job_sum js \<and> unat (MigratedNative (tr_evidence t)) = job_sum (filter moved js) \<and>
     unat (RemainingSupply (tr_evidence t)) = job_sum (filter (\<lambda>j. \<not> moved j) js) \<and>
     tr_balanceSlots t = of_nat (length (filter (\<lambda>j. bj_value j \<noteq> 0) js)) \<and>
     (\<forall>j \<in> set js. moved j \<longrightarrow> bj_account j \<noteq> None \<and> rlp_enc_account env (job_account j) \<noteq> None)"

lemma job_sum_snoc [simp]: "job_sum (js @ [j]) = job_sum js + unat (bj_value j)" "job_sum [] = 0"
  by (simp_all add: job_sum_def)

lemma job_sum_split: "job_sum js = job_sum (filter P js) + job_sum (filter (\<lambda>j. \<not> P j) js)"
  by (induction js) (auto simp: job_sum_def)

lemma u256_bound: "unat (x :: u256) < 2 ^ 256"
  using unsigned_less [where 'a = nat, of x] by simp

lemma AddOverflow_ok: "AddOverflow x y = (z, False) \<longleftrightarrow> z = x + y \<and> unat z = unat x + unat y"
  unfolding AddOverflow_def by (auto simp: not_less unat_plus_simple)

lemma u256_add: "unat (x :: u256) + unat y < 2 ^ 256 \<Longrightarrow> unat (x + y) = unat x + unat y"
  using unat_add_lem [of x y] by simp

lemma tr_put_ok:
  assumes "index_sorted (tr_index t)" and "tr_put iw pre key val t = Inr t'"
  shows "\<exists>i. t' = t\<lparr>tr_index := i\<rparr> \<and> index_sorted i \<and> index_view i = (index_view (tr_index t))(pre # key \<mapsto> val)"
proof -
  from assms(2) obtain i where "index_put iw pre key val (tr_index t) = Inr i" "t' = t\<lparr>tr_index := i\<rparr>"
    by (auto simp: tr_put_def bindR_eq_Inr mapErr_eq_Inr)
  with index_put_ok [OF assms(1)] show ?thesis by blast
qed

lemma tr_flush_ok:
  assumes "index_sorted (tr_index t)" and "tr_flush iw t = Inr t'"
  shows "\<exists>i. t' = t\<lparr>tr_index := i\<rparr> \<and> index_sorted i \<and> index_view i = index_view (tr_index t) \<and>
    index_durable i = index_view (tr_index t) \<and> ix_batch i = []"
proof -
  from assms(2) obtain i where "index_flush iw (tr_index t) = Inr i" "t' = t\<lparr>tr_index := i\<rparr>"
    by (auto simp: tr_flush_def bindR_eq_Inr mapErr_eq_Inr)
  with index_flush_ok [OF assms(1)] show ?thesis by blast
qed

text \<open>The state in which a moved balance is patched, and the one an unmoved balance leaves.\<close>

definition credit :: "ovmBalanceJob \<Rightarrow> ovmTransformer \<Rightarrow> ovmTransformer" where
  "credit j t =
     (let ev = tr_evidence t;
          ev1 = (if bj_contract j then ev\<lparr>ConvertedContracts := ConvertedContracts ev + 1\<rparr> else ev\<lparr>EOAs := EOAs ev + 1\<rparr>)
      in t\<lparr>tr_total := tr_total t + bj_value j, tr_balanceSlots := tr_balanceSlots t + 1,
           tr_evidence := ev1\<lparr>MigratedNative := MigratedNative ev1 + bj_value j\<rparr>\<rparr>)"

definition keep :: "ovmBalanceJob \<Rightarrow> ovmTransformer \<Rightarrow> ovmTransformer" where
  "keep j t =
     (let ev = tr_evidence t; t0 = t\<lparr>tr_total := tr_total t + bj_value j\<rparr>;
          t1 = t0\<lparr>tr_balanceSlots := tr_balanceSlots t + 1\<rparr> in
      if bj_value j = 0 then t0
      else if bj_address j = ovmETHAddress
      then t1\<lparr>tr_evidence := ev\<lparr>SelfBalance := bj_value j, RemainingSupply := RemainingSupply ev + bj_value j\<rparr>\<rparr>
      else t1\<lparr>tr_evidence := ev\<lparr>RetainedContracts := RetainedContracts ev + 1,
             RemainingSupply := RemainingSupply ev + bj_value j\<rparr>\<rparr>)"

lemma applyBalance_eq:
  "applyBalance env iw j t =
     (if snd (AddOverflow (tr_total t) (bj_value j)) then Inl OvmSumOverflow
      else if moved j then
        (case bj_account j of
           None \<Rightarrow> Inl OvmNilAccount
         | Some a \<Rightarrow> bindR (patchAccount env iw (bj_hash j) (a\<lparr>Balance := Some (bj_value j)\<rparr>) (credit j t))
             (tr_put iw ns_s (bj_slot j) []))
      else Inr (keep j t))"
  by (cases "bj_account j") (simp_all add: applyBalance_def moved_def credit_def keep_def AddOverflow_def Let_def)

lemma no_overflow: "\<not> snd (AddOverflow x y) \<Longrightarrow> unat (x + y) = unat x + unat y"
  by (simp add: AddOverflow_def not_less unat_plus_simple)

lemma keep_fields:
  "OriginalSupply (tr_evidence (keep j t)) = OriginalSupply (tr_evidence t)"
  "tr_index (keep j t) = tr_index t" "tr_total (keep j t) = tr_total t + bj_value j"
  "MigratedNative (tr_evidence (keep j t)) = MigratedNative (tr_evidence t)"
  "RemainingSupply (tr_evidence (keep j t)) = RemainingSupply (tr_evidence t) + bj_value j"
  "tr_balanceSlots (keep j t) = tr_balanceSlots t + (if bj_value j = 0 then 0 else 1)"
  by (simp_all add: keep_def Let_def)

lemma credit_fields:
  "OriginalSupply (tr_evidence (credit j t)) = OriginalSupply (tr_evidence t)"
  "tr_index (credit j t) = tr_index t" "tr_total (credit j t) = tr_total t + bj_value j"
  "MigratedNative (tr_evidence (credit j t)) = MigratedNative (tr_evidence t) + bj_value j"
  "RemainingSupply (tr_evidence (credit j t)) = RemainingSupply (tr_evidence t)"
  "tr_balanceSlots (credit j t) = tr_balanceSlots t + 1"
  by (simp_all add: credit_def Let_def)

lemma applyBalance_unmoved:
  assumes "applyBalance env iw j t = Inr t'" and "\<not> moved j"
  shows "t' = keep j t" "unat (tr_total t') = unat (tr_total t) + unat (bj_value j)"
  using assms no_overflow [of "tr_total t" "bj_value j"]
  by (auto simp: applyBalance_eq keep_fields split: if_splits)

lemma applyBalance_moved:
  assumes "applyBalance env iw j t = Inr t'" and "moved j" and "index_sorted (tr_index t)"
  shows "\<exists>i. t' = (credit j t)\<lparr>tr_index := i\<rparr> \<and> index_sorted i \<and>
      index_view i = index_view (tr_index t) ++ map_of (rev (job_patches env j))"
    and "unat (tr_total t + bj_value j) = unat (tr_total t) + unat (bj_value j)"
    and "bj_account j \<noteq> None \<and> rlp_enc_account env (job_account j) \<noteq> None"
proof -
  from assms(1,2) obtain a where a: "bj_account j = Some a"
    and run: "bindR (patchAccount env iw (bj_hash j) (a\<lparr>Balance := Some (bj_value j)\<rparr>) (credit j t))
      (tr_put iw ns_s (bj_slot j) []) = Inr t'"
    and no: "\<not> snd (AddOverflow (tr_total t) (bj_value j))"
    by (auto simp: applyBalance_eq split: if_splits option.splits)
  from run obtain blob t3 where blob: "rlp_enc_account env (a\<lparr>Balance := Some (bj_value j)\<rparr>) = Some blob"
    and put1: "tr_put iw ns_p (bj_hash j) blob (credit j t) = Inr t3" and put2: "tr_put iw ns_s (bj_slot j) [] t3 = Inr t'"
    by (auto simp: patchAccount_def bindR_eq_Inr split: option.splits)
  from tr_put_ok [OF _ put1] assms(3) obtain i3 where i3: "t3 = (credit j t)\<lparr>tr_index := i3\<rparr>" "index_sorted i3"
    "index_view i3 = (index_view (tr_index t))(ns_p # bj_hash j \<mapsto> blob)" by (auto simp: credit_fields)
  from tr_put_ok [OF _ put2] i3 obtain i4 where i4: "t' = (credit j t)\<lparr>tr_index := i4\<rparr>" "index_sorted i4"
    "index_view i4 = (index_view (tr_index t))(ns_p # bj_hash j \<mapsto> blob, ns_s # bj_slot j \<mapsto> [])" by auto
  have blob': "rlp_enc_account env (job_account j) = Some blob" using a blob by (simp add: job_account_def)
  show "\<exists>i. t' = (credit j t)\<lparr>tr_index := i\<rparr> \<and> index_sorted i \<and>
      index_view i = index_view (tr_index t) ++ map_of (rev (job_patches env j))"
    using i4 assms(2) blob' by (auto simp: job_patches_def)
  show "bj_account j \<noteq> None \<and> rlp_enc_account env (job_account j) \<noteq> None" using a blob' by simp
  show "unat (tr_total t + bj_value j) = unat (tr_total t) + unat (bj_value j)" using no by (rule no_overflow)
qed

lemma applied_step:
  assumes ap: "applied env v0 js t" and run: "applyBalance env iw j t = Inr t'"
  shows "applied env v0 (js @ [j]) t'"
proof -
  have tot: "unat (tr_total t) = job_sum js" and sorted: "index_sorted (tr_index t)" using ap by (simp_all add: applied_def)
  have split: "job_sum (filter moved js) + job_sum (filter (\<lambda>j. \<not> moved j) js) = job_sum js"
    by (rule job_sum_split [symmetric])
  show ?thesis
  proof (cases "moved j")
    case True
    from applyBalance_moved [OF run True sorted] obtain i where i: "t' = (credit j t)\<lparr>tr_index := i\<rparr>" "index_sorted i"
      "index_view i = index_view (tr_index t) ++ map_of (rev (job_patches env j))"
      and sum: "unat (tr_total t + bj_value j) = unat (tr_total t) + unat (bj_value j)"
      and acc: "bj_account j \<noteq> None \<and> rlp_enc_account env (job_account j) \<noteq> None" by blast
    have "job_sum (filter moved js) + unat (bj_value j) < 2 ^ 256"
      using sum tot split u256_bound [of "tr_total t + bj_value j"] by linarith
    with ap i(1) True have "unat (MigratedNative (tr_evidence t')) = job_sum (filter moved (js @ [j]))"
      by (simp add: applied_def u256_add credit_fields)
    moreover have "bj_value j \<noteq> 0" using True by (simp add: moved_def)
    ultimately show ?thesis using ap i sum acc True
      by (auto simp: applied_def credit_fields)
  next
    case False
    note m = applyBalance_unmoved [OF run False]
    have "job_sum (filter (\<lambda>j. \<not> moved j) js) + unat (bj_value j) < 2 ^ 256"
      using m(2) tot split u256_bound [of "tr_total t'"] by linarith
    with ap m(1) False have "unat (RemainingSupply (tr_evidence t')) = job_sum (filter (\<lambda>j. \<not> moved j) (js @ [j]))"
      by (simp add: applied_def u256_add keep_fields)
    with ap m False show ?thesis by (auto simp: applied_def job_patches_def keep_fields)
  qed
qed

lemma apply_jobs_ok:
  "applied env v0 js t \<Longrightarrow> apply_jobs env iw bw jobs t = Inr t' \<Longrightarrow> applied env v0 (js @ jobs) t'"
proof (induction jobs arbitrary: js t)
  case (Cons j jobs)
  then obtain t1 where t1: "applyBalance env iw j t = Inr t1" "apply_jobs env iw bw jobs t1 = Inr t'"
    by (auto simp: bindR_eq_Inr split: if_splits)
  from Cons.IH [OF applied_step [OF Cons.prems(1) t1(1)] t1(2)] show ?case by simp
qed simp

section \<open>Batches apply what was queued\<close>

text \<open>While balances are applied only the namespaces \<open>p\<close> and \<open>s\<close> are written.\<close>

abbreviation only_patches :: "(bytes \<rightharpoonup> bytes) \<Rightarrow> ovmIndex \<Rightarrow> bool" where
  "only_patches \<equiv> only_ns {ns_p, ns_s}"

lemmas only_patches_def = only_ns_def [of "{ns_p, ns_s}"]

lemma only_patches_apply:
  assumes "only_patches d0 (tr_index t)" and "applyBalance env iw j t = Inr t'"
  shows "only_patches d0 (tr_index t')"
proof (cases "moved j")
  case True
  from assms(2) True obtain a where
    run: "bindR (patchAccount env iw (bj_hash j) (a\<lparr>Balance := Some (bj_value j)\<rparr>) (credit j t))
      (tr_put iw ns_s (bj_slot j) []) = Inr t'"
    by (auto simp: applyBalance_eq split: if_splits option.splits)
  then obtain blob t3 where "tr_put iw ns_p (bj_hash j) blob (credit j t) = Inr t3" "tr_put iw ns_s (bj_slot j) [] t3 = Inr t'"
    by (auto simp: patchAccount_def bindR_eq_Inr split: option.splits)
  with assms(1) show ?thesis
    by (auto simp: tr_put_def bindR_eq_Inr mapErr_eq_Inr credit_fields intro: only_ns_put)
next
  case False
  with assms show ?thesis using applyBalance_unmoved [OF assms(2) False] by (simp add: keep_fields)
qed

lemma only_patches_apply_jobs:
  "only_patches d0 (tr_index t) \<Longrightarrow> apply_jobs env iw bw jobs t = Inr t' \<Longrightarrow> only_patches d0 (tr_index t')"
proof (induction jobs arbitrary: t)
  case (Cons j jobs)
  then obtain t1 where "applyBalance env iw j t = Inr t1" "apply_jobs env iw bw jobs t1 = Inr t'"
    by (auto simp: bindR_eq_Inr split: if_splits)
  with Cons.IH [of t1] only_patches_apply [OF Cons.prems(1)] show ?case by blast
qed simp

text \<open>What an inspection finds out: the source account of the holder, and whether its tokens stay.\<close>

definition inspected :: "geth_env \<Rightarrow> state_view \<Rightarrow> bool \<Rightarrow> (bytes \<rightharpoonup> bytes) \<Rightarrow> ovmBalanceJob \<Rightarrow> bool" where
  "inspected env sv retention d j \<longleftrightarrow>
     bj_hash j = keccak256 env (bj_address j) \<and>
     (bj_value j \<noteq> 0 \<and> bj_address j \<noteq> ovmETHAddress \<longrightarrow>
        (\<exists>a. bj_account j = Some a \<and> account_at env sv (bj_hash j) = Inr a \<and> Balance a = Some 0 \<and>
           bj_contract j = (CodeHash a \<noteq> EmptyCodeHash env) \<and>
           bj_retain j = (bj_contract j \<and> ((retention \<and> d (ovmERC20RetainPrefix # bj_address j) \<noteq> None) \<or>
             d (ns_f # bj_address j) \<noteq> None))))"

lemma inspect_ok:
  assumes "inspect env sv bw retention i job r = (Inr job', r')" and "only_patches d i"
    and "bj_hash job = keccak256 env (bj_address job)" and "\<not> bj_contract job" and "\<not> bj_retain job"
  shows "inspected env sv retention d job' \<and> bj_address job' = bj_address job \<and> bj_slot job' = bj_slot job \<and>
    bj_value job' = bj_value job"
proof (cases "bj_address job = ovmETHAddress \<or> bj_value job = 0")
  case True
  with assms show ?thesis by (auto simp: inspect_def inspected_def split: if_splits)
next
  case False
  have ns: "ovmERC20RetainPrefix \<noteq> ns_p" "ovmERC20RetainPrefix \<noteq> ns_s" by (simp_all add: ovmERC20RetainPrefix_def)
  have dur: "index_durable i (pre # k) = d (pre # k)" if "pre \<noteq> ns_p" "pre \<noteq> ns_s" for pre k
    using assms(2) that by (simp add: only_patches_def)
  obtain a where a: "reader_read env sv (bj_hash job) r = (Inr a, r')"
    using assms(1) False by (auto simp: inspect_def split: if_splits sum.splits prod.splits)
  let ?j1 = "job\<lparr>bj_account := Some a, bj_contract := (CodeHash a \<noteq> EmptyCodeHash env)\<rparr>"
  have bal: "Balance a = Some 0" and job': "job' = ?j1 \<and> CodeHash a = EmptyCodeHash env \<or>
    CodeHash a \<noteq> EmptyCodeHash env \<and> job' = ?j1\<lparr>bj_retain :=
      (retention \<and> index_durable i (ovmERC20RetainPrefix # bj_address job) \<noteq> None) \<or> index_durable i (ns_f # bj_address job) \<noteq> None\<rparr>"
    using assms(1) False a
    by (auto simp: inspect_def inspect_get_def prefixedKey_def bindR_eq_Inr Let_def split: if_splits)
  from job' bal a False assms(3-5) reader_read_result [OF a] show ?thesis
    by (auto simp: inspected_def dur ns)
qed

definition submitted :: "kv \<Rightarrow> ovmBalanceJob \<Rightarrow> geth_env \<Rightarrow> bool" where
  "submitted kv j env \<longleftrightarrow> decode_job env kv = Inr (bj_address j, bj_slot j, bj_value j)"

text \<open>
  The invariant of a batch after the entries \<open>kvs\<close>: its jobs, applied and queued ones, are the
  entries in order; without a latched failure every one was inspected.
\<close>

definition batch_ok ::
  "geth_env \<Rightarrow> state_view \<Rightarrow> bool \<Rightarrow> int \<Rightarrow> u256 \<times> (bytes \<rightharpoonup> bytes) \<Rightarrow> (bytes \<rightharpoonup> bytes) \<Rightarrow> kv list \<Rightarrow> ovmBalanceJob list \<Rightarrow>
   ovmBalanceBatch \<Rightarrow> bool" where
  "batch_ok env sv retention workers v0 d0 kvs js b \<longleftrightarrow>
     only_patches d0 (tr_index (bb_transformer b)) \<and> applied env v0 js (bb_transformer b) \<and>
     list_all2 (\<lambda>kv j. submitted kv j env) kvs (js @ bb_queue b) \<and>
     (bb_failure b = None \<longrightarrow> (\<forall>j \<in> set (js @ bb_queue b). inspected env sv retention d0 j)) \<and>
     int (length (bb_queue b)) \<le> 2 * normalizeMigrateWorkers workers \<and>
     int (length (bb_readers b)) \<le> normalizeMigrateWorkers workers"

lemma batch_drain_ok:
  assumes "batch_ok env sv retention workers v0 d0 kvs js b" and "batch_drain env iw bw b = Inr b'"
  shows "batch_ok env sv retention workers v0 d0 kvs (js @ bb_queue b) b' \<and> bb_queue b' = [] \<and> bb_failure b' = None"
proof -
  from assms(2) obtain t where t: "bb_failure b = None" "apply_jobs env iw bw (bb_queue b) (bb_transformer b) = Inr t"
    "b' = b\<lparr>bb_transformer := t, bb_queue := []\<rparr>"
    by (auto simp: batch_drain_def migrateRunFailure_load_def bindR_eq_Inr split: option.splits)
  from assms(1) t(1,2) apply_jobs_ok [of env v0 js "bb_transformer b" iw bw "bb_queue b" t]
    only_patches_apply_jobs [of d0 "bb_transformer b" env iw bw "bb_queue b" t]
  have "applied env v0 (js @ bb_queue b) t" "only_patches d0 (tr_index t)" by (simp_all add: batch_ok_def)
  moreover have "0 \<le> normalizeMigrateWorkers workers" by (simp add: normalizeMigrateWorkers_def minMigrateWorkers_def)
  ultimately show ?thesis using assms(1) t by (simp add: batch_ok_def)
qed

lemma batch_submit_ok:
  assumes ok: "batch_ok env sv retention workers v0 d0 kvs js b" and kv: "decode_job env kv = Inr (addr, slot, val)"
    and run: "batch_submit env sv iw bw workers retention addr slot val b = Inr b'"
  shows "\<exists>js'. batch_ok env sv retention workers v0 d0 (kvs @ [kv]) js' b'"
proof -
  let ?n = "normalizeMigrateWorkers workers"
  let ?job = "\<lparr>bj_address = addr, bj_slot = slot, bj_hash = keccak256 env addr, bj_value = val,
     bj_account = None, bj_contract = False, bj_retain = False\<rparr>"
  define full where "full = (int (length (bb_queue b)) = 2 * ?n)"
  have n: "2 \<le> ?n" by (simp add: normalizeMigrateWorkers_def minMigrateWorkers_def)
  from run obtain b1 where b1: "(if full then batch_drain env iw bw b else Inr b) = Inr b1"
    unfolding batch_submit_def full_def by (auto simp: bindR_eq_Inr split: if_splits)
  obtain r b2 where r: "borrowReader b1 = (r, b2)" by fastforce
  obtain res r' where res: "inspect env sv bw retention (tr_index (bb_transformer b1)) ?job r = (res, r')" by fastforce
  define b3 where "b3 = returnReader workers r' b2"
  from run b1 r res have b': "b' = (case res of
      Inl e \<Rightarrow> b3\<lparr>bb_queue := bb_queue b3 @ [?job], bb_failure := snd (migrateRunFailure_record (bb_failure b3) e)\<rparr>
    | Inr job' \<Rightarrow> b3\<lparr>bb_queue := bb_queue b3 @ [job']\<rparr>)"
    by (auto simp: batch_submit_def full_def b3_def bindR_eq_Inr Let_def split: if_splits sum.splits)
  obtain js1 where js1: "batch_ok env sv retention workers v0 d0 kvs js1 b1" "int (length (bb_queue b1)) < 2 * ?n"
  proof (cases full)
    case True
    with b1 have "batch_drain env iw bw b = Inr b1" by simp
    from batch_drain_ok [OF ok this] n that [of "js @ bb_queue b"] show thesis by simp
  next
    case False
    with b1 have "b1 = b" by simp
    with ok False that [of js] show thesis by (auto simp: batch_ok_def full_def)
  qed
  have b3: "bb_transformer b3 = bb_transformer b1" "bb_queue b3 = bb_queue b1" "bb_failure b3 = bb_failure b1"
    "int (length (bb_readers b3)) \<le> ?n"
    using r js1(1) by (auto simp: b3_def returnReader_def borrowReader_def batch_ok_def split: list.splits if_splits)
  have pas: "only_patches d0 (tr_index (bb_transformer b1))" using js1(1) by (simp add: batch_ok_def)
  have la: "list_all2 (\<lambda>kv j. submitted kv j env) (kvs @ [kv]) (js1 @ bb_queue b1 @ [j])" if "submitted kv j env" for j
    using js1(1) that list_all2_appendI [of "\<lambda>kv j. submitted kv j env" kvs "js1 @ bb_queue b1" "[kv]" "[j]"]
    by (simp add: batch_ok_def)
  show ?thesis
  proof (cases res)
    case (Inl e)
    from la [of ?job] have "list_all2 (\<lambda>kv j. submitted kv j env) (kvs @ [kv]) (js1 @ bb_queue b1 @ [?job])"
      using kv by (simp add: submitted_def)
    then have "batch_ok env sv retention workers v0 d0 (kvs @ [kv]) js1 b'"
      using js1 b3 b' Inl unfolding batch_ok_def by (auto simp: migrateRunFailure_record_def)
    then show ?thesis by blast
  next
    case (Inr job')
    from inspect_ok [OF res [unfolded Inr] pas] have
      j: "inspected env sv retention d0 job'" "submitted kv job' env" using kv by (simp_all add: submitted_def)
    from la [OF j(2)] j(1) have "batch_ok env sv retention workers v0 d0 (kvs @ [kv]) js1 b'"
      using js1 b3 b' Inr unfolding batch_ok_def by auto
    then show ?thesis by blast
  qed
qed

lemma ordered_loop_ok:
  "batch_ok env sv retention workers v0 d0 seen js b \<Longrightarrow>
   ordered_loop env sv iw bw workers retention poll n kvs b = Inr b' \<Longrightarrow>
     \<exists>js'. batch_ok env sv retention workers v0 d0 (seen @ kvs) js' b'"
proof (induction kvs arbitrary: seen js n b)
  case (Cons kv kvs)
  from Cons.prems(2) obtain addr slot val b1 where kv: "decode_job env kv = Inr (addr, slot, val)"
    and b1: "batch_submit env sv iw bw workers retention addr slot val b = Inr b1"
    and rest: "ordered_loop env sv iw bw workers retention poll (n + 1) kvs b1 = Inr b'"
    by (auto simp: bindR_eq_Inr split: if_splits)
  from batch_submit_ok [OF Cons.prems(1) kv b1] obtain js1 where
    "batch_ok env sv retention workers v0 d0 (seen @ [kv]) js1 b1" by blast
  from Cons.IH [OF this rest] show ?case by simp
qed (auto split: if_splits)

definition transformer_start :: "ovmTransformer \<Rightarrow> bool" where
  "transformer_start t \<longleftrightarrow> index_sorted (tr_index t) \<and> tr_total t = 0 \<and> tr_balanceSlots t = 0 \<and>
     MigratedNative (tr_evidence t) = 0 \<and> RemainingSupply (tr_evidence t) = 0"

lemma inspectOrdered_ok:
  assumes start: "transformer_start t" and run: "inspectOrderedBalances env sv iw bw workers retention poll brk t = Inr t'"
  shows "\<exists>kvs js. ascending kvs \<and> map_of kvs = (\<lambda>k. if prefix [ns_q] k then index_view (tr_index t) k else None) \<and>
    list_all2 (\<lambda>kv j. submitted kv j env) kvs js \<and> applied env (OriginalSupply (tr_evidence t), index_view (tr_index t)) js t' \<and>
    (\<forall>j \<in> set js. inspected env sv retention (index_view (tr_index t)) j)"
proof -
  have sorted: "index_sorted (tr_index t)" using start by (simp add: transformer_start_def)
  let ?v = "index_view (tr_index t)" and ?o = "(OriginalSupply (tr_evidence t), index_view (tr_index t))"
  from run obtain t1 where fl: "tr_flush iw t = Inr t1" by (auto simp: inspectOrderedBalances_def bindR_eq_Inr)
  from tr_flush_ok [OF sorted fl] obtain i where i: "t1 = t\<lparr>tr_index := i\<rparr>" "index_sorted i" "index_view i = ?v"
    "index_durable i = ?v" "ix_batch i = []" by blast
  let ?kvs = "NewIterator (ix_db i) [ns_q] []"
  let ?b = "\<lparr>bb_transformer = t1, bb_queue = [], bb_failure = None, bb_readers = []\<rparr>"
  from run fl i(1) obtain b1 b2 where loop: "ordered_loop env sv iw bw workers retention poll 0 ?kvs ?b = Inr b1"
    and dr: "batch_drain env iw bw b1 = Inr b2" and t': "t' = bb_transformer b2"
    by (auto simp: inspectOrderedBalances_def bindR_eq_Inr Let_def split: if_splits option.splits)
  have "batch_ok env sv retention workers ?o ?v [] [] ?b"
    using start i
    by (auto simp: batch_ok_def only_patches_def applied_def transformer_start_def normalizeMigrateWorkers_def minMigrateWorkers_def)
  from ordered_loop_ok [OF this loop] obtain js1 where "batch_ok env sv retention workers ?o ?v ?kvs js1 b1" by auto
  from batch_drain_ok [OF this dr] have ok: "batch_ok env sv retention workers ?o ?v ?kvs (js1 @ bb_queue b1) b2"
    "bb_queue b2 = []" "bb_failure b2 = None" by simp_all
  have asc: "ascending (ix_db i)" using i(2) by (simp add: index_sorted_def)
  have "map_of ?kvs k = (if prefix [ns_q] k then ?v k else None)" for k
  proof -
    have "map_of ?kvs k = Some u \<longleftrightarrow> prefix [ns_q] k \<and> map_of (ix_db i) k = Some u" for u
      using asc by (auto simp: ascending_map_of NewIterator_def le_append prefix_def)
    then have "map_of ?kvs k = (if prefix [ns_q] k then map_of (ix_db i) k else None)"
      by (intro option_ext) simp
    then show ?thesis using i(4) by (simp add: index_durable_def)
  qed
  moreover have "ascending ?kvs" using asc by (simp add: NewIterator_def)
  ultimately show ?thesis using ok t' unfolding batch_ok_def by (intro exI [of _ ?kvs] exI [of _ "js1 @ bb_queue b1"]) auto
qed

end
