(* ===== verification/OvmAudit.thy ===== *)
theory OvmAudit
  imports OvmBalances Manifest GoStd
begin

text \<open>
  The audit summary (\<^verbatim>\<open>ovm_audit.go\<close>): a strict walk over the members of a JSON object against
  the fields of a Go struct, canonical decimal integers, the arithmetic of a summary, and its
  agreement with the source head and with the accounting of the conversion. A JSON document is
  given as a tree whose objects keep the order and the duplicates of their members; parsing bytes
  into it is the standard decoder's.
\<close>

section \<open>Strict objects\<close>

datatype json =
    JNull
  | JBool bool
  | JNumber string
  | JString string
  | JArray "json list"
  | JObject "(string \<times> json) list"

text \<open>The fields of a struct: name, \<^verbatim>\<open>omitempty\<close>, and the fields of a nested struct.\<close>

datatype struct_schema = Struct "(string \<times> bool \<times> struct_schema option) list"

datatype audit_error =
    AuditNotObject
  | AuditField string
  | AuditNull string
  | AuditMissing
  | AuditInteger string
  | AuditVersion
  | AuditCoverage
  | AuditEmptyHash
  | AuditUnexplained
  | AuditScan
  | AuditCumulative
  | AuditCauses
  | AuditAhead
  | AuditHead
  | AuditTarget
  | AuditAmounts
  | AuditOverflow
  | AuditDifference

function auditJSONFields :: "struct_schema \<Rightarrow> json \<Rightarrow> (audit_error, unit) result"
  and audit_members ::
    "(string \<times> bool \<times> struct_schema option) list \<Rightarrow> string list \<Rightarrow> (string \<times> json) list \<Rightarrow>
     (audit_error, string list) result" where
  "auditJSONFields (Struct fs) j =
     (case j of
        JObject ms \<Rightarrow>
          bindR (audit_members fs [] ms) (\<lambda>seen.
            if \<exists>f \<in> set fs. fst f \<notin> set seen \<and> \<not> fst (snd f) then Inl AuditMissing else Inr ())
      | _ \<Rightarrow> Inl AuditNotObject)"
| "audit_members fs seen [] = Inr seen"
| "audit_members fs seen ((name, val) # ms) =
     (case map_of fs name of
        None \<Rightarrow> Inl (AuditField name)
      | Some (omit, sub) \<Rightarrow>
          if name \<in> set seen then Inl (AuditField name)
          else if val = JNull then Inl (AuditNull name)
          else
            bindR (case sub of None \<Rightarrow> Inr () | Some s \<Rightarrow> auditJSONFields s val) (\<lambda>_.
              audit_members fs (name # seen) ms))"
  by pat_completeness auto
termination
  by (relation "measure (\<lambda>x. case x of Inl (s, j) \<Rightarrow> 2 * size j | Inr (f, seen, ms) \<Rightarrow> 2 * size_list (size_prod (\<lambda>_. 0) size) ms + 1)") auto

section \<open>Integers\<close>

text \<open>\<^verbatim>\<open>(*big.Int).SetString(s, 10)\<close> and \<^verbatim>\<open>(*big.Int).String\<close>.\<close>

definition big_SetString :: "string \<Rightarrow> int option" where
  "big_SetString s =
     (let (neg, ds) = (case s of [] \<Rightarrow> (False, [])
                       | c # cs \<Rightarrow> if c = CHR ''+'' then (False, cs) else if c = CHR ''-'' then (True, cs) else (False, s))
      in if ds = [] \<or> \<not> list_all is_digit ds then None
         else Some (if neg then - int (digits_val 0 ds) else int (digits_val 0 ds)))"

definition big_String :: "int \<Rightarrow> string" where
  "big_String z = (if z < 0 then CHR ''-'' # decimal (nat (- z)) else decimal (nat z))"

definition auditInteger :: "string \<Rightarrow> bool \<Rightarrow> (audit_error, int) result" where
  "auditInteger s unsig =
     (case big_SetString s of
        None \<Rightarrow> Inl (AuditInteger s)
      | Some v \<Rightarrow>
          if big_String v \<noteq> s \<or> (unsig \<and> (v < 0 \<or> v \<ge> 2 ^ 256)) then Inl (AuditInteger s) else Inr v)"

section \<open>The summary\<close>

record ovmAuditIdentity =
  ai_Version :: int
  ai_Genesis :: hash
  ai_ConfigHash :: hash
  ai_WitnessHash :: hash
  ai_To :: u64
  ai_ToHash :: hash
  ai_DeSeqBlock :: u64
  ai_SeqValidHeight :: u64
  ai_FirstSequencer :: address

record ovmAuditScan =
  as_Root :: hash
  as_CodeHash :: hash
  as_BalanceSlots :: u64
  as_Balances :: string
  as_Supply :: string
  as_Difference :: string

record ovmAuditDelta =
  ad_Balance :: string
  ad_Supply :: string
  ad_Difference :: string
  ad_Gas :: string
  ad_Suicide :: string
  ad_Unexplained :: string

record ovmAuditSummary =
  au_Version :: int
  au_Identity :: ovmAuditIdentity
  au_ClientVersion :: string
  au_From :: u64
  au_VerifiedBlocks :: u64
  au_Genesis :: ovmAuditScan
  au_Target :: ovmAuditScan
  au_Totals :: ovmAuditDelta
  au_ExecutionVerified :: bool
  au_AccountingReconciled :: bool
  au_IntervalCausesFullyExplained :: bool
  au_UnexplainedEvents :: u64
  au_GenesisDifferenceExplained :: bool
  au_PreviousDiagnosisDifference :: "string option"

record OVMAuditEvidence =
  ae_FileSHA256 :: hash
  ae_BalanceSum :: "u256 option"
  ae_SupplyDifference :: string
  ae_AuditHead :: "Head option"

text \<open>The two loops of \<^verbatim>\<open>validate\<close>.\<close>

definition audit_scan :: "ovmAuditScan \<Rightarrow> (audit_error, unit) result" where
  "audit_scan scan =
     bindR (auditInteger (as_Balances scan) True) (\<lambda>b.
     bindR (auditInteger (as_Supply scan) True) (\<lambda>s.
     bindR (auditInteger (as_Difference scan) False) (\<lambda>d.
       if b - s \<noteq> d then Inl AuditScan else Inr ())))"

text \<open>Errors of the first two are ignored by the code; a failing parse leaves a nil integer, which cannot happen here.\<close>

definition audit_pair :: "string \<Rightarrow> string \<Rightarrow> string \<Rightarrow> (audit_error, unit) result" where
  "audit_pair before after delta =
     bindR (auditInteger before False) (\<lambda>b.
     bindR (auditInteger after False) (\<lambda>a.
     bindR (auditInteger delta False) (\<lambda>d.
       if a - b \<noteq> d then Inl AuditCumulative else Inr ())))"

definition audit_validate :: "ovmAuditSummary \<Rightarrow> (audit_error, unit) result" where
  "audit_validate a =
     (let idn = au_Identity a; g = au_Genesis a; t = au_Target a; tot = au_Totals a in
      if au_Version a \<noteq> 1 \<or> ai_Version idn \<noteq> 1 then Inl AuditVersion
      else if au_ClientVersion a = [] \<or> au_From a \<noteq> 1 \<or> ai_To idn = 0 \<or> au_VerifiedBlocks a \<noteq> ai_To idn
      then Inl AuditCoverage
      else if zero_hash \<in> set [ai_Genesis idn, ai_ToHash idn, ai_ConfigHash idn, ai_WitnessHash idn,
                as_Root g, as_CodeHash g, as_Root t, as_CodeHash t]
      then Inl AuditEmptyHash
      else if \<not> au_ExecutionVerified a \<or> \<not> au_AccountingReconciled a \<or> \<not> au_IntervalCausesFullyExplained a \<or>
              \<not> au_GenesisDifferenceExplained a \<or> au_UnexplainedEvents a \<noteq> 0 \<or> ad_Unexplained tot \<noteq> ''0'' \<or>
              as_Difference g \<noteq> ''0''
      then Inl AuditUnexplained
      else
        bindR (audit_scan g) (\<lambda>_.
        bindR (audit_scan t) (\<lambda>_.
        bindR (audit_pair (as_Balances g) (as_Balances t) (ad_Balance tot)) (\<lambda>_.
        bindR (audit_pair (as_Supply g) (as_Supply t) (ad_Supply tot)) (\<lambda>_.
        bindR (audit_pair (as_Difference g) (as_Difference t) (ad_Difference tot)) (\<lambda>_.
        bindR (auditInteger (ad_Gas tot) False) (\<lambda>gas.
        bindR (auditInteger (ad_Suicide tot) False) (\<lambda>suicide.
          if gas < 0 \<or> suicide < 0 \<or> big_String (gas + suicide) \<noteq> ad_Difference tot then Inl AuditCauses
          else
            case au_PreviousDiagnosisDifference a of
              None \<Rightarrow> Inr ()
            | Some p \<Rightarrow> bindR (auditInteger p False) (\<lambda>_. Inr ())))))))))"

definition matchHead :: "ovmAuditSummary \<Rightarrow> Head \<Rightarrow> (audit_error, unit) result" where
  "matchHead a head =
     (let idn = au_Identity a in
      if ai_To idn > BlockNumber head then Inl AuditAhead
      else if ai_To idn = BlockNumber head \<and>
              (ai_ToHash idn \<noteq> BlockHash head \<or> as_Root (au_Target a) \<noteq> StateRoot head)
      then Inl AuditHead
      else Inr ())"

definition hex_char :: "nat \<Rightarrow> char" where
  "hex_char n = (if n < 10 then char_of (48 + n) else char_of (87 + n))"

definition Hex :: "bytes \<Rightarrow> string" where
  "Hex h = ''0x'' @ concat (map (\<lambda>b. [hex_char (unat b div 16), hex_char (unat b mod 16)]) h)"

definition matchAccounting ::
  "ovmAuditSummary \<Rightarrow> u64 \<Rightarrow> hash \<Rightarrow> u64 \<Rightarrow> u256 \<Rightarrow> u256 \<Rightarrow> (audit_error, unit) result" where
  "matchAccounting a height code slots balances supply =
     (let t = au_Target a;
          fs = [(Hex (as_CodeHash t), Hex code),
                    (as_Difference t, big_String (int (unat balances) - int (unat supply)))] @
                   (if ai_To (au_Identity a) = height then
                      [(decimal (unat (as_BalanceSlots t)), decimal (unat slots)),
                       (as_Balances t, decimal (unat balances)),
                       (as_Supply t, decimal (unat supply))]
                    else [])
      in if ai_To (au_Identity a) > height then Inl AuditAhead
         else if \<exists>f \<in> set fs. fst f \<noteq> snd f then Inl AuditTarget
         else Inr ())"

definition conversionEvidence ::
  "ovmAuditSummary \<Rightarrow> hash \<Rightarrow> Head \<Rightarrow> u256 option OVMBalanceEvidence \<Rightarrow> (audit_error, OVMAuditEvidence) result" where
  "conversionEvidence a digest head balances =
     bindR (matchHead a head) (\<lambda>_.
       case (OriginalSupply balances, MigratedNative balances, RemainingSupply balances) of
         (Some original, Some native, Some remaining) \<Rightarrow>
           (let (sum, overflow) = AddOverflow native remaining;
                difference = big_String (int (unat sum) - int (unat original))
            in if overflow then Inl AuditOverflow
               else if difference \<noteq> as_Difference (au_Target a) then Inl AuditDifference
               else Inr \<lparr>ae_FileSHA256 = digest, ae_BalanceSum = Some sum, ae_SupplyDifference = difference,
                 ae_AuditHead = (if ai_To (au_Identity a) < BlockNumber head
                   then Some \<lparr>BlockNumber = ai_To (au_Identity a), BlockHash = ai_ToHash (au_Identity a),
                              StateRoot = as_Root (au_Target a)\<rparr>
                   else None)\<rparr>)
       | _ \<Rightarrow> Inl AuditAmounts)"

section \<open>Canonical integers\<close>

lemma SetString_String [simp]: "big_SetString (big_String z) = Some z"
proof -
  obtain c cs where d: "decimal (nat z) = c # cs" and c: "is_digit c"
    using decimal_digits [of "nat z"] by (cases "decimal (nat z)") auto
  have "c \<noteq> CHR ''+''" "c \<noteq> CHR ''-''" using is_digit_not_sign [OF c] by auto
  with d show ?thesis
    using decimal_digits [of "nat z"] decimal_digits [of "nat (- z)"] digits_val_decimal [of "nat z"]
    by (auto simp: big_SetString_def big_String_def Let_def)
qed

lemma big_String_inject [simp]: "big_String x = big_String y \<longleftrightarrow> x = y"
  by (metis SetString_String option.inject)

lemma auditInteger_iff [result_simps]:
  "auditInteger s u = Inr v \<longleftrightarrow> s = big_String v \<and> (u \<longrightarrow> 0 \<le> v \<and> v < 2 ^ 256)"
  by (auto simp: auditInteger_def split: option.splits if_splits)

lemma big_String_zero: "''0'' = big_String 0"
  by (simp add: big_String_def decimal.simps) code_simp

lemma big_String_nat: "decimal n = big_String (int n)"
  by (simp add: big_String_def)

section \<open>Strict objects are exact\<close>

text \<open>What the walk accepts, field by field.\<close>

definition nested_ok :: "(string \<times> bool \<times> struct_schema option) list \<Rightarrow> string \<times> json \<Rightarrow> bool" where
  "nested_ok fs m = (case map_of fs (fst m) of
     None \<Rightarrow> False
   | Some (omit, None) \<Rightarrow> snd m \<noteq> JNull
   | Some (omit, Some s) \<Rightarrow> snd m \<noteq> JNull \<and> auditJSONFields s (snd m) = Inr ())"

lemma audit_members_iff:
  "audit_members fs seen ms = Inr out \<longleftrightarrow>
     out = rev (map fst ms) @ seen \<and> distinct (map fst ms) \<and> fst ` set ms \<inter> set seen = {} \<and>
     (\<forall>m \<in> set ms. nested_ok fs m)"
proof (induction ms arbitrary: seen)
  case (Cons m ms)
  obtain name val where m: "m = (name, val)" by (cases m)
  show ?case
  proof (cases "map_of fs name")
    case None
    then show ?thesis by (simp add: m nested_ok_def)
  next
    case (Some f)
    obtain omit sub where f: "f = (omit, sub)" by (cases f)
    have nested: "nested_ok fs m \<longleftrightarrow> val \<noteq> JNull \<and> (case sub of None \<Rightarrow> Inr () | Some s \<Rightarrow> auditJSONFields s val) = Inr ()"
      by (cases sub) (simp_all add: nested_ok_def m Some f)
    have "audit_members fs seen (m # ms) = Inr out \<longleftrightarrow>
        name \<notin> set seen \<and> nested_ok fs m \<and> audit_members fs (name # seen) ms = Inr out"
      unfolding nested by (auto simp: m Some f bindR_eq_Inr)
    then show ?thesis using Cons.IH [of "name # seen"] by (auto simp: m)
  qed
qed auto

lemma auditJSONFields_iff:
  "auditJSONFields (Struct fs) j = Inr () \<longleftrightarrow>
     (\<exists>ms. j = JObject ms \<and> distinct (map fst ms) \<and> (\<forall>m \<in> set ms. nested_ok fs m) \<and>
        (\<forall>f \<in> set fs. fst (snd f) \<or> fst f \<in> fst ` set ms))"
  by (cases j) (auto simp: bindR_eq_Inr audit_members_iff)

section \<open>Properties\<close>

text \<open>
  Property C24. The strict walk over an audit document accepts exactly the objects whose members
  are pairwise different known fields, none of them null, nested structs accepted in turn, with
  every field present that may not be omitted: no duplicate, alias, unknown or missing field
  passes at any depth.
\<close>

theorem audit_fields_exact:
  "auditJSONFields (Struct fs) j = Inr () \<longleftrightarrow>
     (\<exists>ms. j = JObject ms \<and> distinct (map fst ms) \<and>
        (\<forall>(name, val) \<in> set ms. val \<noteq> JNull \<and>
           (\<exists>omit sub. map_of fs name = Some (omit, sub) \<and>
              (case sub of None \<Rightarrow> True | Some s \<Rightarrow> auditJSONFields s val = Inr ()))) \<and>
        (\<forall>(name, omit, sub) \<in> set fs. omit \<or> name \<in> fst ` set ms))"
proof -
  have "nested_ok fs = (\<lambda>m. case m of (name, val) \<Rightarrow> val \<noteq> JNull \<and>
      (\<exists>omit sub. map_of fs name = Some (omit, sub) \<and>
         (case sub of None \<Rightarrow> True | Some s \<Rightarrow> auditJSONFields s val = Inr ())))"
    by (rule ext) (auto simp: nested_ok_def split: option.splits prod.splits)
  then show ?thesis unfolding auditJSONFields_iff by (simp only: case_prod_unfold)
qed

text \<open>
  Property C23. An accepted audit summary is arithmetically sound: its amounts are canonical
  decimals of integers, the genesis supply equals the genesis balances, the totals are the
  differences between target and genesis, and the surplus of balances over supply at the target is
  the sum of the two explained causes, so it is never negative.
\<close>

theorem audit_summary_sound:
  assumes "audit_validate a = Inr ()"
  shows "\<exists>gb tb ts gas sui. 0 \<le> gb \<and> gb < 2 ^ 256 \<and> 0 \<le> tb \<and> tb < 2 ^ 256 \<and> 0 \<le> ts \<and> ts < 2 ^ 256 \<and>
     0 \<le> gas \<and> 0 \<le> sui \<and> tb - ts = gas + sui \<and>
     as_Balances (au_Genesis a) = big_String gb \<and> as_Supply (au_Genesis a) = big_String gb \<and>
     as_Balances (au_Target a) = big_String tb \<and> as_Supply (au_Target a) = big_String ts \<and>
     as_Difference (au_Target a) = big_String (gas + sui) \<and>
     ad_Balance (au_Totals a) = big_String (tb - gb) \<and> ad_Supply (au_Totals a) = big_String (ts - gb) \<and>
     ad_Difference (au_Totals a) = big_String (gas + sui) \<and>
     ad_Gas (au_Totals a) = big_String gas \<and> ad_Suicide (au_Totals a) = big_String sui"
proof -
  have gd: "as_Difference (au_Genesis a) = big_String 0"
    using assms by (auto simp: audit_validate_def big_String_zero Let_def split: if_splits)
  from assms have steps: "audit_scan (au_Genesis a) = Inr ()" "audit_scan (au_Target a) = Inr ()"
    "audit_pair (as_Balances (au_Genesis a)) (as_Balances (au_Target a)) (ad_Balance (au_Totals a)) = Inr ()"
    "audit_pair (as_Supply (au_Genesis a)) (as_Supply (au_Target a)) (ad_Supply (au_Totals a)) = Inr ()"
    "audit_pair (as_Difference (au_Genesis a)) (as_Difference (au_Target a)) (ad_Difference (au_Totals a)) = Inr ()"
    by (auto simp: audit_validate_def bindR_eq_Inr Let_def split: if_splits)
  from assms obtain gas sui where c: "ad_Gas (au_Totals a) = big_String gas" "ad_Suicide (au_Totals a) = big_String sui"
    "0 \<le> gas" "0 \<le> sui" "ad_Difference (au_Totals a) = big_String (gas + sui)"
    by (auto simp: audit_validate_def bindR_eq_Inr auditInteger_iff Let_def not_less split: if_splits)
  from steps c gd show ?thesis
    by (fastforce simp: audit_scan_def audit_pair_def bindR_eq_Inr auditInteger_iff split: if_splits)
qed

end
