(* ===== verification/OvmTransform.thy ===== *)
theory OvmTransform
  imports OvmAudit
begin

text \<open>
  The conversion of OVM balances (\<^verbatim>\<open>transformOVMState\<close> of \<^verbatim>\<open>ovm_transform.go\<close>,
  \<^verbatim>\<open>validateOVMERC20RetainList\<close> of \<^verbatim>\<open>ovm_retention.go\<close>): recognise the metadata of the token
  contract, classify every storage slot by exactly one piece of evidence, queue and apply the
  balances, check the supply, rebuild the contract's storage and the accounts. The iterators and
  lookups of the source tries are those of \<open>state_view\<close>; polls and broken iterators are the
  fields of \<open>ovm_world\<close>.
\<close>

section \<open>Definitions\<close>

record ovm_world =
  ow_lib :: artifact_keys
  ow_index :: index_world
  ow_writer :: writer_world
  ow_batch :: batch_world
  ow_cursor :: "byte \<Rightarrow> cursor_world"
  ow_retainPoll :: faults
  ow_retainBreak :: "nat option"
  ow_stringPoll :: "hash \<Rightarrow> faults"
  ow_leafLease :: faults
  ow_orderPoll :: faults
  ow_orderBreak :: "nat option"
  ow_storagePoll :: faults
  ow_storageBreak :: "nat option"
  ow_codePoll :: bool
  ow_accountPoll :: faults
  ow_accountBreak :: "nat option"

text \<open>What the transformer uses of \<^verbatim>\<open>ovmInputs\<close>.\<close>

record ovmInputs =
  in_audit :: "ovmAuditSummary option"
  in_code :: bytes
  in_retention :: bool

definition storageValue :: "geth_env \<Rightarrow> state_view \<Rightarrow> hash \<Rightarrow> (ovm_error, u256) result" where
  "storageValue env sv slot =
     (if sv_storageOpen sv then Inl OvmOpenTrie
      else
        case sv_storageGet sv (ovmStorageHash env slot) of
          None \<Rightarrow> Inl OvmReadTrie
        | Some blob \<Rightarrow> decodeOVMValue env blob)"

fun retain_loop ::
  "geth_env \<Rightarrow> state_view \<Rightarrow> faults \<Rightarrow> nat \<Rightarrow> kv list \<times> bool \<Rightarrow> ovmAccountReader \<Rightarrow> (ovm_error, unit) result" where
  "retain_loop env sv poll n ([], err) r = (if err then Inl OvmIterate else if poll n then Inl OvmCanceled else Inr ())"
| "retain_loop env sv poll n ((key, val) # kvs, err) r =
     (if poll n then Inl OvmCanceled
      else if length key \<noteq> 1 + AddressLength \<or> val \<noteq> [1] then Inl OvmRetainRecord
      else
        let addr = drop 1 key in
        case reader_read env sv (keccak256 env addr) r of
          (Inl e, r') \<Rightarrow> Inl e
        | (Inr account, r') \<Rightarrow>
            if addr = ovmETHAddress \<or> CodeHash account = EmptyCodeHash env then Inl OvmRetainNotContract
            else retain_loop env sv poll (n + 1) (kvs, err) r')"

text \<open>The entries an iterator over a namespace of the index returns, and whether it breaks off.\<close>

definition index_iter :: "nat option \<Rightarrow> byte \<Rightarrow> ovmIndex \<Rightarrow> kv list \<times> bool" where
  "index_iter brk pre i =
     (let es = NewIterator (ix_db i) [pre] [] in case brk of None \<Rightarrow> (es, False) | Some n \<Rightarrow> (take n es, True))"

definition validateOVMERC20RetainList ::
  "geth_env \<Rightarrow> state_view \<Rightarrow> ovm_world \<Rightarrow> ovmIndex \<Rightarrow> (ovm_error, unit) result" where
  "validateOVMERC20RetainList env sv ow i =
     retain_loop env sv (ow_retainPoll ow) 0 (index_iter (ow_retainBreak ow) ovmERC20RetainPrefix i) newReader"

fun put_chunks ::
  "geth_env \<Rightarrow> ovm_world \<Rightarrow> hash \<Rightarrow> u256 \<Rightarrow> nat list \<Rightarrow> ovmTransformer \<Rightarrow> (ovm_error, ovmTransformer) result" where
  "put_chunks env ow slot base [] t = Inr t"
| "put_chunks env ow slot base (n # ns) t =
     (if ow_stringPoll ow slot n then Inl OvmCanceled
      else
        let key = Bytes32 (base + of_nat n) in
        bindR (tr_put (ow_index ow) ns_k (keccak256 env key) [slot ! 31] t) (put_chunks env ow slot base ns))"

definition recognizeString ::
  "geth_env \<Rightarrow> state_view \<Rightarrow> ovm_world \<Rightarrow> hash \<Rightarrow> ovmTransformer \<Rightarrow> (ovm_error, ovmTransformer) result" where
  "recognizeString env sv ow slot t =
     bindR (storageValue env sv slot) (\<lambda>v.
       let word = Bytes32 v in
       if word ! 31 AND 1 = 0 then
         (let len = unat (word ! 31) div 2 in
          if len > 31 then Inl OvmShortLength
          else if \<exists>b \<in> set (take (31 - len) (drop len word)). b \<noteq> 0 then Inl OvmShortPadding
          else Inr t)
       else
         (let len = unat (drop_bit 1 v) in
          if \<not> len < 2 ^ 64 \<or> len < 32 then Inl OvmLongLength
          else
            let chunks = (len - 1) div 32 + 1; base = of_nat (be_nat (keccak256 env slot))
            in put_chunks env ow slot base [0..<chunks] t))"

definition slot_number :: "nat \<Rightarrow> hash" where
  "slot_number n = be_bytes 32 n"

fun metadata_loop ::
  "geth_env \<Rightarrow> state_view \<Rightarrow> ovm_world \<Rightarrow> nat list \<Rightarrow> ovmTransformer \<Rightarrow> (ovm_error, ovmTransformer) result" where
  "metadata_loop env sv ow [] t = Inr t"
| "metadata_loop env sv ow (n # ns) t =
     (let slot = slot_number n; h = ovmStorageHash env slot in
      if n < 2 then
        bindR (storageValue env sv slot) (\<lambda>v.
          if v \<noteq> 0 then Inl OvmMappingBase else metadata_loop env sv ow ns t)
      else
        bindR (tr_put (ow_index ow) ns_k h [of_nat n] t) (\<lambda>t1.
        bindR (if n = 3 \<or> n = 4 then recognizeString env sv ow slot t1 else Inr t1)
          (metadata_loop env sv ow ns)))"

definition recognizeMetadata ::
  "geth_env \<Rightarrow> state_view \<Rightarrow> ovm_world \<Rightarrow> ovmTransformer \<Rightarrow> (ovm_error, ovmTransformer) result" where
  "recognizeMetadata env sv ow t = bindR (metadata_loop env sv ow [0..<7] t) (tr_flush (ow_index ow))"

text \<open>One storage key at all cursors: how many namespaces hold it, and the holder found.\<close>

fun probe ::
  "ovm_world \<Rightarrow> kv list \<Rightarrow> bytes \<Rightarrow> ovmStorageCursor list \<Rightarrow>
   (ovm_error, nat \<times> bytes option \<times> ovmStorageCursor list) result" where
  "probe ow db key [] = Inr (0, None, [])"
| "probe ow db key (c # cs) =
     bindR (mapErr OvmCursor (cursor_get (ow_cursor ow (cu_prefix c)) db key c)) (\<lambda>(v, c').
     bindR (probe ow db key cs) (\<lambda>(found, addr, cs').
       Inr (found + (if v = None then 0 else 1), (if v \<noteq> None \<and> cu_prefix c = ns_b then v else addr), c' # cs')))"

definition classifySlot ::
  "geth_env \<Rightarrow> ovm_world \<Rightarrow> bytes \<Rightarrow> u256 \<Rightarrow> ovmStorageCursor list \<times> ovmTransformer \<Rightarrow>
   (ovm_error, ovmStorageCursor list \<times> ovmTransformer) result" where
  "classifySlot env ow key val st =
     (case st of (cursors, t) \<Rightarrow>
        bindR (probe ow (ix_db (tr_index t)) key cursors) (\<lambda>(found, addr, cursors').
          if found \<noteq> 1 then Inl OvmOwnership
          else
            case addr of
              None \<Rightarrow> Inr (cursors', t)
            | Some a \<Rightarrow>
                if length a \<noteq> 20 then Inl OvmIndexedAddress
                else bindR (queueBalance env (ow_index ow) a key val t) (\<lambda>t'. Inr (cursors', t'))))"

fun classify_loop ::
  "geth_env \<Rightarrow> ovm_world \<Rightarrow> nat \<Rightarrow> kv list \<Rightarrow> ovmStorageCursor list \<times> ovmTransformer \<Rightarrow>
   (ovm_error, ovmStorageCursor list \<times> ovmTransformer) result" where
  "classify_loop env ow n [] st = (if ow_leafLease ow n then Inl OvmCanceled else Inr st)"
| "classify_loop env ow n ((key, blob) # kvs) st =
     (if ow_leafLease ow n then Inl OvmCanceled
      else
        bindR (decodeOVMValue env blob) (\<lambda>val.
          if length key \<noteq> 32 then Inl OvmStorageKeyLength
          else bindR (classifySlot env ow key val st) (classify_loop env ow (n + 1) kvs)))"

definition classifyStorage ::
  "geth_env \<Rightarrow> state_view \<Rightarrow> ovm_world \<Rightarrow> int \<Rightarrow> bool \<Rightarrow> ovmTransformer \<Rightarrow> (ovm_error, ovmTransformer) result" where
  "classifyStorage env sv ow workers retention t =
     (case sv_storageIter sv of
        None \<Rightarrow> Inl OvmOpenTrie
      | Some (leaves, err) \<Rightarrow>
          bindR (classify_loop env ow 0 leaves ([newCursor ns_b, newCursor ns_a, newCursor ns_k], t)) (\<lambda>(cs, t1).
            if err then Inl OvmIterate
            else inspectOrderedBalances env sv (ow_index ow) (ow_batch ow) workers retention
                   (ow_orderPoll ow) (ow_orderBreak ow) t1))"

text \<open>\<^verbatim>\<open>uint256.Int.Bytes\<close>: big-endian without leading zeros.\<close>

definition u256_Bytes :: "u256 \<Rightarrow> bytes" where
  "u256_Bytes v = dropWhile (\<lambda>b. b = 0) (Bytes32 v)"

definition rebuildStorage ::
  "geth_env \<Rightarrow> state_view \<Rightarrow> ovm_world \<Rightarrow> hash \<Rightarrow> kv list \<Rightarrow> ovmTransformer \<Rightarrow>
   (ovm_error, hash \<times> kv list \<times> ovmTransformer) result" where
  "rebuildStorage env sv ow owner db t =
     (let supplyHash = ovmStorageHash env (slot_number 2); remaining = RemainingSupply (tr_evidence t) in
      case (if remaining \<noteq> 0 then rlp_enc_bytes env (u256_Bytes remaining) else Some []) of
        None \<Rightarrow> Inl OvmEncode
      | Some supply \<Rightarrow>
          bindR (tr_put (ow_index ow) ns_s supplyHash supply t) (\<lambda>t1.
          bindR (tr_flush (ow_index ow) t1) (\<lambda>t2.
            case sv_storageIter sv of
              None \<Rightarrow> Inl OvmOpenTrie
            | Some it \<Rightarrow>
                bindR (mapErr OvmRebuild (rebuildPatchedTrie env (ow_lib ow) (ow_writer ow) (ow_storagePoll ow) db owner it
                         (index_iter (ow_storageBreak ow) ns_s (tr_index t2)) ns_s)) (\<lambda>(root, db').
                Inr (root, db', t2)))))"

definition rebuildAccounts ::
  "geth_env \<Rightarrow> state_view \<Rightarrow> ovm_world \<Rightarrow> kv list \<Rightarrow> ovmTransformer \<Rightarrow> (ovm_error, hash \<times> kv list) result" where
  "rebuildAccounts env sv ow db t =
     (case sv_accountIter sv of
        None \<Rightarrow> Inl OvmOpenTrie
      | Some it \<Rightarrow>
          mapErr OvmRebuild (rebuildPatchedTrie env (ow_lib ow) (ow_writer ow) (ow_accountPoll ow) db zero_hash it
            (index_iter (ow_accountBreak ow) ns_p (tr_index t)) ns_p))"

text \<open>The checks on the amounts before anything is rebuilt.\<close>

definition check_supply :: "ovmInputs \<Rightarrow> Head \<Rightarrow> state_account \<Rightarrow> u256 \<Rightarrow> ovmTransformer \<Rightarrow> (ovm_error, unit) result" where
  "check_supply inputs head account supply t =
     bindR (case in_audit inputs of
              Some a \<Rightarrow> mapErr (\<lambda>_. OvmAudit)
                (matchAccounting a (BlockNumber head) (CodeHash account) (tr_balanceSlots t) (tr_total t) supply)
            | None \<Rightarrow> ensure (tr_total t = supply) OvmSupplyMismatch) (\<lambda>_.
       if snd (SubOverflow (tr_total t) (MigratedNative (tr_evidence t))) then Inl OvmUnderflow
       else if tr_total t - MigratedNative (tr_evidence t) \<noteq> RemainingSupply (tr_evidence t) then Inl OvmConservation
       else Inr ())"

text \<open>Writing the replacement code of the token contract.\<close>

definition write_code :: "geth_env \<Rightarrow> ovm_world \<Rightarrow> hash \<Rightarrow> bytes \<Rightarrow> kv list \<Rightarrow> (ovm_error, kv list) result" where
  "write_code env ow owner code db =
     (case direct_Code (ow_lib ow) (ow_writer ow) owner (keccak256 env code) code
             (newDirectStateWriter (ow_writer ow) db HashScheme) of
        (Some e, w) \<Rightarrow> Inl (OvmWriter e)
      | (None, w) \<Rightarrow>
          (case direct_CloseContext (ow_writer ow) (ow_codePoll ow) w of
             (Some e, w') \<Rightarrow> Inl (OvmWriter e)
           | (None, w') \<Rightarrow> Inr (dw_db w')))"

definition transformer_new :: "ovmIndex \<Rightarrow> u256 \<Rightarrow> ovmTransformer" where
  "transformer_new i supply = \<lparr>tr_index = i,
     tr_evidence = \<lparr>OriginalSupply = supply, MigratedNative = 0, RemainingSupply = 0, EOAs = 0,
       ConvertedContracts = 0, RetainedContracts = 0, SelfBalance = 0\<rparr>,
     tr_total = 0, tr_balanceSlots = 0\<rparr>"

definition transformOVMState ::
  "geth_env \<Rightarrow> state_view \<Rightarrow> ovm_world \<Rightarrow> Head \<Rightarrow> ovmInputs \<Rightarrow> int \<Rightarrow> kv list \<Rightarrow> ovmIndex \<Rightarrow>
   (ovm_error, hash \<times> u256 OVMBalanceEvidence \<times> kv list) result" where
  "transformOVMState env sv ow head inputs workers db i =
     (let owner = keccak256 env ovmETHAddress in
      bindR (readOVMAccount env sv owner) (\<lambda>account.
        if CodeHash account = EmptyCodeHash env then Inl OvmNoCode
        else
          bindR (if in_retention inputs then validateOVMERC20RetainList env sv ow i else Inr ()) (\<lambda>_.
          bindR (storageValue env sv (slot_number 2)) (\<lambda>supply.
          bindR (recognizeMetadata env sv ow (transformer_new i supply)) (\<lambda>t1.
          bindR (classifyStorage env sv ow workers (in_retention inputs) t1) (\<lambda>t2.
          bindR (check_supply inputs head account supply t2) (\<lambda>_.
          bindR (tr_flush (ow_index ow) t2) (\<lambda>t3.
          bindR (rebuildStorage env sv ow owner db t3) (\<lambda>(storageRoot, db1, t4).
            let account' = account\<lparr>Root := storageRoot, Balance := Some (RemainingSupply (tr_evidence t4)),
                             CodeHash := keccak256 env (in_code inputs)\<rparr> in
            bindR (write_code env ow owner (in_code inputs) db1) (\<lambda>db2.
            bindR (patchAccount env (ow_index ow) owner account' t4) (\<lambda>t5.
            bindR (tr_flush (ow_index ow) t5) (\<lambda>t6.
            bindR (rebuildAccounts env sv ow db2 t6) (\<lambda>(newRoot, db3).
              Inr (newRoot, tr_evidence t6, db3))))))))))))))"

end
