(* ===== verification/OvmConserve.thy ===== *)
theory OvmConserve
  imports OvmTransform
begin

text \<open>
  The conversion conserves the supply. The phases of \<open>transformOVMState\<close> are followed one by one:
  the metadata phase writes only namespace \<open>k\<close>, the classification gives every storage leaf
  exactly one kind of evidence and queues each balance once, applying the balances splits their sum
  into what moves and what stays, and the two rebuilt tries are the patched originals.
\<close>

section \<open>Namespaces as maps\<close>

lemma NewIterator_all: "NewIterator db [pre] [] = namespace db pre"
  unfolding NewIterator_def namespace_def by (rule filter_cong) (auto simp: prefix_def)

lemma namespace_cong:
  assumes "ascending db" and "ascending db'" and "\<And>k. map_of db (pre # k) = map_of db' (pre # k)"
  shows "namespace db pre = namespace db' pre"
proof (rule ascending_ext)
  have "(k, v) \<in> set (namespace db pre) \<longleftrightarrow> (k, v) \<in> set (namespace db' pre)" for k v
  proof (cases "prefix [pre] k")
    case True
    then obtain k' where "k = pre # k'" by (auto simp: prefix_def)
    with assms True show ?thesis by (simp add: namespace_def flip: ascending_map_of)
  qed (simp add: namespace_def)
  then show "set (namespace db pre) = set (namespace db' pre)" by auto
qed (use assms in simp_all)

lemma window_ok_cong: "namespace db (cu_prefix c) = namespace db' (cu_prefix c) \<Longrightarrow> window_ok db b c = window_ok db' b c"
  by (auto simp: window_ok_def split: option.splits)

text \<open>The patches of a namespace without their prefix.\<close>

lemma strip_namespace:
  assumes "ascending db"
  shows "ascending (strip 1 (namespace db pre))" "map_of (strip 1 (namespace db pre)) k = map_of db (pre # k)"
proof -
  have asc: "ascending (namespace db pre)" using assms by simp
  have gen: "ascending kvs \<Longrightarrow> (\<forall>kv \<in> set kvs. \<exists>k'. fst kv = pre # k') \<Longrightarrow>
      ascending (strip 1 kvs) \<and> map_of (strip 1 kvs) k = map_of kvs (pre # k)" for kvs
  proof (induction kvs)
    case (Cons kv kvs)
    then obtain k' v where kv: "kv = (pre # k', v)" by (cases kv) auto
    have "k' < x" if "x \<in> fst ` set (strip 1 kvs)" for x
    proof -
      from that obtain y where y: "y \<in> set kvs" "x = drop 1 (fst y)" by (auto simp: strip_def)
      with Cons.prems kv obtain z where "fst y = pre # z" "pre # k' < pre # z" by fastforce
      with y show ?thesis by simp
    qed
    with Cons kv show ?case by (auto simp: strip_def)
  qed (simp add: strip_def)
  have "\<forall>kv \<in> set (namespace db pre). \<exists>k'. fst kv = pre # k'" by (auto simp: namespace_def prefix_def)
  from gen [OF asc this] show "ascending (strip 1 (namespace db pre))"
    "map_of (strip 1 (namespace db pre)) k = map_of db (pre # k)"
    by (simp_all add: namespace_map_of [OF assms])
qed

section \<open>Metadata\<close>

lemma tr_same: "only_ns N d (tr_index t) \<Longrightarrow> \<exists>i. t = t\<lparr>tr_index := i\<rparr> \<and> only_ns N d i"
  by (intro exI [of _ "tr_index t"]) simp

lemma tr_put_only:
  assumes "only_ns N d (tr_index t)" and "tr_put iw pre k v t = Inr t'" and "pre \<in> N"
  shows "\<exists>i. t' = t\<lparr>tr_index := i\<rparr> \<and> only_ns N d i \<and> index_view i = (index_view (tr_index t))(pre # k \<mapsto> v)"
proof -
  have "index_sorted (tr_index t)" using assms(1) by (simp add: only_ns_def)
  moreover from assms(2) obtain i where i: "index_put iw pre k v (tr_index t) = Inr i" "t' = t\<lparr>tr_index := i\<rparr>"
    by (auto simp: tr_put_def bindR_eq_Inr mapErr_eq_Inr)
  ultimately show ?thesis using index_put_ok [of "tr_index t"] only_ns_put [OF assms(1) i(1) assms(3)] by blast
qed

lemma put_chunks_only:
  "only_ns {ns_k} d (tr_index t) \<Longrightarrow> put_chunks env ow slot base ns t = Inr t' \<Longrightarrow>
     \<exists>i. t' = t\<lparr>tr_index := i\<rparr> \<and> only_ns {ns_k} d i"
proof (induction ns arbitrary: t)
  case (Cons n ns)
  from Cons.prems(2) obtain t1 where t1: "tr_put (ow_index ow) ns_k (keccak256 env (Bytes32 (base + of_nat n))) [slot ! 31] t = Inr t1"
    "put_chunks env ow slot base ns t1 = Inr t'" by (auto simp: bindR_eq_Inr Let_def split: if_splits)
  from tr_put_only [OF Cons.prems(1) t1(1)] obtain i where "t1 = t\<lparr>tr_index := i\<rparr>" "only_ns {ns_k} d i" by auto
  with Cons.IH [OF _ t1(2)] show ?case by auto
qed (simp add: tr_same)

lemma recognizeString_only:
  assumes "only_ns {ns_k} d (tr_index t)" and "recognizeString env sv ow slot t = Inr t'"
  shows "\<exists>i. t' = t\<lparr>tr_index := i\<rparr> \<and> only_ns {ns_k} d i"
proof -
  from assms(2) have "t' = t \<or> (\<exists>base ns. put_chunks env ow slot base ns t = Inr t')"
    by (auto simp: recognizeString_def bindR_eq_Inr Let_def split: if_splits)
  then show ?thesis
  proof
    assume "t' = t"
    with assms(1) show ?thesis by (simp add: tr_same)
  next
    assume "\<exists>base ns. put_chunks env ow slot base ns t = Inr t'"
    with put_chunks_only [OF assms(1)] show ?thesis by blast
  qed
qed

lemma metadata_only:
  "only_ns {ns_k} d (tr_index t) \<Longrightarrow> metadata_loop env sv ow ns t = Inr t' \<Longrightarrow>
     \<exists>i. t' = t\<lparr>tr_index := i\<rparr> \<and> only_ns {ns_k} d i"
proof (induction ns arbitrary: t)
  case (Cons n ns)
  show ?case
  proof (cases "n < 2")
    case True
    with Cons.prems(2) have "metadata_loop env sv ow ns t = Inr t'"
      by (auto simp: bindR_eq_Inr Let_def split: if_splits)
    with Cons show ?thesis by blast
  next
    case False
    from Cons.prems(2) False obtain t1 t2 where
      t1: "tr_put (ow_index ow) ns_k (ovmStorageHash env (slot_number n)) [of_nat n] t = Inr t1"
      and t2: "(if n = 3 \<or> n = 4 then recognizeString env sv ow (slot_number n) t1 else Inr t1) = Inr t2"
      and t': "metadata_loop env sv ow ns t2 = Inr t'"
      unfolding metadata_loop.simps Let_def by (auto simp: bindR_eq_Inr simp del: upt_Suc)
    from tr_put_only [OF Cons.prems(1) t1] obtain i1 where i1: "t1 = t\<lparr>tr_index := i1\<rparr>" "only_ns {ns_k} d i1" by auto
    have "\<exists>i. t2 = t\<lparr>tr_index := i\<rparr> \<and> only_ns {ns_k} d i"
    proof (cases "n = 3 \<or> n = 4")
      case True
      with t2 have "recognizeString env sv ow (slot_number n) t1 = Inr t2" by simp
      from recognizeString_only [OF _ this] i1 show ?thesis by auto
    next
      case False
      with t2 i1 show ?thesis by auto
    qed
    then obtain i2 where i2: "t2 = t\<lparr>tr_index := i2\<rparr>" "only_ns {ns_k} d i2" by blast
    then have "only_ns {ns_k} d (tr_index t2)" by simp
    from Cons.IH [OF this t'] i2 show ?thesis by auto
  qed
qed (simp add: tr_same)

lemma recognizeMetadata_ok:
  assumes "index_sorted i" and "ix_batch i = []" and "recognizeMetadata env sv ow (transformer_new i supply) = Inr t"
  shows "\<exists>i'. t = transformer_new i' supply \<and> index_sorted i' \<and> ix_batch i' = [] \<and>
    (\<forall>pre k. pre \<noteq> ns_k \<longrightarrow> index_durable i' (pre # k) = index_durable i (pre # k))"
proof -
  let ?t = "transformer_new i supply"
  from assms(3) obtain t1 where t1: "metadata_loop env sv ow [0..<7] ?t = Inr t1" and fl: "tr_flush (ow_index ow) t1 = Inr t"
    unfolding recognizeMetadata_def by (auto simp: bindR_eq_Inr simp del: metadata_loop.simps)
  have "only_ns {ns_k} (index_durable i) (tr_index ?t)"
    using only_ns_flushed [OF assms(1,2)] by (simp add: transformer_new_def)
  from metadata_only [OF this t1] obtain i1 where i1: "t1 = ?t\<lparr>tr_index := i1\<rparr>" "only_ns {ns_k} (index_durable i) i1" by blast
  from fl i1(1) obtain i' where i': "index_flush (ow_index ow) i1 = Inr i'" "t = ?t\<lparr>tr_index := i'\<rparr>"
    by (auto simp: tr_flush_def bindR_eq_Inr mapErr_eq_Inr)
  have "index_sorted i1" using i1(2) by (simp add: only_ns_def)
  from index_flush_ok [OF this i'(1)] only_ns_flush [OF i1(2) i'(1)] i'(2) show ?thesis
    by (auto simp: only_ns_def transformer_new_def)
qed

section \<open>Classification\<close>

lemma probe_ok:
  assumes "ascending db" and "bound \<le> key"
  shows "(\<forall>c \<in> set cs. window_ok db bound c) \<Longrightarrow> probe ow db key cs = Inr (found, addr, cs') \<Longrightarrow>
    found = length (filter (\<lambda>c. map_of db (cu_prefix c # key) \<noteq> None) cs) \<and>
    addr = (if \<exists>c \<in> set cs. cu_prefix c = ns_b then map_of db (ns_b # key) else None) \<and>
    map cu_prefix cs' = map cu_prefix cs \<and> (\<forall>c \<in> set cs'. window_ok db key c)"
proof (induction cs arbitrary: found addr cs')
  case (Cons c cs)
  from Cons.prems(2) obtain vc where g0: "cursor_get (ow_cursor ow (cu_prefix c)) db key c = Inr vc"
    by (auto simp: bindR_eq_Inr mapErr_eq_Inr)
  obtain v c1 where g: "cursor_get (ow_cursor ow (cu_prefix c)) db key c = Inr (v, c1)" using g0 by (cases vc) auto
  with Cons.prems(2) obtain r where r: "probe ow db key cs = Inr r" by (auto simp: bindR_eq_Inr)
  obtain f a cs1 where r1: "probe ow db key cs = Inr (f, a, cs1)" using r by (cases r) auto
  have res: "found = f + (if v = None then 0 else 1)" "addr = (if v \<noteq> None \<and> cu_prefix c = ns_b then v else a)"
    "cs' = c1 # cs1" using Cons.prems(2) g r1 by simp_all
  have "window_ok db bound c" using Cons.prems(1) by simp
  from cursor_get_ok [OF assms(1) this assms(2) g] have
    c1: "v = map_of db (cu_prefix c # key)" "window_ok db key c1" "cu_prefix c1 = cu_prefix c" by simp_all
  have ih: "f = length (filter (\<lambda>c. map_of db (cu_prefix c # key) \<noteq> None) cs)"
    "a = (if \<exists>c \<in> set cs. cu_prefix c = ns_b then map_of db (ns_b # key) else None)"
    "map cu_prefix cs1 = map cu_prefix cs" "\<forall>c \<in> set cs1. window_ok db key c"
    using Cons.IH [OF _ r1] Cons.prems(1) by simp_all
  show ?case using res c1 ih by (cases "cu_prefix c = ns_b") auto
qed simp

text \<open>The evidence for a storage key, and the balance job a leaf gives.\<close>

definition leaf_value :: "geth_env \<Rightarrow> bytes \<Rightarrow> u256" where
  "leaf_value env blob = projr (decodeOVMValue env blob)"

definition leaf_job :: "geth_env \<Rightarrow> (bytes \<rightharpoonup> bytes) \<Rightarrow> kv \<Rightarrow> kv list" where
  "leaf_job env d = (\<lambda>(key, blob). case d (ns_b # key) of
     None \<Rightarrow> []
   | Some a \<Rightarrow> [(ns_q # keccak256 env a, a @ key @ Bytes32 (leaf_value env blob))])"

definition classified :: "geth_env \<Rightarrow> (bytes \<rightharpoonup> bytes) \<Rightarrow> kv \<Rightarrow> bool" where
  "classified env d = (\<lambda>(key, blob). length key = 32 \<and> isOk (decodeOVMValue env blob) \<and>
     length (filter (\<lambda>pre. d (pre # key) \<noteq> None) [ns_b, ns_a, ns_k]) = 1 \<and>
     (\<forall>a. d (ns_b # key) = Some a \<longrightarrow> length a = 20))"

text \<open>The state of the classification after the leaves \<open>seen\<close>.\<close>

definition classify_inv ::
  "geth_env \<Rightarrow> (bytes \<rightharpoonup> bytes) \<Rightarrow> ovmTransformer \<Rightarrow> kv list \<Rightarrow> bytes \<Rightarrow> ovmStorageCursor list \<times> ovmTransformer \<Rightarrow> bool" where
  "classify_inv env d t0 seen bound st \<longleftrightarrow>
     (case st of (cs, t) \<Rightarrow>
        (\<exists>i. t = t0\<lparr>tr_index := i\<rparr>) \<and> only_ns {ns_q} d (tr_index t) \<and>
        index_view (tr_index t) = d ++ map_of (rev (concat (map (leaf_job env d) seen))) \<and>
        map cu_prefix cs = [ns_b, ns_a, ns_k] \<and> (\<forall>c \<in> set cs. window_ok (ix_db (tr_index t)) bound c) \<and>
        (\<forall>kv \<in> set seen. classified env d kv))"

lemma three_prefixes:
  assumes "map cu_prefix cs = [ns_b, ns_a, ns_k]"
  shows "length (filter (\<lambda>c. P (cu_prefix c)) cs) = length (filter P [ns_b, ns_a, ns_k])" "\<exists>c \<in> set cs. cu_prefix c = ns_b"
  using assms by (auto simp: Cons_eq_map_conv map_eq_Cons_conv)

lemma classifySlot_ok:
  assumes inv: "classify_inv env d t0 seen bound st" and run: "classifySlot env ow key (leaf_value env blob) st = Inr st'"
    and key: "bound \<le> key" "length key = 32" and val: "isOk (decodeOVMValue env blob)"
  shows "classify_inv env d t0 (seen @ [(key, blob)]) key st'"
proof -
  obtain cs t where st: "st = (cs, t)" by (cases st)
  let ?db = "ix_db (tr_index t)"
  from inv st have t: "\<exists>i. t = t0\<lparr>tr_index := i\<rparr>" and only: "only_ns {ns_q} d (tr_index t)"
    and view: "index_view (tr_index t) = d ++ map_of (rev (concat (map (leaf_job env d) seen)))"
    and pre: "map cu_prefix cs = [ns_b, ns_a, ns_k]" and win: "\<forall>c \<in> set cs. window_ok ?db bound c"
    and seen: "\<forall>kv \<in> set seen. classified env d kv" by (auto simp: classify_inv_def)
  have asc: "ascending ?db" using only by (simp add: only_ns_def index_sorted_def)
  have dur: "map_of ?db (p # k) = d (p # k)" if "p \<noteq> ns_q" for p k
    using only that by (simp add: only_ns_def index_durable_def)
  from run st obtain found addr cs' where pr: "probe ow ?db key cs = Inr (found, addr, cs')" and found: "found = 1"
    and rest: "case addr of None \<Rightarrow> st' = (cs', t)
      | Some a \<Rightarrow> length a = 20 \<and> (\<exists>t'. queueBalance env (ow_index ow) a key (leaf_value env blob) t = Inr t' \<and> st' = (cs', t'))"
    by (auto simp: classifySlot_def bindR_eq_Inr split: if_splits option.splits)
  from probe_ok [OF asc key(1) win pr] have
    p: "found = length (filter (\<lambda>c. map_of ?db (cu_prefix c # key) \<noteq> None) cs)" "addr = map_of ?db (ns_b # key)"
    "map cu_prefix cs' = [ns_b, ns_a, ns_k]" "\<forall>c \<in> set cs'. window_ok ?db key c"
    using pre three_prefixes(2) [OF pre] by auto
  have "length (filter (\<lambda>pre. map_of ?db (pre # key) \<noteq> None) [ns_b, ns_a, ns_k]) = 1"
    using p(1) found three_prefixes(1) [OF pre, of "\<lambda>pre. map_of ?db (pre # key) \<noteq> None"] by simp
  moreover have "filter (\<lambda>pre. map_of ?db (pre # key) \<noteq> None) [ns_b, ns_a, ns_k] =
      filter (\<lambda>pre. d (pre # key) \<noteq> None) [ns_b, ns_a, ns_k]"
    by (rule filter_cong) (auto simp: dur)
  ultimately have one: "length (filter (\<lambda>pre. d (pre # key) \<noteq> None) [ns_b, ns_a, ns_k]) = 1" by simp
  have addr: "addr = d (ns_b # key)" using p(2) by (simp add: dur)
  have cl: "classified env d (key, blob)"
    using one key(2) val rest addr by (auto simp: classified_def split: option.splits)
  show ?thesis
  proof (cases addr)
    case None
    with rest addr have "st' = (cs', t)" "leaf_job env d (key, blob) = []" by (simp_all add: leaf_job_def)
    with t only view p(3,4) seen cl show ?thesis by (simp add: classify_inv_def)
  next
    case (Some a)
    with rest obtain t' where q: "queueBalance env (ow_index ow) a key (leaf_value env blob) t = Inr t'" "st' = (cs', t')" by auto
    from tr_put_only [OF only q(1) [unfolded queueBalance_def]] obtain i' where i': "t' = t\<lparr>tr_index := i'\<rparr>" "only_ns {ns_q} d i'"
      "index_view i' = (index_view (tr_index t))(ns_q # keccak256 env a \<mapsto> a @ key @ Bytes32 (leaf_value env blob))" by auto
    have asc': "ascending (ix_db i')" using i'(2) by (simp add: only_ns_def index_sorted_def)
    have dur': "map_of (ix_db i') (p # k) = d (p # k)" if "p \<noteq> ns_q" for p k
      using i'(2) that by (simp add: only_ns_def index_durable_def)
    have ns: "namespace ?db (cu_prefix c) = namespace (ix_db i') (cu_prefix c)" if "c \<in> set cs'" for c
    proof (rule namespace_cong [OF asc asc'])
      have "cu_prefix c \<in> set (map cu_prefix cs')" using that by simp
      then have "cu_prefix c \<noteq> ns_q" using p(3) by auto
      then show "map_of ?db (cu_prefix c # k) = map_of (ix_db i') (cu_prefix c # k)" for k by (simp add: dur dur')
    qed
    then have "\<forall>c \<in> set cs'. window_ok (ix_db i') key c" using p(4) window_ok_cong by blast
    moreover have "leaf_job env d (key, blob) = [(ns_q # keccak256 env a, a @ key @ Bytes32 (leaf_value env blob))]"
      using Some addr by (simp add: leaf_job_def)
    ultimately show ?thesis using t i' view p(3) seen cl q(2) by (auto simp: classify_inv_def)
  qed
qed

lemma classify_loop_ok:
  "classify_inv env d t0 seen bound st \<Longrightarrow> classify_loop env ow n kvs st = Inr st' \<Longrightarrow> ascending kvs \<Longrightarrow>
   (\<forall>k \<in> fst ` set kvs. bound \<le> k) \<Longrightarrow> \<exists>b. classify_inv env d t0 (seen @ kvs) b st'"
proof (induction kvs arbitrary: seen bound n st)
  case Nil
  then show ?case by (auto split: if_splits)
next
  case (Cons kv kvs)
  obtain key blob where kv: "kv = (key, blob)" by (cases kv)
  from Cons.prems(2) kv obtain val st1 where val: "decodeOVMValue env blob = Inr val" and len: "length key = 32"
    and st1: "classifySlot env ow key val st = Inr st1" and rest: "classify_loop env ow (n + 1) kvs st1 = Inr st'"
    by (auto simp: bindR_eq_Inr split: if_splits)
  have "val = leaf_value env blob" using val by (simp add: leaf_value_def)
  with classifySlot_ok [OF Cons.prems(1) _ _ len, of ow blob st1] st1 val Cons.prems(4) kv
  have "classify_inv env d t0 (seen @ [kv]) key st1" by simp
  moreover have "ascending kvs" "\<forall>k \<in> fst ` set kvs. key \<le> k" using Cons.prems(3) kv by (auto intro: less_imp_le)
  ultimately show ?case using Cons.IH [OF _ rest] by fastforce
qed

section \<open>Every balance is queued once\<close>

definition token_holders :: "(bytes \<rightharpoonup> bytes) \<Rightarrow> address set" where
  "token_holders d = {a. \<exists>k. d (ns_b # k) = Some a}"

text \<open>The storage leaves that are balances, and the amount of tokens in them.\<close>

definition holder_leaves :: "(bytes \<rightharpoonup> bytes) \<Rightarrow> kv list \<Rightarrow> kv list" where
  "holder_leaves d leaves = filter (\<lambda>kv. d (ns_b # fst kv) \<noteq> None) leaves"

definition token_supply :: "geth_env \<Rightarrow> (bytes \<rightharpoonup> bytes) \<Rightarrow> kv list \<Rightarrow> nat" where
  "token_supply env d leaves = (\<Sum>kv\<leftarrow>holder_leaves d leaves. unat (leaf_value env (snd kv)))"

definition leaf_entry :: "geth_env \<Rightarrow> (bytes \<rightharpoonup> bytes) \<Rightarrow> kv \<Rightarrow> kv" where
  "leaf_entry env d kv = (let a = the (d (ns_b # fst kv))
     in (ns_q # keccak256 env a, a @ fst kv @ Bytes32 (leaf_value env (snd kv))))"

definition leaf_triple :: "geth_env \<Rightarrow> (bytes \<rightharpoonup> bytes) \<Rightarrow> kv \<Rightarrow> address \<times> hash \<times> u256" where
  "leaf_triple env d kv = (the (d (ns_b # fst kv)), fst kv, leaf_value env (snd kv))"

definition job_triple :: "ovmBalanceJob \<Rightarrow> address \<times> hash \<times> u256" where
  "job_triple j = (bj_address j, bj_slot j, bj_value j)"

lemma leaf_jobs_eq: "concat (map (leaf_job env d) leaves) = map (leaf_entry env d) (holder_leaves d leaves)"
  by (induction leaves) (auto simp: leaf_job_def leaf_entry_def holder_leaves_def Let_def split: option.splits)

lemma be_nat_Bytes32 [simp]: "of_nat (be_nat (Bytes32 v)) = v" "length (Bytes32 v) = 32"
proof -
  have "unat v < 256 ^ 32" using u256_bound [of v] by simp
  then show "of_nat (be_nat (Bytes32 v)) = v" by (simp add: Bytes32_def be_nat_be_bytes)
qed (simp add: Bytes32_def)

lemma decode_leaf_entry:
  assumes "digests_ok env" and "kv \<in> set (holder_leaves d leaves)" and "\<forall>kv \<in> set leaves. classified env d kv"
  shows "decode_job env (leaf_entry env d kv) = Inr (leaf_triple env d kv)"
proof -
  from assms(2) have "kv \<in> set leaves" and "d (ns_b # fst kv) \<noteq> None" by (simp_all add: holder_leaves_def)
  moreover from this assms(3) have "classified env d kv" by blast
  ultimately obtain a where a: "d (ns_b # fst kv) = Some a" "length a = 20" "length (fst kv) = 32"
    unfolding classified_def case_prod_unfold by blast
  with assms(1) show ?thesis
    by (simp add: decode_job_def leaf_entry_def leaf_triple_def AddressLength_def HashLength_def Let_def)
qed

lemma entries_distinct:
  assumes "evidence_ok env d" and "inj_on (keccak256 env) (token_holders d)" and "ascending leaves"
  shows "distinct (map fst (map (leaf_entry env d) (holder_leaves d leaves)))"
proof -
  have inj: "kv = kv'" if kv: "kv \<in> set (holder_leaves d leaves)" "kv' \<in> set (holder_leaves d leaves)"
    and eq: "fst (leaf_entry env d kv) = fst (leaf_entry env d kv')" for kv kv'
  proof -
    from kv obtain a a' where a: "d (ns_b # fst kv) = Some a" "d (ns_b # fst kv') = Some a'"
      by (auto simp: holder_leaves_def)
    then have "a \<in> token_holders d" "a' \<in> token_holders d" by (auto simp: token_holders_def)
    moreover have "keccak256 env a = keccak256 env a'" using eq a by (simp add: leaf_entry_def Let_def)
    ultimately have "a = a'" using assms(2) by (auto dest: inj_onD)
    with assms(1) a have "fst kv = fst kv'" unfolding evidence_ok_def by metis
    moreover have "kv \<in> set leaves" "kv' \<in> set leaves" using kv by (auto simp: holder_leaves_def)
    ultimately show "kv = kv'" using assms(3) by (metis ascending_map_of option.inject prod.collapse)
  qed
  have "distinct (holder_leaves d leaves)"
    using ascending_distinct [OF assms(3)] by (auto simp: holder_leaves_def distinct_map)
  moreover have "inj_on (fst \<circ> leaf_entry env d) (set (holder_leaves d leaves))"
    using inj by (auto intro!: inj_onI)
  ultimately show ?thesis by (simp add: distinct_map comp_inj_on_iff o_def)
qed

lemma mset_sum: "mset xs = mset ys \<Longrightarrow> (\<Sum>x\<leftarrow>xs. f x) = (\<Sum>y\<leftarrow>ys. f y :: nat)"
  by (metis mset_map sum_mset_sum_list)

lemma distinct_same_mset: "distinct xs \<Longrightarrow> distinct ys \<Longrightarrow> set xs = set ys \<Longrightarrow> mset xs = mset ys"
  by (simp add: set_eq_iff_mset_eq_distinct)

lemma jobs_are_leaves:
  assumes env: "digests_ok env" and ev: "evidence_ok env d" and inj: "inj_on (keccak256 env) (token_holders d)"
    and asc: "ascending leaves" and cls: "\<forall>kv \<in> set leaves. classified env d kv" and fresh: "\<And>k. d (ns_q # k) = None"
    and kvs: "ascending kvs" "map_of kvs = (\<lambda>k. if prefix [ns_q] k
      then (d ++ map_of (rev (concat (map (leaf_job env d) leaves)))) k else None)"
    and js: "list_all2 (\<lambda>kv j. submitted kv j env) kvs js"
  shows "mset (map job_triple js) = mset (map (leaf_triple env d) (holder_leaves d leaves))"
    and "distinct (map bj_address js)"
proof -
  let ?H = "holder_leaves d leaves" and ?L = "map (leaf_entry env d) (holder_leaves d leaves)"
  have dist: "distinct (map fst ?L)" by (rule entries_distinct [OF ev inj asc])
  have "map_of kvs k = map_of ?L k" for k
  proof (cases "prefix [ns_q] k")
    case True
    then obtain k' where k: "k = ns_q # k'" by (auto simp: prefix_def)
    have "map_of (rev ?L) = map_of ?L"
      using dist by (intro map_of_inject_set [THEN iffD2]) (auto simp flip: rev_map)
    with True show ?thesis by (simp add: kvs(2) k leaf_jobs_eq map_add_def fresh split: option.splits)
  next
    case False
    then have "k \<notin> fst ` set ?L" by (auto simp: leaf_entry_def Let_def)
    then have "map_of ?L k = None" by (simp add: map_of_eq_None_iff)
    with False show ?thesis by (simp add: kvs(2))
  qed
  then have "map_of kvs = map_of ?L" by (rule ext)
  then have "set kvs = set ?L"
    using map_of_inject_set [of kvs ?L] ascending_distinct [OF kvs(1)] dist by blast
  moreover have "distinct kvs" "distinct ?L"
    using distinct_map [THEN iffD1, OF ascending_distinct [OF kvs(1)]] distinct_map [THEN iffD1, OF dist] by blast+
  ultimately have same: "mset kvs = mset ?L" by (intro distinct_same_mset)
  have dj: "map (decode_job env) kvs = map (\<lambda>j. Inr (job_triple j)) js"
    using js by (induction rule: list_all2_induct) (auto simp: submitted_def job_triple_def)
  have "mset (map (\<lambda>j. Inr (job_triple j) :: (ovm_error, address \<times> hash \<times> u256) result) js) =
      mset (map (decode_job env) ?L)" unfolding dj [symmetric] by (simp only: mset_map same)
  also have "map (decode_job env) ?L = map (\<lambda>kv. Inr (leaf_triple env d kv)) ?H"
    using decode_leaf_entry [OF env _ cls] by simp
  finally have "image_mset projr (mset (map (\<lambda>j. Inr (job_triple j) :: (ovm_error, address \<times> hash \<times> u256) result) js)) =
      image_mset projr (mset (map (\<lambda>kv. Inr (leaf_triple env d kv) :: (ovm_error, address \<times> hash \<times> u256) result) ?H))" by simp
  then show m: "mset (map job_triple js) = mset (map (leaf_triple env d) ?H)"
    by (simp add: multiset.map_comp o_def)
  have "distinct (map (\<lambda>kv. the (d (ns_b # fst kv))) ?H)"
    using dist by (auto simp: distinct_map leaf_entry_def Let_def inj_on_def)
  then have "distinct (map fst (map (leaf_triple env d) ?H))" by (simp add: leaf_triple_def o_def)
  moreover have "mset (map fst (map job_triple js)) = mset (map fst (map (leaf_triple env d) ?H))"
    using m by (metis mset_map)
  ultimately have "distinct (map fst (map job_triple js))" by (metis mset_eq_imp_distinct_iff)
  then show "distinct (map bj_address js)" by (simp add: job_triple_def o_def)
qed

section \<open>The patches of the applied balances\<close>

lemma moved_patches:
  "(k, v) \<in> set (concat (map (job_patches env) js)) \<longleftrightarrow>
     (\<exists>j \<in> set js. moved j \<and> (k = ns_p # bj_hash j \<and> v = the (rlp_enc_account env (job_account j)) \<or>
        k = ns_s # bj_slot j \<and> v = []))"
  by (auto simp: job_patches_def split: if_splits)

lemma map_of_rev_unique:
  assumes "\<And>v. (k, v) \<in> set xs \<Longrightarrow> v = u"
  shows "map_of (rev xs) k = (if k \<in> fst ` set xs then Some u else None)"
proof (cases "map_of (rev xs) k")
  case None
  then have "k \<notin> fst ` set xs" by (simp add: map_of_eq_None_iff)
  with None show ?thesis by simp
next
  case (Some v)
  then have "(k, v) \<in> set xs" using map_of_SomeD by fastforce
  with assms Some show ?thesis by force
qed

lemma job_patches_s:
  "map_of (rev (concat (map (job_patches env) js))) (ns_s # k) = (if \<exists>j \<in> set js. moved j \<and> bj_slot j = k then Some [] else None)"
proof -
  let ?xs = "concat (map (job_patches env) js)"
  have "v = []" if "(ns_s # k, v) \<in> set ?xs" for v using that unfolding moved_patches by auto
  from map_of_rev_unique [of "ns_s # k" ?xs, OF this]
  have "map_of (rev ?xs) (ns_s # k) = (if ns_s # k \<in> fst ` set ?xs then Some [] else None)" .
  moreover have "ns_s # k \<in> fst ` set ?xs \<longleftrightarrow> (\<exists>v. (ns_s # k, v) \<in> set ?xs)" by force
  moreover have "(\<exists>v. (ns_s # k, v) \<in> set ?xs) \<longleftrightarrow> (\<exists>j \<in> set js. moved j \<and> bj_slot j = k)"
    unfolding moved_patches by auto
  ultimately show ?thesis by simp
qed

lemma job_patches_p:
  assumes "distinct (map bj_hash js)"
  shows "j \<in> set js \<Longrightarrow> moved j \<Longrightarrow> map_of (rev (concat (map (job_patches env) js))) (ns_p # bj_hash j) =
      Some (the (rlp_enc_account env (job_account j)))"
    and "\<not> (\<exists>j \<in> set js. moved j \<and> bj_hash j = h) \<Longrightarrow> map_of (rev (concat (map (job_patches env) js))) (ns_p # h) = None"
proof -
  let ?xs = "concat (map (job_patches env) js)"
  show "map_of (rev ?xs) (ns_p # h) = None" if "\<not> (\<exists>j \<in> set js. moved j \<and> bj_hash j = h)"
  proof -
    have "(ns_p # h, v) \<notin> set ?xs" for v using that unfolding moved_patches by auto
    then have "ns_p # h \<notin> fst ` set (rev ?xs)" by force
    then show ?thesis by (rule map_of_eq_None_iff [THEN iffD2])
  qed
  show "map_of (rev ?xs) (ns_p # bj_hash j) = Some (the (rlp_enc_account env (job_account j)))"
    if j: "j \<in> set js" "moved j"
  proof -
    have "v = the (rlp_enc_account env (job_account j))" if "(ns_p # bj_hash j, v) \<in> set ?xs" for v
    proof -
      from that obtain j' where "j' \<in> set js" "bj_hash j' = bj_hash j" "v = the (rlp_enc_account env (job_account j'))"
        unfolding moved_patches by auto
      with assms j show ?thesis by (metis distinct_map inj_onD)
    qed
    from map_of_rev_unique [of "ns_p # bj_hash j" ?xs, OF this]
    have "map_of (rev ?xs) (ns_p # bj_hash j) =
      (if ns_p # bj_hash j \<in> fst ` set ?xs then Some (the (rlp_enc_account env (job_account j))) else None)" .
    moreover have "(ns_p # bj_hash j, the (rlp_enc_account env (job_account j))) \<in> set ?xs"
      using j unfolding moved_patches by auto
    then have "ns_p # bj_hash j \<in> fst ` set ?xs" by force
    ultimately show ?thesis by simp
  qed
qed

section \<open>What stays in the token contract\<close>

lemma job_sum_leaves:
  assumes "mset (map job_triple js) = mset (map (leaf_triple env d) (holder_leaves d leaves))"
  shows "job_sum js = token_supply env d leaves"
proof -
  have "job_sum js = (\<Sum>x\<leftarrow>map job_triple js. unat (snd (snd x)))" by (simp add: job_sum_def job_triple_def o_def)
  also have "\<dots> = (\<Sum>x\<leftarrow>map (leaf_triple env d) (holder_leaves d leaves). unat (snd (snd x)))" by (rule mset_sum [OF assms])
  finally show ?thesis by (simp add: token_supply_def leaf_triple_def o_def)
qed

lemma sum_list_filter: "(\<Sum>x\<leftarrow>filter P xs. f x) = (\<Sum>x\<leftarrow>xs. if P x then f x else (0 :: nat))"
  by (induction xs) auto

text \<open>Deleting the slots of the moved balances leaves exactly the balances that stay.\<close>

lemma staying_supply:
  assumes triples: "mset (map job_triple js) = mset (map (leaf_triple env d) (holder_leaves d leaves))"
    and dist: "distinct (map bj_address js)" and asc: "ascending leaves" "ascending leaves'"
    and look: "\<And>k. d (ns_b # k) \<noteq> None \<Longrightarrow>
      map_of leaves' k = (if \<exists>j \<in> set js. moved j \<and> bj_slot j = k then None else map_of leaves k)"
  shows "token_supply env d leaves' = job_sum (filter (\<lambda>j. \<not> moved j) js)"
proof -
  define gone where "gone = {bj_slot j | j. j \<in> set js \<and> moved j}"
  have "holder_leaves d leaves' = filter (\<lambda>kv. fst kv \<notin> gone) (holder_leaves d leaves)"
  proof (rule ascending_ext)
    show "set (holder_leaves d leaves') = set (filter (\<lambda>kv. fst kv \<notin> gone) (holder_leaves d leaves))"
    proof (rule set_eqI)
      fix kv :: kv
      obtain k v where kv: "kv = (k, v)" by (cases kv)
      show "kv \<in> set (holder_leaves d leaves') \<longleftrightarrow> kv \<in> set (filter (\<lambda>kv. fst kv \<notin> gone) (holder_leaves d leaves))"
        using look [of k] asc
        by (auto simp: kv holder_leaves_def gone_def simp flip: ascending_map_of split: if_splits)
    qed
  qed (use asc in \<open>simp_all add: holder_leaves_def\<close>)
  then have "token_supply env d leaves' =
      (\<Sum>x\<leftarrow>map (leaf_triple env d) (holder_leaves d leaves). if fst (snd x) \<notin> gone then unat (snd (snd x)) else 0)"
    by (simp add: token_supply_def sum_list_filter leaf_triple_def o_def cong: if_cong)
  also have "\<dots> = (\<Sum>x\<leftarrow>map job_triple js. if fst (snd x) \<notin> gone then unat (snd (snd x)) else 0)"
    by (rule mset_sum [OF triples [symmetric]])
  also have "\<dots> = (\<Sum>j\<leftarrow>js. if \<not> moved j then unat (bj_value j) else 0)"
  proof -
    have addr: "bj_address j = the (d (ns_b # bj_slot j))" if "j \<in> set js" for j
    proof -
      have "set (map job_triple js) = set (map (leaf_triple env d) (holder_leaves d leaves))"
        using triples by (metis set_mset_mset)
      with that have "job_triple j \<in> set (map (leaf_triple env d) (holder_leaves d leaves))" by force
      then show ?thesis by (auto simp: job_triple_def leaf_triple_def)
    qed
    have "bj_slot j \<in> gone \<longleftrightarrow> moved j" if "j \<in> set js" for j
    proof
      assume "bj_slot j \<in> gone"
      then obtain j' where j': "j' \<in> set js" "moved j'" "bj_slot j' = bj_slot j" by (auto simp: gone_def)
      with that addr have "bj_address j' = bj_address j" by simp
      with dist j' that show "moved j" by (metis distinct_map inj_onD)
    qed (use that in \<open>auto simp: gone_def\<close>)
    then show ?thesis by (auto simp: job_triple_def o_def intro!: arg_cong [where f = sum_list])
  qed
  finally show ?thesis by (simp add: job_sum_def sum_list_filter)
qed

section \<open>What the accounts hold\<close>

definition leaf_native :: "geth_env \<Rightarrow> bytes \<Rightarrow> nat" where
  "leaf_native env blob =
     (case rlp_dec_account env blob of
        None \<Rightarrow> 0
      | Some a \<Rightarrow> (case Balance a of None \<Rightarrow> 0 | Some b \<Rightarrow> unat b))"

definition native_supply :: "geth_env \<Rightarrow> kv list \<Rightarrow> nat" where
  "native_supply env leaves = (\<Sum>kv\<leftarrow>leaves. leaf_native env (snd kv))"

lemma ascending_sum:
  assumes "ascending leaves"
  shows "(\<Sum>kv\<leftarrow>leaves. f (snd kv)) = (\<Sum>k \<in> dom (map_of leaves). f (the (map_of leaves k)) :: nat)"
proof -
  have "(\<Sum>kv\<leftarrow>leaves. f (snd kv)) = (\<Sum>kv\<in>set leaves. f (snd kv))"
    using ascending_distinct [OF assms] by (simp add: sum_list_distinct_conv_sum_set distinct_map)
  also have "\<dots> = (\<Sum>k \<in> fst ` set leaves. f (the (map_of leaves k)))"
  proof (rule sum.reindex_cong [symmetric, where l = fst])
    show "inj_on fst (set leaves)" using ascending_distinct [OF assms] by (simp add: distinct_map)
    show "f (the (map_of leaves (fst kv))) = f (snd kv)" if "kv \<in> set leaves" for kv
    proof -
      have "map_of leaves (fst kv) = Some (snd kv)" using that assms by (simp add: ascending_map_of)
      then show ?thesis by simp
    qed
  qed simp
  finally show ?thesis by (simp add: dom_map_of_conv_image_fst)
qed

text \<open>Accounts with no native balance, patched at the hashes of the moved jobs and at one more hash.\<close>

lemma patched_supply:
  assumes asc: "ascending leaves" "ascending leaves'"
    and zero: "\<forall>kv \<in> set leaves. leaf_native env (snd kv) = 0"
    and dist: "distinct (map bj_hash js)" and owner: "\<forall>j \<in> set js. moved j \<longrightarrow> bj_hash j \<noteq> owner"
    and look: "\<And>h. map_of leaves' h =
       (if h = owner then Some blob
        else if \<exists>j \<in> set js. moved j \<and> bj_hash j = h then P h else map_of leaves h)"
    and blobs: "\<And>j. j \<in> set js \<Longrightarrow> moved j \<Longrightarrow> \<exists>b. P (bj_hash j) = Some b \<and> leaf_native env b = unat (bj_value j)"
  shows "native_supply env leaves' = leaf_native env blob + job_sum (filter moved js)"
proof -
  let ?M = "bj_hash ` {j \<in> set js. moved j}" and ?f = "\<lambda>h. leaf_native env (the (map_of leaves' h))"
  have dom: "dom (map_of leaves') = insert owner (?M \<union> (dom (map_of leaves) - insert owner ?M))"
    using blobs by (auto simp: look dom_def split: if_splits)
  have fin: "finite ?M" by simp
  have notin: "owner \<notin> ?M" using owner by auto
  have "?f h = 0" if "h \<in> dom (map_of leaves) - insert owner ?M" for h
  proof -
    from that obtain b where b: "map_of leaves h = Some b" by auto
    then have "leaf_native env b = 0" using zero asc(1) by (fastforce simp: ascending_map_of)
    with that b show ?thesis by (auto simp: look)
  qed
  then have rest: "(\<Sum>h \<in> dom (map_of leaves) - insert owner ?M. ?f h) = 0" by (simp add: sum.neutral)
  have "native_supply env leaves' = (\<Sum>h \<in> insert owner (?M \<union> (dom (map_of leaves) - insert owner ?M)). ?f h)"
    using ascending_sum [OF asc(2), of "leaf_native env"] by (simp add: native_supply_def dom)
  also have "\<dots> = ?f owner + ((\<Sum>h \<in> ?M. ?f h) + (\<Sum>h \<in> dom (map_of leaves) - insert owner ?M. ?f h))"
    using notin by (subst sum.insert) (auto simp: finite_dom_map_of intro!: sum.union_disjoint)
  also have "(\<Sum>h \<in> ?M. ?f h) = (\<Sum>j \<in> {j \<in> set js. moved j}. unat (bj_value j))"
  proof (rule sum.reindex_cong [where l = bj_hash])
    show "inj_on bj_hash {j \<in> set js. moved j}" using dist by (auto simp: distinct_map intro: inj_on_subset)
    show "?f (bj_hash j) = unat (bj_value j)" if "j \<in> {j \<in> set js. moved j}" for j
      using that blobs [of j] owner by (auto simp: look)
  qed simp
  also have "\<dots> = job_sum (filter moved js)"
  proof -
    have "distinct (filter moved js)" using dist by (simp add: distinct_map)
    then show ?thesis by (simp add: job_sum_def sum_list_distinct_conv_sum_set)
  qed
  finally show ?thesis using rest by (simp add: look)
qed

section \<open>What the conversion relies on\<close>

text \<open>The codecs and digests of go-ethereum; the root of a stack trie is a digest.\<close>

definition conversion_env :: "geth_env \<Rightarrow> bool" where
  "conversion_env env \<longleftrightarrow> digests_ok env \<and> account_rlp_ok env \<and> bytes_rlp_ok env \<and> rlp_nonempty env \<and>
     (\<forall>ts. is_hash (stack_root env ts))"

text \<open>
  The tries of the source: iterators return ordered leaves with non-empty values, lookups agree
  with them (an absent key reads as an empty value).
\<close>

definition trie_reads :: "state_view \<Rightarrow> kv list \<Rightarrow> kv list \<Rightarrow> bool" where
  "trie_reads sv accounts slots \<longleftrightarrow>
     (\<exists>e. sv_accountIter sv = Some (accounts, e)) \<and> (\<exists>e. sv_storageIter sv = Some (slots, e)) \<and>
     ascending accounts \<and> ascending slots \<and> (\<forall>kv \<in> set accounts \<union> set slots. snd kv \<noteq> []) \<and>
     (\<forall>h b. sv_accountGet sv h = Some b \<longrightarrow> b = (case map_of accounts h of None \<Rightarrow> [] | Some v \<Rightarrow> v))"

text \<open>The index after the evidence was collected: flushed, authentic, no patches yet.\<close>

definition index_ready :: "geth_env \<Rightarrow> ovmIndex \<Rightarrow> bool" where
  "index_ready env i \<longleftrightarrow> index_sorted i \<and> ix_batch i = [] \<and> evidence_ok env (index_durable i) \<and>
     (\<forall>pre \<in> {ns_q, ns_p, ns_s}. \<forall>k. index_durable i (pre # k) = None)"

text \<open>No two holders share an account hash, and no balance lies in the slot of the total supply.\<close>

definition supply_key :: "geth_env \<Rightarrow> hash" where
  "supply_key env = ovmStorageHash env (slot_number 2)"

definition no_collisions :: "geth_env \<Rightarrow> (bytes \<rightharpoonup> bytes) \<Rightarrow> bool" where
  "no_collisions env d \<longleftrightarrow> inj_on (keccak256 env) (insert ovmETHAddress (token_holders d)) \<and> d (ns_b # supply_key env) = None"

definition slot_value :: "geth_env \<Rightarrow> kv list \<Rightarrow> hash \<Rightarrow> u256" where
  "slot_value env leaves k = (case map_of leaves k of None \<Rightarrow> 0 | Some b \<Rightarrow> leaf_value env b)"

section \<open>The phases together\<close>

lemma token_supply_cong: "(\<And>k. d (ns_b # k) = d' (ns_b # k)) \<Longrightarrow> token_supply env d l = token_supply env d' l"
  by (simp add: token_supply_def holder_leaves_def)

lemma be_nat_Cons0: "be_nat (0 # bs) = be_nat bs"
  by (simp add: be_nat_def)

lemma be_nat_dropWhile: "be_nat (dropWhile (\<lambda>b. b = 0) bs) = be_nat bs"
  by (induction bs) (auto simp: be_nat_Cons0)

lemma length_dropWhile_le: "length (dropWhile P xs) \<le> length xs"
  by (induction xs) auto

lemma decode_supply:
  assumes "conversion_env env" and "v \<noteq> 0" and "rlp_enc_bytes env (u256_Bytes v) = Some b"
  shows "b \<noteq> [] \<and> decodeOVMValue env b = Inr v"
proof -
  let ?c = "u256_Bytes v"
  have len: "length ?c \<le> 32" using length_dropWhile_le [of "\<lambda>b. b = 0" "Bytes32 v"] by (simp add: u256_Bytes_def)
  have num: "of_nat (be_nat ?c) = v" by (simp add: u256_Bytes_def be_nat_dropWhile)
  have ne: "?c \<noteq> []"
  proof
    assume "?c = []"
    then have "be_nat ?c = 0" by (simp add: be_nat_def)
    with num assms(2) show False by simp
  qed
  have hd: "hd ?c \<noteq> 0" using ne hd_dropWhile [of "\<lambda>b. b = 0" "Bytes32 v"] by (simp add: u256_Bytes_def)
  from assms(1,3) len obtain k where k: "b \<noteq> []" "k \<noteq> RlpList" "rlp_Split env b = Some (k, ?c, [])"
    unfolding conversion_env_def bytes_rlp_ok_def by (metis option.inject)
  moreover from this assms(1) have "rlp_dec_bytes env b = Some ?c" unfolding conversion_env_def bytes_rlp_ok_def by blast
  moreover have "validateStorageRLP env b = Inr ()" using k ne hd len by (auto simp: validateStorageRLP_iff)
  ultimately show ?thesis using num by (simp add: decodeOVMValue_def)
qed

text \<open>Rebuilding from a namespace of the flushed index.\<close>

lemma rebuild_from_index:
  assumes "rebuildPatchedTrie env lib ww ctx db owner (leaves, e) (index_iter brk pre i) pre = Inr (root, db')"
    and "index_sorted i" and "ascending leaves" and "\<forall>kv \<in> set leaves. snd kv \<noteq> []"
  shows "\<exists>leaves'. root = stack_root env leaves' \<and> ascending leaves' \<and> \<not> e \<and>
    (\<forall>k. map_of leaves' k = (case index_durable i (pre # k) of
       None \<Rightarrow> map_of leaves k | Some v \<Rightarrow> if v = [] then None else Some v))"
proof -
  let ?ns = "namespace (ix_db i) pre"
  have asc: "ascending (ix_db i)" using assms(2) by (simp add: index_sorted_def)
  obtain b eb where b: "index_iter brk pre i = (b, eb)" "\<not> eb \<longrightarrow> b = ?ns"
    by (cases brk) (auto simp: index_iter_def NewIterator_all Let_def)
  have pre_b: "\<exists>n. b = take n ?ns"
    using b(1) by (auto simp: index_iter_def NewIterator_all Let_def split: option.splits intro: exI [of _ "length ?ns"])
  then obtain n where "b = take n ?ns" by blast
  then have "strip 1 b = take n (strip 1 ?ns)" by (simp add: strip_def take_map)
  then have "ascending (strip 1 b)"
    using strip_namespace(1) [OF asc, of pre] by (metis ascending_def sorted_wrt_take take_map)
  with rebuild_ok [of env lib ww ctx db owner leaves e b eb "[pre]" root db'] assms(1,3) b
  have r: "\<not> e" "root = stack_root env (patched leaves (strip 1 ?ns))" by (simp_all add: rebuildPatchedTrie_def)
  have "map_of (patched leaves (strip 1 ?ns)) k = (case index_durable i (pre # k) of
       None \<Rightarrow> map_of leaves k | Some v \<Rightarrow> if v = [] then None else Some v)" for k
  proof -
    have "map_of leaves k = Some v \<Longrightarrow> v \<noteq> []" for v using assms(4) map_of_SomeD by fastforce
    then show ?thesis
      using map_of_patched [OF assms(3) strip_namespace(1) [OF asc], of pre k] strip_namespace(2) [OF asc, of pre k]
      by (auto simp: index_durable_def split: option.splits)
  qed
  with r patched_ascending [OF assms(3), of "strip 1 ?ns"] show ?thesis by blast
qed

text \<open>Reading an account that can be encoded again.\<close>

lemma account_at_wf:
  assumes "conversion_env env" and "account_at env sv h = Inr a"
  shows "Balance a \<noteq> None \<and> is_hash (Root a)"
proof (cases "a = emptyAccount env")
  case True
  with assms(1) show ?thesis by (simp add: emptyAccount_def conversion_env_def digests_ok_def)
next
  case False
  with assms(2) obtain b where "decodeFullAccount env b = Inr a"
    by (auto simp: account_at_def mapErr_eq_Inr split: option.splits if_splits)
  then have "rlp_dec_account env b = Some a" "Balance a \<noteq> None"
    by (auto simp: decodeFullAccount_def split: option.splits if_splits)
  with assms(1) show ?thesis by (auto simp: conversion_env_def account_rlp_ok_def)
qed

lemma conversion_encodes:
  "conversion_env env \<Longrightarrow> Balance a \<noteq> None \<Longrightarrow> is_hash (Root a) \<Longrightarrow>
     \<exists>b. rlp_enc_account env a = Some b \<and> rlp_dec_account env b = Some a"
  unfolding conversion_env_def account_rlp_ok_def by blast

lemma encoded_native:
  assumes "conversion_env env" and "is_hash (Root a)" and "rlp_enc_account env (a\<lparr>Balance := Some v\<rparr>) = Some b"
  shows "b \<noteq> []" "rlp_dec_account env b = Some (a\<lparr>Balance := Some v\<rparr>)" "leaf_native env b = unat v"
proof -
  from assms(1,2) obtain b' where "rlp_enc_account env (a\<lparr>Balance := Some v\<rparr>) = Some b'"
    "rlp_dec_account env b' = Some (a\<lparr>Balance := Some v\<rparr>)"
    using conversion_encodes [OF assms(1), of "a\<lparr>Balance := Some v\<rparr>"] by auto
  with assms(3) show dec: "rlp_dec_account env b = Some (a\<lparr>Balance := Some v\<rparr>)" by simp
  then show "leaf_native env b = unat v" by (simp add: leaf_native_def)
  show "b \<noteq> []" using assms(1,3) by (auto simp: conversion_env_def rlp_nonempty_def)
qed

text \<open>The phases up to the check of the supply.\<close>

lemma classified_and_applied:
  assumes env: "conversion_env env" and reads: "trie_reads sv accounts slots" and ready: "index_ready env i"
    and coll: "no_collisions env (index_durable i)"
    and meta: "recognizeMetadata env sv ow (transformer_new i supply) = Inr t1"
    and cls: "classifyStorage env sv ow workers retention t1 = Inr t2"
  shows "\<exists>v js. applied env (supply, v) js t2 \<and> (\<forall>pre \<in> {ns_p, ns_s}. \<forall>k. v (pre # k) = None) \<and>
    mset (map job_triple js) = mset (map (leaf_triple env (index_durable i)) (holder_leaves (index_durable i) slots)) \<and>
    distinct (map bj_address js) \<and>
    (\<forall>j \<in> set js. bj_address j \<in> token_holders (index_durable i) \<and> bj_hash j = keccak256 env (bj_address j) \<and>
       (moved j \<longrightarrow> account_at env sv (bj_hash j) = Inr (the (bj_account j))))"
proof -
  let ?d = "index_durable i"
  from ready have srt: "index_sorted i" "ix_batch i = []" by (simp_all add: index_ready_def)
  from recognizeMetadata_ok [OF srt meta] obtain i1 where i1: "t1 = transformer_new i1 supply" "index_sorted i1" "ix_batch i1 = []"
    "\<And>pre k. pre \<noteq> ns_k \<Longrightarrow> index_durable i1 (pre # k) = ?d (pre # k)" by blast
  let ?d1 = "index_durable i1"
  have db: "?d1 (ns_b # k) = ?d (ns_b # k)" for k by (simp add: i1(4))
  have ev1: "evidence_ok env ?d1" using ready by (simp add: index_ready_def evidence_ok_def i1(4))
  have hold: "token_holders ?d1 = token_holders ?d" by (simp add: token_holders_def db)
  from reads have asc: "ascending slots" by (simp add: trie_reads_def)
  from cls reads obtain st where loop: "classify_loop env ow 0 slots ([newCursor ns_b, newCursor ns_a, newCursor ns_k], t1) = Inr st"
    and insp: "inspectOrderedBalances env sv (ow_index ow) (ow_batch ow) workers retention (ow_orderPoll ow) (ow_orderBreak ow) (snd st) = Inr t2"
    by (auto simp: classifyStorage_def trie_reads_def bindR_eq_Inr split: if_splits prod.splits)
  have "classify_inv env ?d1 t1 [] [] ([newCursor ns_b, newCursor ns_a, newCursor ns_k], t1)"
    using i1 only_ns_flushed [OF i1(2,3), of "{ns_q}"]
    by (auto simp: classify_inv_def transformer_new_def newCursor_def window_ok_def index_view_def index_durable_def)
  from classify_loop_ok [OF this loop asc] obtain b where inv: "classify_inv env ?d1 t1 slots b st" by auto
  obtain cs t where st: "st = (cs, t)" by (cases st)
  let ?v = "index_view (tr_index t)"
  from inv st obtain i2 where t: "t = t1\<lparr>tr_index := i2\<rparr>" and only: "only_ns {ns_q} ?d1 (tr_index t)"
    and v: "?v = ?d1 ++ map_of (rev (concat (map (leaf_job env ?d1) slots)))"
    and ok: "\<forall>kv \<in> set slots. classified env ?d1 kv" by (auto simp: classify_inv_def)
  have start: "transformer_start t" using t i1(1) only by (simp add: transformer_start_def transformer_new_def only_ns_def)
  from inspectOrdered_ok [OF start insp [unfolded st snd_conv]] obtain kvs js where
    kvs: "ascending kvs" "map_of kvs = (\<lambda>k. if prefix [ns_q] k then ?v k else None)"
    and js: "list_all2 (\<lambda>kv j. submitted kv j env) kvs js" and ap0: "applied env (OriginalSupply (tr_evidence t), ?v) js t2"
    and ins: "\<forall>j \<in> set js. inspected env sv retention ?v j" by blast
  have ap: "applied env (supply, ?v) js t2" using ap0 t i1(1) by (simp add: transformer_new_def)
  have fresh: "?d1 (ns_q # k) = None" for k using ready i1(4) [of ns_q] by (simp add: index_ready_def)
  have inj: "inj_on (keccak256 env) (token_holders ?d1)"
    using coll hold by (auto simp: no_collisions_def intro: inj_on_subset)
  have dg: "digests_ok env" using env by (simp add: conversion_env_def)
  note jl = jobs_are_leaves [OF dg ev1 inj asc ok fresh kvs(1) kvs(2) [unfolded v] js]
  have tri: "map (leaf_triple env ?d1) (holder_leaves ?d1 slots) = map (leaf_triple env ?d) (holder_leaves ?d slots)"
    by (simp add: holder_leaves_def leaf_triple_def db)
  have vps: "?v (pre # k) = None" if "pre = ns_p \<or> pre = ns_s" for pre k
  proof -
    have "map_of (rev (concat (map (leaf_job env ?d1) slots))) (pre # k) = None"
      using that by (auto simp: leaf_jobs_eq leaf_entry_def map_of_eq_None_iff Let_def)
    with that ready i1(4) [of pre k] show ?thesis by (auto simp: v map_add_def index_ready_def)
  qed
  have job: "bj_address j \<in> token_holders ?d \<and> bj_hash j = keccak256 env (bj_address j) \<and>
      (moved j \<longrightarrow> account_at env sv (bj_hash j) = Inr (the (bj_account j)))" if "j \<in> set js" for j
  proof -
    have "set (map job_triple js) = set (map (leaf_triple env ?d) (holder_leaves ?d slots))"
      using jl(1) tri by (metis set_mset_mset)
    with that have "job_triple j \<in> set (map (leaf_triple env ?d) (holder_leaves ?d slots))" by force
    then have "bj_address j \<in> token_holders ?d"
      by (auto simp: job_triple_def leaf_triple_def holder_leaves_def token_holders_def)
    with ins that show ?thesis by (auto simp: inspected_def moved_def)
  qed
  have "\<forall>pre \<in> {ns_p, ns_s}. \<forall>k. ?v (pre # k) = None" using vps by auto
  moreover have "mset (map job_triple js) = mset (map (leaf_triple env ?d) (holder_leaves ?d slots))"
    using jl(1) unfolding tri .
  moreover have "\<forall>j \<in> set js. bj_address j \<in> token_holders ?d \<and> bj_hash j = keccak256 env (bj_address j) \<and>
      (moved j \<longrightarrow> account_at env sv (bj_hash j) = Inr (the (bj_account j)))" using job by (rule ballI)
  ultimately have "applied env (supply, ?v) js t2 \<and> (\<forall>pre \<in> {ns_p, ns_s}. \<forall>k. ?v (pre # k) = None) \<and>
    mset (map job_triple js) = mset (map (leaf_triple env ?d) (holder_leaves ?d slots)) \<and> distinct (map bj_address js) \<and>
    (\<forall>j \<in> set js. bj_address j \<in> token_holders ?d \<and> bj_hash j = keccak256 env (bj_address j) \<and>
      (moved j \<longrightarrow> account_at env sv (bj_hash j) = Inr (the (bj_account j))))" using ap jl(2) by (intro conjI)
  then show ?thesis by (intro exI [of _ ?v] exI [of _ js])
qed

text \<open>The two rebuilding phases.\<close>

lemma rebuildStorage_ok:
  assumes env: "conversion_env env" and reads: "trie_reads sv accounts slots" and sorted: "index_sorted (tr_index t)"
    and run: "rebuildStorage env sv ow owner db t = Inr (root, db1, t')"
  shows "\<exists>i slots' b. t' = t\<lparr>tr_index := i\<rparr> \<and> index_sorted i \<and>
    index_view i = (index_view (tr_index t))(ns_s # supply_key env \<mapsto> b) \<and> root = stack_root env slots' \<and> ascending slots' \<and>
    slot_value env slots' (supply_key env) = RemainingSupply (tr_evidence t) \<and>
    (\<forall>k. k \<noteq> supply_key env \<longrightarrow> map_of slots' k = (case index_view (tr_index t) (ns_s # k) of
       None \<Rightarrow> map_of slots k | Some v \<Rightarrow> if v = [] then None else Some v))"
proof -
  let ?R = "RemainingSupply (tr_evidence t)" and ?k = "supply_key env"
  from reads obtain e where it: "sv_storageIter sv = Some (slots, e)" and asc: "ascending slots"
    and ne: "\<forall>kv \<in> set slots. snd kv \<noteq> []" by (auto simp: trie_reads_def)
  from run it obtain b t1 where b: "(if ?R \<noteq> 0 then rlp_enc_bytes env (u256_Bytes ?R) else Some []) = Some b"
    and t1: "tr_put (ow_index ow) ns_s ?k b t = Inr t1" and t2: "tr_flush (ow_index ow) t1 = Inr t'"
    and re: "rebuildPatchedTrie env (ow_lib ow) (ow_writer ow) (ow_storagePoll ow) db owner (slots, e)
      (index_iter (ow_storageBreak ow) ns_s (tr_index t')) ns_s = Inr (root, db1)"
    unfolding rebuildStorage_def Let_def supply_key_def
    by (auto simp: bindR_eq_Inr mapErr_eq_Inr split: option.splits)
  from tr_put_ok [OF sorted t1] obtain i1 where i1: "t1 = t\<lparr>tr_index := i1\<rparr>" "index_sorted i1"
    "index_view i1 = (index_view (tr_index t))(ns_s # ?k \<mapsto> b)" by blast
  from tr_flush_ok [OF _ t2] i1 obtain i2 where i2: "t' = t\<lparr>tr_index := i2\<rparr>" "index_sorted i2"
    "index_view i2 = index_view i1" "index_durable i2 = index_view i1" by auto
  from i2(1) re have re': "rebuildPatchedTrie env (ow_lib ow) (ow_writer ow) (ow_storagePoll ow) db owner (slots, e)
      (index_iter (ow_storageBreak ow) ns_s i2) ns_s = Inr (root, db1)" by simp
  from rebuild_from_index [OF re' i2(2) asc ne] obtain slots' where s: "root = stack_root env slots'" "ascending slots'"
    "\<And>k. map_of slots' k = (case index_durable i2 (ns_s # k) of
       None \<Rightarrow> map_of slots k | Some v \<Rightarrow> if v = [] then None else Some v)" by blast
  have at: "map_of slots' ?k = (if b = [] then None else Some b)" using s(3) [of ?k] by (simp add: i2(4) i1(3))
  have "slot_value env slots' ?k = ?R"
  proof (cases "?R = 0")
    case True
    with b at show ?thesis by (simp add: slot_value_def)
  next
    case False
    with b have "rlp_enc_bytes env (u256_Bytes ?R) = Some b" by simp
    from decode_supply [OF env False this] at show ?thesis by (simp add: slot_value_def leaf_value_def)
  qed
  moreover have "map_of slots' k = (case index_view (tr_index t) (ns_s # k) of
       None \<Rightarrow> map_of slots k | Some v \<Rightarrow> if v = [] then None else Some v)" if "k \<noteq> ?k" for k
    using s(3) [of k] that by (simp add: i2(4) i1(3))
  ultimately show ?thesis using i2(1-3) i1(3) s(1,2)
    by (intro exI [of _ i2] exI [of _ slots'] exI [of _ b]) auto
qed

lemma rebuildAccounts_ok:
  assumes "trie_reads sv accounts slots" and "index_sorted (tr_index t)" and "rebuildAccounts env sv ow db t = Inr (root, db')"
  shows "\<exists>accounts'. root = stack_root env accounts' \<and> ascending accounts' \<and>
    (\<forall>h. map_of accounts' h = (case index_durable (tr_index t) (ns_p # h) of
       None \<Rightarrow> map_of accounts h | Some v \<Rightarrow> if v = [] then None else Some v))"
proof -
  from assms(1) obtain e where it: "sv_accountIter sv = Some (accounts, e)" and asc: "ascending accounts"
    and ne: "\<forall>kv \<in> set accounts. snd kv \<noteq> []" by (auto simp: trie_reads_def)
  from assms(3) it have "rebuildPatchedTrie env (ow_lib ow) (ow_writer ow) (ow_accountPoll ow) db zero_hash (accounts, e)
      (index_iter (ow_accountBreak ow) ns_p (tr_index t)) ns_p = Inr (root, db')"
    by (auto simp: rebuildAccounts_def mapErr_eq_Inr)
  from rebuild_from_index [OF this assms(2) asc ne] show ?thesis by blast
qed

text \<open>The patch of a moved job is its account with the balance.\<close>

lemma moved_blob:
  assumes env: "conversion_env env" and ap: "applied env (supply, v) js t" and j: "j \<in> set js" "moved j"
    and acc: "account_at env sv (bj_hash j) = Inr (the (bj_account j))" and dist: "distinct (map bj_hash js)"
  shows "\<exists>b. index_view (tr_index t) (ns_p # bj_hash j) = Some b \<and> b \<noteq> [] \<and> leaf_native env b = unat (bj_value j)"
proof -
  let ?a = "the (bj_account j)"
  have enc: "rlp_enc_account env (job_account j) \<noteq> None" using ap j by (simp add: applied_def)
  then obtain b where b: "rlp_enc_account env (?a\<lparr>Balance := Some (bj_value j)\<rparr>) = Some b" by (auto simp: job_account_def)
  have "is_hash (Root ?a)" using account_at_wf [OF env acc] by simp
  from encoded_native [OF env this b] have "b \<noteq> []" "leaf_native env b = unat (bj_value j)" by simp_all
  moreover have "index_view (tr_index t) (ns_p # bj_hash j) = Some b"
    using ap job_patches_p(1) [OF dist j, of env] b by (simp add: applied_def job_account_def)
  ultimately show ?thesis by blast
qed

lemma account_side:
  assumes env: "conversion_env env" and ap: "applied env (supply, v) js t" and none: "\<And>k. v (ns_p # k) = None"
    and jobs: "\<And>j. j \<in> set js \<Longrightarrow> moved j \<Longrightarrow> account_at env sv (bj_hash j) = Inr (the (bj_account j)) \<and> bj_hash j \<noteq> owner"
    and dist: "distinct (map bj_hash js)" and asc: "ascending accounts" "ascending accounts'"
    and zero: "\<forall>kv \<in> set accounts. leaf_native env (snd kv) = 0" and blob: "blob \<noteq> []"
    and look: "\<And>h. map_of accounts' h = (case ((index_view (tr_index t))(ns_p # owner \<mapsto> blob)) (ns_p # h) of
       None \<Rightarrow> map_of accounts h | Some v \<Rightarrow> if v = [] then None else Some v)"
  shows "native_supply env accounts' = leaf_native env blob + job_sum (filter moved js)"
    and "map_of accounts' owner = Some blob"
proof -
  let ?P = "\<lambda>h. index_view (tr_index t) (ns_p # h)"
  have blobs: "\<exists>b. ?P (bj_hash j) = Some b \<and> b \<noteq> [] \<and> leaf_native env b = unat (bj_value j)" if "j \<in> set js" "moved j" for j
    using moved_blob [OF env ap that _ dist] jobs [OF that] by blast
  have unpatched: "?P h = None" if "\<not> (\<exists>j \<in> set js. moved j \<and> bj_hash j = h)" for h
    using ap none job_patches_p(2) [OF dist that, of env] by (simp add: applied_def)
  have look': "map_of accounts' h = (if h = owner then Some blob
      else if \<exists>j \<in> set js. moved j \<and> bj_hash j = h then ?P h else map_of accounts h)" for h
  proof (cases "\<exists>j \<in> set js. moved j \<and> bj_hash j = h")
    case True
    then obtain j where j: "j \<in> set js" "moved j" "bj_hash j = h" by blast
    from blobs [OF j(1,2)] j(3) obtain b where "?P h = Some b" "b \<noteq> []" by blast
    with True look [of h] blob show ?thesis by auto
  next
    case False
    with look [of h] unpatched [OF False] blob show ?thesis by auto
  qed
  show "map_of accounts' owner = Some blob" by (simp add: look')
  have ow: "\<forall>j \<in> set js. moved j \<longrightarrow> bj_hash j \<noteq> owner" using jobs by blast
  have bl: "\<exists>b. ?P (bj_hash j) = Some b \<and> leaf_native env b = unat (bj_value j)" if "j \<in> set js" "moved j" for j
    using blobs [OF that] by blast
  show "native_supply env accounts' = leaf_native env blob + job_sum (filter moved js)"
    by (rule patched_supply [OF asc zero dist ow look' bl])
qed

text \<open>The balances that stay, after the slots of the moved ones were deleted and the supply was set.\<close>

lemma token_side:
  assumes ap: "applied env (supply, v) js t" and none: "\<And>k. v (ns_s # k) = None"
    and triples: "mset (map job_triple js) = mset (map (leaf_triple env d) (holder_leaves d slots))"
    and dist: "distinct (map bj_address js)" and asc: "ascending slots" "ascending slots'" and free: "d (ns_b # sk) = None"
    and look: "\<And>k. k \<noteq> sk \<Longrightarrow> map_of slots' k = (case index_view (tr_index t) (ns_s # k) of
       None \<Rightarrow> map_of slots k | Some v \<Rightarrow> if v = [] then None else Some v)"
  shows "token_supply env d slots' = unat (RemainingSupply (tr_evidence t))"
proof -
  have "map_of slots' k = (if \<exists>j \<in> set js. moved j \<and> bj_slot j = k then None else map_of slots k)"
    if "d (ns_b # k) \<noteq> None" for k
  proof -
    have "index_view (tr_index t) (ns_s # k) = (if \<exists>j \<in> set js. moved j \<and> bj_slot j = k then Some [] else None)"
      using ap none [of k] job_patches_s [of env js k] by (simp add: applied_def map_add_def)
    moreover have "k \<noteq> sk" using that free by auto
    ultimately show ?thesis using look [of k] by (auto split: if_splits)
  qed
  from staying_supply [OF triples dist asc this] ap show ?thesis by (simp add: applied_def)
qed

lemma job_hashes:
  assumes "inj_on (keccak256 env) (insert ovmETHAddress (token_holders d))" and "distinct (map bj_address js)"
    and "\<forall>j \<in> set js. bj_address j \<in> token_holders d \<and> bj_hash j = keccak256 env (bj_address j) \<and> X j"
  shows "distinct (map bj_hash js)" and "\<forall>j \<in> set js. moved j \<longrightarrow> bj_hash j \<noteq> keccak256 env ovmETHAddress"
proof -
  have "map bj_hash js = map (keccak256 env) (map bj_address js)" using assms(3) by simp
  moreover have "inj_on (keccak256 env) (set (map bj_address js))"
    using assms(1,3) by (auto intro: inj_on_subset)
  ultimately show "distinct (map bj_hash js)" using assms(2) by (simp only: distinct_map)
  show "\<forall>j \<in> set js. moved j \<longrightarrow> bj_hash j \<noteq> keccak256 env ovmETHAddress"
  proof (intro ballI impI notI)
    fix j assume j: "j \<in> set js" "moved j" "bj_hash j = keccak256 env ovmETHAddress"
    with assms(3) have "bj_address j \<in> token_holders d" "keccak256 env (bj_address j) = keccak256 env ovmETHAddress" by auto
    with inj_onD [OF assms(1), of "bj_address j" ovmETHAddress] j(2) show False by (simp add: moved_def)
  qed
qed

text \<open>The phases after the check of the supply, given the index with the patches of the balances.\<close>

lemma rebuild_phases:
  assumes env: "conversion_env env" and reads: "trie_reads sv accounts slots" and sorted: "index_sorted (tr_index t)"
    and later: "bindR (rebuildStorage env sv ow owner db t) (\<lambda>(storageRoot, db1, t4).
      bindR (write_code env ow owner code db1) (\<lambda>db2.
      bindR (patchAccount env (ow_index ow) owner (account\<lparr>Root := storageRoot,
          Balance := Some (RemainingSupply (tr_evidence t4)), CodeHash := keccak256 env code\<rparr>) t4) (\<lambda>t5.
      bindR (tr_flush (ow_index ow) t5) (\<lambda>t6.
      bindR (rebuildAccounts env sv ow db2 t6) (\<lambda>(newRoot, db3).
        Inr (newRoot, tr_evidence t6, db3)))))) = Inr (newRoot, ev, db')"
  shows "\<exists>accounts' slots' blob acc. newRoot = stack_root env accounts' \<and> ascending accounts' \<and> ascending slots' \<and>
    ev = tr_evidence t \<and> blob \<noteq> [] \<and> leaf_native env blob = unat (RemainingSupply ev) \<and> rlp_dec_account env blob = Some acc \<and>
    Balance acc = Some (RemainingSupply ev) \<and> CodeHash acc = keccak256 env code \<and> Root acc = stack_root env slots' \<and>
    slot_value env slots' (supply_key env) = RemainingSupply ev \<and>
    (\<forall>k. k \<noteq> supply_key env \<longrightarrow> map_of slots' k = (case index_view (tr_index t) (ns_s # k) of
       None \<Rightarrow> map_of slots k | Some v \<Rightarrow> if v = [] then None else Some v)) \<and>
    (\<forall>h. map_of accounts' h = (case ((index_view (tr_index t))(ns_p # owner \<mapsto> blob)) (ns_p # h) of
       None \<Rightarrow> map_of accounts h | Some v \<Rightarrow> if v = [] then None else Some v))"
proof -
  let ?R = "RemainingSupply (tr_evidence t)"
  from later obtain sroot db1 t4 where re: "rebuildStorage env sv ow owner db t = Inr (sroot, db1, t4)"
    by (auto simp: bindR_eq_Inr)
  from rebuildStorage_ok [OF env reads sorted re] obtain i4 slots' b where t4: "t4 = t\<lparr>tr_index := i4\<rparr>" "index_sorted i4"
    "index_view i4 = (index_view (tr_index t))(ns_s # supply_key env \<mapsto> b)" and s': "sroot = stack_root env slots'"
    "ascending slots'" "slot_value env slots' (supply_key env) = ?R"
    "\<And>k. k \<noteq> supply_key env \<Longrightarrow> map_of slots' k = (case index_view (tr_index t) (ns_s # k) of
       None \<Rightarrow> map_of slots k | Some v \<Rightarrow> if v = [] then None else Some v)" by auto
  let ?acc = "account\<lparr>Root := sroot, Balance := Some ?R, CodeHash := keccak256 env code\<rparr>"
  from later re t4(1) obtain db2 blob t5 t6 where
    enc: "rlp_enc_account env ?acc = Some blob" and t5: "tr_put (ow_index ow) ns_p owner blob t4 = Inr t5"
    and t6: "tr_flush (ow_index ow) t5 = Inr t6" "ev = tr_evidence t6"
    and ra: "rebuildAccounts env sv ow db2 t6 = Inr (newRoot, db')"
    by (auto simp: bindR_eq_Inr patchAccount_def split: option.splits)
  from tr_put_ok [OF _ t5] t4 obtain i5 where i5: "t5 = t\<lparr>tr_index := i5\<rparr>" "index_sorted i5"
    "index_view i5 = (index_view (tr_index t))(ns_s # supply_key env \<mapsto> b, ns_p # owner \<mapsto> blob)" by auto
  from tr_flush_ok [OF _ t6(1)] i5 obtain i6 where i6: "t6 = t\<lparr>tr_index := i6\<rparr>" "index_sorted i6"
    "index_durable i6 = (index_view (tr_index t))(ns_s # supply_key env \<mapsto> b, ns_p # owner \<mapsto> blob)" by auto
  from rebuildAccounts_ok [OF reads _ ra] i6 obtain accounts' where a': "newRoot = stack_root env accounts'" "ascending accounts'"
    "\<And>h. map_of accounts' h = (case ((index_view (tr_index t))(ns_p # owner \<mapsto> blob)) (ns_p # h) of
       None \<Rightarrow> map_of accounts h | Some v \<Rightarrow> if v = [] then None else Some v)" by auto
  have ev: "ev = tr_evidence t" using t6(2) i6(1) by simp
  have "is_hash (Root (account\<lparr>Root := sroot, CodeHash := keccak256 env code\<rparr>))"
    using env s'(1) by (simp add: conversion_env_def)
  moreover have "?acc = account\<lparr>Root := sroot, CodeHash := keccak256 env code\<rparr>\<lparr>Balance := Some ?R\<rparr>"
    by (cases account) simp
  ultimately have blob: "blob \<noteq> []" "rlp_dec_account env blob = Some ?acc"
    "leaf_native env blob = unat ?R"
    using encoded_native [OF env _ enc [unfolded \<open>?acc = _\<close>]] by simp_all
  have "slot_value env slots' (supply_key env) = RemainingSupply ev" "Balance ?acc = Some (RemainingSupply ev)"
    "leaf_native env blob = unat (RemainingSupply ev)" using s'(3) blob(3) by (simp_all add: ev)
  with a' s'(1,2,4) ev blob(1,2) show ?thesis
    by (intro exI [of _ accounts'] exI [of _ slots'] exI [of _ blob] exI [of _ ?acc]) simp
qed

section \<open>Properties\<close>

text \<open>
  Property C3. The conversion conserves value and leaves the token fully backed. When
  \<^verbatim>\<open>transformOVMState\<close> succeeds on a source state without native balances, the new root is
  that of an account trie whose native balances add up to exactly the tokens all holders had,
  which is the original total supply when no audit summary explains a difference. Tokens either
  moved or remained, without overflow; the token contract's new account carries the replacement
  code, a native balance equal to the remaining supply, and a storage in which the balances that
  stay and the recorded total supply both equal that same amount.
\<close>

theorem ovm_supply_conserved:
  assumes env: "conversion_env env" and reads: "trie_reads sv accounts slots" and ready: "index_ready env i"
    and coll: "no_collisions env (index_durable i)" and zero: "\<forall>kv \<in> set accounts. leaf_native env (snd kv) = 0"
    and run: "transformOVMState env sv ow head inputs workers db i = Inr (newRoot, ev, db')"
  shows "\<exists>accounts' slots' blob acc.
    newRoot = stack_root env accounts' \<and>
    native_supply env accounts' = token_supply env (index_durable i) slots \<and>
    unat (MigratedNative ev) + unat (RemainingSupply ev) = token_supply env (index_durable i) slots \<and>
    (in_audit inputs = None \<longrightarrow> unat (OriginalSupply ev) = token_supply env (index_durable i) slots) \<and>
    map_of accounts' (keccak256 env ovmETHAddress) = Some blob \<and> rlp_dec_account env blob = Some acc \<and>
    Balance acc = Some (RemainingSupply ev) \<and> CodeHash acc = keccak256 env (in_code inputs) \<and>
    Root acc = stack_root env slots' \<and>
    token_supply env (index_durable i) slots' = unat (RemainingSupply ev) \<and>
    slot_value env slots' (supply_key env) = RemainingSupply ev"
proof -
  let ?d = "index_durable i" and ?owner = "keccak256 env ovmETHAddress"
  from run obtain account orig t1 t2 t3 where
    rd: "readOVMAccount env sv ?owner = Inr account"
    and meta: "recognizeMetadata env sv ow (transformer_new i orig) = Inr t1"
    and cls: "classifyStorage env sv ow workers (in_retention inputs) t1 = Inr t2"
    and chk: "check_supply inputs head account orig t2 = Inr ()"
    and fl3: "tr_flush (ow_index ow) t2 = Inr t3"
    and later: "bindR (rebuildStorage env sv ow ?owner db t3) (\<lambda>(storageRoot, db1, t4).
      bindR (write_code env ow ?owner (in_code inputs) db1) (\<lambda>db2.
      bindR (patchAccount env (ow_index ow) ?owner (account\<lparr>Root := storageRoot,
          Balance := Some (RemainingSupply (tr_evidence t4)), CodeHash := keccak256 env (in_code inputs)\<rparr>) t4) (\<lambda>t5.
      bindR (tr_flush (ow_index ow) t5) (\<lambda>t6.
      bindR (rebuildAccounts env sv ow db2 t6) (\<lambda>(newRoot, db3).
        Inr (newRoot, tr_evidence t6, db3)))))) = Inr (newRoot, ev, db')"
    unfolding transformOVMState_def Let_def by (auto simp: bindR_eq_Inr split: if_splits)
  from classified_and_applied [OF env reads ready coll meta cls] obtain v js where ap: "applied env (orig, v) js t2"
    and none: "\<forall>pre \<in> {ns_p, ns_s}. \<forall>k. v (pre # k) = None"
    and triples: "mset (map job_triple js) = mset (map (leaf_triple env ?d) (holder_leaves ?d slots))"
    and dist: "distinct (map bj_address js)"
    and jobs: "\<forall>j \<in> set js. bj_address j \<in> token_holders ?d \<and> bj_hash j = keccak256 env (bj_address j) \<and>
       (moved j \<longrightarrow> account_at env sv (bj_hash j) = Inr (the (bj_account j)))" by blast
  let ?R = "RemainingSupply (tr_evidence t2)"
  have sorted: "index_sorted (tr_index t2)" using ap by (simp add: applied_def)
  from tr_flush_ok [OF sorted fl3] obtain i3 where t3: "t3 = t2\<lparr>tr_index := i3\<rparr>" "index_sorted i3"
    "index_view i3 = index_view (tr_index t2)" by blast
  from rebuild_phases [OF env reads _ later] t3 obtain accounts' slots' blob acc where
    a': "newRoot = stack_root env accounts'" "ascending accounts'"
    "\<And>h. map_of accounts' h = (case ((index_view (tr_index t2))(ns_p # ?owner \<mapsto> blob)) (ns_p # h) of
       None \<Rightarrow> map_of accounts h | Some v \<Rightarrow> if v = [] then None else Some v)"
    and s': "ascending slots'" "Root acc = stack_root env slots'" "slot_value env slots' (supply_key env) = RemainingSupply ev"
    "\<And>k. k \<noteq> supply_key env \<Longrightarrow> map_of slots' k = (case index_view (tr_index t2) (ns_s # k) of
       None \<Rightarrow> map_of slots k | Some v \<Rightarrow> if v = [] then None else Some v)"
    and ev: "ev = tr_evidence t2" and blob: "blob \<noteq> []" "rlp_dec_account env blob = Some acc"
    "leaf_native env blob = unat (RemainingSupply ev)" "Balance acc = Some (RemainingSupply ev)"
    "CodeHash acc = keccak256 env (in_code inputs)" by auto
  have inj: "inj_on (keccak256 env) (insert ovmETHAddress (token_holders ?d))" using coll by (simp add: no_collisions_def)
  have hash: "distinct (map bj_hash js)" "\<forall>j \<in> set js. moved j \<longrightarrow> bj_hash j \<noteq> ?owner"
    using job_hashes [OF inj dist] jobs by blast+
  have np: "v (ns_p # k) = None" and nsx: "v (ns_s # k) = None" for k using none by simp_all
  have asc: "ascending accounts" "ascending slots" using reads by (simp_all add: trie_reads_def)
  have src: "account_at env sv (bj_hash j) = Inr (the (bj_account j)) \<and> bj_hash j \<noteq> ?owner" if "j \<in> set js" "moved j" for j
    using jobs hash(2) that by blast
  note acct = account_side [OF env ap np src hash(1) asc(1) a'(2) zero blob(1) a'(3)]
  have native: "native_supply env accounts' = unat ?R + job_sum (filter moved js)" "map_of accounts' ?owner = Some blob"
    using acct blob(3) by (simp_all add: ev)
  have "?d (ns_b # supply_key env) = None" using coll by (simp add: no_collisions_def)
  from token_side [OF ap nsx triples dist asc(2) s'(1) this s'(4)]
  have stay: "token_supply env ?d slots' = unat ?R" by simp
  have sums: "unat (tr_total t2) = token_supply env ?d slots" "unat (MigratedNative (tr_evidence t2)) = job_sum (filter moved js)"
    "unat ?R + job_sum (filter moved js) = token_supply env ?d slots" "OriginalSupply (tr_evidence t2) = orig"
    using ap job_sum_leaves [OF triples] job_sum_split [of js moved] by (simp_all add: applied_def)
  have "in_audit inputs = None \<longrightarrow> tr_total t2 = orig" using chk by (auto simp: check_supply_def bindR_eq_Inr ensure_def split: if_splits)
  then have "native_supply env accounts' = token_supply env ?d slots \<and>
    unat (MigratedNative ev) + unat (RemainingSupply ev) = token_supply env ?d slots \<and>
    (in_audit inputs = None \<longrightarrow> unat (OriginalSupply ev) = token_supply env ?d slots)"
    using sums native(1) by (auto simp: ev)
  moreover have "token_supply env ?d slots' = unat (RemainingSupply ev)" using stay by (simp add: ev)
  ultimately show ?thesis using a'(1) native(2) blob(2,4,5) s'(2,3)
    by (intro exI [of _ accounts'] exI [of _ slots'] exI [of _ blob] exI [of _ acc]) simp
qed

end
