(* ===== verification/OvmWitnesses.thy ===== *)
theory OvmWitnesses
  imports OvmConserve Demo
begin

text \<open>
  Witnesses of the properties about the conversion: a token contract with two holders, one
  without code and the contract itself, is converted in the concrete environment.
\<close>

section \<open>A small token\<close>

lemma isOk_eq: "isOk r \<Longrightarrow> r = Inr (projr r)"
  by (cases r) simp_all

definition wit_pad :: "byte \<Rightarrow> byte \<Rightarrow> byte \<Rightarrow> hash" where
  "wit_pad x y z = x # y # z # replicate 29 1"

definition wit_hash :: "bytes \<Rightarrow> hash" where
  "wit_hash b = wit_pad (case drop 12 b of [] \<Rightarrow> 0 | x # _ \<Rightarrow> x) (last (0 # b)) (case b of [] \<Rightarrow> 0 | x # _ \<Rightarrow> x)"

definition wit_env :: geth_env where
  "wit_env = demo_env\<lparr>keccak256 := wit_hash\<rparr>"

definition wit_eoa :: address where "wit_eoa = replicate 20 7"

definition wit_iw :: index_world where
  "wit_iw = \<lparr>iw_putErr = no_faults, iw_writeErr = no_faults, iw_getErr = no_faults,
     iw_ValueSize = (\<lambda>_. 0), iw_IdealBatchSize = 100\<rparr>"

definition wit_evidence :: "kv list" where
  "wit_evidence = [(ns_b # wit_pad 1 1 7, wit_eoa), (ns_b # wit_pad 1 1 222, ovmETHAddress)]"

definition wit_index :: ovmIndex where
  "wit_index = newOVMIndex wit_evidence"

definition wit_slots :: "kv list" where
  "wit_slots = [(wit_pad 0 2 0, [8]), (wit_pad 1 1 7, [5]), (wit_pad 1 1 222, [3])]"

definition wit_accounts :: "kv list" where
  "wit_accounts = [(wit_pad 222 0 222, put_account 1 0 (replicate 32 2) (wit_pad 0 1 1))]"

definition wit_get :: "kv list \<Rightarrow> hash \<Rightarrow> bytes option" where
  "wit_get kvs h = Some (case map_of kvs h of None \<Rightarrow> [] | Some v \<Rightarrow> v)"

definition wit_view :: state_view where
  "wit_view = \<lparr>sv_accountOpen = no_faults, sv_accountGet = wit_get wit_accounts, sv_accountIter = Some (wit_accounts, False),
     sv_storageOpen = False, sv_storageGet = wit_get wit_slots, sv_storageIter = Some (wit_slots, False)\<rparr>"

definition wit_lib :: artifact_keys where
  "wit_lib = \<lparr>SnapshotAccountPrefix = [97], SnapshotStoragePrefix = [111], CodePrefix = [99],
     TrieNodeAccountPrefix = [65], TrieNodeStoragePrefix = [79], SlimAccountRLP = (\<lambda>a. [])\<rparr>"

definition wit_ww :: writer_world where
  "wit_ww = \<lparr>ww_opErr = no_faults, ww_writeErr = no_faults, ww_ValueSize = (\<lambda>ops. int (length ops)), ww_IdealBatchSize = 100\<rparr>"

definition wit_cursor :: cursor_world where
  "wit_cursor = \<lparr>cw_poll = no_faults, cw_break = (\<lambda>_. None)\<rparr>"

definition wit_ow :: ovm_world where
  "wit_ow = \<lparr>ow_lib = wit_lib, ow_index = wit_iw, ow_writer = wit_ww,
     ow_batch = \<lparr>bw_lease = (\<lambda>_. False), bw_getErr = (\<lambda>_ _. False), bw_submitPoll = (\<lambda>_. False), bw_applyPoll = (\<lambda>_. False)\<rparr>,
     ow_cursor = (\<lambda>_. wit_cursor),
     ow_retainPoll = no_faults, ow_retainBreak = None, ow_stringPoll = (\<lambda>_. no_faults), ow_leafLease = no_faults,
     ow_orderPoll = no_faults, ow_orderBreak = None, ow_storagePoll = no_faults, ow_storageBreak = None,
     ow_codePoll = False, ow_accountPoll = no_faults, ow_accountBreak = None\<rparr>"

definition wit_inputs :: ovmInputs where
  "wit_inputs = \<lparr>in_audit = None, in_code = [96, 0], in_retention = False\<rparr>"

section \<open>Its conversion\<close>

text \<open>The transformer after the metadata phase and after the balances were applied.\<close>

definition wit_known :: "kv list" where
  "wit_known = wit_evidence @ map (\<lambda>n. (ns_k # wit_pad 0 n 0, [n])) [2, 3, 4, 5, 6]"

definition wit_t1 :: ovmTransformer where
  "wit_t1 = transformer_new \<lparr>ix_db = wit_known, ix_batch = [], ix_ops = 6\<rparr> 8"

definition wit_job :: "byte \<Rightarrow> bytes" where
  "wit_job v = replicate 31 0 @ [v]"

definition wit_t2 :: ovmTransformer where
  "wit_t2 = \<lparr>tr_index = \<lparr>ix_db = wit_known @ [(ns_q # wit_pad 7 7 7, wit_eoa @ wit_pad 1 1 7 @ wit_job 5),
       (ns_q # wit_pad 222 0 222, ovmETHAddress @ wit_pad 1 1 222 @ wit_job 3)],
     ix_batch = [(ns_p # wit_pad 7 7 7, put_account 0 5 demo_EmptyRoot demo_EmptyCode), (ns_s # wit_pad 1 1 7, [])], ix_ops = 11\<rparr>,
     tr_evidence = \<lparr>OriginalSupply = 8, MigratedNative = 5, RemainingSupply = 3, EOAs = 1, ConvertedContracts = 0,
       RetainedContracts = 0, SelfBalance = 3\<rparr>, tr_total = 8, tr_balanceSlots = 2\<rparr>"

definition wit_account :: state_account where
  "wit_account = \<lparr>Nonce = 1, Balance = Some 0, Root = replicate 32 2, CodeHash = wit_pad 0 1 1\<rparr>"

lemma wit_read: "readOVMAccount wit_env wit_view (keccak256 wit_env ovmETHAddress) = Inr wit_account"
  by code_simp

lemma wit_supply: "storageValue wit_env wit_view (slot_number 2) = Inr 8"
  by code_simp

lemma wit_metadata: "recognizeMetadata wit_env wit_view wit_ow (transformer_new wit_index 8) = Inr wit_t1"
  by code_simp

lemma wit_classify: "classifyStorage wit_env wit_view wit_ow 4 False wit_t1 = Inr wit_t2"
  by code_simp

lemma wit_check: "check_supply wit_inputs demo_head wit_account 8 wit_t2 = Inr ()"
  by (simp add: check_supply_def wit_inputs_def wit_t2_def SubOverflow_def ensure_def)

lemma wit_has_code: "CodeHash wit_account \<noteq> EmptyCodeHash wit_env"
  by code_simp

section \<open>What the conversion relies on holds here\<close>

lemma wit_env_ok: "conversion_env wit_env"
proof -
  have hash: "is_hash (wit_hash b)" for b by (simp add: is_hash_def HashLength_def wit_hash_def wit_pad_def)
  have root: "is_hash (demo_root ts)" for ts
    by (simp add: demo_root_def is_hash_def HashLength_def demo_EmptyRoot_def demo_hash_def)
  have "digests_ok wit_env" using demo_digests hash by (simp add: digests_ok_def wit_env_def)
  moreover have "account_rlp_ok wit_env" using demo_account by (simp add: account_rlp_ok_def wit_env_def)
  moreover have "bytes_rlp_ok wit_env" using demo_bytes by (auto simp: bytes_rlp_ok_def wit_env_def)
  moreover have "rlp_nonempty wit_env" using demo_nonempty by (simp add: rlp_nonempty_def wit_env_def)
  moreover have "\<forall>ts. is_hash (stack_root wit_env ts)" using root by (simp add: wit_env_def demo_env_def)
  ultimately show ?thesis by (simp add: conversion_env_def)
qed

lemma wit_reads: "trie_reads wit_view wit_accounts wit_slots"
proof -
  have "ascending wit_accounts" "ascending wit_slots" by code_simp+
  moreover have "\<forall>kv \<in> set wit_accounts \<union> set wit_slots. snd kv \<noteq> []" by code_simp
  ultimately show ?thesis by (auto simp: trie_reads_def wit_view_def wit_get_def)
qed

lemma wit_balance_keys:
  "balance_key wit_env wit_eoa = wit_pad 1 1 7" "balance_key wit_env ovmETHAddress = wit_pad 1 1 222"
  "is_address wit_eoa" "is_address ovmETHAddress"
  by code_simp+

lemma wit_durable:
  "index_durable wit_index (pre # k) = (if pre = ns_b \<and> k = wit_pad 1 1 7 then Some wit_eoa
     else if pre = ns_b \<and> k = wit_pad 1 1 222 then Some ovmETHAddress else None)"
  by (auto simp: index_durable_def wit_index_def newOVMIndex_def wit_evidence_def)

lemma wit_ready: "index_ready wit_env wit_index"
proof -
  have "ascending wit_evidence" by code_simp
  then have "index_sorted wit_index" by (simp add: index_sorted_def wit_index_def newOVMIndex_def)
  moreover have "evidence_ok wit_env (index_durable wit_index)"
    using wit_balance_keys by (auto simp: evidence_ok_def wit_durable split: if_splits)
  ultimately show ?thesis by (auto simp: index_ready_def wit_durable) (simp add: wit_index_def newOVMIndex_def)
qed

lemma wit_collisions: "no_collisions wit_env (index_durable wit_index)"
proof -
  have "insert ovmETHAddress (token_holders (index_durable wit_index)) \<subseteq> {wit_eoa, ovmETHAddress}"
    by (auto simp: token_holders_def wit_durable split: if_splits)
  moreover have ne: "wit_hash wit_eoa \<noteq> wit_hash ovmETHAddress" "supply_key wit_env = wit_pad 0 2 0" by code_simp+
  then have "inj_on (keccak256 wit_env) {wit_eoa, ovmETHAddress}" by (auto simp: wit_env_def)
  ultimately have "inj_on (keccak256 wit_env) (insert ovmETHAddress (token_holders (index_durable wit_index)))"
    by (rule inj_on_subset [rotated])
  then show ?thesis by (simp add: no_collisions_def wit_durable ne(2) wit_pad_def)
qed

lemma wit_zero: "\<forall>kv \<in> set wit_accounts. leaf_native wit_env (snd kv) = 0"
  by code_simp

lemma wit_token: "token_supply wit_env (index_durable wit_index) wit_slots = 8"
  by code_simp

section \<open>Nothing fails after the check of the supply\<close>

lemma wit_put: "\<exists>t'. tr_put wit_iw pre k v t = Inr t' \<and> tr_evidence t' = tr_evidence t \<and>
    index_view (tr_index t') = (index_view (tr_index t))(pre # k \<mapsto> v) \<and> index_sorted (tr_index t')"
  if "index_sorted (tr_index t)"
proof -
  have "\<exists>t'. tr_put wit_iw pre k v t = Inr t'"
    by (simp add: tr_put_def index_put_def batch_Put_def flush_large_def wit_iw_def no_faults_apply)
  then obtain t' where run: "tr_put wit_iw pre k v t = Inr t'" by blast
  from tr_put_ok [OF that run] run show ?thesis by auto
qed

lemma wit_flush: "\<exists>t'. tr_flush wit_iw t = Inr t' \<and> tr_evidence t' = tr_evidence t \<and>
    index_durable (tr_index t') = index_view (tr_index t) \<and> index_view (tr_index t') = index_view (tr_index t) \<and>
    index_sorted (tr_index t')"
  if "index_sorted (tr_index t)"
proof -
  have "\<exists>t'. tr_flush wit_iw t = Inr t'"
    by (simp add: tr_flush_def index_flush_def wit_iw_def no_faults_apply)
  then obtain t' where run: "tr_flush wit_iw t = Inr t'" by blast
  from tr_flush_ok [OF that run] run show ?thesis by auto
qed

text \<open>All patches lie under hashes.\<close>

definition hash_patches :: "(bytes \<rightharpoonup> bytes) \<Rightarrow> bool" where
  "hash_patches m \<longleftrightarrow> (\<forall>k. (m (ns_p # k) \<noteq> None \<longrightarrow> is_hash k) \<and> (m (ns_s # k) \<noteq> None \<longrightarrow> is_hash k))"

lemma hash_patches_upd: "hash_patches m \<Longrightarrow> is_hash k \<Longrightarrow> hash_patches (m(pre # k \<mapsto> v))"
  by (simp add: hash_patches_def)

lemma wit_rebuild:
  assumes "index_sorted i" and "hash_patches (index_durable i)" and "pre = ns_p \<or> pre = ns_s"
    and "ascending leaves" and "\<forall>kv \<in> set leaves. is_hash (fst kv)"
  shows "\<exists>r. rebuildPatchedTrie wit_env wit_lib wit_ww no_faults db owner (leaves, False) (index_iter None pre i) pre = Inr r"
proof -
  let ?ns = "namespace (ix_db i) pre"
  have asc: "ascending (ix_db i)" using assms(1) by (simp add: index_sorted_def)
  note st = strip_namespace [OF asc, of pre]
  have "is_hash k" if "(k, v) \<in> set (strip 1 ?ns)" for k v
  proof -
    have "map_of (strip 1 ?ns) k = Some v" using that st(1) by (simp add: ascending_map_of)
    then have "index_durable i (pre # k) \<noteq> None" using st(2) by (simp add: index_durable_def)
    with assms(2,3) show ?thesis by (auto simp: hash_patches_def)
  qed
  then have keys: "\<forall>kv \<in> set leaves \<union> set (strip (length [pre]) ?ns). is_hash (fst kv)" using assms(5) by auto
  have "stack_ok wit_env" using demo_stack by (simp add: stack_ok_def wit_env_def)
  moreover have "quiet_writer wit_ww" by (simp add: quiet_writer_def wit_ww_def no_faults_apply)
  ultimately show ?thesis
    using rebuild_succeeds [where pre = "[pre]" and b = ?ns, of wit_ww no_faults wit_env leaves, OF _ _ _ assms(4) _ keys] st(1)
    by (auto simp: rebuildPatchedTrie_def index_iter_def NewIterator_all no_faults_apply)
qed

lemma index_view_entry:
  assumes "index_sorted i" and "index_view i k = Some v"
  shows "(k, v) \<in> set (ix_db i @ ix_batch i)"
  using assms map_of_SomeD [of "rev (ix_batch i)" k v] map_of_SomeD [of "ix_db i" k v]
  by (auto simp: index_view_def index_sorted_def write_batch_map_of map_add_def split: option.splits)

lemma wit_view_t2: "index_sorted (tr_index wit_t2)" "hash_patches (index_view (tr_index wit_t2))"
proof -
  have asc: "ascending (ix_db (tr_index wit_t2))" by code_simp
  then show sorted: "index_sorted (tr_index wit_t2)" by (simp add: index_sorted_def)
  have "\<forall>kv \<in> set (ix_db (tr_index wit_t2) @ ix_batch (tr_index wit_t2)). length (fst kv) = 33" by code_simp
  then have "length k = 33" if "index_view (tr_index wit_t2) k = Some v" for k v
    using index_view_entry [OF sorted that] by (metis fst_conv)
  then show "hash_patches (index_view (tr_index wit_t2))"
    by (fastforce simp: hash_patches_def is_hash_def HashLength_def)
qed

lemma wit_leaves: "\<forall>kv \<in> set wit_slots. is_hash (fst kv)" "\<forall>kv \<in> set wit_accounts. is_hash (fst kv)"
  by code_simp+

lemma wit_hashes: "is_hash (supply_key wit_env)" "is_hash (keccak256 wit_env b)"
  using wit_env_ok by (simp_all add: conversion_env_def digests_ok_def supply_key_def ovmStorageHash_def)

lemma wit_ow_simps:
  "ow_index wit_ow = wit_iw" "ow_lib wit_ow = wit_lib" "ow_writer wit_ow = wit_ww" "ow_storagePoll wit_ow = no_faults"
  "ow_storageBreak wit_ow = None" "ow_accountPoll wit_ow = no_faults" "ow_accountBreak wit_ow = None" "ow_codePoll wit_ow = False"
  "sv_storageIter wit_view = Some (wit_slots, False)" "sv_accountIter wit_view = Some (wit_accounts, False)"
  by (simp_all add: wit_ow_def wit_view_def)

lemma wit_run: "\<exists>root ev db. transformOVMState wit_env wit_view wit_ow demo_head wit_inputs 4 [] wit_index = Inr (root, ev, db)"
proof -
  let ?owner = "keccak256 wit_env ovmETHAddress"
  have ins: "in_retention wit_inputs = False" by (simp add: wit_inputs_def)
  have asc: "ascending wit_slots" "ascending wit_accounts" using wit_reads by (simp_all add: trie_reads_def)
  from wit_flush [OF wit_view_t2(1)] obtain t3 where t3: "tr_flush wit_iw wit_t2 = Inr t3" "tr_evidence t3 = tr_evidence wit_t2"
    "index_view (tr_index t3) = index_view (tr_index wit_t2)" "index_sorted (tr_index t3)" by blast
  have rem: "RemainingSupply (tr_evidence t3) = 3" using t3(2) by (simp add: wit_t2_def)
  have b: "rlp_enc_bytes wit_env (u256_Bytes 3) = Some [3]" by code_simp
  from wit_put [OF t3(4), of ns_s "supply_key wit_env" "[3]"] obtain ta where ta: "tr_put wit_iw ns_s (supply_key wit_env) [3] t3 = Inr ta"
    "tr_evidence ta = tr_evidence t3" "index_view (tr_index ta) = (index_view (tr_index t3))(ns_s # supply_key wit_env \<mapsto> [3])"
    "index_sorted (tr_index ta)" by blast
  from wit_flush [OF ta(4)] obtain t4 where t4: "tr_flush wit_iw ta = Inr t4" "tr_evidence t4 = tr_evidence ta"
    "index_durable (tr_index t4) = index_view (tr_index ta)" "index_view (tr_index t4) = index_view (tr_index ta)"
    "index_sorted (tr_index t4)" by blast
  have hp4: "hash_patches (index_durable (tr_index t4))"
    using wit_view_t2(2) wit_hashes(1) by (simp add: t4(3) ta(3) t3(3) hash_patches_upd)
  from wit_rebuild [OF t4(5) hp4 _ asc(1) wit_leaves(1), of ns_s "[]" ?owner] obtain sroot db1 where
    "rebuildPatchedTrie wit_env wit_lib wit_ww no_faults [] ?owner (wit_slots, False) (index_iter None ns_s (tr_index t4)) ns_s = Inr (sroot, db1)"
    by auto
  with rem b ta(1) t4(1) have re: "rebuildStorage wit_env wit_view wit_ow ?owner [] t3 = Inr (sroot, db1, t4)"
    by (simp add: rebuildStorage_def supply_key_def wit_ow_simps)
  have "\<exists>db2. write_code wit_env wit_ow ?owner (in_code wit_inputs) db1 = Inr db2"
    by (auto simp: write_code_def wit_ow_simps direct_Code_def dw_op_def flushIfNeeded_def newDirectStateWriter_def
        newDirectStateWriterWithFlushLimit_def direct_CloseContext_def direct_Close_def dw_Write_def wit_ww_def no_faults_apply)
  then obtain db2 where code: "write_code wit_env wit_ow ?owner (in_code wit_inputs) db1 = Inr db2" by blast
  let ?acc = "wit_account\<lparr>Root := sroot, Balance := Some (RemainingSupply (tr_evidence t4)),
     CodeHash := keccak256 wit_env (in_code wit_inputs)\<rparr>"
  obtain blob where blob: "rlp_enc_account wit_env ?acc = Some blob"
    by (simp add: wit_env_def demo_env_def demo_enc_account_def)
  from wit_put [OF t4(5), of ns_p ?owner blob] obtain t5 where t5: "tr_put wit_iw ns_p ?owner blob t4 = Inr t5"
    "index_view (tr_index t5) = (index_view (tr_index t4))(ns_p # ?owner \<mapsto> blob)" "index_sorted (tr_index t5)" by blast
  from wit_flush [OF t5(3)] obtain t6 where t6: "tr_flush wit_iw t5 = Inr t6"
    "index_durable (tr_index t6) = index_view (tr_index t5)" "index_sorted (tr_index t6)" by blast
  have hp6: "hash_patches (index_durable (tr_index t6))"
    using hp4 wit_hashes(2) by (simp add: t6(2) t5(2) t4(4) flip: t4(3)) (simp add: t4(3,4) hash_patches_upd)
  from wit_rebuild [OF t6(3) hp6 _ asc(2) wit_leaves(2), of ns_p db2 zero_hash] obtain root db3 where
    "rebuildAccounts wit_env wit_view wit_ow db2 t6 = Inr (root, db3)"
    by (auto simp: rebuildAccounts_def wit_ow_simps)
  with re code blob t5(1) t6(1) t3(1) wit_read wit_has_code wit_supply wit_metadata wit_classify wit_check show ?thesis
    by (simp add: transformOVMState_def ins wit_ow_simps patchAccount_def)
qed

section \<open>Witnesses\<close>

theorem ovm_supply_conserved_witness:
  "\<exists>root ev db accounts' slots'. transformOVMState wit_env wit_view wit_ow demo_head wit_inputs 4 [] wit_index = Inr (root, ev, db) \<and>
     root = stack_root wit_env accounts' \<and> native_supply wit_env accounts' = 8 \<and>
     token_supply wit_env (index_durable wit_index) slots' = unat (RemainingSupply ev)"
proof -
  from wit_run obtain root ev db where
    run: "transformOVMState wit_env wit_view wit_ow demo_head wit_inputs 4 [] wit_index = Inr (root, ev, db)" by blast
  from ovm_supply_conserved [OF wit_env_ok wit_reads wit_ready wit_collisions wit_zero run] wit_token run
  show ?thesis by auto
qed

theorem cursor_is_lookup_witness:
  "fst (projr (cursor_gets wit_cursor wit_evidence [wit_pad 0 0 0, wit_pad 1 1 7] (newCursor ns_b))) = [None, Some wit_eoa]"
proof -
  let ?run = "cursor_gets wit_cursor wit_evidence [wit_pad 0 0 0, wit_pad 1 1 7] (newCursor ns_b)"
  have asc: "ascending wit_evidence" "sorted_wrt (<) [wit_pad 0 0 0, wit_pad 1 1 7]" by code_simp+
  note lookup = cursor_is_lookup [OF asc, of wit_cursor ns_b]
  have "isOk ?run" using lookup by (simp add: wit_cursor_def no_faults_apply)
  then have "?run = Inr (fst (projr ?run), snd (projr ?run))" using isOk_eq by fastforce
  with lookup have "fst (projr ?run) = map (\<lambda>k. map_of wit_evidence (prefixedKey [ns_b] k)) [wit_pad 0 0 0, wit_pad 1 1 7]"
    by blast
  then show ?thesis by (simp add: wit_evidence_def prefixedKey_def wit_pad_def)
qed

definition wit_calls :: "writer_call list" where
  "wit_calls = [CallCode zero_hash (wit_pad 4 4 4) [96], CallTrieNode zero_hash [] (wit_pad 5 5 5) [1, 2]]"


theorem rebuild_is_patch_witness:
  "isOk (rebuildPatchedTriePrefix demo_env wit_lib wit_ww no_faults [] zero_hash (wit_slots, False)
     (map (\<lambda>(k, v). ([ns_s] @ k, v)) [(wit_pad 1 1 7, [])], False) [ns_s])"
proof -
  have asc: "ascending wit_slots" "ascending [(wit_pad 1 1 7, [])]" by code_simp+
  have keys: "\<forall>kv \<in> set wit_slots \<union> set [(wit_pad 1 1 7, [])]. is_hash (fst kv)" by code_simp
  have "quiet_writer wit_ww" by (simp add: quiet_writer_def wit_ww_def no_faults_apply)
  then show ?thesis
    using rebuild_is_patch [OF demo_stack asc keys, of wit_lib wit_ww no_faults "[]" zero_hash False "[ns_s]" False]
    by (simp add: no_faults_apply)
qed

definition wit_schema :: struct_schema where
  "wit_schema = Struct [(''version'', False, None), (''target'', True, Some (Struct [(''root'', False, None)]))]"

theorem audit_fields_exact_witness:
  "auditJSONFields wit_schema (JObject [(''version'', JNumber ''1''), (''version'', JNumber ''1'')]) \<noteq> Inr () \<and>
   auditJSONFields wit_schema (JObject [(''target'', JObject [(''root'', JString ''x'')]), (''version'', JNumber ''1'')]) = Inr ()"
  unfolding wit_schema_def audit_fields_exact by (simp add: audit_fields_exact) blast

definition wit_scan :: "string \<Rightarrow> string \<Rightarrow> string \<Rightarrow> ovmAuditScan" where
  "wit_scan b s d = \<lparr>as_Root = wit_pad 1 2 3, as_CodeHash = wit_pad 0 1 1, as_BalanceSlots = 2, as_Balances = b, as_Supply = s,
     as_Difference = d\<rparr>"

definition wit_summary :: ovmAuditSummary where
  "wit_summary = \<lparr>au_Version = 1,
     au_Identity = \<lparr>ai_Version = 1, ai_Genesis = wit_pad 1 0 0, ai_ConfigHash = wit_pad 2 0 0, ai_WitnessHash = wit_pad 3 0 0,
       ai_To = 9, ai_ToHash = wit_pad 4 0 0, ai_DeSeqBlock = 0, ai_SeqValidHeight = 0, ai_FirstSequencer = wit_eoa\<rparr>,
     au_ClientVersion = ''v1'', au_From = 1, au_VerifiedBlocks = 9, au_Genesis = wit_scan ''4'' ''4'' ''0'',
     au_Target = wit_scan ''8'' ''5'' ''3'',
     au_Totals = \<lparr>ad_Balance = ''4'', ad_Supply = ''1'', ad_Difference = ''3'', ad_Gas = ''2'', ad_Suicide = ''1'', ad_Unexplained = ''0''\<rparr>,
     au_ExecutionVerified = True, au_AccountingReconciled = True, au_IntervalCausesFullyExplained = True,
     au_UnexplainedEvents = 0, au_GenesisDifferenceExplained = True, au_PreviousDiagnosisDifference = None\<rparr>"

lemma wit_summary_valid: "audit_validate wit_summary = Inr ()"
  by code_simp

theorem audit_summary_sound_witness:
  "\<exists>gas sui. 0 \<le> gas \<and> 0 \<le> sui \<and> as_Difference (au_Target wit_summary) = big_String (gas + sui)"
  using audit_summary_sound [OF wit_summary_valid] by blast

end
