(* ===== verification/Workspace.thy ===== *)
theory Workspace
  imports AtomicDir
begin

text \<open>
  Scratch space of a verification (\<^verbatim>\<open>verify_workspace.go\<close>, \<^verbatim>\<open>tempdb.go\<close>, the resource bounds of
  \<^verbatim>\<open>trienode_index.go\<close>): where it may lie, when it is created, and that it is removed. The
  databases inside are those of Pebble and not modelled.
\<close>

section \<open>Definitions\<close>

definition TempDBDisk :: string where "TempDBDisk = ''disk''"
definition TempDBMemory :: string where "TempDBMemory = ''memory''"

definition tempdb_normalized :: "string \<Rightarrow> string" where
  "tempdb_normalized m = (if m = [] then TempDBDisk else m)"

datatype workspace_error =
    BadTempDB string
  | WsResolve
  | WsInspect
  | WsNotDirectory
  | WsInput string path_error
  | WsCanceled
  | WsCreate
  | WsRemove

definition tempdb_validate :: "string \<Rightarrow> (workspace_error, unit) result" where
  "tempdb_validate m =
     (if tempdb_normalized m \<noteq> TempDBDisk \<and> m \<noteq> TempDBMemory then Inl (BadTempDB m) else Inr ())"

text \<open>A clean absolute path as the string Go holds.\<close>

definition path_String :: "path \<Rightarrow> string" where
  "path_String p = (if p = [] then ''/'' else concat (map (\<lambda>c. ''/'' @ c) p))"

record verificationWorkspace =
  ws_parent :: string
  ws_inputs :: "string list"
  ws_path :: string

text \<open>
  The operating system: its temporary directory, the file system before and after the scratch
  directory exists, the directory \<^verbatim>\<open>MkdirTemp\<close> makes below a parent, and failing removals.
\<close>

record workspace_world =
  wo_TempDir :: string
  wo_fs :: fs_view
  wo_fsAfter :: fs_view
  wo_MkdirTemp :: "string \<Rightarrow> string \<Rightarrow> string option"
  wo_removeErr :: "string \<Rightarrow> bool"

fun rejectInputs :: "fs_view \<Rightarrow> string list \<Rightarrow> string \<Rightarrow> (workspace_error, unit) result" where
  "rejectInputs fs [] path = Inr ()"
| "rejectInputs fs (inp # inputs) path =
     (if inp = [] then rejectInputs fs inputs path
      else case rejectOutputInsideDirectory fs inp path of
        Some e \<Rightarrow> Inl (WsInput inp e)
      | None \<Rightarrow> rejectInputs fs inputs path)"

definition resolveParent :: "workspace_world \<Rightarrow> verificationWorkspace \<Rightarrow> (workspace_error, verificationWorkspace) result" where
  "resolveParent world w =
     (let parent = (if ws_parent w = [] then wo_TempDir world else ws_parent w) in
      case fs_EvalAbs (wo_fs world) parent of
        Inl _ \<Rightarrow> Inl WsResolve
      | Inr resolved \<Rightarrow>
          (case fs_Stat (wo_fs world) resolved of
             Inl _ \<Rightarrow> Inl WsInspect
           | Inr info \<Rightarrow>
               if fi_kind info \<noteq> KDir then Inl WsNotDirectory
               else bindR (rejectInputs (wo_fs world) (ws_inputs w) (path_String resolved)) (\<lambda>_.
                 Inr (w\<lparr>ws_parent := path_String resolved\<rparr>))))"

definition prepareVerificationWorkspace ::
  "workspace_world \<Rightarrow> string \<Rightarrow> string list \<Rightarrow> (workspace_error, verificationWorkspace) result" where
  "prepareVerificationWorkspace world parent inputs =
     (let w = \<lparr>ws_parent = parent, ws_inputs = inputs, ws_path = []\<rparr> in
      if parent \<noteq> [] then resolveParent world w else Inr w)"

definition workspace_Close :: "workspace_world \<Rightarrow> verificationWorkspace \<Rightarrow> workspace_error option \<times> verificationWorkspace" where
  "workspace_Close world w =
     (if ws_path w = [] then (None, w)
      else if wo_removeErr world (ws_path w) then (Some WsRemove, w)
      else (None, w\<lparr>ws_path := []\<rparr>))"

definition workspace_create ::
  "workspace_world \<Rightarrow> bool \<Rightarrow> verificationWorkspace \<Rightarrow> (workspace_error, string) result \<times> verificationWorkspace" where
  "workspace_create world canceled w =
     (if canceled then (Inl WsCanceled, w)
      else if ws_path w \<noteq> [] then (Inr (ws_path w), w)
      else case resolveParent world w of
        Inl e \<Rightarrow> (Inl e, w)
      | Inr w1 \<Rightarrow>
          (case wo_MkdirTemp world (ws_parent w1) ''.l2state-verify-'' of
             None \<Rightarrow> (Inl WsCreate, w1)
           | Some path \<Rightarrow>
               let w2 = w1\<lparr>ws_path := path\<rparr> in
               (case rejectInputs (wo_fsAfter world) (ws_inputs w2) path of
                  Inl e \<Rightarrow> (Inl e, snd (workspace_Close world w2))
                | Inr _ \<Rightarrow> (Inr path, w2))))"

record trieNodeIndexOptions =
  ni_Mode :: string
  ni_Parent :: string
  ni_CacheMB :: int
  ni_Handles :: int

definition nodeIndex ::
  "workspace_world \<Rightarrow> bool \<Rightarrow> string \<Rightarrow> string \<Rightarrow> int \<Rightarrow> int \<Rightarrow> verificationWorkspace \<Rightarrow>
   (workspace_error, trieNodeIndexOptions) result \<times> verificationWorkspace" where
  "nodeIndex world canceled mode scheme cache handles w =
     (let opts = \<lparr>ni_Mode = mode, ni_Parent = [], ni_CacheMB = cache, ni_Handles = handles\<rparr> in
      if tempdb_normalized mode = TempDBDisk \<and> scheme = ''hash'' then
        (case workspace_create world canceled w of
           (Inl e, w1) \<Rightarrow> (Inl e, w1)
         | (Inr parent, w1) \<Rightarrow> (Inr (opts\<lparr>ni_Parent := parent\<rparr>), w1))
      else (Inr opts, w))"

definition trieNodeIndexMaxCacheMB :: int where "trieNodeIndexMaxCacheMB = 16"
definition trieNodeIndexMaxHandles :: int where "trieNodeIndexMaxHandles = 16"

definition boundedTrieNodeIndexResource :: "int \<Rightarrow> int \<Rightarrow> int" where
  "boundedTrieNodeIndexResource configured limit = (if configured \<le> 0 then limit else min configured limit)"

section \<open>Lemmas\<close>

text \<open>A path that passed the check lies outside every named input.\<close>

lemma rejectInputs_ok:
  "rejectInputs fs inputs path = Inr () \<longleftrightarrow>
     (\<forall>inp \<in> set inputs. inp \<noteq> [] \<longrightarrow> rejectOutputInsideDirectory fs inp path = None)"
  by (induction inputs) (auto split: option.splits)

lemma resolveParent_ok:
  assumes "resolveParent world w = Inr w1"
  shows "ws_inputs w1 = ws_inputs w \<and> ws_path w1 = ws_path w \<and>
    rejectInputs (wo_fs world) (ws_inputs w) (ws_parent w1) = Inr ()"
  using assms by (auto simp: resolveParent_def bindR_eq_Inr Let_def split: sum.splits if_splits)

lemma workspace_create_ok:
  assumes "workspace_create world canceled w = (Inr path, w')" and "ws_path w = []"
  shows "ws_path w' = path \<and> ws_inputs w' = ws_inputs w \<and> rejectInputs (wo_fsAfter world) (ws_inputs w) path = Inr ()"
  using assms resolveParent_ok [of world w]
  by (auto simp: workspace_create_def Let_def split: sum.splits if_splits option.splits)

lemma resource_bounds: "0 < limit \<Longrightarrow> 0 < boundedTrieNodeIndexResource n limit \<and> boundedTrieNodeIndexResource n limit \<le> limit"
  by (auto simp: boundedTrieNodeIndexResource_def)

end
