(* ===== verification/NodeIndex.thy ===== *)
theory NodeIndex
  imports DirectWriter Workspace
begin

text \<open>
  The inventory of trie nodes (\<^verbatim>\<open>trienode_index.go\<close>, the tracker of \<^verbatim>\<open>state_trie.go\<close>): under the
  hash scheme one node may be reached many times, so reached hashes are marked in a temporary
  database and counted; under the path scheme every node is passed once. Pebble is modelled as an
  ordered store with batches; nil receivers are left out.
\<close>

section \<open>Definitions\<close>

record temporaryTrieNodeIndex =
  nx_db :: "kv list"
  nx_nodeBatch :: "kv list"
  nx_closed :: bool
  nx_ops :: nat

text \<open>
  Failing calls by their number, the size of a batch in bytes, the polls of a count, where its
  iterator breaks off, and failures of opening and closing.
\<close>

record node_world =
  nw_createErr :: bool
  nw_setErr :: faults
  nw_commitErr :: faults
  nw_BatchLen :: "kv list \<Rightarrow> int"
  nw_IdealBatchSize :: int
  nw_ctx :: faults
  nw_iterErr :: bool
  nw_break :: "nat option"
  nw_iterCloseErr :: bool
  nw_getErr :: "hash \<Rightarrow> bool"
  nw_valueCloseErr :: "hash \<Rightarrow> bool"
  nw_batchCloseErr :: bool
  nw_dbCloseErr :: bool
  nw_removeErr :: bool

datatype node_error =
    NodeClosed
  | NodeCreate
  | NodeStore hash
  | NodeFlush
  | NodeCanceled
  | NodeIterOpen
  | NodeIterate
  | NodeIterClose
  | NodeRead
  | NodeClose

definition new_index :: temporaryTrieNodeIndex where
  "new_index = \<lparr>nx_db = [], nx_nodeBatch = [], nx_closed = False, nx_ops = 0\<rparr>"

definition nodes_flush :: "node_world \<Rightarrow> temporaryTrieNodeIndex \<Rightarrow> node_error option \<times> temporaryTrieNodeIndex" where
  "nodes_flush world i =
     (if nw_BatchLen world (nx_nodeBatch i) = 0 then (None, i)
      else if nw_commitErr world (nx_ops i) then (Some NodeFlush, i\<lparr>nx_ops := nx_ops i + 1\<rparr>)
      else (None, i\<lparr>nx_db := write_batch (nx_nodeBatch i) (nx_db i), nx_nodeBatch := [], nx_ops := nx_ops i + 1\<rparr>))"

definition nodes_Mark :: "node_world \<Rightarrow> hash \<Rightarrow> temporaryTrieNodeIndex \<Rightarrow> node_error option \<times> temporaryTrieNodeIndex" where
  "nodes_Mark world h i =
     (if nx_closed i then (Some NodeClosed, i)
      else if nw_setErr world (nx_ops i) then (Some (NodeStore h), i\<lparr>nx_ops := nx_ops i + 1\<rparr>)
      else
        let i1 = i\<lparr>nx_nodeBatch := nx_nodeBatch i @ [(h, [])], nx_ops := nx_ops i + 1\<rparr> in
        if nw_BatchLen world (nx_nodeBatch i1) \<ge> nw_IdealBatchSize world then nodes_flush world i1 else (None, i1))"

text \<open>An iterator: the entries it returns, and whether it ends with an error.\<close>

definition broken_off :: "nat option \<Rightarrow> kv list \<Rightarrow> kv list \<times> bool" where
  "broken_off brk kvs = (case brk of None \<Rightarrow> (kvs, False) | Some n \<Rightarrow> (take n kvs, True))"

fun count_loop :: "faults \<Rightarrow> nat \<Rightarrow> kv list \<Rightarrow> u64 \<Rightarrow> (node_error, u64) result" where
  "count_loop ctx n [] counted = Inr counted"
| "count_loop ctx n (kv # kvs) counted =
     (if ctx n then Inl NodeCanceled else count_loop ctx (n + 1) kvs (counted + 1))"

definition nodes_Count :: "node_world \<Rightarrow> temporaryTrieNodeIndex \<Rightarrow> (node_error, u64) result \<times> temporaryTrieNodeIndex" where
  "nodes_Count world i =
     (if nx_closed i then (Inl NodeClosed, i)
      else if nw_ctx world 0 then (Inl NodeCanceled, i)
      else case nodes_flush world i of
        (Some e, i1) \<Rightarrow> (Inl e, i1)
      | (None, i1) \<Rightarrow>
          (if nw_iterErr world then Inl NodeIterOpen
           else
             let it = broken_off (nw_break world) (nx_db i1) in
             bindR (count_loop (nw_ctx world) 1 (fst it) 0) (\<lambda>counted.
               if snd it then Inl NodeIterate
               else if nw_iterCloseErr world then Inl NodeIterClose
               else Inr counted), i1))"

definition nodes_Has :: "node_world \<Rightarrow> hash \<Rightarrow> temporaryTrieNodeIndex \<Rightarrow> (node_error, bool) result" where
  "nodes_Has world h i =
     (if nx_closed i then Inl NodeClosed
      else if nw_getErr world h then Inl NodeRead
      else case map_of (nx_db i) h of
        None \<Rightarrow> Inr False
      | Some _ \<Rightarrow> if nw_valueCloseErr world h then Inl NodeRead else Inr True)"

definition nodes_Close :: "node_world \<Rightarrow> temporaryTrieNodeIndex \<Rightarrow> node_error option \<times> temporaryTrieNodeIndex" where
  "nodes_Close world i =
     (if nx_closed i then (None, i)
      else (if nw_batchCloseErr world \<or> nw_dbCloseErr world \<or> nw_removeErr world then Some NodeClose else None,
            i\<lparr>nx_closed := True\<rparr>))"

text \<open>The tracker behind the node iterators; account and storage producers call it in any order.\<close>

record stateInventoryTracker =
  sit_scheme :: string
  sit_TrieNodes :: u64
  sit_nodeIndex :: temporaryTrieNodeIndex

definition recordTrieNode :: "node_world \<Rightarrow> hash \<Rightarrow> stateInventoryTracker \<Rightarrow> node_error option \<times> stateInventoryTracker" where
  "recordTrieNode world h t =
     (if sit_scheme t = HashScheme
      then (case nodes_Mark world h (sit_nodeIndex t) of (err, i) \<Rightarrow> (err, t\<lparr>sit_nodeIndex := i\<rparr>))
      else (None, t\<lparr>sit_TrieNodes := sit_TrieNodes t + 1\<rparr>))"

text \<open>\<^verbatim>\<open>inventoryNodeIterator.Next\<close> at a node with this hash; an embedded node has the zero hash.\<close>

definition pass_node :: "node_world \<Rightarrow> hash \<Rightarrow> stateInventoryTracker \<Rightarrow> node_error option \<times> stateInventoryTracker" where
  "pass_node world h t = (if h = zero_hash then (None, t) else recordTrieNode world h t)"

fun pass_nodes :: "node_world \<Rightarrow> hash list \<Rightarrow> stateInventoryTracker \<Rightarrow> node_error option \<times> stateInventoryTracker" where
  "pass_nodes world [] t = (None, t)"
| "pass_nodes world (h # hs) t =
     (case pass_node world h t of
        (Some e, t1) \<Rightarrow> (Some e, t1)
      | (None, t1) \<Rightarrow> pass_nodes world hs t1)"

text \<open>The end of a traversal: the nodes that were reached.\<close>

definition tracker_total :: "node_world \<Rightarrow> string \<Rightarrow> stateInventoryTracker \<Rightarrow> (node_error, u64) result \<times> stateInventoryTracker" where
  "tracker_total world scheme t =
     (if scheme = HashScheme
      then (case nodes_Count world (sit_nodeIndex t) of (r, i) \<Rightarrow> (r, t\<lparr>sit_nodeIndex := i\<rparr>))
      else (Inr (sit_TrieNodes t), t))"

text \<open>
  The nodes of a whole traversal whose iterators pass these hashes; under the hash scheme the index
  is created first and closed last.
\<close>

definition inventory_nodes :: "node_world \<Rightarrow> string \<Rightarrow> hash list \<Rightarrow> (node_error, u64) result" where
  "inventory_nodes world scheme hs =
     (if scheme = HashScheme \<and> nw_createErr world then Inl NodeCreate
      else case pass_nodes world hs \<lparr>sit_scheme = scheme, sit_TrieNodes = 0, sit_nodeIndex = new_index\<rparr> of
        (Some e, t) \<Rightarrow> Inl e
      | (None, t) \<Rightarrow>
          (case tracker_total world scheme t of
             (Inl e, t1) \<Rightarrow> Inl e
           | (Inr n, t1) \<Rightarrow>
               if scheme \<noteq> HashScheme then Inr n
               else case nodes_Close world (sit_nodeIndex t1) of (Some e, _) \<Rightarrow> Inl e | (None, _) \<Rightarrow> Inr n))"

section \<open>Counting what was marked\<close>

text \<open>
  The contract of a counter of marks: marking adds to the abstract set and counting returns its
  cardinality. The client needs nothing else.
\<close>

locale mark_counter =
  fixes mark :: "'h \<Rightarrow> 's \<Rightarrow> 'e option \<times> 's"
    and counted :: "'s \<Rightarrow> ('e, u64) result"
    and valid :: "'s \<Rightarrow> bool"
    and marks :: "'s \<Rightarrow> 'h set"
  assumes mark_ok: "valid s \<Longrightarrow> mark h s = (None, s') \<Longrightarrow> valid s' \<and> marks s' = insert h (marks s)"
    and count_ok: "valid s \<Longrightarrow> counted s = Inr n \<Longrightarrow> n = of_nat (card (marks s))"
begin

fun mark_all :: "'h list \<Rightarrow> 's \<Rightarrow> 'e option \<times> 's" where
  "mark_all [] s = (None, s)"
| "mark_all (h # hs) s = (case mark h s of (Some e, s1) \<Rightarrow> (Some e, s1) | (None, s1) \<Rightarrow> mark_all hs s1)"

lemma mark_all_ok: "valid s \<Longrightarrow> mark_all hs s = (None, s') \<Longrightarrow> valid s' \<and> marks s' = set hs \<union> marks s"
proof (induction hs arbitrary: s)
  case (Cons h hs)
  then obtain s1 where s1: "mark h s = (None, s1)" "mark_all hs s1 = (None, s')" by (auto split: option.splits prod.splits)
  note marked = mark_ok [OF Cons.prems(1) s1(1)]
  from Cons.IH [OF _ s1(2)] marked show ?case by auto
qed simp

lemma counts_distinct:
  "valid s \<Longrightarrow> marks s = {} \<Longrightarrow> mark_all hs s = (None, s') \<Longrightarrow> counted s' = Inr n \<Longrightarrow> n = of_nat (card (set hs))"
  using mark_all_ok [of s hs s'] count_ok [of s' n] by simp

end

text \<open>What the code relies on of a batch of Pebble: only an empty one may report the length zero.\<close>

definition batch_len_ok :: "node_world \<Rightarrow> bool" where
  "batch_len_ok world \<longleftrightarrow> (\<forall>b. nw_BatchLen world b = 0 \<longrightarrow> b = [])"

definition nodes_marked :: "temporaryTrieNodeIndex \<Rightarrow> hash set" where
  "nodes_marked i = fst ` set (nx_db i) \<union> fst ` set (nx_nodeBatch i)"

definition nodes_valid :: "node_world \<Rightarrow> temporaryTrieNodeIndex \<Rightarrow> bool" where
  "nodes_valid world i \<longleftrightarrow> batch_len_ok world \<and> ascending (nx_db i)"

lemma nodes_flush_ok:
  assumes "nodes_valid world i" "nodes_flush world i = (None, i')"
  shows "nodes_valid world i' \<and> nodes_marked i' = nodes_marked i \<and> nx_nodeBatch i' = []"
proof (cases "nw_BatchLen world (nx_nodeBatch i) = 0")
  case True
  with assms show ?thesis by (simp add: nodes_flush_def nodes_valid_def batch_len_ok_def)
next
  case False
  with assms have "i' = i\<lparr>nx_db := write_batch (nx_nodeBatch i) (nx_db i), nx_nodeBatch := [], nx_ops := nx_ops i + 1\<rparr>"
    by (simp add: nodes_flush_def split: if_splits)
  with assms(1) show ?thesis by (simp add: nodes_valid_def nodes_marked_def write_batch_dom)
qed

lemma nodes_Mark_ok:
  assumes "nodes_valid world i" "nodes_Mark world h i = (None, i')"
  shows "nodes_valid world i' \<and> nodes_marked i' = insert h (nodes_marked i)"
proof -
  let ?i1 = "i\<lparr>nx_nodeBatch := nx_nodeBatch i @ [(h, [])], nx_ops := nx_ops i + 1\<rparr>"
  have "nodes_valid world ?i1" "nodes_marked ?i1 = insert h (nodes_marked i)"
    using assms(1) by (auto simp: nodes_valid_def nodes_marked_def)
  with assms(2) nodes_flush_ok [of world ?i1 i'] show ?thesis
    by (auto simp: nodes_Mark_def Let_def split: if_splits)
qed

lemma count_loop_ok: "count_loop ctx n kvs c = Inr c' \<Longrightarrow> c' = c + of_nat (length kvs)"
proof (induction kvs arbitrary: n c)
  case (Cons kv kvs)
  then have "count_loop ctx (n + 1) kvs (c + 1) = Inr c'" by (auto split: if_splits)
  from Cons.IH [OF this] show ?case by simp
qed simp

lemma broken_off_False [simp]: "broken_off brk kvs = (xs, False) \<longleftrightarrow> brk = None \<and> xs = kvs"
  by (auto simp: broken_off_def split: option.splits)

lemma nodes_Count_ok:
  assumes "nodes_valid world i" "fst (nodes_Count world i) = Inr n"
  shows "n = of_nat (card (nodes_marked i))"
proof -
  from assms(2) obtain i1 where fl: "nodes_flush world i = (None, i1)"
    and loop: "count_loop (nw_ctx world) 1 (fst (broken_off (nw_break world) (nx_db i1))) 0 = Inr n"
    and all: "\<not> snd (broken_off (nw_break world) (nx_db i1))"
    by (auto simp: nodes_Count_def bindR_eq_Inr Let_def split: if_splits option.splits prod.splits)
  from all have "fst (broken_off (nw_break world) (nx_db i1)) = nx_db i1"
    by (cases "nw_break world") (auto simp: broken_off_def)
  with count_loop_ok [OF loop] have n: "n = of_nat (length (nx_db i1))" by simp
  from nodes_flush_ok [OF assms(1) fl] have f: "ascending (nx_db i1)" "nodes_marked i = fst ` set (nx_db i1)"
    by (auto simp: nodes_valid_def nodes_marked_def)
  from distinct_card [OF ascending_distinct [OF f(1)]] n f(2) show ?thesis by simp
qed

interpretation nodes: mark_counter "nodes_Mark world" "\<lambda>i. fst (nodes_Count world i)" "nodes_valid world" nodes_marked for world
  by unfold_locales (blast dest: nodes_Mark_ok nodes_Count_ok)+

section \<open>Properties\<close>

lemma pass_nodes_hash:
  "sit_scheme t = HashScheme \<Longrightarrow> pass_nodes world hs t = (None, t') \<Longrightarrow>
     nodes.mark_all world (filter (\<lambda>h. h \<noteq> zero_hash) hs) (sit_nodeIndex t) = (None, sit_nodeIndex t')"
proof (induction hs arbitrary: t)
  case (Cons h hs)
  then obtain t1 where t1: "pass_node world h t = (None, t1)" "pass_nodes world hs t1 = (None, t')"
    by (auto split: option.splits prod.splits)
  moreover have "sit_scheme t1 = HashScheme"
    using t1(1) Cons.prems(1) by (auto simp: pass_node_def recordTrieNode_def split: if_splits prod.splits)
  ultimately show ?case
    using Cons.IH [of t1] Cons.prems(1) by (auto simp: pass_node_def recordTrieNode_def split: if_splits prod.splits)
qed simp

lemma pass_nodes_path:
  "sit_scheme t \<noteq> HashScheme \<Longrightarrow> pass_nodes world hs t = (err, t') \<Longrightarrow>
     err = None \<and> sit_TrieNodes t' = sit_TrieNodes t + of_nat (length (filter (\<lambda>h. h \<noteq> zero_hash) hs))"
proof (induction hs arbitrary: t)
  case (Cons h hs)
  let ?t1 = "if h = zero_hash then t else t\<lparr>sit_TrieNodes := sit_TrieNodes t + 1\<rparr>"
  have "pass_nodes world hs ?t1 = (err, t')" "sit_scheme ?t1 \<noteq> HashScheme"
    using Cons.prems by (auto simp: pass_node_def recordTrieNode_def)
  from Cons.IH [OF this(2,1)] show ?case by simp
qed simp

lemma inventory_nodes_ok:
  assumes "inventory_nodes world scheme hs = Inr n" and "batch_len_ok world"
  shows "n = of_nat (if scheme = HashScheme then card (set hs - {zero_hash}) else length (filter (\<lambda>h. h \<noteq> zero_hash) hs))"
proof (cases "scheme = HashScheme")
  case True
  let ?t0 = "\<lparr>sit_scheme = scheme, sit_TrieNodes = 0, sit_nodeIndex = new_index\<rparr>"
  from assms(1) True obtain t where run: "pass_nodes world hs ?t0 = (None, t)"
    and cnt: "fst (nodes_Count world (sit_nodeIndex t)) = Inr n"
    by (auto simp: inventory_nodes_def tracker_total_def split: if_splits option.splits prod.splits sum.splits)
  from pass_nodes_hash [OF _ run] True
  have marks: "nodes.mark_all world (filter (\<lambda>h. h \<noteq> zero_hash) hs) new_index = (None, sit_nodeIndex t)" by simp
  have "nodes_valid world new_index" "nodes_marked new_index = {}"
    using assms(2) by (simp_all add: nodes_valid_def nodes_marked_def new_index_def)
  from nodes.counts_distinct [OF this marks cnt] True show ?thesis by (simp add: set_diff_eq)
next
  case False
  with assms(1) pass_nodes_path [of "\<lparr>sit_scheme = scheme, sit_TrieNodes = 0, sit_nodeIndex = new_index\<rparr>" world hs]
  show ?thesis by (auto simp: inventory_nodes_def tracker_total_def split: if_splits option.splits prod.splits)
qed

text \<open>Nothing fails and nothing is canceled.\<close>

definition node_faultless :: "node_world \<Rightarrow> bool" where
  "node_faultless world \<longleftrightarrow> \<not> nw_createErr world \<and> (\<forall>n. \<not> nw_setErr world n \<and> \<not> nw_commitErr world n \<and> \<not> nw_ctx world n) \<and>
     \<not> nw_iterErr world \<and> nw_break world = None \<and> \<not> nw_iterCloseErr world \<and>
     \<not> nw_batchCloseErr world \<and> \<not> nw_dbCloseErr world \<and> \<not> nw_removeErr world"

lemma flush_faultless: "node_faultless world \<Longrightarrow> \<exists>i'. nodes_flush world i = (None, i') \<and> nx_closed i' = nx_closed i"
  by (auto simp: nodes_flush_def node_faultless_def)

lemma mark_faultless:
  "node_faultless world \<Longrightarrow> \<not> nx_closed i \<Longrightarrow> \<exists>i'. nodes_Mark world h i = (None, i') \<and> \<not> nx_closed i'"
  using flush_faultless [of world "i\<lparr>nx_nodeBatch := nx_nodeBatch i @ [(h, [])], nx_ops := nx_ops i + 1\<rparr>"]
  by (auto simp: nodes_Mark_def node_faultless_def Let_def)

lemma pass_faultless:
  assumes "node_faultless world"
  shows "\<not> nx_closed (sit_nodeIndex t) \<Longrightarrow> \<exists>t'. pass_nodes world hs t = (None, t') \<and> \<not> nx_closed (sit_nodeIndex t')"
proof (induction hs arbitrary: t)
  case (Cons h hs)
  have "\<exists>t1. pass_node world h t = (None, t1) \<and> \<not> nx_closed (sit_nodeIndex t1)"
    using mark_faultless [OF assms Cons.prems, of h] Cons.prems by (auto simp: pass_node_def recordTrieNode_def)
  with Cons.IH show ?case by fastforce
qed simp

lemma count_loop_faultless: "(\<And>n. \<not> ctx n) \<Longrightarrow> isOk (count_loop ctx n kvs c)"
  by (induction kvs arbitrary: n c) auto

lemma count_faultless:
  assumes "node_faultless world" and "\<not> nx_closed i"
  shows "\<exists>n i'. nodes_Count world i = (Inr n, i')"
proof -
  from flush_faultless [OF assms(1)] obtain i1 where i1: "nodes_flush world i = (None, i1)" by blast
  from assms(1) have "isOk (count_loop (nw_ctx world) 1 (nx_db i1) 0)" by (intro count_loop_faultless) (simp add: node_faultless_def)
  with assms i1 show ?thesis by (auto simp: nodes_Count_def node_faultless_def broken_off_def isOk_iff Let_def)
qed

text \<open>
  Property C25. The inventory of trie nodes is exact: under the hash scheme the temporary index
  counts the distinct hashes that were reached, however often and in whatever order the producers
  reached them and wherever the batch was flushed; under the path scheme every passed node counts;
  embedded nodes never do. Without faults the count succeeds.
\<close>

theorem inventory_counts_reached:
  assumes "batch_len_ok world"
  shows "(case inventory_nodes world scheme hs of
       Inr n \<Rightarrow> n = of_nat (if scheme = HashScheme then card (set hs - {zero_hash}) else length (filter (\<lambda>h. h \<noteq> zero_hash) hs))
     | Inl _ \<Rightarrow> \<not> node_faultless world)"
proof (cases "inventory_nodes world scheme hs")
  case (Inr n)
  with inventory_nodes_ok [OF Inr assms] show ?thesis by simp
next
  case (Inl e)
  have False if f: "node_faultless world"
  proof -
    from pass_faultless [OF f, of "\<lparr>sit_scheme = scheme, sit_TrieNodes = 0, sit_nodeIndex = new_index\<rparr>" hs] obtain t where
      t: "pass_nodes world hs \<lparr>sit_scheme = scheme, sit_TrieNodes = 0, sit_nodeIndex = new_index\<rparr> = (None, t)" "\<not> nx_closed (sit_nodeIndex t)"
      by (auto simp: new_index_def)
    from count_faultless [OF f t(2)] obtain n i where "nodes_Count world (sit_nodeIndex t) = (Inr n, i)" by blast
    with Inl t f show False
      by (auto simp: inventory_nodes_def tracker_total_def nodes_Close_def node_faultless_def split: if_splits option.splits prod.splits)
  qed
  with Inl show ?thesis by auto
qed

end
