(* ===== verification/Artifact.thy ===== *)
theory Artifact
  imports Export DirectWriter OvmCursor NodeIndex
begin

text \<open>
  Verification of a state artifact (\<^verbatim>\<open>verify.go\<close> from \<^verbatim>\<open>verifyTargetDatabase\<close> on,
  \<^verbatim>\<open>head_metadata.go\<close>, the options of \<^verbatim>\<open>target.go\<close>): the head metadata, the flat state against
  the trie leaves, the inventory of all keys. What \<^verbatim>\<open>rawdb\<close> writes and reads, and the trie nodes
  an iterator of go-ethereum passes, are parameters; progress reporting is left out.
\<close>

section \<open>Targets\<close>

definition DBEnginePebble :: string where "DBEnginePebble = ''pebble''"
definition DBEngineLevelDB :: string where "DBEngineLevelDB = ''leveldb''"
definition LayoutGeth :: string where "LayoutGeth = ''geth''"

record targetConfig =
  tc_engine :: string
  tc_layout :: string

datatype target_error =
    BadEngineOption string
  | BadEngine string
  | BadLayout string
  | BadScheme string

definition reportTarget :: "string \<Rightarrow> string \<Rightarrow> string \<Rightarrow> (target_error, targetConfig) result" where
  "reportTarget engine layout0 scheme =
     (let layout = (if layout0 = [] then LayoutGeth else layout0) in
      if engine \<noteq> DBEnginePebble \<and> engine \<noteq> DBEngineLevelDB then Inl (BadEngine engine)
      else if layout \<noteq> LayoutGeth then Inl (BadLayout layout)
      else if scheme \<noteq> HashScheme \<and> scheme \<noteq> PathScheme then Inl (BadScheme scheme)
      else Inr \<lparr>tc_engine = engine, tc_layout = layout\<rparr>)"

definition targetOptions :: "string \<Rightarrow> string \<Rightarrow> (target_error, targetConfig) result" where
  "targetOptions engine0 scheme =
     (let engine = (if engine0 = [] then DBEnginePebble else engine0) in
      if engine \<noteq> DBEnginePebble \<and> engine \<noteq> DBEngineLevelDB then Inl (BadEngineOption engine)
      else reportTarget engine LayoutGeth scheme)"

definition target_readCode :: "artifact_keys \<Rightarrow> (bytes \<Rightarrow> bytes db_get) \<Rightarrow> hash \<Rightarrow> bytes option" where
  "target_readCode lib db_Get h =
     (case db_Get (prefixedKey (CodePrefix lib) h) of
        NotFound \<Rightarrow> Some []
      | Found code \<Rightarrow> Some code
      | GetFailed \<Rightarrow> None)"

section \<open>Head metadata\<close>

text \<open>The entries the writers of \<^verbatim>\<open>rawdb\<close> put.\<close>

record head_layout =
  WriteHeader :: "header \<Rightarrow> kv list"
  WriteCanonicalHash :: "hash \<Rightarrow> u64 \<Rightarrow> kv list"
  WriteHeadBlockHash :: "hash \<Rightarrow> kv list"
  WriteHeadHeaderHash :: "hash \<Rightarrow> kv list"

definition writeHeadMetadataEntries :: "head_layout \<Rightarrow> header \<Rightarrow> Head \<Rightarrow> kv list" where
  "writeHeadMetadataEntries hl hdr head =
     WriteHeader hl hdr @ WriteCanonicalHash hl (BlockHash head) (BlockNumber head) @
     WriteHeadBlockHash hl (BlockHash head) @ WriteHeadHeaderHash hl (BlockHash head)"

datatype artifact_error =
    ArtSource evidence_error
  | ArtWriteHead
  | ArtHeaderMissing
  | ArtHeaderDiffers
  | ArtNumberMissing
  | ArtNumberDiffers
  | ArtCanonical
  | ArtLastBlock
  | ArtLastHeader
  | ArtDuplicateMetadata
  | ArtMetadataValue bytes
  | ArtMetadataMissing nat
  | ArtForeignKey bytes
  | ArtFlatCounts
  | ArtTrieNodes
  | ArtCodeEntries
  | ArtCanceled
  | ArtInspect
  | ArtOpen
  | ArtClose
  | ArtScheme string
  | ArtSnapshotIncomplete
  | ArtSnapshotRoot
  | ArtStateID
  | ArtSyncStatus
  | ArtPathMetadata string
  | ArtEncodeGenerator
  | ArtCounts
  | ArtNodes node_error

definition validatedSourceHeader :: "geth_env \<Rightarrow> SourceEvidence \<Rightarrow> (artifact_error, header) result" where
  "validatedSourceHeader env source = mapErr ArtSource (ValidatedHeader env source)"

definition writeHeadMetadata ::
  "geth_env \<Rightarrow> head_layout \<Rightarrow> bool \<Rightarrow> SourceEvidence \<Rightarrow> kv list \<Rightarrow> (artifact_error, kv list) result" where
  "writeHeadMetadata env hl writeErr source db =
     bindR (validatedSourceHeader env source) (\<lambda>hdr.
       if writeErr then Inl ArtWriteHead
       else Inr (write_batch (writeHeadMetadataEntries hl hdr (HeadBefore source)) db))"

text \<open>What the readers of \<^verbatim>\<open>rawdb\<close> and the trie database answer about an artifact.\<close>

record target_view = rawdb_view +
  rd_HeadHeaderHash :: hash
  rd_SnapshotRoot :: hash
  rd_PersistentStateID :: u64
  rd_SnapSyncStatus :: byte
  rd_SnapshotCompleted :: bool
  rd_Get :: "bytes \<Rightarrow> bytes option"

definition verifyHeadMetadata :: "geth_env \<Rightarrow> target_view \<Rightarrow> SourceEvidence \<Rightarrow> (artifact_error, unit) result" where
  "verifyHeadMetadata env db source =
     bindR (validatedSourceHeader env source) (\<lambda>_.
       let head = HeadBefore source; headerRLP = rd_HeaderRLP db (BlockHash head) (BlockNumber head) in
       if length headerRLP = 0 then Inl ArtHeaderMissing
       else if headerRLP \<noteq> HeaderRLP source then Inl ArtHeaderDiffers
       else case rd_HeaderNumber db (BlockHash head) of
         None \<Rightarrow> Inl ArtNumberMissing
       | Some number \<Rightarrow>
           if number \<noteq> BlockNumber head then Inl ArtNumberDiffers
           else if rd_CanonicalHash db (BlockNumber head) \<noteq> BlockHash head then Inl ArtCanonical
           else if rd_HeadBlockHash db \<noteq> BlockHash head then Inl ArtLastBlock
           else if rd_HeadHeaderHash db \<noteq> BlockHash head then Inl ArtLastHeader
           else Inr ())"

text \<open>\<^verbatim>\<open>headMetadataEntries\<close>: a map as an ordered list of entries.\<close>

definition entries_Put :: "kv \<Rightarrow> kv list \<Rightarrow> kv list" where
  "entries_Put kv entries = kv_put (fst kv) (snd kv) entries"

definition entries_Delete :: "bytes \<Rightarrow> kv list \<Rightarrow> kv list" where
  "entries_Delete key entries = filter (\<lambda>kv. fst kv \<noteq> key) entries"

definition expectedHeadMetadata :: "geth_env \<Rightarrow> head_layout \<Rightarrow> SourceEvidence \<Rightarrow> (artifact_error, kv list) result" where
  "expectedHeadMetadata env hl source =
     bindR (validatedSourceHeader env source) (\<lambda>hdr.
       Inr (fold entries_Put (writeHeadMetadataEntries hl hdr (HeadBefore source)) []))"

fun merge_entries :: "kv list \<Rightarrow> kv list \<Rightarrow> (artifact_error, kv list) result" where
  "merge_entries [] headMetadata = Inr headMetadata"
| "merge_entries (kv # kvs) headMetadata =
     (if map_of headMetadata (fst kv) \<noteq> None then Inl ArtDuplicateMetadata
      else merge_entries kvs (kv_put (fst kv) (snd kv) headMetadata))"

fun mergeExpectedMetadata :: "kv list \<Rightarrow> kv list list \<Rightarrow> (artifact_error, kv list) result" where
  "mergeExpectedMetadata headMetadata [] = Inr headMetadata"
| "mergeExpectedMetadata headMetadata (entries # extra) =
     bindR (merge_entries entries headMetadata) (\<lambda>merged. mergeExpectedMetadata merged extra)"

section \<open>Kinds of entries\<close>

datatype inventoryEntryKind =
    inventoryMetadata
  | inventoryTrieNode
  | inventoryCode
  | inventoryFlatAccount
  | inventoryFlatStorage

text \<open>The predicates and constants of \<^verbatim>\<open>rawdb\<close> that are used on entries.\<close>

record entry_kinds =
  IsLegacyTrieNode :: "bytes \<Rightarrow> bytes \<Rightarrow> bool"
  IsCodeKey :: "bytes \<Rightarrow> bool"
  ek_SnapshotRootKey :: bytes
  ek_StateSyncFinished :: byte

definition isNonEmptyCodeEntry :: "entry_kinds \<Rightarrow> bytes \<Rightarrow> bytes \<Rightarrow> bool" where
  "isNonEmptyCodeEntry ek key code \<longleftrightarrow> IsCodeKey ek key \<and> length code \<noteq> 0"

definition isCanonicalHexPath :: "bytes \<Rightarrow> bool" where
  "isCanonicalHexPath path \<longleftrightarrow> \<not> length path > 2 * HashLength \<and> list_all (\<lambda>nibble. \<not> nibble > 0x0f) path"

definition isCanonicalPathAccountTrieNodeKey :: "artifact_keys \<Rightarrow> bytes \<Rightarrow> bool" where
  "isCanonicalPathAccountTrieNodeKey lib key \<longleftrightarrow>
     prefix (TrieNodeAccountPrefix lib) key \<and> isCanonicalHexPath (drop (length (TrieNodeAccountPrefix lib)) key)"

definition isCanonicalPathStorageTrieNodeKey :: "artifact_keys \<Rightarrow> bytes \<Rightarrow> bool" where
  "isCanonicalPathStorageTrieNodeKey lib key \<longleftrightarrow>
     (let pathOffset = length (TrieNodeStoragePrefix lib) + HashLength in
      prefix (TrieNodeStoragePrefix lib) key \<and> \<not> length key < pathOffset \<and> isCanonicalHexPath (drop pathOffset key))"

definition path_metadata_keys :: "entry_kinds \<Rightarrow> bytes list" where
  "path_metadata_keys ek =
     [ek_SnapshotRootKey ek, ascii ''SnapshotGenerator'', ascii ''LastStateID'', ascii ''SnapSyncStatus'']"

definition allowedPathMetadataKey :: "entry_kinds \<Rightarrow> bytes \<Rightarrow> bool" where
  "allowedPathMetadataKey ek key \<longleftrightarrow> list_ex (\<lambda>allowed. key = allowed) (path_metadata_keys ek)"

definition classifyArtifactEntry ::
  "artifact_keys \<Rightarrow> entry_kinds \<Rightarrow> string \<Rightarrow> bytes \<Rightarrow> bytes \<Rightarrow> (artifact_error, inventoryEntryKind) result" where
  "classifyArtifactEntry lib ek scheme key val =
     (if scheme = HashScheme then
        (if IsLegacyTrieNode ek key val then Inr inventoryTrieNode
         else if isNonEmptyCodeEntry ek key val then Inr inventoryCode
         else Inl (ArtForeignKey key))
      else if isCanonicalPathAccountTrieNodeKey lib key \<or> isCanonicalPathStorageTrieNodeKey lib key
      then Inr inventoryTrieNode
      else if isNonEmptyCodeEntry ek key val then Inr inventoryCode
      else if prefix (SnapshotAccountPrefix lib) key \<and> length key = length (SnapshotAccountPrefix lib) + HashLength
      then Inr inventoryFlatAccount
      else if prefix (SnapshotStoragePrefix lib) key \<and> length key = length (SnapshotStoragePrefix lib) + 2 * HashLength
      then Inr inventoryFlatStorage
      else if allowedPathMetadataKey ek key then Inr inventoryMetadata
      else Inl (ArtForeignKey key))"

section \<open>The inventory\<close>

record stateInventory =
  inv_TrieNodes :: u64
  inv_CodeEntries :: u64

record key_counts =
  kc_flatAccounts :: u64
  kc_flatSlots :: u64
  kc_trieNodes :: u64
  kc_codeEntries :: u64

definition count_kind :: "inventoryEntryKind \<Rightarrow> key_counts \<Rightarrow> key_counts" where
  "count_kind kind n =
     (case kind of
        inventoryMetadata \<Rightarrow> n
      | inventoryTrieNode \<Rightarrow> n\<lparr>kc_trieNodes := kc_trieNodes n + 1\<rparr>
      | inventoryCode \<Rightarrow> n\<lparr>kc_codeEntries := kc_codeEntries n + 1\<rparr>
      | inventoryFlatAccount \<Rightarrow> n\<lparr>kc_flatAccounts := kc_flatAccounts n + 1\<rparr>
      | inventoryFlatStorage \<Rightarrow> n\<lparr>kc_flatSlots := kc_flatSlots n + 1\<rparr>)"

text \<open>The loop over all entries; the \<open>n\<close>-th poll fails.\<close>

fun inspect_entries ::
  "artifact_keys \<Rightarrow> entry_kinds \<Rightarrow> string \<Rightarrow> faults \<Rightarrow> nat \<Rightarrow> kv list \<Rightarrow> kv list \<times> key_counts \<Rightarrow>
   (artifact_error, kv list \<times> key_counts) result" where
  "inspect_entries lib ek scheme ctx n [] st = (if ctx n then Inl ArtCanceled else Inr st)"
| "inspect_entries lib ek scheme ctx n ((key, val) # kvs) st =
     (if ctx n then Inl ArtCanceled
      else
        let (headMetadata, counts) = st in
        case map_of headMetadata key of
          Some expectedValue \<Rightarrow>
            if val \<noteq> expectedValue then Inl (ArtMetadataValue key)
            else inspect_entries lib ek scheme ctx (n + 1) kvs (entries_Delete key headMetadata, counts)
        | None \<Rightarrow>
            bindR (classifyArtifactEntry lib ek scheme key val) (\<lambda>kind.
              inspect_entries lib ek scheme ctx (n + 1) kvs (headMetadata, count_kind kind counts)))"

definition zero_keys :: key_counts where
  "zero_keys = \<lparr>kc_flatAccounts = 0, kc_flatSlots = 0, kc_trieNodes = 0, kc_codeEntries = 0\<rparr>"

text \<open>An iterator is the entries it returns and whether it ends with an error.\<close>

definition verifyDatabaseInventory ::
  "geth_env \<Rightarrow> artifact_keys \<Rightarrow> head_layout \<Rightarrow> entry_kinds \<Rightarrow> faults \<Rightarrow> kv list \<times> bool \<Rightarrow> string \<Rightarrow> SourceEvidence \<Rightarrow>
   Counts \<Rightarrow> stateInventory \<Rightarrow> kv list list \<Rightarrow> (artifact_error, unit) result" where
  "verifyDatabaseInventory env lib hl ek ctx it scheme source counts expected extraMetadata =
     (if ctx 0 then Inl ArtCanceled
      else
        bindR (expectedHeadMetadata env hl source) (\<lambda>headMetadata0.
        bindR (mergeExpectedMetadata headMetadata0 extraMetadata) (\<lambda>headMetadata.
        bindR (inspect_entries lib ek scheme ctx 1 (fst it) (headMetadata, zero_keys)) (\<lambda>(missing, n).
          if snd it then Inl ArtInspect
          else if length missing \<noteq> 0 then Inl (ArtMetadataMissing (length missing))
          else if scheme = PathScheme \<and>
                  (kc_flatAccounts n \<noteq> Accounts counts \<or> kc_flatSlots n \<noteq> StorageSlots counts)
          then Inl ArtFlatCounts
          else if kc_trieNodes n \<noteq> inv_TrieNodes expected then Inl ArtTrieNodes
          else if kc_codeEntries n \<noteq> inv_CodeEntries expected then Inl ArtCodeEntries
          else Inr ()))))"

section \<open>The flat state\<close>

text \<open>Two iterators and the polls of the context; \<open>fv_polls\<close> counts them.\<close>

record flatStateVerifier =
  fv_ctx :: faults
  fv_polls :: nat
  fv_accounts :: "kv list \<times> bool"
  fv_storage :: "kv list \<times> bool"

datatype flat_error = FlatCanceled | FlatIterate | FlatMissing | FlatKey bytes | FlatValue | FlatExtra string bytes

definition newFlatStateVerifier :: "faults \<Rightarrow> kv list \<times> bool \<Rightarrow> kv list \<times> bool \<Rightarrow> flatStateVerifier" where
  "newFlatStateVerifier ctx accounts storage =
     \<lparr>fv_ctx = ctx, fv_polls = 0, fv_accounts = accounts, fv_storage = storage\<rparr>"

definition compareNext :: "bool \<Rightarrow> kv list \<times> bool \<Rightarrow> bytes \<Rightarrow> bytes \<Rightarrow> flat_error option \<times> (kv list \<times> bool)" where
  "compareNext canceled it key val =
     (if canceled then (Some FlatCanceled, it)
      else case fst it of
        [] \<Rightarrow> (if snd it then Some FlatIterate else Some FlatMissing, it)
      | (k, v) # rest \<Rightarrow>
          if k \<noteq> key then (Some (FlatKey k), (rest, snd it))
          else if v \<noteq> val then (Some FlatValue, (rest, snd it))
          else (None, (rest, snd it)))"

definition flat_Account ::
  "artifact_keys \<Rightarrow> hash \<Rightarrow> state_account \<Rightarrow> bytes \<Rightarrow> flatStateVerifier \<Rightarrow> flat_error option \<times> flatStateVerifier" where
  "flat_Account lib h account fullRLP v =
     (case compareNext (fv_ctx v (fv_polls v)) (fv_accounts v) (prefixedKey (SnapshotAccountPrefix lib) h) (SlimAccountRLP lib account) of
        (err, it) \<Rightarrow> (err, v\<lparr>fv_accounts := it, fv_polls := fv_polls v + 1\<rparr>))"

definition flat_Storage ::
  "artifact_keys \<Rightarrow> hash \<Rightarrow> hash \<Rightarrow> bytes \<Rightarrow> flatStateVerifier \<Rightarrow> flat_error option \<times> flatStateVerifier" where
  "flat_Storage lib accountHash slotHash valueRLP v =
     (let key = SnapshotStoragePrefix lib @ accountHash @ slotHash in
      case compareNext (fv_ctx v (fv_polls v)) (fv_storage v) key valueRLP of
        (err, it) \<Rightarrow> (err, v\<lparr>fv_storage := it, fv_polls := fv_polls v + 1\<rparr>))"

definition flat_Code :: "hash \<Rightarrow> hash \<Rightarrow> bytes \<Rightarrow> flatStateVerifier \<Rightarrow> flat_error option \<times> flatStateVerifier" where
  "flat_Code accountHash codeHash code v = (None, v)"

definition flat_visitor :: "artifact_keys \<Rightarrow> (flat_error, flatStateVerifier) StateVisitor" where
  "flat_visitor lib = \<lparr>v_Account = flat_Account lib, v_Storage = flat_Storage lib, v_Code = flat_Code, v_AccountFromBundle = None\<rparr>"

definition finish_iterator :: "bool \<Rightarrow> string \<Rightarrow> kv list \<times> bool \<Rightarrow> (flat_error, unit) result" where
  "finish_iterator canceled name it =
     (if canceled then Inl FlatCanceled
      else case fst it of
        (k, v) # _ \<Rightarrow> Inl (FlatExtra name k)
      | [] \<Rightarrow> if snd it then Inl FlatIterate else Inr ())"

definition flat_Finish :: "flatStateVerifier \<Rightarrow> (flat_error, unit) result" where
  "flat_Finish v =
     bindR (finish_iterator (fv_ctx v (fv_polls v)) ''account'' (fv_accounts v)) (\<lambda>_.
       finish_iterator (fv_ctx v (fv_polls v + 1)) ''storage'' (fv_storage v))"

section \<open>The opened target\<close>

text \<open>
  The artifact as go-ethereum presents it: its entries, where iterators break off, the tries as a
  source of a traversal, the hashes of the nodes its iterators pass and the index they are marked
  in, the encoded generator marker, and failures of opening and closing.
\<close>

record target_world =
  tw_lib :: artifact_keys
  tw_head :: head_layout
  tw_kinds :: entry_kinds
  tw_view :: target_view
  tw_db :: "kv list"
  tw_accountsBreak :: "nat option"
  tw_storageBreak :: "nat option"
  tw_allBreak :: "nat option"
  tw_state :: state_source
  tw_passed :: "hash list"
  tw_nodeWorld :: node_world
  tw_generator :: "bytes option"
  tw_traverseCtx :: faults
  tw_flatCtx :: faults
  tw_inspectCtx :: faults
  tw_openErr :: bool
  tw_trieCloseErr :: bool
  tw_closeErr :: bool

definition path_expectations :: "target_world \<Rightarrow> hash \<Rightarrow> bytes \<Rightarrow> (string \<times> bytes \<times> bytes) list" where
  "path_expectations tw root generator =
     [(''snapshot root'', ek_SnapshotRootKey (tw_kinds tw), root),
      (''snapshot generator'', ascii ''SnapshotGenerator'', generator),
      (''persistent state ID'', ascii ''LastStateID'', be64 0),
      (''snap sync status'', ascii ''SnapSyncStatus'', [ek_StateSyncFinished (tw_kinds tw)])]"

fun check_metadata :: "(bytes \<Rightarrow> bytes option) \<Rightarrow> (string \<times> bytes \<times> bytes) list \<Rightarrow> (artifact_error, unit) result" where
  "check_metadata db_Get [] = Inr ()"
| "check_metadata db_Get ((name, key, expected) # rest) =
     (case db_Get key of
        None \<Rightarrow> Inl (ArtPathMetadata name)
      | Some val \<Rightarrow> if val \<noteq> expected then Inl (ArtPathMetadata name) else check_metadata db_Get rest)"

definition verifyPathMetadata :: "target_world \<Rightarrow> hash \<Rightarrow> (artifact_error, unit) result" where
  "verifyPathMetadata tw root =
     (case tw_generator tw of
        None \<Rightarrow> Inl ArtEncodeGenerator
      | Some generator \<Rightarrow> check_metadata (rd_Get (tw_view tw)) (path_expectations tw root generator))"

definition check_snapshot :: "target_world \<Rightarrow> hash \<Rightarrow> (artifact_error, unit) result" where
  "check_snapshot tw root =
     (if \<not> rd_SnapshotCompleted (tw_view tw) then Inl ArtSnapshotIncomplete
      else if rd_SnapshotRoot (tw_view tw) \<noteq> root then Inl ArtSnapshotRoot
      else if rd_PersistentStateID (tw_view tw) \<noteq> 0 then Inl ArtStateID
      else if rd_SnapSyncStatus (tw_view tw) \<noteq> ek_StateSyncFinished (tw_kinds tw) then Inl ArtSyncStatus
      else verifyPathMetadata tw root)"

datatype target_failure =
    TargetArtifact artifact_error
  | TargetTraverse "flat_error trav_error"
  | TargetFlat flat_error

text \<open>
  The traversal with its inventory: code entries are the code records, trie nodes are those the
  iterators passed. A node that cannot be marked ends the iterator with an error; here the nodes
  are counted after the traversal, which fails in the same cases.
\<close>

definition traverse_inventory ::
  "geth_env \<Rightarrow> target_world \<Rightarrow> string \<Rightarrow> hash \<Rightarrow> (flat_error, flatStateVerifier) StateVisitor option \<Rightarrow> flatStateVerifier \<Rightarrow>
   (target_failure, StateResult \<times> stateInventory \<times> flatStateVerifier) result" where
  "traverse_inventory env tw scheme root visitor v =
     bindR (mapErr TargetTraverse (traverser_run env (tw_state tw) (newStateTraverser (tw_traverseCtx tw) root visitor None v))) (\<lambda>(state, v').
     bindR (mapErr (\<lambda>e. TargetArtifact (ArtNodes e)) (inventory_nodes (tw_nodeWorld tw) scheme (tw_passed tw))) (\<lambda>nodes.
       Inr (state, \<lparr>inv_TrieNodes = nodes, inv_CodeEntries = CodeRecords (st_Counts state)\<rparr>, v')))"

definition verifyOpenedTarget ::
  "geth_env \<Rightarrow> target_world \<Rightarrow> string \<Rightarrow> SourceEvidence \<Rightarrow> StateResult \<Rightarrow> kv list list \<Rightarrow>
   (target_failure, StateResult) result" where
  "verifyOpenedTarget env tw scheme source expected extraMetadata =
     (let lib = tw_lib tw; all = broken_off (tw_allBreak tw) (tw_db tw);
          flat = newFlatStateVerifier (tw_flatCtx tw)
            (broken_off (tw_accountsBreak tw) (NewIterator (tw_db tw) (SnapshotAccountPrefix lib) []))
            (broken_off (tw_storageBreak tw) (NewIterator (tw_db tw) (SnapshotStoragePrefix lib) []));
          path = (scheme = PathScheme) in
      bindR (mapErr TargetArtifact (verifyHeadMetadata env (tw_view tw) source)) (\<lambda>_.
      if scheme \<noteq> HashScheme \<and> \<not> path then Inl (TargetArtifact (ArtScheme scheme))
      else
        bindR (bindR (mapErr TargetArtifact (if path then check_snapshot tw (st_Root expected) else Inr ())) (\<lambda>_.
        bindR (traverse_inventory env tw scheme (st_Root expected) (if path then Some (flat_visitor lib) else None) flat)
          (\<lambda>(state, inventory, flat').
        if st_Counts state \<noteq> st_Counts expected then Inl (TargetArtifact ArtCounts)
        else
          bindR (mapErr TargetFlat (if path then flat_Finish flat' else Inr ())) (\<lambda>_.
          bindR (mapErr TargetArtifact (verifyDatabaseInventory env lib (tw_head tw) (tw_kinds tw) (tw_inspectCtx tw) all scheme source
                   (st_Counts expected) inventory extraMetadata)) (\<lambda>_. Inr state))))) (\<lambda>state.
        if tw_trieCloseErr tw then Inl (TargetArtifact ArtClose) else Inr state)))"

definition verifyTargetDatabase ::
  "geth_env \<Rightarrow> target_world \<Rightarrow> string \<Rightarrow> SourceEvidence \<Rightarrow> StateResult \<Rightarrow> kv list list \<Rightarrow> (target_failure, StateResult) result" where
  "verifyTargetDatabase env tw scheme source expected extraMetadata =
     (if tw_openErr tw then Inl (TargetArtifact ArtOpen)
      else bindR (verifyOpenedTarget env tw scheme source expected extraMetadata) (\<lambda>state.
             if tw_closeErr tw then Inl (TargetArtifact ArtClose) else Inr state))"

end
