(* ===== verification/ArtifactExact.thy ===== *)
theory ArtifactExact
  imports Artifact
begin

text \<open>
  What a verified target holds. The flat entries are those of the traversed image, every other
  entry is of an allowed kind, and the expected head metadata is there, entry by entry.
\<close>

section \<open>The flat verifier compares everything\<close>

fun account_entries :: "artifact_keys \<Rightarrow> visit_call list \<Rightarrow> kv list" where
  "account_entries lib [] = []"
| "account_entries lib (VAccount h a full # calls) = (SnapshotAccountPrefix lib @ h, SlimAccountRLP lib a) # account_entries lib calls"
| "account_entries lib (VStorage h slot val # calls) = account_entries lib calls"
| "account_entries lib (VCode h ch code # calls) = account_entries lib calls"

fun storage_entries :: "artifact_keys \<Rightarrow> visit_call list \<Rightarrow> kv list" where
  "storage_entries lib [] = []"
| "storage_entries lib (VAccount h a full # calls) = storage_entries lib calls"
| "storage_entries lib (VStorage h slot val # calls) = (SnapshotStoragePrefix lib @ h @ slot, val) # storage_entries lib calls"
| "storage_entries lib (VCode h ch code # calls) = storage_entries lib calls"

lemma entries_append [simp]:
  "account_entries lib (xs @ ys) = account_entries lib xs @ account_entries lib ys"
  "storage_entries lib (xs @ ys) = storage_entries lib xs @ storage_entries lib ys"
  by (induction xs rule: account_entries.induct) auto

lemma compareNext_ok:
  "compareNext canceled it key val = (None, it') \<longleftrightarrow> \<not> canceled \<and> it = ((key, val) # fst it', snd it')"
  by (cases it; cases it') (auto simp: compareNext_def split: list.splits if_splits)

lemma flat_visits:
  "run_visits (flat_visitor lib) calls v = (None, v') \<Longrightarrow>
     fv_accounts v = (account_entries lib calls @ fst (fv_accounts v'), snd (fv_accounts v')) \<and>
     fv_storage v = (storage_entries lib calls @ fst (fv_storage v'), snd (fv_storage v'))"
proof (induction calls arbitrary: v)
  case (Cons call calls)
  then obtain v1 where v1: "run_visit (flat_visitor lib) call v = (None, v1)" "run_visits (flat_visitor lib) calls v1 = (None, v')"
    by (auto split: option.splits prod.splits)
  note ih = Cons.IH [OF v1(2)]
  show ?case
  proof (cases call)
    case (VAccount h a full)
    with v1(1) obtain it where it: "compareNext (fv_ctx v (fv_polls v)) (fv_accounts v) (SnapshotAccountPrefix lib @ h) (SlimAccountRLP lib a) = (None, it)"
      and v1': "v1 = v\<lparr>fv_accounts := it, fv_polls := fv_polls v + 1\<rparr>"
      by (auto simp: flat_visitor_def flat_Account_def prefixedKey_def split: prod.splits)
    from it [unfolded compareNext_ok] ih VAccount show ?thesis by (simp add: v1')
  next
    case (VStorage h slot val)
    with v1(1) obtain it where it: "compareNext (fv_ctx v (fv_polls v)) (fv_storage v) (SnapshotStoragePrefix lib @ h @ slot) val = (None, it)"
      and v1': "v1 = v\<lparr>fv_storage := it, fv_polls := fv_polls v + 1\<rparr>"
      by (auto simp: flat_visitor_def flat_Storage_def Let_def split: prod.splits)
    from it [unfolded compareNext_ok] ih VStorage show ?thesis by (simp add: v1')
  next
    case (VCode h ch code)
    with v1(1) ih show ?thesis by (simp add: flat_visitor_def flat_Code_def)
  qed
qed simp

definition flat_accounts :: "artifact_keys \<Rightarrow> geth_env \<Rightarrow> acct list \<Rightarrow> kv list" where
  "flat_accounts lib env as = map (\<lambda>a. (SnapshotAccountPrefix lib @ ac_hash a, SlimAccountRLP lib (acct_of env a))) as"

definition flat_slots :: "artifact_keys \<Rightarrow> acct list \<Rightarrow> kv list" where
  "flat_slots lib as = concat (map (\<lambda>a. map (\<lambda>(k, v). (SnapshotStoragePrefix lib @ ac_hash a @ k, v)) (ac_slots a)) as)"

lemma slot_entries:
  "account_entries lib (slot_visits h kvs) = []"
  "storage_entries lib (slot_visits h kvs) = map (\<lambda>(k, v). (SnapshotStoragePrefix lib @ h @ k, v)) kvs"
  by (induction kvs) (auto simp: slot_visits_def)

lemma image_entries:
  "account_entries lib (image_visits env as) = flat_accounts lib env as"
  "storage_entries lib (image_visits env as) = flat_slots lib as"
  by (induction as)
     (auto simp: image_visits_def acct_visits_def flat_accounts_def flat_slots_def slot_entries split: option.splits)

lemma finish_iterator_ok: "finish_iterator canceled name it = Inr () \<longleftrightarrow> \<not> canceled \<and> it = ([], False)"
  by (cases it) (auto simp: finish_iterator_def split: list.splits)

lemma flat_exact:
  assumes "run_visits (flat_visitor lib) (image_visits env as) (newFlatStateVerifier ctx accounts storage) = (None, v')"
    and "flat_Finish v' = Inr ()"
  shows "accounts = (flat_accounts lib env as, False)" "storage = (flat_slots lib as, False)"
proof -
  have "fv_accounts v' = ([], False)" "fv_storage v' = ([], False)"
    using assms(2) by (auto simp: flat_Finish_def bindR_eq_Inr finish_iterator_ok)
  with flat_visits [OF assms(1)] show "accounts = (flat_accounts lib env as, False)" "storage = (flat_slots lib as, False)"
    by (simp_all add: newFlatStateVerifier_def image_entries)
qed

section \<open>The inventory sees everything\<close>

lemma map_of_Delete: "k \<noteq> key \<Longrightarrow> map_of (entries_Delete key md) k = map_of md k"
  by (induction md) (auto simp: entries_Delete_def)

lemma inspect_entries_ok:
  "inspect_entries lib ek scheme ctx n kvs (md, c) = Inr (missing, c') \<Longrightarrow> distinct (map fst kvs) \<Longrightarrow>
     missing = filter (\<lambda>kv. fst kv \<notin> fst ` set kvs) md \<and>
     (\<forall>(key, val) \<in> set kvs. case map_of md key of
        Some v \<Rightarrow> v = val
      | None \<Rightarrow> isOk (classifyArtifactEntry lib ek scheme key val))"
proof (induction kvs arbitrary: md c n)
  case Nil
  then show ?case by (auto split: if_splits)
next
  case (Cons kv kvs)
  obtain key val where kv: "kv = (key, val)" by (cases kv)
  show ?case
  proof (cases "map_of md key")
    case None
    with Cons.prems(1) kv obtain kind where kind: "classifyArtifactEntry lib ek scheme key val = Inr kind"
      and rest: "inspect_entries lib ek scheme ctx (n + 1) kvs (md, count_kind kind c) = Inr (missing, c')"
      by (auto simp: bindR_eq_Inr split: if_splits)
    have "filter (\<lambda>kv. fst kv \<notin> fst ` set kvs) md = filter (\<lambda>kv. fst kv \<notin> fst ` set ((key, val) # kvs)) md"
      using None by (intro filter_cong) (auto simp: map_of_eq_None_iff)
    with Cons.IH [OF rest] Cons.prems(2) kv None kind show ?thesis by auto
  next
    case (Some v)
    with Cons.prems(1) kv have v: "v = val"
      and rest: "inspect_entries lib ek scheme ctx (n + 1) kvs (entries_Delete key md, c) = Inr (missing, c')"
      by (auto split: if_splits)
    have ih: "missing = filter (\<lambda>kv. fst kv \<notin> fst ` set kvs) (entries_Delete key md)"
      "\<forall>(k, u) \<in> set kvs. case map_of (entries_Delete key md) k of Some v \<Rightarrow> v = u | None \<Rightarrow> isOk (classifyArtifactEntry lib ek scheme k u)"
      using Cons.IH [OF rest] Cons.prems(2) by auto
    have "missing = filter (\<lambda>kv. fst kv \<notin> fst ` set ((key, val) # kvs)) md"
      using ih(1) by (auto simp: entries_Delete_def intro!: filter_cong)
    moreover have "case map_of md k of Some v \<Rightarrow> v = u | None \<Rightarrow> isOk (classifyArtifactEntry lib ek scheme k u)"
      if "(k, u) \<in> set kvs" for k u
    proof -
      have "k \<noteq> key" using that Cons.prems(2) kv by force
      with ih(2) that map_of_Delete [of k key md] show ?thesis by fastforce
    qed
    ultimately show ?thesis using v Some kv by auto
  qed
qed

text \<open>The entries of a kind, expected metadata apart; their numbers are what is compared.\<close>

definition entries_of :: "artifact_keys \<Rightarrow> entry_kinds \<Rightarrow> string \<Rightarrow> kv list \<Rightarrow> inventoryEntryKind \<Rightarrow> kv list \<Rightarrow> kv list" where
  "entries_of lib ek scheme md kind kvs =
     filter (\<lambda>(k, v). map_of md k = None \<and> classifyArtifactEntry lib ek scheme k v = Inr kind) kvs"

lemma entries_of_Delete:
  assumes "key \<notin> fst ` set kvs"
  shows "entries_of lib ek scheme (entries_Delete key md) kind kvs = entries_of lib ek scheme md kind kvs"
  unfolding entries_of_def
proof (rule filter_cong)
  fix kv
  assume "kv \<in> set kvs"
  with assms have "fst kv \<noteq> key" by auto
  then show "(case kv of (k, v) \<Rightarrow> map_of (entries_Delete key md) k = None \<and> classifyArtifactEntry lib ek scheme k v = Inr kind) =
      (case kv of (k, v) \<Rightarrow> map_of md k = None \<and> classifyArtifactEntry lib ek scheme k v = Inr kind)"
    by (cases kv) (simp add: map_of_Delete)
qed simp

lemma inspect_entries_counts:
  "inspect_entries lib ek scheme ctx n kvs (md, c) = Inr (missing, c') \<Longrightarrow> distinct (map fst kvs) \<Longrightarrow>
     kc_trieNodes c' = kc_trieNodes c + of_nat (length (entries_of lib ek scheme md inventoryTrieNode kvs)) \<and>
     kc_codeEntries c' = kc_codeEntries c + of_nat (length (entries_of lib ek scheme md inventoryCode kvs))"
proof (induction kvs arbitrary: md c n)
  case Nil
  then show ?case by (auto simp: entries_of_def split: if_splits)
next
  case (Cons kv kvs)
  obtain key val where kv: "kv = (key, val)" by (cases kv)
  show ?case
  proof (cases "map_of md key")
    case None
    with Cons.prems(1) kv obtain kind where kind: "classifyArtifactEntry lib ek scheme key val = Inr kind"
      and rest: "inspect_entries lib ek scheme ctx (n + 1) kvs (md, count_kind kind c) = Inr (missing, c')"
      by (auto simp: bindR_eq_Inr split: if_splits)
    from Cons.IH [OF rest] Cons.prems(2) None kind kv show ?thesis
      by (cases kind) (auto simp: entries_of_def count_kind_def)
  next
    case (Some v)
    with Cons.prems(1) kv have rest: "inspect_entries lib ek scheme ctx (n + 1) kvs (entries_Delete key md, c) = Inr (missing, c')"
      by (auto split: if_splits)
    have "entries_of lib ek scheme md kind ((key, val) # kvs) = entries_of lib ek scheme md kind kvs" for kind
      using Some by (simp add: entries_of_def)
    with Cons.IH [OF rest] Cons.prems(2) kv show ?thesis by (simp add: entries_of_Delete)
  qed
qed

text \<open>An entry of the database is expected metadata or of an allowed kind, and no metadata is missing.\<close>

definition inventory_exact :: "target_world \<Rightarrow> string \<Rightarrow> kv list \<Rightarrow> bool" where
  "inventory_exact tw scheme meta \<longleftrightarrow>
     (\<forall>(key, val) \<in> set (tw_db tw). case map_of meta key of
        Some v \<Rightarrow> v = val
      | None \<Rightarrow> isOk (classifyArtifactEntry (tw_lib tw) (tw_kinds tw) scheme key val)) \<and>
     (\<forall>key val. map_of meta key = Some val \<longrightarrow> map_of (tw_db tw) key = Some val)"

lemma verifyDatabaseInventory_ok:
  assumes "verifyDatabaseInventory env (tw_lib tw) hl (tw_kinds tw) ctx (broken_off brk (tw_db tw)) scheme source counts nv extra = Inr ()"
    and asc: "ascending (tw_db tw)"
  shows "\<exists>meta0 meta. expectedHeadMetadata env hl source = Inr meta0 \<and> mergeExpectedMetadata meta0 extra = Inr meta \<and>
    inventory_exact tw scheme meta \<and>
    of_nat (length (entries_of (tw_lib tw) (tw_kinds tw) scheme meta inventoryTrieNode (tw_db tw))) = inv_TrieNodes nv \<and>
    of_nat (length (entries_of (tw_lib tw) (tw_kinds tw) scheme meta inventoryCode (tw_db tw))) = inv_CodeEntries nv"
proof -
  from assms(1) obtain meta0 meta n where m: "expectedHeadMetadata env hl source = Inr meta0"
    "mergeExpectedMetadata meta0 extra = Inr meta"
    and run0: "inspect_entries (tw_lib tw) (tw_kinds tw) scheme ctx 1 (fst (broken_off brk (tw_db tw))) (meta, zero_keys) = Inr ([], n)"
    and all: "\<not> snd (broken_off brk (tw_db tw))" and n: "kc_trieNodes n = inv_TrieNodes nv" "kc_codeEntries n = inv_CodeEntries nv"
    by (auto simp: verifyDatabaseInventory_def bindR_eq_Inr split: if_splits)
  from all have "fst (broken_off brk (tw_db tw)) = tw_db tw" by (cases brk) (auto simp: broken_off_def)
  with run0 have run: "inspect_entries (tw_lib tw) (tw_kinds tw) scheme ctx 1 (tw_db tw) (meta, zero_keys) = Inr ([], n)" by simp
  from inspect_entries_ok [OF run ascending_distinct [OF asc]]
  have ok: "[] = filter (\<lambda>kv. fst kv \<notin> fst ` set (tw_db tw)) meta"
    "\<forall>(key, val) \<in> set (tw_db tw). case map_of meta key of Some v \<Rightarrow> v = val
      | None \<Rightarrow> isOk (classifyArtifactEntry (tw_lib tw) (tw_kinds tw) scheme key val)" by auto
  have "map_of (tw_db tw) key = Some val" if "map_of meta key = Some val" for key val
  proof -
    from that have "(key, val) \<in> set meta" by (rule map_of_SomeD)
    with ok(1) [symmetric] have "key \<in> fst ` set (tw_db tw)" unfolding filter_empty_conv by force
    then obtain u where u: "(key, u) \<in> set (tw_db tw)" by auto
    with ok(2) that have "u = val" by auto
    with u asc show ?thesis by (simp add: ascending_map_of)
  qed
  with ok(2) have "inventory_exact tw scheme meta" unfolding inventory_exact_def by blast
  with inspect_entries_counts [OF run ascending_distinct [OF asc]] n m show ?thesis by (auto simp: zero_keys_def)
qed

section \<open>The verified target\<close>

text \<open>
  What verification establishes about a target: its tries are those of a well-formed image with
  the expected root and counters; a path artifact's flat state is that of the image; nothing else
  is in the database but entries of the allowed kinds and the head metadata of the evidence, as
  many trie nodes as the iterators reached and as many codes as the image has.
\<close>

definition reached_nodes :: "string \<Rightarrow> hash list \<Rightarrow> nat" where
  "reached_nodes scheme hs =
     (if scheme = HashScheme then card (set hs - {zero_hash}) else length (filter (\<lambda>h. h \<noteq> zero_hash) hs))"

definition target_ok :: "target_world \<Rightarrow> bool" where
  "target_ok tw \<longleftrightarrow> src_sized (tw_state tw) \<and> ascending (tw_db tw) \<and> batch_len_ok (tw_nodeWorld tw)"

definition target_certified ::
  "geth_env \<Rightarrow> target_world \<Rightarrow> string \<Rightarrow> SourceEvidence \<Rightarrow> StateResult \<Rightarrow> kv list list \<Rightarrow> bool" where
  "target_certified env tw scheme source expected extra \<longleftrightarrow>
     (\<exists>as hdr meta0 meta. evidence_binds env source hdr \<and> image_ok env as \<and> image_root env as = st_Root expected \<and>
        image_counts env as = st_Counts expected \<and>
        (\<exists>it. src_accounts (tw_state tw) = Some it \<and> map (leaf env) as = fst it) \<and>
        (scheme = PathScheme \<longrightarrow>
           NewIterator (tw_db tw) (SnapshotAccountPrefix (tw_lib tw)) [] = flat_accounts (tw_lib tw) env as \<and>
           NewIterator (tw_db tw) (SnapshotStoragePrefix (tw_lib tw)) [] = flat_slots (tw_lib tw) as) \<and>
        expectedHeadMetadata env (tw_head tw) source = Inr meta0 \<and> mergeExpectedMetadata meta0 extra = Inr meta \<and>
        inventory_exact tw scheme meta \<and>
        of_nat (length (entries_of (tw_lib tw) (tw_kinds tw) scheme meta inventoryTrieNode (tw_db tw))) =
          (of_nat (reached_nodes scheme (tw_passed tw)) :: u64) \<and>
        of_nat (length (entries_of (tw_lib tw) (tw_kinds tw) scheme meta inventoryCode (tw_db tw))) = CodeRecords (st_Counts expected))"

lemma validated_binds: "validatedSourceHeader env source = Inr hdr \<Longrightarrow> evidence_binds env source hdr"
  by (simp add: validatedSourceHeader_def mapErr_eq_Inr ValidatedHeader_iff)

lemma verifyOpenedTarget_ok:
  assumes run: "verifyOpenedTarget env tw scheme source expected extra = Inr state"
    and env: "env_ok env" and tw: "target_ok tw"
  shows "state = expected \<and> (scheme = HashScheme \<or> scheme = PathScheme) \<and> target_certified env tw scheme source expected extra"
proof -
  let ?lib = "tw_lib tw"
  let ?flat = "newFlatStateVerifier (tw_flatCtx tw)
      (broken_off (tw_accountsBreak tw) (NewIterator (tw_db tw) (SnapshotAccountPrefix ?lib) []))
      (broken_off (tw_storageBreak tw) (NewIterator (tw_db tw) (SnapshotStoragePrefix ?lib) []))"
  let ?visitor = "if scheme = PathScheme then Some (flat_visitor ?lib) else None"
  from run obtain nv flat' where head: "verifyHeadMetadata env (tw_view tw) source = Inr ()"
    and scheme: "scheme = HashScheme \<or> scheme = PathScheme"
    and trav: "traverse_inventory env tw scheme (st_Root expected) ?visitor ?flat = Inr (state, nv, flat')"
    and counts: "st_Counts state = st_Counts expected"
    and fin: "scheme = PathScheme \<Longrightarrow> flat_Finish flat' = Inr ()"
    and inventory: "verifyDatabaseInventory env ?lib (tw_head tw) (tw_kinds tw) (tw_inspectCtx tw) (broken_off (tw_allBreak tw) (tw_db tw))
      scheme source (st_Counts expected) nv extra = Inr ()"
    by (auto simp: verifyOpenedTarget_def bindR_eq_Inr mapErr_eq_Inr Let_def split: if_splits)
  from head obtain hdr where hdr: "evidence_binds env source hdr"
    by (auto simp: verifyHeadMetadata_def bindR_eq_Inr dest: validated_binds)
  from trav have run': "traverser_run env (tw_state tw) (newStateTraverser (tw_traverseCtx tw) (st_Root expected) ?visitor None ?flat) = Inr (state, flat')"
    and nodes: "inventory_nodes (tw_nodeWorld tw) scheme (tw_passed tw) = Inr (inv_TrieNodes nv)"
    and codes: "inv_CodeEntries nv = CodeRecords (st_Counts state)"
    by (auto simp: traverse_inventory_def bindR_eq_Inr mapErr_eq_Inr)
  have ok: "src_sized (tw_state tw)" "ascending (tw_db tw)" "batch_len_ok (tw_nodeWorld tw)" using tw by (simp_all add: target_ok_def)
  from traverser_run_done [OF run' env ok(1)] obtain as it where
    as: "src_accounts (tw_state tw) = Some it" "map (leaf env) as = fst it" "image_ok env as" "image_root env as = st_Root expected"
      "state = \<lparr>st_Root = st_Root expected, st_Counts = image_counts env as\<rparr>"
    and vis: "case ?visitor of None \<Rightarrow> flat' = ?flat | Some v \<Rightarrow> run_visits v (image_visits env as) ?flat = (None, flat')" by blast
  have flat: "NewIterator (tw_db tw) (SnapshotAccountPrefix ?lib) [] = flat_accounts ?lib env as"
    "NewIterator (tw_db tw) (SnapshotStoragePrefix ?lib) [] = flat_slots ?lib as" if "scheme = PathScheme"
  proof -
    from vis that have "run_visits (flat_visitor ?lib) (image_visits env as) ?flat = (None, flat')" by simp
    from flat_exact [OF this fin [OF that]]
    show "NewIterator (tw_db tw) (SnapshotAccountPrefix ?lib) [] = flat_accounts ?lib env as"
      "NewIterator (tw_db tw) (SnapshotStoragePrefix ?lib) [] = flat_slots ?lib as" by simp_all
  qed
  from verifyDatabaseInventory_ok [OF inventory ok(2)] obtain meta0 meta where
    meta: "expectedHeadMetadata env (tw_head tw) source = Inr meta0" "mergeExpectedMetadata meta0 extra = Inr meta"
      "inventory_exact tw scheme meta"
      "of_nat (length (entries_of ?lib (tw_kinds tw) scheme meta inventoryTrieNode (tw_db tw))) = inv_TrieNodes nv"
      "of_nat (length (entries_of ?lib (tw_kinds tw) scheme meta inventoryCode (tw_db tw))) = inv_CodeEntries nv" by blast
  have "inv_TrieNodes nv = of_nat (reached_nodes scheme (tw_passed tw))"
    using inventory_nodes_ok [OF nodes ok(3)] by (simp add: reached_nodes_def)
  with meta codes counts have inventoried:
    "of_nat (length (entries_of ?lib (tw_kinds tw) scheme meta inventoryTrieNode (tw_db tw))) = (of_nat (reached_nodes scheme (tw_passed tw)) :: u64)"
    "of_nat (length (entries_of ?lib (tw_kinds tw) scheme meta inventoryCode (tw_db tw))) = CodeRecords (st_Counts expected)" by simp_all
  have "state = expected" using as(5) counts by (cases expected) simp
  moreover have "target_certified env tw scheme source expected extra"
    unfolding target_certified_def using hdr as counts flat meta(1-3) inventoried by (intro exI conjI impI) auto
  ultimately show ?thesis using scheme by blast
qed

end
