(* ===== verification/Reports.thy ===== *)
theory Reports
  imports ArtifactExact AtomicDir
begin

text \<open>
  Verification reports and the layout of an artifact (\<^verbatim>\<open>report.go\<close>, \<^verbatim>\<open>direct_report.go\<close>,
  \<^verbatim>\<open>artifact_layout.go\<close>). The JSON decoder of each load is a parameter, as for manifests. A time
  is its instant, zero for the zero time, and the identity of its location, which Go's \<^verbatim>\<open>==\<close> on
  a report compares too and \<^verbatim>\<open>Equal\<close> does not.
\<close>

section \<open>Reports\<close>

type_synonym go_time = "nat \<times> nat"

definition VerificationFormat :: string where "VerificationFormat = ''metis-l2state-verification''"
definition VerificationVersion :: u64 where "VerificationVersion = 1"
definition VerificationFileName :: string where "VerificationFileName = ''verification.json''"
definition DirectVerificationFormat :: string where "DirectVerificationFormat = ''metis-l2state-direct-verification''"
definition DirectVerificationVersion :: u64 where "DirectVerificationVersion = 1"
definition artifactDatabaseDirName :: string where "artifactDatabaseDirName = ''chaindata''"

record VerificationReport =
  vr_Format :: string
  vr_Version :: u64
  vr_VerifiedAt :: go_time
  vr_Verified :: bool
  vr_Scheme :: string
  vr_DBEngine :: string
  vr_StateLayout :: string
  vr_ToolVersion :: string
  vr_GethVersion :: string
  vr_ManifestSHA256 :: hash
  vr_StateFileSHA256 :: hash
  vr_RecordChainHash :: hash
  vr_Head :: Head
  vr_Counts :: Counts
  vr_RecomputedRoot :: hash

text \<open>The clock and the version strings of the running program.\<close>

record program_info =
  pi_now :: go_time
  pi_ToolVersion :: string
  pi_GethVersion :: string

definition newVerificationReport :: "program_info \<Rightarrow> BundleResult \<Rightarrow> string \<Rightarrow> VerificationReport" where
  "newVerificationReport pi bundleResult scheme =
     (let stateScheme = (scheme = ''hash'' \<or> scheme = ''path'') in
      \<lparr>vr_Format = VerificationFormat, vr_Version = VerificationVersion, vr_VerifiedAt = pi_now pi, vr_Verified = True,
       vr_Scheme = scheme, vr_DBEngine = (if stateScheme then DBEnginePebble else []),
       vr_StateLayout = (if stateScheme then LayoutGeth else []),
       vr_ToolVersion = pi_ToolVersion pi, vr_GethVersion = pi_GethVersion pi,
       vr_ManifestSHA256 = br_ManifestSHA256 bundleResult,
       vr_StateFileSHA256 = sr_FileSHA256 (br_Records bundleResult),
       vr_RecordChainHash = sr_RecordChainHash (br_Records bundleResult),
       vr_Head = HeadBefore (Source (br_Manifest bundleResult)),
       vr_Counts = st_Counts (br_State bundleResult), vr_RecomputedRoot = st_Root (br_State bundleResult)\<rparr>)"

datatype report_error =
    RepFormat
  | RepNotVerified
  | RepTimestamp
  | RepScheme string
  | RepBundleLayout
  | RepBundleEngine
  | RepTarget target_error
  | RepToolVersion
  | RepDigest
  | RepHead
  | RepSource evidence_error
  | RepCounts counts_error
  | RepRootEmpty
  | RepRootDiffers

definition VerificationReport_Validate :: "VerificationReport \<Rightarrow> (report_error, unit) result" where
  "VerificationReport_Validate r =
     (if vr_Format r \<noteq> VerificationFormat \<or> vr_Version r \<noteq> VerificationVersion then Inl RepFormat
      else if \<not> vr_Verified r then Inl RepNotVerified
      else if fst (vr_VerifiedAt r) = 0 then Inl RepTimestamp
      else if vr_Scheme r \<noteq> ''bundle'' \<and> vr_Scheme r \<noteq> ''hash'' \<and> vr_Scheme r \<noteq> ''path'' then Inl (RepScheme (vr_Scheme r))
      else
        bindR (if vr_Scheme r = ''bundle'' then
                 (if vr_StateLayout r \<noteq> [] then Inl RepBundleLayout
                  else if vr_DBEngine r \<noteq> [] then Inl RepBundleEngine else Inr ())
               else bindR (mapErr RepTarget (reportTarget (vr_DBEngine r) (vr_StateLayout r) (vr_Scheme r))) (\<lambda>_. Inr ())) (\<lambda>_.
        if vr_ToolVersion r = [] then Inl RepToolVersion
        else if vr_ManifestSHA256 r = zero_hash \<or> vr_StateFileSHA256 r = zero_hash \<or> vr_RecordChainHash r = zero_hash
        then Inl RepDigest
        else if BlockHash (vr_Head r) = zero_hash \<or> StateRoot (vr_Head r) = zero_hash then Inl RepHead
        else bindR (mapErr RepCounts (Counts_Validate (vr_Counts r))) (\<lambda>_.
          if vr_RecomputedRoot r = zero_hash then Inl RepRootEmpty
          else if vr_RecomputedRoot r \<noteq> StateRoot (vr_Head r) then Inl RepRootDiffers
          else Inr ())))"

record DirectVerificationReport =
  dr_Format :: string
  dr_Version :: u64
  dr_VerifiedAt :: go_time
  dr_Verified :: bool
  dr_Scheme :: string
  dr_DBEngine :: string
  dr_StateLayout :: string
  dr_ToolVersion :: string
  dr_GethVersion :: string
  dr_Source :: SourceEvidence
  dr_Counts :: Counts
  dr_RecomputedRoot :: hash

definition newDirectVerificationReport ::
  "program_info \<Rightarrow> SourceEvidence \<Rightarrow> StateResult \<Rightarrow> string \<Rightarrow> DirectVerificationReport" where
  "newDirectVerificationReport pi source state scheme =
     \<lparr>dr_Format = DirectVerificationFormat, dr_Version = DirectVerificationVersion, dr_VerifiedAt = pi_now pi, dr_Verified = True,
      dr_Scheme = scheme, dr_DBEngine = DBEnginePebble, dr_StateLayout = LayoutGeth,
      dr_ToolVersion = pi_ToolVersion pi, dr_GethVersion = pi_GethVersion pi, dr_Source = source,
      dr_Counts = st_Counts state, dr_RecomputedRoot = st_Root state\<rparr>"

definition DirectVerificationReport_Validate :: "geth_env \<Rightarrow> DirectVerificationReport \<Rightarrow> (report_error, unit) result" where
  "DirectVerificationReport_Validate env r =
     (if dr_Format r \<noteq> DirectVerificationFormat \<or> dr_Version r \<noteq> DirectVerificationVersion then Inl RepFormat
      else if \<not> dr_Verified r then Inl RepNotVerified
      else if fst (dr_VerifiedAt r) = 0 then Inl RepTimestamp
      else if dr_Scheme r \<noteq> HashScheme \<and> dr_Scheme r \<noteq> PathScheme then Inl (RepScheme (dr_Scheme r))
      else
        bindR (mapErr RepTarget (reportTarget (dr_DBEngine r) (dr_StateLayout r) (dr_Scheme r))) (\<lambda>_.
        if dr_ToolVersion r = [] then Inl RepToolVersion
        else
          bindR (mapErr RepSource (SourceEvidence_Validate env (dr_Source r))) (\<lambda>_.
          bindR (mapErr RepCounts (Counts_Validate (dr_Counts r))) (\<lambda>_.
          if dr_RecomputedRoot r = zero_hash then Inl RepRootEmpty
          else if dr_RecomputedRoot r \<noteq> StateRoot (HeadBefore (dr_Source r)) then Inl RepRootDiffers
          else Inr ()))))"

definition sameDirectVerificationReport :: "DirectVerificationReport \<Rightarrow> DirectVerificationReport \<Rightarrow> bool" where
  "sameDirectVerificationReport left right \<longleftrightarrow>
     dr_Format left = dr_Format right \<and> dr_Version left = dr_Version right \<and>
     fst (dr_VerifiedAt left) = fst (dr_VerifiedAt right) \<and> dr_Verified left = dr_Verified right \<and>
     dr_Scheme left = dr_Scheme right \<and> dr_DBEngine left = dr_DBEngine right \<and> dr_StateLayout left = dr_StateLayout right \<and>
     dr_ToolVersion left = dr_ToolVersion right \<and> dr_GethVersion left = dr_GethVersion right \<and>
     sameSourceEvidence (dr_Source left) (dr_Source right) \<and>
     dr_Counts left = dr_Counts right \<and> dr_RecomputedRoot left = dr_RecomputedRoot right"

section \<open>The artifact directory\<close>

datatype layout_error =
    LayOpen strictio_error
  | LayLayout strictio_error
  | LayRead strictio_error
  | LayDecode
  | LayInvalid report_error
  | LayClose

definition artifact_layout :: "(string \<times> EntryKind) list" where
  "artifact_layout = [(artifactDatabaseDirName, Directory), (VerificationFileName, RegularFile)]"

definition validateArtifactLayout :: "(strictio_error, dir_root) result \<Rightarrow> (layout_error, unit) result" where
  "validateArtifactLayout openedRoot =
     bindR (mapErr LayOpen openedRoot) (\<lambda>root.
     bindR (mapErr LayLayout (RequireExactLayout root artifact_layout)) (\<lambda>_.
       if dr_closeErr root then Inl LayClose else Inr ()))"

definition loadArtifactJSON ::
  "('r \<Rightarrow> (report_error, unit) result) \<Rightarrow> (bytes \<Rightarrow> 'r option) \<Rightarrow> (strictio_error, dir_root) result \<Rightarrow> (layout_error, 'r) result" where
  "loadArtifactJSON validate json_dec openedRoot =
     bindR (mapErr LayOpen openedRoot) (\<lambda>root.
     bindR (mapErr LayLayout (RequireExactLayout root artifact_layout)) (\<lambda>_.
     bindR (mapErr LayRead (ReadRegular root VerificationFileName MaxMetadataSize)) (\<lambda>data.
     case json_dec data of
       None \<Rightarrow> Inl LayDecode
     | Some report \<Rightarrow>
         bindR (mapErr LayInvalid (validate report)) (\<lambda>_.
           if dr_closeErr root then Inl LayClose else Inr report))))"

definition loadVerificationReport ::
  "(bytes \<Rightarrow> VerificationReport option) \<Rightarrow> (strictio_error, dir_root) result \<Rightarrow> (layout_error, VerificationReport) result" where
  "loadVerificationReport json_dec openedRoot = loadArtifactJSON VerificationReport_Validate json_dec openedRoot"

definition loadDirectVerificationReport ::
  "geth_env \<Rightarrow> (bytes \<Rightarrow> DirectVerificationReport option) \<Rightarrow> (strictio_error, dir_root) result \<Rightarrow>
   (layout_error, DirectVerificationReport) result" where
  "loadDirectVerificationReport env json_dec openedRoot = loadArtifactJSON (DirectVerificationReport_Validate env) json_dec openedRoot"

end
