(* ===== verification/VerifyCmd.thy ===== *)
theory VerifyCmd
  imports Reports Workspace
begin

text \<open>
  The two verification commands (\<^verbatim>\<open>Verify\<close> of \<^verbatim>\<open>verify.go\<close>, \<^verbatim>\<open>VerifyDirect\<close> of
  \<^verbatim>\<open>direct_verify.go\<close>): everything an artifact or a bundle claims is recomputed, the stored
  report is read before and after, and the two readings are compared.
\<close>

section \<open>Verifying against a bundle\<close>

record VerifyOptions =
  vo_TempDir :: string
  vo_TempDB :: string
  vo_Bundle :: string
  vo_Artifact :: string
  vo_CacheMB :: int
  vo_Handles :: int

text \<open>
  What the command observes: the artifact directory at its three openings with the decoder of each
  load, the bundle directory at its three, the opened target, scratch space and polls.
\<close>

record verify_world =
  vw_info :: program_info
  vw_dec :: "bytes \<Rightarrow> VerificationReport option"
  vw_decAfter :: "bytes \<Rightarrow> VerificationReport option"
  vw_artifact :: "(strictio_error, dir_root) result"
  vw_artifactLayout :: "(strictio_error, dir_root) result"
  vw_artifactAfter :: "(strictio_error, dir_root) result"
  vw_manifestDec :: "bytes \<Rightarrow> Manifest option"
  vw_scanCtx :: "faults option"
  vw_bundle :: "(strictio_error, dir_root) result"
  vw_bundleRecords :: "(strictio_error, dir_root) result"
  vw_bundleAfter :: "(strictio_error, dir_root) result"
  vw_target :: target_world
  vw_workspace :: workspace_world
  vw_createCanceled :: bool

datatype verify_error =
    VerifyWorkspace workspace_error
  | VerifyBundleRequired
  | VerifyReport layout_error
  | VerifyScheme string
  | VerifyScan "unit bundle_error"
  | VerifyOtherManifest
  | VerifyOtherRecords
  | VerifyOtherEvidence
  | VerifyTarget target_error
  | VerifyDatabase target_failure
  | VerifyStateMismatch
  | VerifyLayout layout_error
  | VerifyReread layout_error
  | VerifyReportChanged
  | VerifySourceRequired
  | VerifyArtifactRequired
  | VerifyOpenSource
  | VerifySourceHead legacy_error
  | VerifyTraverse "unit trav_error"
  | VerifyConfirm confirm_error

definition compareStoredReport :: "VerificationReport \<Rightarrow> BundleResult \<Rightarrow> (verify_error, unit) result" where
  "compareStoredReport stored current =
     (if vr_ManifestSHA256 stored \<noteq> br_ManifestSHA256 current then Inl VerifyOtherManifest
      else if vr_StateFileSHA256 stored \<noteq> sr_FileSHA256 (br_Records current) \<or>
              vr_RecordChainHash stored \<noteq> sr_RecordChainHash (br_Records current) then Inl VerifyOtherRecords
      else if vr_Head stored \<noteq> HeadBefore (Source (br_Manifest current)) \<or>
              vr_Counts stored \<noteq> st_Counts (br_State current) \<or>
              vr_RecomputedRoot stored \<noteq> st_Root (br_State current) then Inl VerifyOtherEvidence
      else Inr ())"

text \<open>The scratch directory is removed whatever happened; a failing removal fails the command.\<close>

definition closing :: "workspace_world \<Rightarrow> (verify_error, 'a) result \<times> verificationWorkspace \<Rightarrow> (verify_error, 'a) result" where
  "closing world r =
     (case fst r of
        Inl e \<Rightarrow> Inl e
      | Inr x \<Rightarrow> (case fst (workspace_Close world (snd r)) of Some e \<Rightarrow> Inl (VerifyWorkspace e) | None \<Rightarrow> Inr x))"

text \<open>The target against the bundle, then the layout and the report once more.\<close>

definition recheck_artifact ::
  "geth_env \<Rightarrow> verify_world \<Rightarrow> VerificationReport \<Rightarrow> BundleResult \<Rightarrow> targetConfig \<Rightarrow> (verify_error, VerificationReport) result" where
  "recheck_artifact env world stored bundleResult target =
     bindR (mapErr VerifyDatabase (verifyTargetDatabase env (vw_target world) (vr_Scheme stored)
              (Source (br_Manifest bundleResult)) (br_State bundleResult) [])) (\<lambda>state.
       if state \<noteq> br_State bundleResult then Inl VerifyStateMismatch
       else
         bindR (mapErr VerifyLayout (validateArtifactLayout (vw_artifactLayout world))) (\<lambda>_.
         bindR (mapErr VerifyReread (loadVerificationReport (vw_decAfter world) (vw_artifactAfter world))) (\<lambda>storedAfter.
         if storedAfter \<noteq> stored then Inl VerifyReportChanged
         else Inr ((newVerificationReport (vw_info world) bundleResult (vr_Scheme stored))
                     \<lparr>vr_DBEngine := tc_engine target, vr_StateLayout := tc_layout target\<rparr>))))"

definition Verify :: "geth_env \<Rightarrow> verify_world \<Rightarrow> VerifyOptions \<Rightarrow> (verify_error, VerificationReport) result" where
  "Verify env world opts =
     bindR (mapErr VerifyWorkspace (tempdb_validate (vo_TempDB opts))) (\<lambda>_.
     if vo_Bundle opts = [] then Inl VerifyBundleRequired
     else
       bindR (if vo_Artifact opts = [] then Inr None
              else bindR (mapErr VerifyReport (loadVerificationReport (vw_dec world) (vw_artifact world))) (\<lambda>stored.
                if vr_Scheme stored \<noteq> HashScheme \<and> vr_Scheme stored \<noteq> PathScheme then Inl (VerifyScheme (vr_Scheme stored))
                else Inr (Some stored))) (\<lambda>artifact.
       bindR (mapErr VerifyWorkspace
                (prepareVerificationWorkspace (vw_workspace world) (vo_TempDir opts) [vo_Bundle opts, vo_Artifact opts])) (\<lambda>ws.
       closing (vw_workspace world)
         (case scanBundle env (vw_manifestDec world) (vw_scanCtx world) (vw_bundle world) (vw_bundleRecords world)
                 (vw_bundleAfter world) None None () of
            Inl e \<Rightarrow> (Inl (VerifyScan e), ws)
          | Inr (bundleResult, _) \<Rightarrow>
              (case artifact of
                 None \<Rightarrow> (Inr (newVerificationReport (vw_info world) bundleResult ''bundle''), ws)
               | Some stored \<Rightarrow>
                   (case bindR (compareStoredReport stored bundleResult) (\<lambda>_.
                           mapErr VerifyTarget (reportTarget (vr_DBEngine stored) (vr_StateLayout stored) (vr_Scheme stored))) of
                      Inl e \<Rightarrow> (Inl e, ws)
                    | Inr target \<Rightarrow>
                        (case nodeIndex (vw_workspace world) (vw_createCanceled world) (vo_TempDB opts) (vr_Scheme stored)
                                (vo_CacheMB opts) (vo_Handles opts) ws of
                           (Inl e, ws1) \<Rightarrow> (Inl (VerifyWorkspace e), ws1)
                         | (Inr scratch, ws1) \<Rightarrow>
                             (recheck_artifact env world stored bundleResult target, ws1))))))))"

section \<open>Verifying against the legacy source\<close>

record DirectVerifyOptions =
  do_TempDir :: string
  do_TempDB :: string
  do_SourceChaindata :: string
  do_Artifact :: string
  do_CacheMB :: int
  do_Handles :: int

text \<open>The legacy database: how it opens, answers at the first and the last reading, and closes.\<close>

record direct_world =
  xw_info :: program_info
  xw_dec :: "bytes \<Rightarrow> DirectVerificationReport option"
  xw_decAfter :: "bytes \<Rightarrow> DirectVerificationReport option"
  xw_artifact :: "(strictio_error, dir_root) result"
  xw_artifactLayout :: "(strictio_error, dir_root) result"
  xw_artifactAfter :: "(strictio_error, dir_root) result"
  xw_openErr :: bool
  xw_db :: rawdb_view
  xw_dbAfter :: rawdb_view
  xw_state :: state_source
  xw_traverseCtx :: faults
  xw_closeErr :: bool
  xw_target :: target_world
  xw_workspace :: workspace_world
  xw_createCanceled :: bool

text \<open>The part of the command from the opened source to the evidence the stored report must match.\<close>

definition recompute_source ::
  "geth_env \<Rightarrow> direct_world \<Rightarrow> DirectVerificationReport \<Rightarrow> (verify_error, SourceEvidence \<times> StateResult \<times> targetConfig) result" where
  "recompute_source env world stored =
     (if xw_openErr world then Inl VerifyOpenSource
      else
        bindR (mapErr VerifySourceHead (readLegacyHead env (xw_db world))) (\<lambda>(head, headerRLP).
        bindR (mapErr VerifyTraverse (traverser_run env (xw_state world)
                 (newStateTraverser (xw_traverseCtx world) (StateRoot head) None None ()))) (\<lambda>(stateResult, _).
        bindR (mapErr VerifyConfirm (fst (ConfirmStableAndClose env (xw_dbAfter world) (xw_closeErr world)
                 \<lparr>ls_head = head, ls_headerRLP = headerRLP, ls_closed = False\<rparr>))) (\<lambda>sourceEvidence.
        if \<not> sameSourceEvidence (dr_Source stored) sourceEvidence \<or>
           dr_Counts stored \<noteq> st_Counts stateResult \<or> dr_RecomputedRoot stored \<noteq> st_Root stateResult
        then Inl VerifyOtherEvidence
        else
          bindR (mapErr VerifyTarget (reportTarget (dr_DBEngine stored) (dr_StateLayout stored) (dr_Scheme stored)))
            (\<lambda>target. Inr (sourceEvidence, stateResult, target))))))"

text \<open>The target against the recomputed evidence, then the layout and the report once more.\<close>

definition recheck_direct ::
  "geth_env \<Rightarrow> direct_world \<Rightarrow> DirectVerificationReport \<Rightarrow> SourceEvidence \<Rightarrow> StateResult \<Rightarrow> targetConfig \<Rightarrow>
   (verify_error, DirectVerificationReport) result" where
  "recheck_direct env world stored sourceEvidence stateResult target =
     bindR (mapErr VerifyDatabase (verifyTargetDatabase env (xw_target world) (dr_Scheme stored) sourceEvidence stateResult [])) (\<lambda>dbState.
       if dbState \<noteq> stateResult then Inl VerifyStateMismatch
       else
         bindR (mapErr VerifyLayout (validateArtifactLayout (xw_artifactLayout world))) (\<lambda>_.
         bindR (mapErr VerifyReread (loadDirectVerificationReport env (xw_decAfter world) (xw_artifactAfter world))) (\<lambda>storedAfter.
         if \<not> sameDirectVerificationReport storedAfter stored then Inl VerifyReportChanged
         else Inr ((newDirectVerificationReport (xw_info world) sourceEvidence stateResult (dr_Scheme stored))
                     \<lparr>dr_DBEngine := tc_engine target, dr_StateLayout := tc_layout target\<rparr>))))"

text \<open>
  After \<^verbatim>\<open>ConfirmStableAndClose\<close> the source is closed, so the deferred close of the command does
  nothing on the paths that succeed.
\<close>

definition VerifyDirect :: "geth_env \<Rightarrow> direct_world \<Rightarrow> DirectVerifyOptions \<Rightarrow> (verify_error, DirectVerificationReport) result" where
  "VerifyDirect env world opts =
     bindR (mapErr VerifyWorkspace (tempdb_validate (do_TempDB opts))) (\<lambda>_.
     if do_SourceChaindata opts = [] then Inl VerifySourceRequired
     else if do_Artifact opts = [] then Inl VerifyArtifactRequired
     else
       bindR (mapErr VerifyReport (loadDirectVerificationReport env (xw_dec world) (xw_artifact world))) (\<lambda>stored.
       bindR (mapErr VerifyWorkspace
                (prepareVerificationWorkspace (xw_workspace world) (do_TempDir opts) [do_SourceChaindata opts, do_Artifact opts])) (\<lambda>ws.
       closing (xw_workspace world)
         (case recompute_source env world stored of
            Inl e \<Rightarrow> (Inl e, ws)
          | Inr (sourceEvidence, stateResult, target) \<Rightarrow>
              (case nodeIndex (xw_workspace world) (xw_createCanceled world) (do_TempDB opts) (dr_Scheme stored)
                      (do_CacheMB opts) (do_Handles opts) ws of
                 (Inl e, ws1) \<Rightarrow> (Inl (VerifyWorkspace e), ws1)
               | (Inr scratch, ws1) \<Rightarrow>
                   (recheck_direct env world stored sourceEvidence stateResult target, ws1))))))"

section \<open>What success means\<close>

lemma closing_ok: "closing world r = Inr x \<longleftrightarrow> fst r = Inr x \<and> fst (workspace_Close world (snd r)) = None"
  by (auto simp: closing_def split: sum.splits option.splits)

lemma reportTarget_ok:
  "reportTarget engine layout scheme = Inr target \<Longrightarrow>
     tc_engine target = engine \<and> tc_layout target = LayoutGeth \<and> (scheme = HashScheme \<or> scheme = PathScheme)"
  by (auto simp: reportTarget_def Let_def split: if_splits)

lemma verifyTargetDatabase_ok:
  assumes "verifyTargetDatabase env tw scheme source expected extra = Inr state"
    and "env_ok env" "target_ok tw"
  shows "state = expected" "target_certified env tw scheme source expected extra"
  using assms verifyOpenedTarget_ok [of env tw scheme source expected extra state]
  by (auto simp: verifyTargetDatabase_def bindR_eq_Inr split: if_splits)

text \<open>The report is a refreshed copy of the stored one.\<close>

definition refreshed :: "program_info \<Rightarrow> VerificationReport \<Rightarrow> VerificationReport" where
  "refreshed pi stored = stored\<lparr>vr_VerifiedAt := pi_now pi, vr_ToolVersion := pi_ToolVersion pi,
     vr_GethVersion := pi_GethVersion pi, vr_StateLayout := LayoutGeth\<rparr>"

definition direct_refreshed :: "program_info \<Rightarrow> DirectVerificationReport \<Rightarrow> DirectVerificationReport" where
  "direct_refreshed pi stored = stored\<lparr>dr_VerifiedAt := pi_now pi, dr_ToolVersion := pi_ToolVersion pi,
     dr_GethVersion := pi_GethVersion pi, dr_StateLayout := LayoutGeth\<rparr>"

lemma loaded_report:
  "loadVerificationReport json_dec dir = Inr r \<Longrightarrow> VerificationReport_Validate r = Inr ()"
  "loadDirectVerificationReport env json_dec' dir = Inr d \<Longrightarrow> DirectVerificationReport_Validate env d = Inr ()"
  by (auto simp: loadVerificationReport_def loadDirectVerificationReport_def loadArtifactJSON_def bindR_eq_Inr mapErr_eq_Inr
        split: option.splits if_splits)

lemma Verify_steps:
  assumes "Verify env world opts = Inr report" and "vo_Artifact opts \<noteq> []"
  obtains stored res target where
    "loadVerificationReport (vw_dec world) (vw_artifact world) = Inr stored"
    "scanBundle env (vw_manifestDec world) (vw_scanCtx world) (vw_bundle world) (vw_bundleRecords world)
       (vw_bundleAfter world) (None :: (unit, unit) StateVisitor option) None () = Inr (res, ())"
    "compareStoredReport stored res = Inr ()"
    "reportTarget (vr_DBEngine stored) (vr_StateLayout stored) (vr_Scheme stored) = Inr target"
    "recheck_artifact env world stored res target = Inr report"
  using assms
  by (auto simp: Verify_def bindR_eq_Inr mapErr_eq_Inr closing_ok split: if_splits sum.splits prod.splits)

lemma recompute_source_steps:
  assumes "recompute_source env world stored = Inr (source, result, target)"
  obtains head headerRLP where
    "readLegacyHead env (xw_db world) = Inr (head, headerRLP)"
    "traverser_run env (xw_state world)
       (newStateTraverser (xw_traverseCtx world) (StateRoot head) (None :: (unit, unit) StateVisitor option) None ()) = Inr (result, ())"
    "source = \<lparr>HeadBefore = head, HeadAfter = head, HeaderRLP = headerRLP\<rparr>"
    "dr_Source stored = source" "dr_Counts stored = st_Counts result" "dr_RecomputedRoot stored = st_Root result"
    "reportTarget (dr_DBEngine stored) (dr_StateLayout stored) (dr_Scheme stored) = Inr target"
  using assms
  by (auto simp: recompute_source_def bindR_eq_Inr mapErr_eq_Inr sameSourceEvidence_iff ConfirmStableAndClose_def Let_def
        split: if_splits sum.splits)

lemma VerifyDirect_steps:
  assumes "VerifyDirect env world opts = Inr report"
  obtains stored source result target where
    "loadDirectVerificationReport env (xw_dec world) (xw_artifact world) = Inr stored"
    "recompute_source env world stored = Inr (source, result, target)"
    "recheck_direct env world stored source result target = Inr report"
proof -
  from assms obtain stored ws where stored: "loadDirectVerificationReport env (xw_dec world) (xw_artifact world) = Inr stored"
    and rest: "fst (case recompute_source env world stored of
         Inl e \<Rightarrow> (Inl e, ws)
       | Inr (source, result, target) \<Rightarrow>
           (case nodeIndex (xw_workspace world) (xw_createCanceled world) (do_TempDB opts) (dr_Scheme stored)
                   (do_CacheMB opts) (do_Handles opts) ws of
              (Inl e, ws1) \<Rightarrow> (Inl (VerifyWorkspace e), ws1)
            | (Inr scratch, ws1) \<Rightarrow> (recheck_direct env world stored source result target, ws1))) = Inr report"
    by (auto simp: VerifyDirect_def bindR_eq_Inr mapErr_eq_Inr closing_ok split: if_splits)
  then obtain source result target where "recompute_source env world stored = Inr (source, result, target)"
    by (cases "recompute_source env world stored") auto
  with rest stored that show ?thesis by (auto split: sum.splits prod.splits)
qed

section \<open>Properties\<close>

lemma recheck_artifact_ok:
  assumes "recheck_artifact env world stored res target = Inr report"
    and "compareStoredReport stored res = Inr ()"
    and "reportTarget (vr_DBEngine stored) (vr_StateLayout stored) (vr_Scheme stored) = Inr target"
    and "VerificationReport_Validate stored = Inr ()"
    and "env_ok env" "target_ok (vw_target world)"
  shows "report = refreshed (vw_info world) stored"
    "target_certified env (vw_target world) (vr_Scheme stored) (Source (br_Manifest res)) (br_State res) []"
    "loadVerificationReport (vw_decAfter world) (vw_artifactAfter world) = Inr stored"
proof -
  from assms(1) obtain state where
    run: "verifyTargetDatabase env (vw_target world) (vr_Scheme stored) (Source (br_Manifest res)) (br_State res) [] = Inr state"
    and again: "loadVerificationReport (vw_decAfter world) (vw_artifactAfter world) = Inr stored"
    and rep: "report = (newVerificationReport (vw_info world) res (vr_Scheme stored))
       \<lparr>vr_DBEngine := tc_engine target, vr_StateLayout := tc_layout target\<rparr>"
    by (auto simp: recheck_artifact_def bindR_eq_Inr mapErr_eq_Inr split: if_splits)
  from verifyTargetDatabase_ok [OF run assms(5,6)]
  show "target_certified env (vw_target world) (vr_Scheme stored) (Source (br_Manifest res)) (br_State res) []"
    by simp
  show "loadVerificationReport (vw_decAfter world) (vw_artifactAfter world) = Inr stored" by (rule again)
  show "report = refreshed (vw_info world) stored"
    using assms(2,4) reportTarget_ok [OF assms(3)] unfolding rep
    by (cases stored)
       (auto simp: compareStoredReport_def VerificationReport_Validate_def newVerificationReport_def refreshed_def
          HashScheme_def PathScheme_def Let_def split: if_splits)
qed


text \<open>
  Property C16. A verification of an artifact against the legacy database that succeeds: the head
  of the database did not move; its state is a well-formed image whose root the head's header
  commits to; the returned report is the stored one up to the time and the versions; and the
  artifact is certified for this evidence.
\<close>

theorem verify_direct_certifies:
  assumes "VerifyDirect env world opts = Inr report"
    and "env_ok env" "src_sized (xw_state world)" "target_ok (xw_target world)"
  shows "\<exists>stored as it head headerRLP.
     loadDirectVerificationReport env (xw_dec world) (xw_artifact world) = Inr stored \<and>
     report = direct_refreshed (xw_info world) stored \<and>
     readLegacyHead env (xw_db world) = Inr (head, headerRLP) \<and>
     dr_Source report = \<lparr>HeadBefore = head, HeadAfter = head, HeaderRLP = headerRLP\<rparr> \<and>
     src_accounts (xw_state world) = Some it \<and> map (leaf env) as = fst it \<and> image_ok env as \<and>
     image_root env as = StateRoot head \<and> dr_RecomputedRoot report = StateRoot head \<and>
     image_counts env as = dr_Counts report \<and>
     target_certified env (xw_target world) (dr_Scheme report) (dr_Source report)
       \<lparr>st_Root = StateRoot head, st_Counts = dr_Counts report\<rparr> []"
proof -
  from VerifyDirect_steps [OF assms(1)] obtain stored source result target where
    st: "loadDirectVerificationReport env (xw_dec world) (xw_artifact world) = Inr stored"
      "recompute_source env world stored = Inr (source, result, target)"
      "recheck_direct env world stored source result target = Inr report" by blast
  from recompute_source_steps [OF st(2)] obtain head headerRLP where
    src: "readLegacyHead env (xw_db world) = Inr (head, headerRLP)"
      "traverser_run env (xw_state world)
         (newStateTraverser (xw_traverseCtx world) (StateRoot head) (None :: (unit, unit) StateVisitor option) None ()) = Inr (result, ())"
      "source = \<lparr>HeadBefore = head, HeadAfter = head, HeaderRLP = headerRLP\<rparr>"
      "dr_Source stored = source" "dr_Counts stored = st_Counts result" "dr_RecomputedRoot stored = st_Root result"
      "reportTarget (dr_DBEngine stored) (dr_StateLayout stored) (dr_Scheme stored) = Inr target" by blast
  from traverser_run_done [OF src(2) assms(2,3)] obtain as it where
    as: "src_accounts (xw_state world) = Some it" "map (leaf env) as = fst it" "image_ok env as" "image_root env as = StateRoot head"
      "result = \<lparr>st_Root = StateRoot head, st_Counts = image_counts env as\<rparr>" by blast
  from st(3) obtain state where
    run: "verifyTargetDatabase env (xw_target world) (dr_Scheme stored) source result [] = Inr state"
    and rep: "report = (newDirectVerificationReport (xw_info world) source result (dr_Scheme stored))
       \<lparr>dr_DBEngine := tc_engine target, dr_StateLayout := tc_layout target\<rparr>"
    by (auto simp: recheck_direct_def bindR_eq_Inr mapErr_eq_Inr split: if_splits)
  from verifyTargetDatabase_ok [OF run assms(2,4)]
  have tc: "target_certified env (xw_target world) (dr_Scheme stored) source result []" by simp
  have ref: "report = direct_refreshed (xw_info world) stored"
    using loaded_report(2) [OF st(1)] reportTarget_ok [OF src(7)] src(4-6) unfolding rep
    by (cases stored)
       (auto simp: DirectVerificationReport_Validate_def newDirectVerificationReport_def direct_refreshed_def split: if_splits)
  have eqs: "dr_Source report = source" "dr_Scheme report = dr_Scheme stored" "dr_Counts report = image_counts env as"
    "dr_RecomputedRoot report = StateRoot head"
    using src(4-6) as(5) unfolding ref by (simp_all add: direct_refreshed_def)
  show ?thesis
    by (intro exI [of _ stored] exI [of _ as] exI [of _ it] exI [of _ head] exI [of _ headerRLP] conjI)
       (use st(1) ref src(1,3) as(1-4) eqs tc in \<open>simp_all add: as(5)\<close>)
qed

end
