(* ===== verification/ArtifactWitnesses.thy ===== *)
theory ArtifactWitnesses
  imports Witnesses VerifyCmd
begin

text \<open>A path artifact of the state of theory \<open>Demo\<close>, verified against its bundle and its source.\<close>

section \<open>The artifact\<close>

definition demo_lib :: artifact_keys where
  "demo_lib = \<lparr>SnapshotAccountPrefix = [97], SnapshotStoragePrefix = [111], CodePrefix = [99],
     TrieNodeAccountPrefix = [65], TrieNodeStoragePrefix = [79],
     SlimAccountRLP = (\<lambda>a. case demo_enc_account a of Some b \<Rightarrow> b | None \<Rightarrow> [])\<rparr>"

definition demo_layout :: head_layout where
  "demo_layout = \<lparr>
     WriteHeader = (\<lambda>h. [(72 # demo_digest 40 0, be64 17), (104 # be64 17 @ demo_digest 40 0, demo_headerRLP)]),
     WriteCanonicalHash = (\<lambda>h n. [(104 # be64 n @ [110], h)]),
     WriteHeadBlockHash = (\<lambda>h. [(ascii ''LastBlock'', h)]),
     WriteHeadHeaderHash = (\<lambda>h. [(ascii ''LastHeader'', h)])\<rparr>"

definition demo_kinds :: entry_kinds where
  "demo_kinds = \<lparr>IsLegacyTrieNode = (\<lambda>k v. length k = 32), IsCodeKey = (\<lambda>k. prefix [99] k \<and> length k = 33),
     ek_SnapshotRootKey = ascii ''SnapshotRoot'', ek_StateSyncFinished = 2\<rparr>"

definition demo_entries :: "kv list" where
  "demo_entries = [
     ([65], [1]),
     (72 # demo_digest 40 0, be64 17),
     (ascii ''LastBlock'', demo_digest 40 0),
     (ascii ''LastHeader'', demo_digest 40 0),
     (ascii ''LastStateID'', be64 0),
     (79 # replicate 32 11, [1]),
     (ascii ''SnapSyncStatus'', [2]),
     (ascii ''SnapshotGenerator'', [3]),
     (ascii ''SnapshotRoot'', demo_digest 20 0),
     (97 # replicate 32 11, demo_leaf1),
     (97 # replicate 32 12, demo_leaf2),
     (99 # demo_digest 4 0, demo_code),
     (104 # be64 17 @ demo_digest 40 0, demo_headerRLP),
     (104 # be64 17 @ [110], demo_digest 40 0),
     (111 # replicate 32 11 @ replicate 32 5, [7]),
     (111 # replicate 32 11 @ replicate 32 9, [130, 1, 2])]"

definition demo_view :: target_view where
  "demo_view = \<lparr>rd_HeadBlockHash = demo_digest 40 0, rd_HeaderNumber = (\<lambda>h. Some 17),
     rd_CanonicalHash = (\<lambda>n. demo_digest 40 0), rd_HeaderRLP = (\<lambda>h n. demo_headerRLP),
     rd_HeadHeaderHash = demo_digest 40 0, rd_SnapshotRoot = demo_digest 20 0, rd_PersistentStateID = 0,
     rd_SnapSyncStatus = 2, rd_SnapshotCompleted = True, rd_Get = map_of demo_entries\<rparr>"

definition demo_nodes :: node_world where
  "demo_nodes = \<lparr>nw_createErr = False, nw_setErr = no_faults, nw_commitErr = no_faults,
     nw_BatchLen = (\<lambda>b. 12 + 34 * int (length b)), nw_IdealBatchSize = 102400, nw_ctx = no_faults, nw_iterErr = False,
     nw_break = None, nw_iterCloseErr = False, nw_getErr = (\<lambda>_. False), nw_valueCloseErr = (\<lambda>_. False),
     nw_batchCloseErr = False, nw_dbCloseErr = False, nw_removeErr = False\<rparr>"

definition demo_target :: target_world where
  "demo_target = \<lparr>tw_lib = demo_lib, tw_head = demo_layout, tw_kinds = demo_kinds, tw_view = demo_view,
     tw_db = demo_entries, tw_accountsBreak = None, tw_storageBreak = None, tw_allBreak = None,
     tw_state = demo_src, tw_passed = [demo_digest 1 1, zero_hash, demo_digest 1 1],
     tw_nodeWorld = demo_nodes, tw_generator = Some [3], tw_traverseCtx = no_faults,
     tw_flatCtx = no_faults, tw_inspectCtx = no_faults, tw_openErr = False, tw_trieCloseErr = False, tw_closeErr = False\<rparr>"

definition demo_evidence :: SourceEvidence where
  "demo_evidence = \<lparr>HeadBefore = demo_head, HeadAfter = demo_head, HeaderRLP = demo_headerRLP\<rparr>"

definition demo_state :: StateResult where
  "demo_state = \<lparr>st_Root = demo_digest 20 0, st_Counts = demo_counts\<rparr>"

lemma demo_entries_ascending: "ascending demo_entries"
  by code_simp

lemma demo_target_ok: "target_ok demo_target"
  by (simp add: target_ok_def batch_len_ok_def demo_target_def demo_nodes_def demo_src_sized demo_entries_ascending)

lemma demo_target_verified: "verifyTargetDatabase demo_env demo_target PathScheme demo_evidence demo_state [] = Inr demo_state"
  by code_simp

theorem inventory_counts_reached_witness:
  "inventory_nodes demo_nodes HashScheme [demo_digest 1 1, zero_hash, demo_digest 2 2, demo_digest 1 1] = Inr 2"
proof -
  have len: "batch_len_ok demo_nodes" by (simp add: batch_len_ok_def demo_nodes_def)
  have "node_faultless demo_nodes" by (simp add: node_faultless_def demo_nodes_def no_faults_apply)
  moreover have "card (set [demo_digest 1 1, zero_hash, demo_digest 2 2, demo_digest 1 1] - {zero_hash}) = 2" by code_simp
  ultimately show ?thesis
    using inventory_counts_reached [OF len, of HashScheme "[demo_digest 1 1, zero_hash, demo_digest 2 2, demo_digest 1 1]"]
    by (simp split: sum.splits)
qed

section \<open>Against the source\<close>

definition demo_info :: program_info where
  "demo_info = \<lparr>pi_now = (9, 0), pi_ToolVersion = ''dev'', pi_GethVersion = ''v1.17.6''\<rparr>"

definition demo_artifact :: dir_root where
  "demo_artifact =
     (let info = \<lparr>fi_kind = KDir, fi_id = 3, fi_size = 0\<rparr>;
          es = [\<lparr>de_name = artifactDatabaseDirName, de_lstat = Some info, de_stat = Some info, de_data = None, de_closeErr = False\<rparr>,
                demo_file 4 VerificationFileName [123, 125]]
      in \<lparr>dr_inventory = Some es, dr_files = es, dr_closeErr = False\<rparr>)"

definition demo_fs :: fs_view where
  "demo_fs = \<lparr>fs_Abs = (\<lambda>_. None), fs_EvalAbs = (\<lambda>_. Inl NotExist), fs_EvalSymlinks = (\<lambda>_. Inl NotExist),
     fs_Stat = (\<lambda>_. Inl NotExist), fs_Lstat = (\<lambda>_. Inl NotExist)\<rparr>"

definition demo_workspace :: workspace_world where
  "demo_workspace = \<lparr>wo_TempDir = ''/tmp'', wo_fs = demo_fs, wo_fsAfter = demo_fs, wo_MkdirTemp = (\<lambda>_ _. None),
     wo_removeErr = (\<lambda>_. False)\<rparr>"

definition demo_direct :: DirectVerificationReport where
  "demo_direct = (newDirectVerificationReport demo_info demo_evidence demo_state PathScheme)
     \<lparr>dr_VerifiedAt := (5, 0), dr_StateLayout := []\<rparr>"

definition demo_direct_world :: direct_world where
  "demo_direct_world = \<lparr>xw_info = demo_info, xw_dec = (\<lambda>_. Some demo_direct), xw_decAfter = (\<lambda>_. Some demo_direct),
     xw_artifact = Inr demo_artifact, xw_artifactLayout = Inr demo_artifact, xw_artifactAfter = Inr demo_artifact,
     xw_openErr = False, xw_db = demo_db, xw_dbAfter = demo_db, xw_state = demo_src, xw_traverseCtx = no_faults,
     xw_closeErr = False, xw_target = demo_target, xw_workspace = demo_workspace, xw_createCanceled = False\<rparr>"

definition demo_direct_opts :: DirectVerifyOptions where
  "demo_direct_opts = \<lparr>do_TempDir = [], do_TempDB = TempDBMemory, do_SourceChaindata = ''src'', do_Artifact = ''out'',
     do_CacheMB = 16, do_Handles = 16\<rparr>"

lemma demo_direct_load: "loadDirectVerificationReport demo_env (xw_dec demo_direct_world) (Inr demo_artifact) = Inr demo_direct"
  by code_simp

lemma demo_recompute: "recompute_source demo_env demo_direct_world demo_direct =
    Inr (demo_evidence, demo_state, \<lparr>tc_engine = DBEnginePebble, tc_layout = LayoutGeth\<rparr>)"
  by code_simp

lemma demo_layout_ok: "validateArtifactLayout (Inr demo_artifact) = Inr ()"
  by code_simp

lemma memory_nodeIndex: "nodeIndex world canceled TempDBMemory scheme cache handles w =
    (Inr \<lparr>ni_Mode = TempDBMemory, ni_Parent = [], ni_CacheMB = cache, ni_Handles = handles\<rparr>, w)"
  by (simp add: nodeIndex_def tempdb_normalized_def TempDBMemory_def TempDBDisk_def)

lemma demo_direct_run: "VerifyDirect demo_env demo_direct_world demo_direct_opts = Inr (direct_refreshed demo_info demo_direct)"
proof -
  have w: "xw_artifact demo_direct_world = Inr demo_artifact" "xw_artifactAfter demo_direct_world = Inr demo_artifact"
    "xw_artifactLayout demo_direct_world = Inr demo_artifact" "xw_decAfter demo_direct_world = xw_dec demo_direct_world"
    "xw_target demo_direct_world = demo_target" "xw_info demo_direct_world = demo_info"
    by (simp_all add: demo_direct_world_def)
  have d: "dr_Scheme demo_direct = PathScheme"
    "(newDirectVerificationReport demo_info demo_evidence demo_state PathScheme)\<lparr>dr_DBEngine := DBEnginePebble, dr_StateLayout := LayoutGeth\<rparr> =
       direct_refreshed demo_info demo_direct"
    by (simp_all add: demo_direct_def newDirectVerificationReport_def direct_refreshed_def)
  show ?thesis
    by (simp add: VerifyDirect_def w d(1) demo_direct_load demo_recompute recheck_direct_def demo_target_verified demo_layout_ok
          sameDirectVerificationReport_def sameSourceEvidence_iff closing_def workspace_Close_def memory_nodeIndex
          tempdb_validate_def prepareVerificationWorkspace_def demo_direct_opts_def)
       (rule d(2))
qed

theorem verify_direct_certifies_witness:
  "\<exists>as. map (leaf demo_env) as = demo_leaves \<and> image_ok demo_env as \<and> image_root demo_env as = demo_digest 20 0 \<and>
     target_certified demo_env demo_target PathScheme demo_evidence demo_state []"
proof -
  have sized: "src_sized (xw_state demo_direct_world)" "target_ok (xw_target demo_direct_world)"
    by (simp_all add: demo_direct_world_def demo_src_sized demo_target_ok)
  from verify_direct_certifies [OF demo_direct_run demo_env_ok sized]
  show ?thesis
    by (auto simp: demo_direct_world_def demo_src_def demo_readLegacyHead demo_head_def direct_refreshed_def demo_direct_def
          newDirectVerificationReport_def demo_state_def demo_evidence_def)
qed

section \<open>Against the bundle\<close>

definition demo_stored :: VerificationReport where
  "demo_stored = \<lparr>vr_Format = VerificationFormat, vr_Version = VerificationVersion, vr_VerifiedAt = (5, 0), vr_Verified = True,
     vr_Scheme = PathScheme, vr_DBEngine = DBEngineLevelDB, vr_StateLayout = LayoutGeth, vr_ToolVersion = ''old'',
     vr_GethVersion = ''v1'', vr_ManifestSHA256 = demo_digest 2 125, vr_StateFileSHA256 = demo_digest 210 0,
     vr_RecordChainHash = demo_digest 147 0, vr_Head = demo_head, vr_Counts = demo_counts, vr_RecomputedRoot = demo_digest 20 0\<rparr>"

definition demo_verify_world :: verify_world where
  "demo_verify_world = \<lparr>vw_info = demo_info, vw_dec = (\<lambda>_. Some demo_stored), vw_decAfter = (\<lambda>_. Some demo_stored),
     vw_artifact = Inr demo_artifact, vw_artifactLayout = Inr demo_artifact, vw_artifactAfter = Inr demo_artifact,
     vw_manifestDec = demo_json, vw_scanCtx = Some no_faults, vw_bundle = Inr demo_dir, vw_bundleRecords = Inr demo_dir,
     vw_bundleAfter = Inr demo_dir, vw_target = demo_target, vw_workspace = demo_workspace, vw_createCanceled = False\<rparr>"

definition demo_opts :: VerifyOptions where
  "demo_opts = \<lparr>vo_TempDir = [], vo_TempDB = TempDBMemory, vo_Bundle = ''bundle'', vo_Artifact = ''out'',
     vo_CacheMB = 16, vo_Handles = 16\<rparr>"

lemma demo_load: "loadVerificationReport (\<lambda>_. Some demo_stored) (Inr demo_artifact) = Inr demo_stored"
  by code_simp

lemma demo_bounded: "stream_bounded demo_env m (Inr demo_dir)"
proof -
  have size: "length demo_stream = 466" by code_simp
  show ?thesis
    by (auto simp: stream_bounded_def stream_of_def uses_zstd_def OpenRegular_def demo_dir_def find_entry_def demo_file_def
          Let_def size demo_env_def split: if_splits)
qed

lemma demo_manifest_loaded: "LoadManifest demo_env demo_json (Inr demo_dir) = Inr (demo_manifest, [123, 125])"
  by code_simp

lemma demo_bundle_result:
  "\<exists>res. scanBundle demo_env demo_json (Some no_faults) (Inr demo_dir) (Inr demo_dir) (Inr demo_dir)
       (None :: ('e, unit) StateVisitor option) None () = Inr (res, ()) \<and> compareStoredReport demo_stored res = Inr () \<and>
     Source (br_Manifest res) = demo_evidence \<and> br_State res = demo_state \<and>
     (newVerificationReport demo_info res PathScheme)\<lparr>vr_DBEngine := DBEngineLevelDB, vr_StateLayout := LayoutGeth\<rparr> =
       refreshed demo_info demo_stored"
proof -
  from demo_scan obtain res where
    s: "scanBundle demo_env demo_json (Some no_faults) (Inr demo_dir) (Inr demo_dir) (Inr demo_dir)
       (None :: ('e, unit) StateVisitor option) None () = Inr (res, ())" and m: "br_Manifest res = demo_manifest"
    by blast
  have "sha256 demo_env b = demo_hash b" for b by (simp add: demo_env_def)
  then have sha: "br_ManifestSHA256 res = demo_hash [123, 125]"
    using scanBundle_loaded [OF s] by (simp add: demo_manifest_loaded ManifestSHA256_def)
  have src: "Source demo_manifest = demo_evidence" "m_Counts demo_manifest = demo_counts"
    by (simp_all add: demo_manifest_def NewManifest_def demo_evidence_def)
  have st: "br_State res = demo_state" "br_Records res = certified_result demo_manifest"
    using scanBundle_done [OF s demo_bounded] m
    by (auto simp: Let_def demo_state_def src demo_evidence_def demo_head_def)
  have digests: "demo_hash [123, 125] = demo_digest 2 125" "sr_FileSHA256 (certified_result demo_manifest) = demo_digest 210 0"
    "sr_RecordChainHash (certified_result demo_manifest) = demo_digest 147 0"
    by (simp_all add: demo_hash_def demo_digest_def certified_result_def demo_manifest_def NewManifest_def)
  show ?thesis
    by (intro exI [of _ res] conjI)
       (simp_all add: s sha st m src digests compareStoredReport_def demo_stored_def demo_evidence_def demo_state_def
          newVerificationReport_def refreshed_def Let_def PathScheme_def demo_info_def)
qed

lemma demo_verify_run: "Verify demo_env demo_verify_world demo_opts = Inr (refreshed demo_info demo_stored)"
proof -
  from demo_bundle_result obtain res where res: "scanBundle demo_env demo_json (Some no_faults) (Inr demo_dir) (Inr demo_dir) (Inr demo_dir)
       (None :: (unit, unit) StateVisitor option) None () = Inr (res, ())" "compareStoredReport demo_stored res = Inr ()"
     "Source (br_Manifest res) = demo_evidence" "br_State res = demo_state"
     "(newVerificationReport demo_info res PathScheme)\<lparr>vr_DBEngine := DBEngineLevelDB, vr_StateLayout := LayoutGeth\<rparr> =
       refreshed demo_info demo_stored" by blast
  have d: "vr_Scheme demo_stored = PathScheme" "reportTarget (vr_DBEngine demo_stored) (vr_StateLayout demo_stored) PathScheme =
      Inr \<lparr>tc_engine = DBEngineLevelDB, tc_layout = LayoutGeth\<rparr>"
    by (simp_all add: demo_stored_def reportTarget_def LayoutGeth_def Let_def)
  show ?thesis
    using res(5)
    by (simp add: Verify_def demo_verify_world_def demo_opts_def demo_load d res(1-4) memory_nodeIndex recheck_artifact_def demo_target_verified
          demo_layout_ok closing_def workspace_Close_def tempdb_validate_def prepareVerificationWorkspace_def)
qed


end
