(* ===== verification/ImportCmd.thy ===== *)
theory ImportCmd
  imports VerifyCmd
begin

text \<open>
  Importing a bundle (\<^verbatim>\<open>import.go\<close>, \<^verbatim>\<open>publish_artifact.go\<close>, the file synchronisation of
  \<^verbatim>\<open>target.go\<close>): the scan feeds a state writer, the new database gets its head, is closed,
  reopened and verified, a report is written and read back, and the directory is renamed into
  place. Opening databases and adopting a path state are go-ethereum's.
\<close>

section \<open>Publication\<close>

record publish_world =
  pb_canceled :: "nat \<Rightarrow> bool"
  pb_writeErr :: bool
  pb_syncErr :: bool
  pb_atomic :: atomic_world
  pb_rename :: "path \<Rightarrow> path \<Rightarrow> tree \<Rightarrow> rename_outcome \<times> tree"
  pb_syncDir :: "path \<Rightarrow> bool"

datatype publish_error =
    PubCanceled
  | PubInvalid report_error
  | PubWrite
  | PubSync
  | PubReopen layout_error
  | PubDiffers
  | PubBefore path_error
  | PubCommit atomic_error

text \<open>Writing a report: it is validated first, and the file is synchronised.\<close>

definition write_report ::
  "('r \<Rightarrow> (report_error, unit) result) \<Rightarrow> publish_world \<Rightarrow> 'r \<Rightarrow> path \<Rightarrow> tree \<Rightarrow> publish_error option \<times> tree" where
  "write_report validate world report dir t =
     (case validate report of
        Inl e \<Rightarrow> (Some (PubInvalid e), t)
      | Inr _ \<Rightarrow>
          if pb_writeErr world then (Some PubWrite, t)
          else
            let t1 = t(dir @ [VerificationFileName] \<mapsto> 0) in
            if pb_syncErr world then (Some PubSync, t1) else (None, t1))"

definition writeVerificationReport :: "publish_world \<Rightarrow> VerificationReport \<Rightarrow> path \<Rightarrow> tree \<Rightarrow> publish_error option \<times> tree" where
  "writeVerificationReport world report dir t = write_report VerificationReport_Validate world report dir t"

definition writeDirectVerificationReport ::
  "geth_env \<Rightarrow> publish_world \<Rightarrow> DirectVerificationReport \<Rightarrow> path \<Rightarrow> tree \<Rightarrow> publish_error option \<times> tree" where
  "writeDirectVerificationReport env world report dir t = write_report (DirectVerificationReport_Validate env) world report dir t"

record 'r artifactReportCodec =
  rc_write :: "'r \<Rightarrow> path \<Rightarrow> tree \<Rightarrow> publish_error option \<times> tree"
  rc_load :: "(layout_error, 'r) result"
  rc_equal :: "'r \<Rightarrow> 'r \<Rightarrow> bool"

definition publishArtifact ::
  "publish_world \<Rightarrow> 'r artifactReportCodec \<Rightarrow> path_error option option \<Rightarrow> 'r \<Rightarrow> atomicDir \<Rightarrow> tree \<Rightarrow>
   publish_error option \<times> atomicDir \<times> tree" where
  "publishArtifact world codec beforeCommit report output t =
     (if pb_canceled world 0 then (Some PubCanceled, output, t)
      else case rc_write codec report (ad_temp output) t of
        (Some e, t1) \<Rightarrow> (Some e, output, t1)
      | (None, t1) \<Rightarrow>
          (case rc_load codec of
             Inl e \<Rightarrow> (Some (PubReopen e), output, t1)
           | Inr stored \<Rightarrow>
               if \<not> rc_equal codec stored report then (Some PubDiffers, output, t1)
               else if pb_canceled world 1 then (Some PubCanceled, output, t1)
               else case beforeCommit of
                 Some (Some e) \<Rightarrow> (Some (PubBefore e), output, t1)
               | _ \<Rightarrow>
                   if pb_canceled world 2 then (Some PubCanceled, output, t1)
                   else case Commit (pb_atomic world) (pb_rename world) (pb_syncDir world) output t1 of
                     (err, output', t2) \<Rightarrow> (map_option PubCommit err, output', t2)))"

definition publishImportedArtifact ::
  "publish_world \<Rightarrow> (layout_error, VerificationReport) result \<Rightarrow> VerificationReport \<Rightarrow> atomicDir \<Rightarrow> tree \<Rightarrow>
   publish_error option \<times> atomicDir \<times> tree" where
  "publishImportedArtifact world loaded report output t =
     publishArtifact world \<lparr>rc_write = writeVerificationReport world, rc_load = loaded, rc_equal = (=)\<rparr> None report output t"

definition publishDirectArtifact ::
  "geth_env \<Rightarrow> fs_view \<Rightarrow> string \<Rightarrow> string \<Rightarrow> publish_world \<Rightarrow> (layout_error, DirectVerificationReport) result \<Rightarrow>
   DirectVerificationReport \<Rightarrow> atomicDir \<Rightarrow> tree \<Rightarrow> publish_error option \<times> atomicDir \<times> tree" where
  "publishDirectArtifact env fs source final world loaded report output t =
     publishArtifact world \<lparr>rc_write = writeDirectVerificationReport env world, rc_load = loaded, rc_equal = sameDirectVerificationReport\<rparr>
       (Some (rejectOutputInsideDirectory fs source final)) report output t"

section \<open>Closing the new database\<close>

text \<open>One file of a closed LevelDB: its mode, unless it cannot be inspected, and whether its sync fails.\<close>

record level_file =
  lf_regular :: "bool option"
  lf_syncErr :: bool

datatype dir_read = DirMore | DirEOF | DirFailed

datatype finalize_error =
    FinCanceled
  | FinAdopt
  | FinIncomplete
  | FinTrieClose
  | FinHead artifact_error
  | FinSync
  | FinClose
  | FinLevelList
  | FinLevelStat
  | FinLevelKind
  | FinLevelSync
  | FinDirSync
  | FinVerify target_failure

fun sync_entries :: "faults \<Rightarrow> nat \<Rightarrow> level_file list \<Rightarrow> (finalize_error, nat) result" where
  "sync_entries ctx n [] = Inr n"
| "sync_entries ctx n (f # fs) =
     (if ctx n then Inl FinCanceled
      else case lf_regular f of
        None \<Rightarrow> Inl FinLevelStat
      | Some regular \<Rightarrow>
          if \<not> regular then Inl FinLevelKind
          else if lf_syncErr f then Inl FinLevelSync
          else sync_entries ctx (n + 1) fs)"

text \<open>The directory is read in portions; the end of the list stands for a last, empty one.\<close>

fun syncLevelDBFiles :: "faults \<Rightarrow> nat \<Rightarrow> (level_file list \<times> dir_read) list \<Rightarrow> (finalize_error, unit) result" where
  "syncLevelDBFiles ctx n [] = (if ctx n then Inl FinCanceled else Inr ())"
| "syncLevelDBFiles ctx n ((entries, r) # chunks) =
     (if r = DirFailed then Inl FinLevelList
      else bindR (sync_entries ctx n entries) (\<lambda>n1.
        if r = DirEOF then (if ctx n1 then Inl FinCanceled else Inr ())
        else syncLevelDBFiles ctx n1 chunks))"

record finalize_world =
  fz_adoptCanceled :: bool
  fz_AdoptSyncedState :: "hash \<Rightarrow> kv list \<Rightarrow> kv list option"
  fz_SnapshotCompleted :: bool
  fz_trieCloseErr :: bool
  fz_headCanceled :: bool
  fz_headWriteErr :: bool
  fz_closeCanceled :: bool
  fz_SyncErr :: bool
  fz_CloseErr :: bool
  fz_openDirErr :: bool
  fz_levelCtx :: faults
  fz_levelChunks :: "(level_file list \<times> dir_read) list"
  fz_levelCloseErr :: bool
  fz_dirSyncErr :: bool
  fz_head :: head_layout
  fz_reopen :: "kv list \<Rightarrow> target_world"

definition adoptPathStateDatabase :: "finalize_world \<Rightarrow> hash \<Rightarrow> kv list \<Rightarrow> (finalize_error, kv list) result" where
  "adoptPathStateDatabase world root db =
     (if fz_adoptCanceled world then Inl FinCanceled
      else case fz_AdoptSyncedState world root db of
        None \<Rightarrow> Inl FinAdopt
      | Some db' \<Rightarrow>
          if \<not> fz_SnapshotCompleted world then Inl FinIncomplete
          else if fz_trieCloseErr world then Inl FinTrieClose
          else Inr db')"

definition adoptPathState :: "finalize_world \<Rightarrow> string \<Rightarrow> hash \<Rightarrow> kv list \<Rightarrow> (finalize_error, kv list) result" where
  "adoptPathState world scheme root db =
     (if scheme = HashScheme then (if fz_adoptCanceled world then Inl FinCanceled else Inr db)
      else adoptPathStateDatabase world root db)"

definition persistHeadMetadata :: "geth_env \<Rightarrow> finalize_world \<Rightarrow> SourceEvidence \<Rightarrow> kv list \<Rightarrow> (finalize_error, kv list) result" where
  "persistHeadMetadata env world source db =
     (if fz_headCanceled world then Inl FinCanceled
      else mapErr FinHead (writeHeadMetadata env (fz_head world) (fz_headWriteErr world) source db))"

definition finalizeTargetDatabase :: "finalize_world \<Rightarrow> targetConfig \<Rightarrow> (finalize_error, unit) result" where
  "finalizeTargetDatabase world target =
     (if fz_closeCanceled world then Inl FinCanceled
      else if fz_SyncErr world then Inl FinSync
      else if fz_CloseErr world then Inl FinClose
      else bindR (if tc_engine target = DBEngineLevelDB then
                    (if fz_openDirErr world then Inl FinLevelList
                     else bindR (syncLevelDBFiles (fz_levelCtx world) 0 (fz_levelChunks world)) (\<lambda>_.
                       if fz_levelCloseErr world then Inl FinLevelList else Inr ()))
                  else Inr ()) (\<lambda>_.
        if fz_dirSyncErr world then Inl FinDirSync else Inr ()))"

definition finalizeAndVerifyTarget ::
  "geth_env \<Rightarrow> finalize_world \<Rightarrow> string \<Rightarrow> targetConfig \<Rightarrow> SourceEvidence \<Rightarrow> StateResult \<Rightarrow> kv list \<Rightarrow>
   (finalize_error, StateResult \<times> kv list) result" where
  "finalizeAndVerifyTarget env world scheme target source expected db =
     bindR (adoptPathState world scheme (st_Root expected) db) (\<lambda>db1.
     bindR (persistHeadMetadata env world source db1) (\<lambda>db2.
     bindR (finalizeTargetDatabase world target) (\<lambda>_.
     bindR (mapErr FinVerify (verifyTargetDatabase env (fz_reopen world db2) scheme source expected [])) (\<lambda>state.
       Inr (state, db2)))))"

section \<open>The command\<close>

record ImportOptions =
  io_TempDB :: string
  io_Bundle :: string
  io_Output :: string
  io_Scheme :: string
  io_DBEngine :: string

record import_world =
  im_info :: program_info
  im_fs :: fs_view
  im_publish :: publish_world
  im_finalize :: finalize_world
  im_mkdirErr :: bool
  im_openErr :: bool
  im_lib :: artifact_keys
  im_writer :: writer_world
  im_flushCanceled :: bool
  im_manifestDec :: "bytes \<Rightarrow> Manifest option"
  im_scanCtx :: "faults option"
  im_bundle :: "(strictio_error, dir_root) result"
  im_bundleRecords :: "(strictio_error, dir_root) result"
  im_bundleAfter :: "(strictio_error, dir_root) result"
  im_reportDec :: "bytes \<Rightarrow> VerificationReport option"
  im_written :: "(strictio_error, dir_root) result"

datatype import_error =
    ImTempDB workspace_error
  | ImBundleRequired
  | ImOutputRequired
  | ImScheme string
  | ImTarget target_error
  | ImInside path_error
  | ImAtomic atomic_error
  | ImMkdir
  | ImOpen
  | ImScan "direct_error bundle_error"
  | ImFlush direct_error
  | ImFinalize finalize_error
  | ImStateMismatch
  | ImPublish publish_error
  | ImAbort atomic_error

definition validateImportOptions :: "ImportOptions \<Rightarrow> (import_error, unit) result" where
  "validateImportOptions opts =
     (if io_Bundle opts = [] then Inl ImBundleRequired
      else if io_Output opts = [] then Inl ImOutputRequired
      else if io_Scheme opts \<noteq> HashScheme \<and> io_Scheme opts \<noteq> PathScheme then Inl (ImScheme (io_Scheme opts))
      else bindR (mapErr ImTarget (targetOptions (io_DBEngine opts) (io_Scheme opts))) (\<lambda>_. Inr ()))"

text \<open>From the opened, empty database to the verified one.\<close>

definition import_state ::
  "geth_env \<Rightarrow> import_world \<Rightarrow> ImportOptions \<Rightarrow> targetConfig \<Rightarrow> (import_error, BundleResult \<times> kv list) result" where
  "import_state env world opts target =
     (if im_openErr world then Inl ImOpen
      else
        bindR (mapErr ImScan (scanBundle env (im_manifestDec world) (im_scanCtx world) (im_bundle world) (im_bundleRecords world)
                 (im_bundleAfter world) (Some (direct_visitor (im_lib world) (im_writer world)))
                 (Some (direct_TrieNode (im_lib world) (im_writer world)))
                 (newDirectStateWriter (im_writer world) [] (io_Scheme opts)))) (\<lambda>(bundleResult, sink).
        case direct_CloseContext (im_writer world) (im_flushCanceled world) sink of
          (Some e, _) \<Rightarrow> Inl (ImFlush e)
        | (None, sink1) \<Rightarrow>
            bindR (mapErr ImFinalize (finalizeAndVerifyTarget env (im_finalize world) (io_Scheme opts) target
                     (Source (br_Manifest bundleResult)) (br_State bundleResult) (dw_db sink1))) (\<lambda>(dbState, db).
              if dbState \<noteq> br_State bundleResult then Inl ImStateMismatch else Inr (bundleResult, db))))"

definition import_into ::
  "geth_env \<Rightarrow> import_world \<Rightarrow> ImportOptions \<Rightarrow> targetConfig \<Rightarrow> atomicDir \<Rightarrow> tree \<Rightarrow>
   (import_error, VerificationReport \<times> kv list) result \<times> atomicDir \<times> tree" where
  "import_into env world opts target output t =
     (if im_mkdirErr world then (Inl ImMkdir, output, t)
      else
        let t1 = t(ad_temp output @ [artifactDatabaseDirName] \<mapsto> 0) in
        case import_state env world opts target of
          Inl e \<Rightarrow> (Inl e, output, t1)
        | Inr (bundleResult, db) \<Rightarrow>
            let report = (newVerificationReport (im_info world) bundleResult (io_Scheme opts))
                           \<lparr>vr_DBEngine := tc_engine target, vr_StateLayout := tc_layout target\<rparr> in
            (case publishImportedArtifact (im_publish world) (loadVerificationReport (im_reportDec world) (im_written world))
                    report output t1 of
               (Some e, output', t2) \<Rightarrow> (Inl (ImPublish e), output', t2)
             | (None, output', t2) \<Rightarrow> (Inr (report, db), output', t2)))"

definition import_prepare :: "import_world \<Rightarrow> ImportOptions \<Rightarrow> (import_error, targetConfig) result" where
  "import_prepare world opts =
     bindR (mapErr ImTempDB (tempdb_validate (io_TempDB opts))) (\<lambda>_.
     bindR (validateImportOptions opts) (\<lambda>_.
     bindR (mapErr ImTarget (targetOptions (io_DBEngine opts) (io_Scheme opts))) (\<lambda>target.
       case rejectOutputInsideDirectory (im_fs world) (io_Bundle opts) (io_Output opts) of
         Some e \<Rightarrow> Inl (ImInside e)
       | None \<Rightarrow> Inr target)))"

definition Import ::
  "geth_env \<Rightarrow> import_world \<Rightarrow> ImportOptions \<Rightarrow> tree \<Rightarrow> (import_error, VerificationReport \<times> kv list) result \<times> tree" where
  "Import env world opts t =
     (let pw = im_publish world in
      case import_prepare world opts of
        Inl e \<Rightarrow> (Inl e, t)
      | Inr target \<Rightarrow>
          (case newAtomicDirWithOps (im_fs world) (pb_atomic pw) \<lparr>op_rename = Some (pb_rename pw), op_syncDir = Some (pb_syncDir pw)\<rparr>
                  (io_Output opts) t of
             (Inl e, t1) \<Rightarrow> (Inl (ImAtomic e), t1)
           | (Inr output, t1) \<Rightarrow>
               (case import_into env world opts target output t1 of
                  (r, output', t2) \<Rightarrow>
                    (case Abort (pb_atomic pw) output' t2 of
                       (Some e, t3) \<Rightarrow> (case r of Inl e' \<Rightarrow> Inl e' | Inr _ \<Rightarrow> Inl (ImAbort e), t3)
                     | (None, t3) \<Rightarrow> (r, t3)))))"

section \<open>All or nothing\<close>

text \<open>Trees that agree outside a directory.\<close>

definition same_outside :: "path \<Rightarrow> tree \<Rightarrow> tree \<Rightarrow> bool" where
  "same_outside dir t t' \<longleftrightarrow> (\<forall>q. \<not> prefix dir q \<longrightarrow> t' q = t q)"

lemma same_outside_refl [simp]: "same_outside dir t t"
  by (simp add: same_outside_def)

lemma same_outside_trans: "same_outside dir t t1 \<Longrightarrow> same_outside dir t1 t2 \<Longrightarrow> same_outside dir t t2"
  by (simp add: same_outside_def)

lemma same_outside_upd [simp]: "same_outside dir t (t(dir @ p \<mapsto> x))"
  by (auto simp: same_outside_def)

lemma write_report_tree:
  assumes "write_report validate world report dir t = (err, t')"
  shows "same_outside dir t t'" "err = None \<Longrightarrow> t' = t(dir @ [VerificationFileName] \<mapsto> 0) \<and> validate report = Inr ()"
    "err \<noteq> Some (PubCommit e)"
  using assms by (auto simp: write_report_def Let_def split: sum.splits if_splits)

lemma publish_cases:
  assumes "no_replace (pb_rename world)" and "publishImportedArtifact world loaded report d t = (err, d', t')"
  shows "(d' = d \<and> err \<noteq> None \<and> same_outside (ad_temp d) t t' \<and> (\<forall>p. err \<noteq> Some (PubCommit (AtomicDurability p)))) \<or>
    (ad_committed d' \<and> (err = None \<or> err = Some (PubCommit (AtomicDurability (ad_final d)))) \<and>
       loaded = Inr report \<and> VerificationReport_Validate report = Inr () \<and> t (ad_final d) = None \<and>
       t' = moved (ad_temp d) (ad_final d) (t(ad_temp d @ [VerificationFileName] \<mapsto> 0)))"
proof -
  obtain werr t1 where w: "writeVerificationReport world report (ad_temp d) t = (werr, t1)" by fastforce
  note wt = write_report_tree [OF w [unfolded writeVerificationReport_def]]
  note pub = assms(2) [unfolded publishImportedArtifact_def publishArtifact_def artifactReportCodec.select_convs w]
  show ?thesis
  proof (cases "pb_canceled world 0 \<or> werr \<noteq> None \<or> loaded \<noteq> Inr report \<or> pb_canceled world 1 \<or> pb_canceled world 2")
    case True
    with pub wt(1,3) show ?thesis by (auto split: if_splits option.splits sum.splits prod.splits)
  next
    case False
    obtain cerr d1 t2 where c: "Commit (pb_atomic world) (pb_rename world) (pb_syncDir world) d t1 = (cerr, d1, t2)" by (rule prod_cases3)
    from False pub c have res: "err = map_option PubCommit cerr" "d' = d1" "t' = t2" by (auto split: option.splits)
    from False wt(2) have t1: "t1 = t(ad_temp d @ [VerificationFileName] \<mapsto> 0)" "VerificationReport_Validate report = Inr ()" by auto
    from Commit_cases [OF assms(1) c] consider
      (kept) "d1 = d" "t2 = t1" "cerr \<noteq> None" "\<forall>p. cerr \<noteq> Some (AtomicDurability p)"
    | (published) "d1 = d\<lparr>ad_committed := True\<rparr>" "t1 (ad_final d) = None" "t2 = moved (ad_temp d) (ad_final d) t1"
        "cerr = None \<or> cerr = Some (AtomicDurability (ad_final d))" by (elim disjE conjE) simp_all
    then show ?thesis
    proof cases
      case kept
      with res wt(1) show ?thesis by auto
    next
      case published
      from published(2) t1(1) have "t (ad_final d) = None" by (auto split: if_splits)
      with published res t1 False show ?thesis by auto
    qed
  qed
qed

definition durability_only :: "(import_error, 'a) result \<Rightarrow> path \<Rightarrow> bool" where
  "durability_only r p \<longleftrightarrow> r = Inl (ImPublish (PubCommit (AtomicDurability p)))"

lemma import_state_error: "import_state env world opts target \<noteq> Inl (ImPublish e)"
  by (auto simp: import_state_def bindR_def mapErr_def split: sum.splits option.splits prod.splits)

lemma import_into_cases:
  assumes "no_replace (pb_rename (im_publish world))" and "import_into env world opts target d t = (r, d', t')"
  shows "(d' = d \<and> \<not> isOk r \<and> (\<forall>p. \<not> durability_only r p) \<and> same_outside (ad_temp d) t t') \<or>
    (\<exists>res db report. ad_committed d' \<and> (r = Inr (report, db) \<or> durability_only r (ad_final d)) \<and>
       import_state env world opts target = Inr (res, db) \<and>
       report = (newVerificationReport (im_info world) res (io_Scheme opts))
         \<lparr>vr_DBEngine := tc_engine target, vr_StateLayout := tc_layout target\<rparr> \<and>
       loadVerificationReport (im_reportDec world) (im_written world) = Inr report \<and> VerificationReport_Validate report = Inr () \<and>
       t (ad_final d) = None \<and>
       t' = moved (ad_temp d) (ad_final d)
         (t(ad_temp d @ [artifactDatabaseDirName] \<mapsto> 0, ad_temp d @ [VerificationFileName] \<mapsto> 0)))"
proof -
  let ?t1 = "t(ad_temp d @ [artifactDatabaseDirName] \<mapsto> 0)"
  show ?thesis
  proof (cases "im_mkdirErr world \<or> \<not> isOk (import_state env world opts target)")
    case True
    with assms(2) import_state_error [of env world opts target] show ?thesis
      by (auto simp: import_into_def durability_only_def Let_def split: if_splits sum.splits prod.splits)
  next
    case False
    then obtain res db where st: "import_state env world opts target = Inr (res, db)" and mk: "\<not> im_mkdirErr world"
      by (auto simp: isOk_iff)
    let ?report = "(newVerificationReport (im_info world) res (io_Scheme opts))
         \<lparr>vr_DBEngine := tc_engine target, vr_StateLayout := tc_layout target\<rparr>"
    obtain err d1 t2 where p: "publishImportedArtifact (im_publish world)
        (loadVerificationReport (im_reportDec world) (im_written world)) ?report d ?t1 = (err, d1, t2)" by (rule prod_cases3)
    from assms(2) mk st p have r: "d' = d1" "t' = t2" "r = (case err of None \<Rightarrow> Inr (?report, db) | Some e \<Rightarrow> Inl (ImPublish e))"
      by (auto simp: import_into_def Let_def split: option.splits)
    from publish_cases [OF assms(1) p] show ?thesis
    proof (elim disjE conjE)
      assume a: "d1 = d" "err \<noteq> None" "same_outside (ad_temp d) ?t1 t2" "\<forall>p. err \<noteq> Some (PubCommit (AtomicDurability p))"
      from same_outside_trans [OF same_outside_upd a(3)] a r show ?thesis by (auto simp: durability_only_def)
    next
      assume a: "ad_committed d1" "err = None" "loadVerificationReport (im_reportDec world) (im_written world) = Inr ?report"
        "VerificationReport_Validate ?report = Inr ()" "?t1 (ad_final d) = None"
        "t2 = moved (ad_temp d) (ad_final d) (?t1(ad_temp d @ [VerificationFileName] \<mapsto> 0))"
      from a(5) have "t (ad_final d) = None" by (auto split: if_splits)
      with a r st show ?thesis by auto
    next
      assume a: "ad_committed d1" "err = Some (PubCommit (AtomicDurability (ad_final d)))"
        "loadVerificationReport (im_reportDec world) (im_written world) = Inr ?report"
        "VerificationReport_Validate ?report = Inr ()" "?t1 (ad_final d) = None"
        "t2 = moved (ad_temp d) (ad_final d) (?t1(ad_temp d @ [VerificationFileName] \<mapsto> 0))"
      from a(5) have "t (ad_final d) = None" by (auto split: if_splits)
      with a r st show ?thesis by (auto simp: durability_only_def)
    qed
  qed
qed

lemma Abort_committed: "ad_committed d \<Longrightarrow> Abort world d t = (None, t)"
  by (simp add: Abort_def)

lemma Abort_outside:
  assumes "Abort world d t = (err, t')"
  shows "same_outside (ad_temp d) t t'"
  using assms by (auto simp: Abort_def RemoveAll_def same_outside_def split: if_splits)

lemma Import_cases:
  assumes run: "Import env world opts t = (r, t')" and prep: "import_prepare world opts = Inr target"
    and new: "newAtomicDirWithOps (im_fs world) (pb_atomic (im_publish world))
      \<lparr>op_rename = Some (pb_rename (im_publish world)), op_syncDir = Some (pb_syncDir (im_publish world))\<rparr> (io_Output opts) t = (Inr d, t1)"
    and nr: "no_replace (pb_rename (im_publish world))"
  shows "(\<not> isOk r \<and> same_outside (ad_temp d) t1 t') \<or>
    (\<exists>res db report. (r = Inr (report, db) \<or> durability_only r (ad_final d)) \<and>
       import_state env world opts target = Inr (res, db) \<and>
       report = (newVerificationReport (im_info world) res (io_Scheme opts))
         \<lparr>vr_DBEngine := tc_engine target, vr_StateLayout := tc_layout target\<rparr> \<and>
       loadVerificationReport (im_reportDec world) (im_written world) = Inr report \<and> VerificationReport_Validate report = Inr () \<and>
       t1 (ad_final d) = None \<and>
       t' = moved (ad_temp d) (ad_final d)
         (t1(ad_temp d @ [artifactDatabaseDirName] \<mapsto> 0, ad_temp d @ [VerificationFileName] \<mapsto> 0)))"
proof -
  obtain r0 d' t2 where into: "import_into env world opts target d t1 = (r0, d', t2)" by (rule prod_cases3)
  obtain aerr t3 where ab: "Abort (pb_atomic (im_publish world)) d' t2 = (aerr, t3)" by fastforce
  from run prep new into ab have res: "t' = t3"
    "r = (case aerr of None \<Rightarrow> r0 | Some e \<Rightarrow> (case r0 of Inl e' \<Rightarrow> Inl e' | Inr _ \<Rightarrow> Inl (ImAbort e)))"
    by (auto simp: Import_def Let_def split: option.splits)
  from import_into_cases [OF nr into] show ?thesis
  proof
    assume a: "d' = d \<and> \<not> isOk r0 \<and> (\<forall>p. \<not> durability_only r0 p) \<and> same_outside (ad_temp d) t1 t2"
    from a Abort_outside [OF ab] have "same_outside (ad_temp d) t1 t3" by (auto intro: same_outside_trans)
    with a res show ?thesis by (auto split: option.splits sum.splits)
  next
    assume b: "\<exists>res db report. ad_committed d' \<and> (r0 = Inr (report, db) \<or> durability_only r0 (ad_final d)) \<and>
       import_state env world opts target = Inr (res, db) \<and>
       report = (newVerificationReport (im_info world) res (io_Scheme opts))
         \<lparr>vr_DBEngine := tc_engine target, vr_StateLayout := tc_layout target\<rparr> \<and>
       loadVerificationReport (im_reportDec world) (im_written world) = Inr report \<and> VerificationReport_Validate report = Inr () \<and>
       t1 (ad_final d) = None \<and>
       t2 = moved (ad_temp d) (ad_final d)
         (t1(ad_temp d @ [artifactDatabaseDirName] \<mapsto> 0, ad_temp d @ [VerificationFileName] \<mapsto> 0))"
    then have "ad_committed d'" by blast
    from Abort_committed [OF this] ab res have "r = r0" "t' = t2" by auto
    with b show ?thesis by blast
  qed
qed

lemma moved_below: "moved src dst t (dst @ q) = t (src @ q)"
  by (simp add: moved_def)

lemma import_state_ok:
  assumes "import_state env world opts target = Inr (res, db)"
    and "env_ok env" "target_ok (fz_reopen (im_finalize world) db)"
  shows "(\<exists>sink. scanBundle env (im_manifestDec world) (im_scanCtx world) (im_bundle world) (im_bundleRecords world)
       (im_bundleAfter world) (Some (direct_visitor (im_lib world) (im_writer world)))
       (Some (direct_TrieNode (im_lib world) (im_writer world)))
       (newDirectStateWriter (im_writer world) [] (io_Scheme opts)) = Inr (res, sink)) \<and>
    target_certified env (fz_reopen (im_finalize world) db) (io_Scheme opts) (Source (br_Manifest res)) (br_State res) []"
proof -
  from assms(1) obtain res0 sink where
    scan: "scanBundle env (im_manifestDec world) (im_scanCtx world) (im_bundle world) (im_bundleRecords world)
       (im_bundleAfter world) (Some (direct_visitor (im_lib world) (im_writer world)))
       (Some (direct_TrieNode (im_lib world) (im_writer world)))
       (newDirectStateWriter (im_writer world) [] (io_Scheme opts)) = Inr (res0, sink)"
    and rest: "(case direct_CloseContext (im_writer world) (im_flushCanceled world) sink of
        (Some e, _) \<Rightarrow> Inl (ImFlush e)
      | (None, sink1) \<Rightarrow>
          bindR (mapErr ImFinalize (finalizeAndVerifyTarget env (im_finalize world) (io_Scheme opts) target
                   (Source (br_Manifest res0)) (br_State res0) (dw_db sink1))) (\<lambda>(dbState, db).
            if dbState \<noteq> br_State res0 then Inl ImStateMismatch else Inr (res0, db))) = Inr (res, db)"
    by (auto simp: import_state_def bindR_eq_Inr mapErr_eq_Inr split: if_splits)
  obtain err sink1 where close: "direct_CloseContext (im_writer world) (im_flushCanceled world) sink = (err, sink1)" by fastforce
  from rest close have "err = None" by (cases err) auto
  with rest close have res: "res0 = res" and fin: "finalizeAndVerifyTarget env (im_finalize world) (io_Scheme opts) target
      (Source (br_Manifest res)) (br_State res) (dw_db sink1) = Inr (br_State res, db)"
    by (auto simp: bindR_eq_Inr mapErr_eq_Inr split: if_splits)
  from fin verifyTargetDatabase_ok(2) [OF _ assms(2,3)]
  have "target_certified env (fz_reopen (im_finalize world) db) (io_Scheme opts) (Source (br_Manifest res)) (br_State res) []"
    by (auto simp: finalizeAndVerifyTarget_def bindR_eq_Inr mapErr_eq_Inr)
  with scan res show ?thesis by blast
qed

section \<open>Properties\<close>

text \<open>
  Property C15. Importing publishes everything or nothing. Once the temporary directory exists,
  an import either fails and has changed nothing outside that directory; or the complete
  directory, database and report, is at the final path, where nothing was before, and the only
  error it may still report is that the durability of the publication is unknown.
\<close>

theorem import_all_or_nothing:
  assumes "Import env world opts t = (r, t')" and "import_prepare world opts = Inr target"
    and "newAtomicDirWithOps (im_fs world) (pb_atomic (im_publish world))
      \<lparr>op_rename = Some (pb_rename (im_publish world)), op_syncDir = Some (pb_syncDir (im_publish world))\<rparr> (io_Output opts) t = (Inr d, t1)"
    and "no_replace (pb_rename (im_publish world))"
  shows "(\<not> isOk r \<and> same_outside (ad_temp d) t1 t') \<or>
    ((isOk r \<or> durability_only r (ad_final d)) \<and> t1 (ad_final d) = None \<and>
     t' (ad_final d @ [artifactDatabaseDirName]) = Some 0 \<and> t' (ad_final d @ [VerificationFileName]) = Some 0)"
  using Import_cases [OF assms]
  by (auto simp: moved_below artifactDatabaseDirName_def VerificationFileName_def)

text \<open>
  Property C6. What an import publishes is certified: its report is valid, was read back from
  the artifact, and names the digest of the bundle's manifest; the bundle's record stream spells
  out a well-formed image with the reported root and counters, which the head's header commits
  to; and the reopened database is certified for this evidence, root and counters.
\<close>

theorem import_certifies:
  assumes "Import env world opts t = (Inr (report, db), t')" and "no_replace (pb_rename (im_publish world))"
    and "env_ok env" and "target_ok (fz_reopen (im_finalize world) db)"
    and "\<And>m. stream_bounded env m (im_bundleRecords world)"
  shows "\<exists>m data as hdr r e info.
     VerificationReport_Validate report = Inr () \<and>
     loadVerificationReport (im_reportDec world) (im_written world) = Inr report \<and>
     LoadManifest env (im_manifestDec world) (im_bundle world) = Inr (m, data) \<and> vr_ManifestSHA256 report = sha256 env data \<and>
     im_bundleRecords world = Inr r \<and> OpenRegular r (Name (m_StateFile m)) = Inr (e, info) \<and>
     stream_certified env m e (image_records env as) \<and> image_ok env as \<and>
     image_root env as = vr_RecomputedRoot report \<and> image_counts env as = vr_Counts report \<and>
     evidence_binds env (Source m) hdr \<and> HeadBefore (Source m) = vr_Head report \<and> h_Root hdr = vr_RecomputedRoot report \<and>
     vr_Scheme report = io_Scheme opts \<and>
     target_certified env (fz_reopen (im_finalize world) db) (io_Scheme opts) (Source m)
       \<lparr>st_Root = vr_RecomputedRoot report, st_Counts = vr_Counts report\<rparr> []"
proof -
  from assms(1) obtain target d t1 where "import_prepare world opts = Inr target"
    "newAtomicDirWithOps (im_fs world) (pb_atomic (im_publish world))
      \<lparr>op_rename = Some (pb_rename (im_publish world)), op_syncDir = Some (pb_syncDir (im_publish world))\<rparr> (io_Output opts) t = (Inr d, t1)"
    by (auto simp: Import_def Let_def split: sum.splits prod.splits)
  from Import_cases [OF assms(1) this assms(2)] obtain res where
    st: "import_state env world opts target = Inr (res, db)"
      "report = (newVerificationReport (im_info world) res (io_Scheme opts))
         \<lparr>vr_DBEngine := tc_engine target, vr_StateLayout := tc_layout target\<rparr>"
      "loadVerificationReport (im_reportDec world) (im_written world) = Inr report" "VerificationReport_Validate report = Inr ()"
    by (auto simp: durability_only_def)
  have eqs: "vr_RecomputedRoot report = st_Root (br_State res)" "vr_Counts report = st_Counts (br_State res)"
    "vr_Head report = HeadBefore (Source (br_Manifest res))" "vr_Scheme report = io_Scheme opts"
    "vr_ManifestSHA256 report = br_ManifestSHA256 res"
    unfolding st(2) by (simp_all add: newVerificationReport_def Let_def)
  from import_state_ok [OF st(1) assms(3,4)] obtain sink where
    scan: "scanBundle env (im_manifestDec world) (im_scanCtx world) (im_bundle world) (im_bundleRecords world)
       (im_bundleAfter world) (Some (direct_visitor (im_lib world) (im_writer world)))
       (Some (direct_TrieNode (im_lib world) (im_writer world)))
       (newDirectStateWriter (im_writer world) [] (io_Scheme opts)) = Inr (res, sink)"
    and tc: "target_certified env (fz_reopen (im_finalize world) db) (io_Scheme opts) (Source (br_Manifest res)) (br_State res) []" by blast
  note man = scanBundle_loaded [OF scan]
  from scanBundle_done [OF scan assms(5)] obtain as r e info hdr where
    b: "im_bundleRecords world = Inr r" "OpenRegular r (Name (m_StateFile (br_Manifest res))) = Inr (e, info)"
      "stream_certified env (br_Manifest res) e (image_records env as)" "image_ok env as"
      "image_root env as = StateRoot (HeadBefore (Source (br_Manifest res)))" "image_counts env as = m_Counts (br_Manifest res)"
      "br_State res = \<lparr>st_Root = StateRoot (HeadBefore (Source (br_Manifest res))), st_Counts = m_Counts (br_Manifest res)\<rparr>"
      "evidence_binds env (Source (br_Manifest res)) hdr" "h_Root hdr = image_root env as"
    unfolding Let_def by blast
  show ?thesis
    by (intro exI [of _ "br_Manifest res"] exI [of _ "br_ManifestBytes res"] exI [of _ as] exI [of _ hdr] exI [of _ r] exI [of _ e]
          exI [of _ info] conjI)
       (use st(3,4) man b(1-6,8,9) eqs tc in \<open>simp_all add: b(7) ManifestSHA256_def\<close>)
qed

end
