(* ===== verification/ImportWitnesses.thy ===== *)
theory ImportWitnesses
  imports ArtifactWitnesses ImportCmd
begin

text \<open>The import of a bundle of the empty state as a hash artifact, once completed and once failing.\<close>

section \<open>The world of the import\<close>

definition imp_head :: Head where
  "imp_head = \<lparr>BlockNumber = 17, BlockHash = demo_digest 40 2, StateRoot = demo_EmptyRoot\<rparr>"

definition imp_headerRLP :: bytes where
  "imp_headerRLP = [0, 0, 0, 0, 0, 0, 0, 17] @ demo_EmptyRoot"

definition imp_counts :: Counts where
  "imp_counts = \<lparr>Accounts = 0, StorageSlots = 0, CodeReferences = 0, CodeRecords = 0, Records = 0, PayloadBytes = 0\<rparr>"

definition imp_manifest :: Manifest where
  "imp_manifest = NewManifest 1 ''dev'' ''v1.17.6''
     \<lparr>HeadBefore = imp_head, HeadAfter = imp_head, HeaderRLP = imp_headerRLP\<rparr> imp_counts
     \<lparr>Name = RecordsFileRaw, Compression = CompressionNone, Size = int (length (streamMagic @ [recordEnd])), RecordPayloadBytes = 0,
      SHA256 = demo_hash (streamMagic @ [recordEnd]), RecordChainHash = initialChainHash demo_env imp_head imp_headerRLP\<rparr>"

definition imp_dir :: dir_root where
  "imp_dir =
     (let es = [demo_file 1 ManifestFileName [123, 125], demo_file 2 RecordsFileRaw (streamMagic @ [recordEnd])]
      in \<lparr>dr_inventory = Some es, dr_files = es, dr_closeErr = False\<rparr>)"

definition imp_fs :: fs_view where
  "imp_fs = \<lparr>fs_Abs = (\<lambda>s. Some [s]), fs_EvalAbs = (\<lambda>s. Inr [s]),
     fs_EvalSymlinks = (\<lambda>p. if p = [] then Inr [] else Inl NotExist),
     fs_Stat = (\<lambda>p. if p = [] then Inr \<lparr>fi_kind = KDir, fi_id = 0, fi_size = 0\<rparr>
        else if p = [''bundle''] then Inr \<lparr>fi_kind = KDir, fi_id = 1, fi_size = 0\<rparr> else Inl NotExist),
     fs_Lstat = (\<lambda>_. Inl NotExist)\<rparr>"

definition imp_rename :: "path \<Rightarrow> path \<Rightarrow> tree \<Rightarrow> rename_outcome \<times> tree" where
  "imp_rename src dst t = (if t dst = None then (RenameOk, moved src dst t) else (RenameExists, t))"

definition imp_publish :: publish_world where
  "imp_publish = \<lparr>pb_canceled = (\<lambda>_. False), pb_writeErr = False, pb_syncErr = False,
     pb_atomic = \<lparr>aw_lstatErr = (\<lambda>_. False), aw_mkdirErr = False, aw_evalParent = Some, aw_suffix = (\<lambda>_. Some ''1''),
       aw_removeErr = (\<lambda>_. False)\<rparr>,
     pb_rename = imp_rename, pb_syncDir = (\<lambda>_. False)\<rparr>"

definition imp_layout :: head_layout where
  "imp_layout = \<lparr>WriteHeader = (\<lambda>h. [(72 # demo_digest 40 2, be64 17), (104 # be64 17 @ demo_digest 40 2, imp_headerRLP)]),
     WriteCanonicalHash = (\<lambda>h n. [(104 # be64 n @ [110], h)]),
     WriteHeadBlockHash = (\<lambda>h. [(ascii ''LastBlock'', h)]),
     WriteHeadHeaderHash = (\<lambda>h. [(ascii ''LastHeader'', h)])\<rparr>"

definition imp_src :: state_source where
  "imp_src = \<lparr>src_accounts = Some ([], False), src_storage = (\<lambda>h root. None), src_readCode = (\<lambda>h. Some []),
     src_accountPolls = no_faults, src_storagePolls = (\<lambda>h. no_faults)\<rparr>"

definition imp_view :: target_view where
  "imp_view = \<lparr>rd_HeadBlockHash = demo_digest 40 2, rd_HeaderNumber = (\<lambda>h. Some 17),
     rd_CanonicalHash = (\<lambda>n. demo_digest 40 2), rd_HeaderRLP = (\<lambda>h n. imp_headerRLP),
     rd_HeadHeaderHash = demo_digest 40 2, rd_SnapshotRoot = zero_hash, rd_PersistentStateID = 0,
     rd_SnapSyncStatus = 0, rd_SnapshotCompleted = False, rd_Get = (\<lambda>_. None)\<rparr>"

definition imp_target :: "kv list \<Rightarrow> target_world" where
  "imp_target db = \<lparr>tw_lib = demo_lib, tw_head = imp_layout, tw_kinds = demo_kinds, tw_view = imp_view,
     tw_db = db, tw_accountsBreak = None, tw_storageBreak = None, tw_allBreak = None,
     tw_state = imp_src, tw_passed = [demo_EmptyRoot, demo_EmptyRoot], tw_nodeWorld = demo_nodes, tw_generator = None,
     tw_traverseCtx = no_faults, tw_flatCtx = no_faults, tw_inspectCtx = no_faults, tw_openErr = False,
     tw_trieCloseErr = False, tw_closeErr = False\<rparr>"

definition imp_finalize :: finalize_world where
  "imp_finalize = \<lparr>fz_adoptCanceled = False, fz_AdoptSyncedState = (\<lambda>_ _. None), fz_SnapshotCompleted = False,
     fz_trieCloseErr = False, fz_headCanceled = False, fz_headWriteErr = False, fz_closeCanceled = False, fz_SyncErr = False,
     fz_CloseErr = False, fz_openDirErr = False, fz_levelCtx = no_faults,
     fz_levelChunks = [([\<lparr>lf_regular = Some True, lf_syncErr = False\<rparr>], DirMore), ([], DirEOF)], fz_levelCloseErr = False,
     fz_dirSyncErr = False, fz_head = imp_layout, fz_reopen = imp_target\<rparr>"

definition imp_report :: VerificationReport where
  "imp_report = \<lparr>vr_Format = VerificationFormat, vr_Version = VerificationVersion, vr_VerifiedAt = (9, 0), vr_Verified = True,
     vr_Scheme = HashScheme, vr_DBEngine = DBEngineLevelDB, vr_StateLayout = LayoutGeth, vr_ToolVersion = ''dev'',
     vr_GethVersion = ''v1.17.6'', vr_ManifestSHA256 = demo_digest 2 125,
     vr_StateFileSHA256 = demo_hash (streamMagic @ [recordEnd]),
     vr_RecordChainHash = initialChainHash demo_env imp_head imp_headerRLP, vr_Head = imp_head, vr_Counts = imp_counts,
     vr_RecomputedRoot = demo_EmptyRoot\<rparr>"

definition imp_world :: "bool \<Rightarrow> import_world" where
  "imp_world failing = \<lparr>im_info = demo_info, im_fs = imp_fs, im_publish = imp_publish, im_finalize = imp_finalize,
     im_mkdirErr = False, im_openErr = failing, im_lib = demo_lib,
     im_writer = \<lparr>ww_opErr = no_faults, ww_writeErr = no_faults, ww_ValueSize = (\<lambda>ops. int (length ops)), ww_IdealBatchSize = 100\<rparr>,
     im_flushCanceled = False, im_manifestDec = (\<lambda>_. Some imp_manifest), im_scanCtx = Some no_faults,
     im_bundle = Inr imp_dir, im_bundleRecords = Inr imp_dir, im_bundleAfter = Inr imp_dir,
     im_reportDec = (\<lambda>_. Some imp_report), im_written = Inr demo_artifact\<rparr>"

definition imp_opts :: ImportOptions where
  "imp_opts = \<lparr>io_TempDB = [], io_Bundle = ''bundle'', io_Output = ''out'', io_Scheme = HashScheme, io_DBEngine = DBEngineLevelDB\<rparr>"

section \<open>The runs\<close>

definition imp_run :: "bool \<Rightarrow> (import_error, VerificationReport \<times> kv list) result \<times> tree" where
  "imp_run failing = Import demo_env (imp_world failing) imp_opts Map.empty"

lemma imp_run_ok:
  "case fst (imp_run False) of Inl _ \<Rightarrow> False | Inr (report, db) \<Rightarrow> report = imp_report \<and> ascending db"
  by code_simp

lemma imp_rename_ok: "no_replace imp_rename"
  by (auto simp: no_replace_def imp_rename_def split: if_splits)

lemma imp_world_simps:
  "im_publish (imp_world failing) = imp_publish" "pb_rename imp_publish = imp_rename"
  "fz_reopen (im_finalize (imp_world failing)) = imp_target" "im_bundleRecords (imp_world failing) = Inr imp_dir"
  "im_fs (imp_world failing) = imp_fs"
  by (simp_all add: imp_world_def imp_publish_def imp_finalize_def)

lemma imp_target_ok: "ascending db \<Longrightarrow> target_ok (imp_target db)"
  by (simp add: target_ok_def imp_target_def batch_len_ok_def demo_nodes_def src_sized_def imp_src_def go_slice_def)

lemma imp_bounded: "stream_bounded demo_env m (Inr imp_dir)"
  by (auto simp: stream_bounded_def stream_of_def uses_zstd_def OpenRegular_def imp_dir_def find_entry_def demo_file_def
        Let_def demo_env_def streamMagic_def ascii_def split: if_splits)

theorem import_certifies_witness:
  "\<exists>db. fst (imp_run False) = Inr (imp_report, db) \<and>
     target_certified demo_env (imp_target db) HashScheme (Source imp_manifest)
       \<lparr>st_Root = demo_EmptyRoot, st_Counts = imp_counts\<rparr> []"
proof -
  from imp_run_ok obtain db where db: "fst (imp_run False) = Inr (imp_report, db)" "ascending db"
    by (auto split: sum.splits)
  then have run: "Import demo_env (imp_world False) imp_opts Map.empty = (Inr (imp_report, db), snd (imp_run False))"
    by (simp add: imp_run_def prod_eq_iff)
  have hyp: "no_replace (pb_rename (im_publish (imp_world False)))" "target_ok (fz_reopen (im_finalize (imp_world False)) db)"
    "\<And>m. stream_bounded demo_env m (im_bundleRecords (imp_world False))"
    using db(2) by (simp_all add: imp_world_simps imp_rename_ok imp_target_ok imp_bounded)
  from import_certifies [OF run hyp(1) demo_env_ok hyp(2,3)] obtain m data where
    m: "LoadManifest demo_env (im_manifestDec (imp_world False)) (im_bundle (imp_world False)) = Inr (m, data)"
    and tc: "target_certified demo_env (fz_reopen (im_finalize (imp_world False)) db) (io_Scheme imp_opts) (Source m)
       \<lparr>st_Root = vr_RecomputedRoot imp_report, st_Counts = vr_Counts imp_report\<rparr> []" by blast
  from m have "m = imp_manifest"
    by (auto simp: LoadManifest_def imp_world_def bindR_eq_Inr mapErr_eq_Inr split: if_splits)
  with tc db(1) show ?thesis by (auto simp: imp_world_simps imp_opts_def imp_report_def)
qed

definition imp_prepared :: "(atomic_error, atomicDir) result \<times> tree" where
  "imp_prepared = newAtomicDirWithOps imp_fs (pb_atomic imp_publish)
     \<lparr>op_rename = Some (pb_rename imp_publish), op_syncDir = Some (pb_syncDir imp_publish)\<rparr> (io_Output imp_opts) Map.empty"

lemma imp_prepared_ok: "isOk (fst imp_prepared)" "isOk (import_prepare (imp_world True) imp_opts)"
  "isOk (import_prepare (imp_world False) imp_opts)" "\<not> isOk (fst (imp_run True))" "\<not> durability_only (fst (imp_run True)) [''out'']"
  by code_simp+

theorem import_all_or_nothing_witness:
  "same_outside (ad_temp (projr (fst imp_prepared))) (snd imp_prepared) (snd (imp_run True)) \<and>
   snd (imp_run False) (ad_final (projr (fst imp_prepared)) @ [VerificationFileName]) = Some 0"
proof -
  let ?d = "projr (fst imp_prepared)"
  have new: "newAtomicDirWithOps (im_fs (imp_world f)) (pb_atomic (im_publish (imp_world f)))
      \<lparr>op_rename = Some (pb_rename (im_publish (imp_world f))), op_syncDir = Some (pb_syncDir (im_publish (imp_world f)))\<rparr>
      (io_Output imp_opts) Map.empty = (Inr ?d, snd imp_prepared)" for f
    using isOk_projr [OF imp_prepared_ok(1)] by (simp add: imp_world_simps imp_prepared_def prod_eq_iff)
  have run: "Import demo_env (imp_world f) imp_opts Map.empty = (fst (imp_run f), snd (imp_run f))" for f
    by (simp add: imp_run_def)
  have nr: "no_replace (pb_rename (im_publish (imp_world f)))" for f by (simp add: imp_world_simps imp_rename_ok)
  note all = import_all_or_nothing [OF run _ new nr]
  from imp_run_ok have "isOk (fst (imp_run False))" by (auto split: sum.splits)
  with all [OF isOk_projr [OF imp_prepared_ok(3)]]
  have "snd (imp_run False) (ad_final ?d @ [VerificationFileName]) = Some 0" by blast
  moreover have "ad_final ?d = [''out'']" by code_simp
  with all [OF isOk_projr [OF imp_prepared_ok(2)]] imp_prepared_ok(4,5)
  have "same_outside (ad_temp ?d) (snd imp_prepared) (snd (imp_run True))" by auto
  ultimately show ?thesis by blast
qed

end
