(* ===== verification/Spec2Isabelle.thy ===== *)
theory Spec2Isabelle
  imports Witnesses PruneWitnesses OvmWitnesses ImportWitnesses
begin

text \<open>
  A verification development for \<^verbatim>\<open>l2state\<close>, the migration tool of the Metis layer 2 client. All
  paths below are under \<^verbatim>\<open>src/\<close>.

  \<^bold>\<open>The program.\<close> It moves the state of a legacy \<^verbatim>\<open>l2geth\<close> database into a database of a current
  client, and proves at every step that it is the same state. \<^emph>\<open>Export\<close> traverses the state of
  the head of a LevelDB database and writes a \<^emph>\<open>bundle\<close>: a manifest and one stream of account,
  storage and code records, bound by a hash chain to the head. \<^emph>\<open>Import\<close> scans a bundle, rebuilds
  all tries, writes them in the hash or the path scheme, verifies the result and publishes it
  atomically. \<^emph>\<open>Verify\<close> recomputes everything a bundle, or an artifact and the bundle or database
  it came from, claims. \<^emph>\<open>Prune\<close> deletes unreferenced trie nodes from a legacy database in place.
  The \<^emph>\<open>OVM conversion\<close> turns the balances of the token contract that held the native currency
  into native balances. Everything but the command line is in \<^verbatim>\<open>internal/bundle\<close>,
  \<^verbatim>\<open>internal/strictio\<close> and \<^verbatim>\<open>internal/migration\<close>.

  \<^bold>\<open>Conventions.\<close> Structs are records, enumerations datatypes, \<^verbatim>\<open>uint64\<close> is \<open>64 word\<close> and wraps as
  in Go, byte slices are lists of \<open>8 word\<close>. A function that returns an error has a sum, with every
  error path as a value of an error datatype; functions that keep state take and return it. Joined
  errors are represented by the first one. What the outside world answers, a poll of the context, a
  failing write, a file that was replaced, an iterator that breaks off, is an argument: a record
  of the world or a function from the number of the call to a fault, so the theorems hold for
  every pattern of failures. Goroutines are step relations or arbitrary schedules. A key-value
  database is the ascending list of entries its iterator returns. The functions of go-ethereum
  (RLP, Keccak, stack tries, key prefixes) and of zstd are fields of records (theory \<open>Geth\<close>,
  \<open>artifact_keys\<close>, \<open>head_layout\<close>, \<open>entry_kinds\<close>); what a property relies on of them is a named
  predicate (\<open>env_ok\<close>, \<open>stack_ok\<close>, \<open>zstd_ok\<close>, \<open>no_replace\<close>, \<open>batch_len_ok\<close>), and theory \<open>Demo\<close>
  gives executable functions that satisfy all of them.

  \<^bold>\<open>Foundations.\<close>
  \<^item> \<open>Prelude\<close>: bytes, words, big-endian codes, the byte order, results, ordered stores and batches,
    the collections of simplification rules. \<open>GoStd\<close>: the string functions of Go's library.
  \<^item> \<open>Geth\<close>: the types and parameters that stand for go-ethereum.
  \<^item> \<open>Framing\<close> (locale \<open>prefix_code\<close>): length-prefixed frames are uniquely decodable, interpreted on
    the digest frames of prune and OVM history and, in \<open>RecordRoundtrip\<close>, on the record encoding.
  \<^item> \<open>HashSet\<close>, \<open>DbKeys\<close>, \<open>Workers\<close> (\<^verbatim>\<open>hashset.go\<close>, \<^verbatim>\<open>dbkeys.go\<close>, \<^verbatim>\<open>partition_execution.go\<close>): sets of
    seen hashes (locale \<open>fresh_set\<close>), first-error latches (locale \<open>first_error\<close>), prefix ranges, the
    lease protocol that bounds the workers, as a step relation with an invariant.

  \<^bold>\<open>Bundles\<close> (\<^verbatim>\<open>internal/bundle\<close>, \<^verbatim>\<open>internal/strictio\<close>, \<^verbatim>\<open>bundle.go\<close>).
  \<^item> \<open>Counts\<close>, \<open>Account\<close>, \<open>Manifest\<close>: counters and their validation without overflow (locale
    \<open>tally\<close> for their sums in any order), slim accounts, evidence and manifests.
  \<^item> \<open>StrictIO\<close>: exact directory layouts and bounded reads of files that may be replaced meanwhile.
  \<^item> \<open>RecordWriter\<close>, \<open>RecordScanner\<close>, \<open>RecordRoundtrip\<close>, \<open>Stream\<close>: the stream writer with its chunked
    writes, the scanner with its re-encoder, and the round trip in both directions: a scan that
    succeeds certifies every byte, and what a writer closed scans back.
  \<^item> \<open>StateTrie\<close>, \<open>Consumer\<close>, \<open>StateImage\<close>, \<open>Bundle\<close>: the consumer of records, and the abstract
    specification it refines: a \<^emph>\<open>state image\<close>, a list of accounts with slots and codes. The consumer
    accepts exactly the records of well-formed images and computes their root and counters.

  \<^bold>\<open>State and export\<close> (\<^verbatim>\<open>state.go\<close>, \<^verbatim>\<open>state_trie.go\<close>, \<^verbatim>\<open>state_stream.go\<close>, \<^verbatim>\<open>legacy.go\<close>, \<^verbatim>\<open>export.go\<close>).
  \<open>Traversal\<close> shows that a successful traversal visited exactly one well-formed image under the
  requested root; \<open>Export\<close> composes it with the writer and the scan: an exported bundle scans back
  to the root of the source head.

  \<^bold>\<open>Artifacts\<close> (\<^verbatim>\<open>verify.go\<close>, \<^verbatim>\<open>direct_verify.go\<close>, \<^verbatim>\<open>import.go\<close> and the files they call).
  \<^item> \<open>DirectWriter\<close> (\<^verbatim>\<open>direct_writer.go\<close>): batches of state entries, atomic when deferred.
  \<^item> \<open>Paths\<close>, \<open>AtomicDir\<close>, \<open>Workspace\<close> (\<^verbatim>\<open>legacy.go\<close>, \<^verbatim>\<open>atomicdir.go\<close>, \<^verbatim>\<open>verify_workspace.go\<close>,
    \<^verbatim>\<open>tempdb.go\<close>): outputs never inside inputs, publication by a rename that does not replace.
  \<^item> \<open>NodeIndex\<close> (\<^verbatim>\<open>trienode_index.go\<close>; locale \<open>mark_counter\<close>): the count of reached trie nodes is exact.
  \<^item> \<open>Artifact\<close>, \<open>ArtifactExact\<close>: verification of an opened database, and what it establishes
    (\<open>target_certified\<close>): tries, flat state, codes and metadata of one image and nothing else.
  \<^item> \<open>Reports\<close>, \<open>VerifyCmd\<close>, \<open>ImportCmd\<close>: reports, the commands \<^verbatim>\<open>Verify\<close>, \<^verbatim>\<open>VerifyDirect\<close> and
    \<^verbatim>\<open>Import\<close>; an import publishes a certified artifact completely or changes nothing.

  \<^bold>\<open>Prune\<close> (\<^verbatim>\<open>prune*.go\<close>). \<open>PruneScan\<close> classifies records; \<open>PrunePipeline\<close> models the ring of slots and
  its workers under every interleaving (locale \<open>scan_classifier\<close>); \<open>PruneWalk\<close> shows that the walk is
  the plain loop over records with looked-up roles; \<open>PruneDelete\<close> scan, comparison and deletion;
  \<open>PruneKeep\<close> the recording of reads that makes the keep set; \<open>PruneFiles\<close> the database files and the
  lock; \<open>PruneRun\<close> the whole run: whatever fails, only garbage disappears.

  \<^bold>\<open>OVM conversion\<close> (\<^verbatim>\<open>ovm_*.go\<close>). \<open>OvmIndex\<close> (locale \<open>staged_store\<close>) and \<open>OvmCursor\<close> the evidence
  index and its cursor; \<open>OvmMerge\<close> the rebuilding of a trie under patches; \<open>OvmBalances\<close>, \<open>OvmAudit\<close>,
  \<open>OvmTransform\<close> the classification of storage, the application of balances, the audit and the
  phases of the conversion; \<open>OvmConserve\<close> the conservation of the supply.

  \<^bold>\<open>Witnesses.\<close> \<open>Witnesses\<close>, \<open>PruneWitnesses\<close>, \<open>OvmWitnesses\<close>, \<open>ArtifactWitnesses\<close> and
  \<open>ImportWitnesses\<close> apply the properties to concrete runs that are evaluated on \<open>Demo\<close>.

  \<^bold>\<open>Bounds and termination.\<close> All loops are structural recursions over the entries, records or paths
  they consume, or have a termination proof by the length of a path; there is no fuel. The
  properties assume that a stream, a list of leaves and a code are shorter than \<open>2 ^ 64\<close>
  (\<open>stream_bounded\<close>, \<open>src_sized\<close>, \<open>go_slice\<close>), which no Go program can exceed; counters are words and
  wrap where the code's do.

  \<^bold>\<open>Not modelled.\<close> Progress reporting and logging, which do not influence results. The partitioned
  traversal of direct migration (\<^verbatim>\<open>partition_accounts.go\<close>, \<^verbatim>\<open>partition_storage.go\<close>,
  \<^verbatim>\<open>migrate_partitioned.go\<close>), which joins sixteen stack tries at the level of encoded trie nodes and
  so needs more of go-ethereum than its interface; only its counters, leases and latches are
  covered. The readers of evidence files, genesis allocations, block bodies and receipts
  (\<^verbatim>\<open>ovm_input.go\<close> in part, \<^verbatim>\<open>ovm_alloc*.go\<close>, \<^verbatim>\<open>ovm_history*.go\<close>, \<^verbatim>\<open>ovm_receipts.go\<close>, \<^verbatim>\<open>ovm_ancient.go\<close>),
  which are streaming parsers over library formats, and the outer OVM commands that call them.
  Adapters of storage engines (\<^verbatim>\<open>internal/readonlydb\<close>, \<^verbatim>\<open>tempdb_pebble.go\<close>) and the system calls
  of the rename. JSON, RLP and database codecs are parameters throughout.
\<close>

end
